(* ===== verification/Prelude.thy ===== *)
theory Prelude
  imports Main "HOL-Library.Word"
begin

text \<open>
  Shared ground of the development: how undefined behaviour of C is made a value, the
  character classes and string routines of the C library that the daemon calls, decimal
  printing and scanning, and the generic lemmas on them.

  Conventions.
  \<^item> A C string is a \<^typ>\<open>string\<close> without the terminating zero byte; a pointer to
    one that may be NULL is a \<^typ>\<open>string option\<close>.
  \<^item> Undefined behaviour (a NULL read, a write past a buffer, a conversion out of
    range, \<dots>) is the left summand of \<open>'a c\<close>. A theorem that a routine returns
    \<open>Inr x\<close> says in particular that none of these happens.
  \<^item> The target is 32-bit ARM, the platform the README and the packages name: \<open>int\<close>,
    \<open>long\<close>, \<open>size_t\<close> and \<open>time_t\<close> have 32 bits. Signed values are \<^typ>\<open>int\<close> with the
    range written out, unsigned values that can wrap are \<^typ>\<open>32 word\<close>.
\<close>

section \<open>Collections of facts\<close>

named_theorems c_unfold \<open>unfolding of the small C-level definitions\<close>
named_theorems wf_intros \<open>well-formedness is kept by the operations\<close>

section \<open>Undefined behaviour as a value\<close>

datatype ub =
    NullDeref \<comment> \<open>a NULL pointer is read or passed to a string routine\<close>
  | BufferOverflow \<comment> \<open>a write past the end of an array or buffer\<close>
  | OutOfBounds \<comment> \<open>a read outside an array\<close>
  | UninitRead \<comment> \<open>an indeterminate value is used\<close>
  | DoubleFree
  | UseAfterFree
  | SignedOverflow
  | ConvOverflow \<comment> \<open>float to integer conversion out of range\<close>
  | StackOverflow \<comment> \<open>calls nested deeper than the stack allows\<close>

type_synonym 'a c = "ub + 'a"

definition cbind :: "'e + 'a \<Rightarrow> ('a \<Rightarrow> 'e + 'b) \<Rightarrow> 'e + 'b" where
  "cbind m f = (case m of Inl e \<Rightarrow> Inl e | Inr x \<Rightarrow> f x)"

text \<open>A computation that may wait for something outside the program: \<open>None\<close> when it waits forever.\<close>

type_synonym 'a waits = "'a c option"

definition wbind :: "'a waits \<Rightarrow> ('a \<Rightarrow> 'b waits) \<Rightarrow> 'b waits" where
  "wbind m f = (case m of None \<Rightarrow> None | Some (Inl e) \<Rightarrow> Some (Inl e) | Some (Inr x) \<Rightarrow> f x)"

text \<open>Reading through a pointer that may be NULL.\<close>

definition deref :: "'a option \<Rightarrow> 'a c" where
  "deref p = (case p of None \<Rightarrow> Inl NullDeref | Some x \<Rightarrow> Inr x)"

text \<open>A pointer to an object that may have been freed.\<close>

datatype 'a ptr = Null | Ptr 'a | Dangling

fun load :: "'a ptr \<Rightarrow> 'a c" where
  "load Null = Inl NullDeref"
| "load (Ptr x) = Inr x"
| "load Dangling = Inl UseAfterFree"

text \<open>\<open>free\<close> guarded by a test for NULL; the pointer keeps its stale value.\<close>

fun free_ptr :: "'a ptr \<Rightarrow> 'a ptr c" where
  "free_ptr Null = Inr Null"
| "free_ptr (Ptr x) = Inr Dangling"
| "free_ptr Dangling = Inl DoubleFree"

text \<open>Copying a string and its terminator into a buffer of \<open>n\<close> bytes.\<close>

definition strcpy :: "nat \<Rightarrow> string \<Rightarrow> string c" where
  "strcpy n s = (if length s < n then Inr s else Inl BufferOverflow)"

section \<open>Integers of the target\<close>

definition INT_MAX :: int where "INT_MAX = 2147483647"
definition INT_MIN :: int where "INT_MIN = -2147483648"

abbreviation is_i32 :: "int \<Rightarrow> bool" where
  "is_i32 x \<equiv> INT_MIN \<le> x \<and> x \<le> INT_MAX"

definition i32 :: "int \<Rightarrow> int c" where
  "i32 x = (if is_i32 x then Inr x else Inl SignedOverflow)"

text \<open>C's division and remainder round towards zero.\<close>

definition tdiv :: "int \<Rightarrow> int \<Rightarrow> int" where
  "tdiv a b = sgn a * sgn b * (\<bar>a\<bar> div \<bar>b\<bar>)"

definition tmod :: "int \<Rightarrow> int \<Rightarrow> int" where
  "tmod a b = a - b * tdiv a b"

section \<open>Characters and strings of the C library\<close>

definition code :: "char \<Rightarrow> nat" where "code c = of_char c"

definition isdigit :: "char \<Rightarrow> bool" where "isdigit c \<longleftrightarrow> 48 \<le> code c \<and> code c \<le> 57"
definition isupper :: "char \<Rightarrow> bool" where "isupper c \<longleftrightarrow> 65 \<le> code c \<and> code c \<le> 90"
definition isspace :: "char \<Rightarrow> bool" where
  "isspace c \<longleftrightarrow> code c = 32 \<or> (9 \<le> code c \<and> code c \<le> 13)"
definition tolower :: "char \<Rightarrow> char" where
  "tolower c = (if isupper c then char_of (code c + 32) else c)"

text \<open>
  \<open>strtok_r\<close>: skip delimiters, take the token, and leave the save pointer after the
  delimiter that ended it. The save pointer is the rest of the string.
\<close>

definition strtok :: "string \<Rightarrow> string \<Rightarrow> string option \<times> string" where
  "strtok delim s =
     (let s' = dropWhile (\<lambda>c. c \<in> set delim) s in
      if s' = [] then (None, [])
      else (Some (takeWhile (\<lambda>c. c \<notin> set delim) s'), drop 1 (dropWhile (\<lambda>c. c \<notin> set delim) s')))"

text \<open>\<open>strstr\<close>: the suffix at the first occurrence.\<close>

fun strstr :: "string \<Rightarrow> string \<Rightarrow> string option" where
  "strstr [] n = (if n = [] then Some [] else None)"
| "strstr (c # cs) n = (if take (length n) (c # cs) = n then Some (c # cs) else strstr cs n)"

text \<open>\<open>strchr\<close> for a character that is not the terminator.\<close>

definition strchr :: "string \<Rightarrow> char \<Rightarrow> bool" where
  "strchr s c \<longleftrightarrow> c \<in> set s"

section \<open>Decimal printing and scanning\<close>

definition digit_char :: "nat \<Rightarrow> char" where
  "digit_char d = (if d < 10 then ''0123456789'' ! d else CHR ''?'')"
definition digit_val :: "char \<Rightarrow> nat" where "digit_val c = code c - 48"

fun show_nat :: "nat \<Rightarrow> string" where
  "show_nat n = (if n < 10 then [digit_char n] else show_nat (n div 10) @ [digit_char (n mod 10)])"

declare show_nat.simps [simp del]

definition show_int :: "int \<Rightarrow> string" where
  "show_int i = (if i < 0 then CHR ''-'' # show_nat (nat (- i)) else show_nat (nat i))"

definition read_nat :: "string \<Rightarrow> nat" where
  "read_nat ds = foldl (\<lambda>a c. 10 * a + digit_val c) 0 ds"

text \<open>
  \<open>strtol (s, NULL, 10)\<close> on a 32-bit \<open>long\<close>. The second component says whether the
  call stored \<open>ERANGE\<close> in \<open>errno\<close>.
\<close>

definition strtol :: "string \<Rightarrow> int \<times> bool" where
  "strtol s =
     (let s1 = dropWhile isspace s;
          neg = (s1 \<noteq> [] \<and> hd s1 = CHR ''-'');
          s2 = (if s1 \<noteq> [] \<and> (hd s1 = CHR ''-'' \<or> hd s1 = CHR ''+'') then tl s1 else s1);
          v = int (read_nat (takeWhile isdigit s2));
          x = (if neg then - v else v)
      in if x > INT_MAX then (INT_MAX, True)
         else if x < INT_MIN then (INT_MIN, True) else (x, False))"

section \<open>Lemmas: undefined behaviour\<close>

lemma cbind_Inr [simp]: "cbind (Inr x) f = f x"
  by (simp add: cbind_def)

lemma cbind_Inl [simp]: "cbind (Inl e) f = Inl e"
  by (simp add: cbind_def)

lemma cbind_eq_Inr: "cbind m f = Inr y \<longleftrightarrow> (\<exists>x. m = Inr x \<and> f x = Inr y)"
  by (cases m) auto

lemma wbind_simps [simp]: "wbind None f = None" "wbind (Some (Inl e)) f = Some (Inl e)" "wbind (Some (Inr x)) f = f x"
  by (simp_all add: wbind_def)

lemma wbind_eq_Inr: "wbind m f = Some (Inr y) \<longleftrightarrow> (\<exists>x. m = Some (Inr x) \<and> f x = Some (Inr y))"
  by (auto simp: wbind_def split: option.split sum.split)

lemma wbind_returns: "m \<noteq> None \<Longrightarrow> (\<And>x. m = Some (Inr x) \<Longrightarrow> f x \<noteq> None) \<Longrightarrow> wbind m f \<noteq> None"
  by (auto simp: wbind_def split: option.split sum.split)

lemma cbind_eq_InrE [elim]:
  assumes "cbind m f = Inr y"
  obtains x where "m = Inr x" and "f x = Inr y"
  using assms by (auto simp: cbind_eq_Inr)

lemma cbind_cong [fundef_cong]:
  "m = m' \<Longrightarrow> (\<And>x. m' = Inr x \<Longrightarrow> f x = g x) \<Longrightarrow> cbind m f = cbind m' g"
  by (cases m') auto

lemma deref_simps [simp]: "deref None = Inl NullDeref" "deref (Some x) = Inr x"
  by (simp_all add: deref_def)

lemma deref_eq_Inr [simp]: "deref p = Inr x \<longleftrightarrow> p = Some x"
  by (cases p) auto

lemma strcpy_eq_Inr [simp]: "strcpy n s = Inr t \<longleftrightarrow> t = s \<and> length s < n"
  by (auto simp: strcpy_def)

lemma strcpy_ok [simp]: "length s < n \<Longrightarrow> strcpy n s = Inr s"
  by (simp add: strcpy_def)

lemma i32_eq_Inr [simp]: "i32 x = Inr y \<longleftrightarrow> y = x \<and> is_i32 x"
  by (auto simp: i32_def)

lemma i32_ok: "is_i32 x \<Longrightarrow> i32 x = Inr x"
  by (simp add: i32_def)

lemma tdiv_nonneg: "0 \<le> a \<Longrightarrow> 0 < b \<Longrightarrow> tdiv a b = a div b"
  by (cases "a = 0") (simp_all add: tdiv_def)

lemma tmod_nonneg: "0 \<le> a \<Longrightarrow> 0 < b \<Longrightarrow> tmod a b = a mod b"
  by (simp add: tmod_def tdiv_nonneg minus_mult_div_eq_mod)

text \<open>The two's complement reading of a 32-bit pattern.\<close>

lemma sint32_of_nat:
  assumes "k < 2 ^ 32"
  shows "sint (of_nat k :: 32 word) = (if k < 2 ^ 31 then int k else int k - 2 ^ 32)"
proof -
  have "int k < 2 ^ 32" using assms by simp
  then have "uint (of_nat k :: 32 word) = int k" by (simp add: unsigned_of_nat take_bit_nat_eq_self)
  then have s: "sint (of_nat k :: 32 word) = (int k + 2 ^ 31) mod 2 ^ 32 - 2 ^ 31"
    by (simp add: sint_uint signed_take_bit_eq_take_bit_shift take_bit_eq_mod)
  show ?thesis
  proof (cases "k < 2 ^ 31")
    case True
    then have "(int k + 2 ^ 31) mod 2 ^ 32 = int k + 2 ^ 31" by simp
    with s True show ?thesis by simp
  next
    case False
    then have "(int k + 2 ^ 31) mod 2 ^ 32 = int k + 2 ^ 31 - 2 ^ 32"
      using assms by (subst mod_pos_geq) (simp_all add: mod_pos_pos_trivial)
    with s False show ?thesis by simp
  qed
qed

section \<open>Lemmas: tokens and substrings\<close>

lemma strtok_tokenE:
  assumes "strtok delim s = (Some t, rest)"
  obtains "t \<noteq> []" "\<forall>c \<in> set t. c \<notin> set delim" "length t + length rest \<le> length s"
proof
  let ?s = "dropWhile (\<lambda>c. c \<in> set delim) s"
  from assms have ne: "?s \<noteq> []" and t: "t = takeWhile (\<lambda>c. c \<notin> set delim) ?s"
    and r: "rest = drop 1 (dropWhile (\<lambda>c. c \<notin> set delim) ?s)"
    by (auto simp: strtok_def Let_def split: if_splits)
  show "t \<noteq> []"
    using ne hd_dropWhile [OF ne] t by (cases ?s) auto
  show "\<forall>c \<in> set t. c \<notin> set delim"
    using t by (auto dest: set_takeWhileD)
  have "length t + length (dropWhile (\<lambda>c. c \<notin> set delim) ?s) = length ?s"
    unfolding t by (metis length_append takeWhile_dropWhile_id)
  then show "length t + length rest \<le> length s"
    using r length_dropWhile_le [of "\<lambda>c. c \<in> set delim" s] by simp
qed

lemma strtok_length: "strtok delim s = (Some t, rest) \<Longrightarrow> length rest < length s"
  by (erule strtok_tokenE) (cases t; simp)

lemma strtok_None: "strtok delim s = (None, rest) \<Longrightarrow> set s \<subseteq> set delim \<and> rest = []"
  by (auto simp: strtok_def Let_def split: if_splits)

lemma strtok_set: "strtok delim s = (Some t, rest) \<Longrightarrow> set t \<subseteq> set s \<and> set rest \<subseteq> set s"
  by (auto simp: strtok_def Let_def split: if_splits
      dest!: set_takeWhileD in_set_dropD set_dropWhileD)

text \<open>A token followed by a delimiter, and a token that ends the string.\<close>

lemma strtok_delim:
  assumes "t \<noteq> []" "\<forall>c \<in> set t. c \<notin> set delim" "d \<in> set delim"
  shows "strtok delim (t @ d # rest) = (Some t, rest)"
proof -
  obtain x xs where t: "t = x # xs" using assms(1) by (cases t) auto
  have "dropWhile (\<lambda>c. c \<in> set delim) (t @ d # rest) = t @ d # rest"
    using assms(2) by (simp add: t)
  moreover have "takeWhile (\<lambda>c. c \<notin> set delim) (t @ d # rest) = t"
    using assms(2,3) by simp
  moreover have "dropWhile (\<lambda>c. c \<notin> set delim) (t @ d # rest) = d # rest"
    using assms(2,3) by (simp add: dropWhile_append)
  ultimately show ?thesis using assms(1) by (simp add: strtok_def)
qed

lemma strtok_last:
  assumes "t \<noteq> []" "\<forall>c \<in> set t. c \<notin> set delim"
  shows "strtok delim t = (Some t, [])"
proof -
  have "dropWhile (\<lambda>c. c \<in> set delim) t = t"
    using assms by (cases t) auto
  moreover have "takeWhile (\<lambda>c. c \<notin> set delim) t = t" using assms(2) by simp
  moreover have "dropWhile (\<lambda>c. c \<notin> set delim) t = []" using assms(2) by simp
  ultimately show ?thesis using assms(1) by (simp only: strtok_def Let_def if_False) simp
qed

lemma strtok_skip: "d \<in> set delim \<Longrightarrow> strtok delim (d # s) = strtok delim s"
  by (simp add: strtok_def)

lemma strtok_Nil [simp]: "strtok delim [] = (None, [])"
  by (simp add: strtok_def)

lemma strstr_Some: "strstr s n = Some t \<Longrightarrow> \<exists>p. s = p @ t \<and> take (length n) t = n"
proof (induction s n rule: strstr.induct)
  case (2 c cs n)
  then show ?case
    by (auto split: if_splits intro: exI [where x = "[]"] exI [where x = "c # _"])
qed (auto split: if_splits)

lemma strstr_first: "strstr (p @ t) n \<noteq> None" if "take (length n) t = n"
  using that
proof (induction p)
  case Nil
  then show ?case by (cases t) auto
qed auto

section \<open>Lemmas: decimals\<close>

lemma less_ten_cases: "(d :: nat) < 10 \<Longrightarrow> d \<in> {0, 1, 2, 3, 4, 5, 6, 7, 8, 9}"
  by auto

lemma code_digit_char [simp]: "d < 10 \<Longrightarrow> code (digit_char d) = 48 + d"
  by (drule less_ten_cases) (auto simp: code_def digit_char_def)

lemma digit_val_char [simp]: "d < 10 \<Longrightarrow> digit_val (digit_char d) = d"
  by (simp add: digit_val_def)

lemma isdigit_digit_char [simp]: "d < 10 \<Longrightarrow> isdigit (digit_char d)"
  by (simp add: isdigit_def)

lemma show_nat_digits: "list_all isdigit (show_nat n)"
proof (induction n rule: show_nat.induct)
  case (1 n)
  then show ?case by (subst show_nat.simps) simp
qed

lemma show_nat_isdigit: "c \<in> set (show_nat n) \<Longrightarrow> isdigit c"
  using show_nat_digits [of n] by (simp add: list_all_iff)

lemma show_nat_nonempty [simp]: "show_nat n \<noteq> []"
  by (subst show_nat.simps) simp

lemma read_nat_snoc: "read_nat (ds @ [c]) = 10 * read_nat ds + digit_val c"
  by (simp add: read_nat_def)

lemma read_show_nat [simp]: "read_nat (show_nat n) = n"
proof (induction n rule: show_nat.induct)
  case (1 n)
  show ?case
  proof (cases "n < 10")
    case True
    then show ?thesis by (subst show_nat.simps) (simp add: read_nat_def)
  next
    case False
    with 1 show ?thesis
      by (subst show_nat.simps) (simp add: read_nat_snoc)
  qed
qed

lemma length_show_nat: "0 < k \<Longrightarrow> n < 10 ^ k \<Longrightarrow> length (show_nat n) \<le> k"
proof (induction n arbitrary: k rule: show_nat.induct)
  case (1 n)
  show ?case
  proof (cases "n < 10")
    case True
    with 1 show ?thesis by (subst show_nat.simps) simp
  next
    case False
    with "1.prems" obtain j where k: "k = Suc j" and "0 < j"
      by (cases k; cases "k - 1") auto
    with False "1.prems" have "length (show_nat (n div 10)) \<le> j"
      by (intro "1.IH") (auto simp: less_mult_imp_div_less mult.commute)
    with False k show ?thesis by (subst show_nat.simps) simp
  qed
qed

lemma length_show_int: "is_i32 i \<Longrightarrow> length (show_int i) \<le> 11"
  using length_show_nat [of 10 "nat i"] length_show_nat [of 10 "nat (- i)"]
  by (cases "i < 0") (auto simp: show_int_def INT_MAX_def INT_MIN_def nat_less_iff)

lemma takeWhile_isdigit_show: "takeWhile isdigit (show_nat n) = show_nat n"
  by (simp add: show_nat_isdigit)

lemma isdigit_simps:
  "isdigit c \<Longrightarrow> \<not> isspace c" "isdigit c \<Longrightarrow> c \<noteq> CHR ''-''" "isdigit c \<Longrightarrow> c \<noteq> CHR ''+''"
  by (auto simp: isdigit_def isspace_def code_def)

lemma hd_show_nat: "isdigit (hd (show_nat n))"
  by (rule show_nat_isdigit [of _ n]) simp

lemma strtol_show_int [simp]:
  assumes "is_i32 i"
  shows "strtol (show_int i) = (i, False)"
proof (cases "i < 0")
  case True
  have "\<not> isspace (CHR ''-'')" by (simp add: isspace_def code_def)
  with True assms show ?thesis
    by (simp add: strtol_def show_int_def takeWhile_isdigit_show)
next
  case False
  have "dropWhile isspace (show_nat (nat i)) = show_nat (nat i)"
    using hd_show_nat [of "nat i"] isdigit_simps(1) by (cases "show_nat (nat i)") auto
  moreover have "hd (show_nat (nat i)) \<noteq> CHR ''-''" "hd (show_nat (nat i)) \<noteq> CHR ''+''"
    using hd_show_nat isdigit_simps by blast+
  ultimately show ?thesis using False assms
    by (simp add: strtol_def show_int_def takeWhile_isdigit_show)
qed

lemma strtol_range: "is_i32 (fst (strtol s))"
  by (simp add: strtol_def Let_def INT_MAX_def INT_MIN_def)

end
