(* ===== verification/Ini.thy ===== *)
theory Ini
  imports Prelude
begin

text \<open>
  \<^verbatim>\<open>src/deps/ini.c\<close> with the settings of its header: multi-line values, byte order mark, inline
  comments after \<open>;\<close>, 200-byte lines on the stack; the build sets \<open>INI_STOP_ON_FIRST_ERROR\<close>
  (\<^verbatim>\<open>src/src/CMakeLists.txt\<close>). The stream is the text
  of the file, read by \<open>fgets\<close>; the handler is a function on the caller's state that returns zero
  for an error.
\<close>

definition INI_MAX_LINE :: nat where "INI_MAX_LINE = 200"
definition MAX_SECTION :: nat where "MAX_SECTION = 50"
definition MAX_NAME :: nat where "MAX_NAME = 50"
definition INI_INLINE_COMMENT_PREFIXES :: string where "INI_INLINE_COMMENT_PREFIXES = '';''"

definition rstrip :: "string \<Rightarrow> string" where
  "rstrip s = rev (dropWhile isspace (rev s))"

definition lskip :: "string \<Rightarrow> string" where
  "lskip s = dropWhile isspace s"

text \<open>The rest of the string from the place found; no stop characters when \<open>chars\<close> is NULL.\<close>

fun find_from :: "bool \<Rightarrow> string \<Rightarrow> string option \<Rightarrow> string" where
  "find_from was_space [] chars = []"
| "find_from was_space (c # cs) chars =
     (if (case chars of None \<Rightarrow> False | Some chs \<Rightarrow> strchr chs c)
         \<or> was_space \<and> strchr INI_INLINE_COMMENT_PREFIXES c
      then c # cs
      else find_from (isspace c) cs chars)"

definition find_chars_or_comment :: "string \<Rightarrow> string option \<Rightarrow> string" where
  "find_chars_or_comment s chars = find_from False s chars"

text \<open>The part of a string before the place found.\<close>

definition before :: "string \<Rightarrow> string \<Rightarrow> string" where
  "before s rest = take (length s - length rest) s"

definition strncpy0 :: "string \<Rightarrow> nat \<Rightarrow> string" where
  "strncpy0 src n = take (n - 1) src"

text \<open>
  \<open>fgets\<close>: at most \<open>n - 1\<close> characters, up to and with the next newline; \<open>None\<close> at the end of the
  file. A zero byte ends the line as the parser sees it.
\<close>

definition fgets :: "nat \<Rightarrow> string \<Rightarrow> (string \<times> string) option" where
  "fgets n stream =
     (if stream = [] then None
      else let upto = takeWhile (\<lambda>c. c \<noteq> CHR 0x0A) stream;
               k = min (n - 1) (length upto + 1)
           in Some (takeWhile (\<lambda>c. c \<noteq> CHR 0x00) (take k stream), drop k stream))"

definition BOM :: string where "BOM = [CHR 0xEF, CHR 0xBB, CHR 0xBF]"

text \<open>The parser's state beside the caller's.\<close>

record ini_state =
  ini_section :: string
  prev_name :: string
  lineno :: nat
  ini_error :: nat

type_synonym 'u ini_handler = "'u \<Rightarrow> string \<Rightarrow> string \<Rightarrow> string \<Rightarrow> int \<times> 'u"

definition set_error :: "ini_state \<Rightarrow> ini_state" where
  "set_error st = (if ini_error st = 0 then st\<lparr>ini_error := lineno st\<rparr> else st)"

definition call_handler ::
  "'u ini_handler \<Rightarrow> 'u \<Rightarrow> ini_state \<Rightarrow> string \<Rightarrow> string \<Rightarrow> ini_state \<times> 'u" where
  "call_handler handler user st name value =
     (case handler user (ini_section st) name value of (r, user') \<Rightarrow>
        (if r = 0 then set_error st else st, user'))"

text \<open>One line; the line number is already counted.\<close>

definition ini_line :: "'u ini_handler \<Rightarrow> 'u \<Rightarrow> ini_state \<Rightarrow> string \<Rightarrow> ini_state \<times> 'u" where
  "ini_line handler user st line =
     (let bom = (lineno st = 1 \<and> take 3 line = BOM);
          start0 = rstrip (if bom then drop 3 line else line);
          start = lskip start0;
          moved = (bom \<or> length start < length start0)
      in if start \<noteq> [] \<and> (hd start = CHR '';'' \<or> hd start = CHR ''#'') then (st, user)
         else if prev_name st \<noteq> [] \<and> start \<noteq> [] \<and> moved then
           call_handler handler user st (prev_name st) start
         else if start \<noteq> [] \<and> hd start = CHR ''['' then
           (let rest = find_chars_or_comment (tl start) (Some '']'')
            in if rest \<noteq> [] \<and> hd rest = CHR '']'' then
                 (st\<lparr>ini_section := strncpy0 (before (tl start) rest) MAX_SECTION, prev_name := []\<rparr>, user)
               else (set_error st, user))
         else if start \<noteq> [] then
           (let rest = find_chars_or_comment start (Some ''=:'')
            in if rest \<noteq> [] \<and> (hd rest = CHR ''='' \<or> hd rest = CHR '':'') then
                 let name = rstrip (before start rest);
                     value0 = tl rest;
                     value1 = before value0 (find_chars_or_comment value0 None);
                     value = rstrip (lskip value1)
                 in call_handler handler user (st\<lparr>prev_name := strncpy0 name MAX_NAME\<rparr>) name value
               else (set_error st, user))
         else (st, user))"

lemma fgets_shorter: "fgets n stream = Some (line, rest) \<Longrightarrow> 1 < n \<Longrightarrow> length rest < length stream"
  by (auto simp: fgets_def Let_def split: if_splits)

function ini_loop :: "'u ini_handler \<Rightarrow> 'u \<Rightarrow> ini_state \<Rightarrow> string \<Rightarrow> ini_state \<times> 'u" where
  "ini_loop handler user st stream =
     (case fgets INI_MAX_LINE stream of
        None \<Rightarrow> (st, user)
      | Some (line, rest) \<Rightarrow>
          (case ini_line handler user (st\<lparr>lineno := lineno st + 1\<rparr>) line of (st', user') \<Rightarrow>
             if ini_error st' \<noteq> 0 then (st', user') else ini_loop handler user' st' rest))"
  by pat_completeness auto
termination
  by (relation "measure (\<lambda>(handler, user, st, stream). length stream)")
     (auto dest: fgets_shorter simp: INI_MAX_LINE_def)

declare ini_loop.simps [simp del]

definition ini_parse_stream :: "'u ini_handler \<Rightarrow> 'u \<Rightarrow> string \<Rightarrow> int \<times> 'u" where
  "ini_parse_stream handler user stream =
     (case ini_loop handler user \<lparr>ini_section = [], prev_name = [], lineno = 0, ini_error = 0\<rparr> stream of
        (st, user') \<Rightarrow> (int (ini_error st), user'))"

definition ini_parse :: "(string \<rightharpoonup> string) \<Rightarrow> string \<Rightarrow> 'u ini_handler \<Rightarrow> 'u \<Rightarrow> int \<times> 'u" where
  "ini_parse open_read filename handler user =
     (case open_read filename of
        None \<Rightarrow> (- 1, user)
      | Some stream \<Rightarrow> ini_parse_stream handler user stream)"

section \<open>Lemmas: a printed pair is read back\<close>

text \<open>
  A value that survives: not empty, no white space at its ends, no line break or zero byte, and no
  \<open>;\<close> after white space.
\<close>

fun no_comment :: "bool \<Rightarrow> string \<Rightarrow> bool" where
  "no_comment was_space [] = True"
| "no_comment was_space (c # cs) = (\<not> (was_space \<and> c = CHR '';'') \<and> no_comment (isspace c) cs)"

definition clean_value :: "string \<Rightarrow> bool" where
  "clean_value v \<longleftrightarrow> v \<noteq> [] \<and> \<not> isspace (hd v) \<and> \<not> isspace (last v) \<and>
     (\<forall>c \<in> set v. c \<noteq> CHR 0x0A \<and> c \<noteq> CHR 0x00) \<and> no_comment False v"

text \<open>A name: letters that need no quoting anywhere on a line.\<close>

definition clean_name :: "string \<Rightarrow> bool" where
  "clean_name n \<longleftrightarrow> n \<noteq> [] \<and> length n < MAX_NAME \<and>
     (\<forall>c \<in> set n. \<not> isspace c \<and> c \<notin> set '';#[=:'' \<and> c \<noteq> CHR 0x00 \<and> code c < 128)"

lemma rstrip_id: "s \<noteq> [] \<Longrightarrow> \<not> isspace (last s) \<Longrightarrow> rstrip s = s"
proof -
  assume "s \<noteq> []" "\<not> isspace (last s)"
  then have "dropWhile isspace (rev s) = rev s" by (cases s rule: rev_cases) auto
  then show ?thesis by (simp add: rstrip_def)
qed

lemma rstrip_newline: "s \<noteq> [] \<Longrightarrow> \<not> isspace (last s) \<Longrightarrow> rstrip (s @ [CHR 0x0A]) = s"
proof -
  assume s: "s \<noteq> []" "\<not> isspace (last s)"
  have "isspace (CHR 0x0A)" by (simp add: isspace_def code_def)
  then have "rstrip (s @ [CHR 0x0A]) = rstrip s" by (simp add: rstrip_def)
  with s show ?thesis by (simp add: rstrip_id)
qed

lemma lskip_id: "s = [] \<or> \<not> isspace (hd s) \<Longrightarrow> lskip s = s"
  by (cases s) (auto simp: lskip_def)

lemma find_None: "no_comment b s \<Longrightarrow> find_from b s None = []"
  by (induction s arbitrary: b) (auto simp: INI_INLINE_COMMENT_PREFIXES_def strchr_def)

lemma find_name:
  assumes "\<forall>c \<in> set n. \<not> isspace c \<and> c \<notin> set '';#[=:''"
  shows "find_from False (n @ CHR ''='' # v) (Some ''=:'') = CHR ''='' # v"
  using assms by (induction n) (auto simp: strchr_def)

lemma ini_line_pair:
  assumes n: "clean_name n" and v: "clean_value v" and bom: "lineno st \<noteq> 0"
  shows "ini_line handler user st (n @ ''='' @ v @ [CHR 0x0A]) =
    call_handler handler user (st\<lparr>prev_name := n\<rparr>) n v"
proof -
  have ne: "n \<noteq> []" "v \<noteq> []" using n v by (auto simp: clean_name_def clean_value_def)
  obtain c cs where c: "n = c # cs" using ne(1) by (cases n) auto
  have cc: "\<not> isspace c" "c \<notin> set '';#[=:''" "code c < 128" using n by (auto simp: clean_name_def c)
  have "take 3 (n @ ''='' @ v @ [CHR 0x0A]) \<noteq> BOM" using cc(3) by (auto simp: c BOM_def code_def)
  moreover have "rstrip (n @ ''='' @ v @ [CHR 0x0A]) = n @ ''='' @ v"
    using rstrip_newline [of "n @ ''='' @ v"] ne(2) v by (simp add: clean_value_def)
  moreover have "lskip (n @ ''='' @ v) = n @ ''='' @ v" using cc(1) by (intro lskip_id) (simp add: c)
  moreover have "find_chars_or_comment (n @ ''='' @ v) (Some ''=:'') = CHR ''='' # v"
    using find_name [of n v] n by (simp add: find_chars_or_comment_def clean_name_def)
  moreover have "find_chars_or_comment v None = []"
    using find_None [of False v] v by (simp add: find_chars_or_comment_def clean_value_def)
  moreover have "rstrip n = n" using n ne by (intro rstrip_id) (auto simp: clean_name_def)
  moreover have "rstrip (lskip v) = v" using v by (simp add: clean_value_def lskip_id rstrip_id)
  moreover have "strncpy0 n MAX_NAME = n" using n by (simp add: strncpy0_def clean_name_def MAX_NAME_def)
  ultimately show ?thesis
    using cc(2) by (simp add: ini_line_def Let_def before_def c)
qed

section \<open>Lemmas: the line loop\<close>

definition plain_line :: "string \<Rightarrow> bool" where
  "plain_line l \<longleftrightarrow> length l < 199 \<and> (\<forall>c \<in> set l. c \<noteq> CHR 0x0A \<and> c \<noteq> CHR 0x00)"

lemma fgets_plain:
  assumes "plain_line l"
  shows "fgets INI_MAX_LINE (l @ CHR 0x0A # rest) = Some (l @ [CHR 0x0A], rest)"
proof -
  have "takeWhile (\<lambda>c. c \<noteq> CHR 0x0A) (l @ CHR 0x0A # rest) = l"
    using assms by (subst takeWhile_append2) (auto simp: plain_line_def)
  moreover have "takeWhile (\<lambda>c. c \<noteq> CHR 0x00) (l @ [CHR 0x0A]) = l @ [CHR 0x0A]"
    using assms by (subst takeWhile_append2) (auto simp: plain_line_def)
  ultimately show ?thesis
    using assms by (simp add: fgets_def INI_MAX_LINE_def plain_line_def Let_def)
qed

lemma ini_loop_line:
  assumes "plain_line l"
  shows "ini_loop h u st (l @ CHR 0x0A # rest) =
    (case ini_line h u (st\<lparr>lineno := lineno st + 1\<rparr>) (l @ [CHR 0x0A]) of (st', u') \<Rightarrow>
       if ini_error st' \<noteq> 0 then (st', u') else ini_loop h u' st' rest)"
  by (subst ini_loop.simps) (simp add: fgets_plain [OF assms])

lemma ini_loop_end [simp]: "ini_loop h u st [] = (st, u)"
  by (subst ini_loop.simps) (simp add: fgets_def)

lemma isspace_newline: "isspace (CHR 0x0A)"
  by (simp add: isspace_def code_def)

lemma clean_name_plain: "clean_name n \<Longrightarrow> c \<in> set n \<Longrightarrow> c \<noteq> CHR 0x0A \<and> c \<noteq> CHR 0x00"
  using isspace_newline by (metis clean_name_def)

lemma clean_value_plain: "clean_value v \<Longrightarrow> c \<in> set v \<Longrightarrow> c \<noteq> CHR 0x0A \<and> c \<noteq> CHR 0x00"
  by (simp add: clean_value_def)

lemma plain_pair: "clean_name n \<Longrightarrow> clean_value v \<Longrightarrow> length n + length v < 198 \<Longrightarrow> plain_line (n @ ''='' @ v)"
  unfolding plain_line_def set_append ball_Un
  using clean_name_plain clean_value_plain by simp

lemma ini_loop_pair:
  assumes "clean_name n" "clean_value v" "length n + length v < 198" "ini_error st = 0"
    and "h u (ini_section st) n v = (r, u')" "r \<noteq> 0"
  shows "ini_loop h u st (n @ ''='' @ v @ CHR 0x0A # rest) =
    ini_loop h u' (st\<lparr>lineno := lineno st + 1, prev_name := n\<rparr>) rest"
proof -
  from ini_loop_line [OF plain_pair [OF assms(1-3)], of h u st rest]
  show ?thesis
    using ini_line_pair [OF assms(1,2), of "st\<lparr>lineno := lineno st + 1\<rparr>" h u] assms(4-6)
    by (simp add: call_handler_def)
qed

lemma ini_loop_section:
  assumes "plain_line s" "length s < 49" "CHR '']'' \<notin> set s" "no_comment False s" "ini_error st = 0"
  shows "ini_loop h u st (''['' @ s @ '']'' @ CHR 0x0A # rest) =
    ini_loop h u (st\<lparr>lineno := lineno st + 1, ini_section := s, prev_name := []\<rparr>) rest"
proof -
  have f: "find_from b (s @ '']'') (Some '']'') = '']''" if "no_comment b s" "CHR '']'' \<notin> set s" for b
    using that by (induction s arbitrary: b) (auto simp: strchr_def INI_INLINE_COMMENT_PREFIXES_def)
  have r: "rstrip (''['' @ s @ '']'' @ [CHR 0x0A]) = ''['' @ s @ '']''"
    using rstrip_newline [of "''['' @ s @ '']''"] by (simp add: isspace_def code_def)
  have "take 3 (''['' @ s @ '']'' @ [CHR 0x0A]) \<noteq> BOM" by (simp add: BOM_def)
  moreover have "lskip (''['' @ s @ '']'') = ''['' @ s @ '']''" by (rule lskip_id) (simp add: isspace_def code_def)
  ultimately have "ini_line h u (st\<lparr>lineno := lineno st + 1\<rparr>) (''['' @ s @ '']'' @ [CHR 0x0A]) =
      (st\<lparr>lineno := lineno st + 1, ini_section := s, prev_name := []\<rparr>, u)"
    using r f [OF assms(4,3)] assms(2)
    by (simp add: ini_line_def Let_def find_chars_or_comment_def before_def strncpy0_def MAX_SECTION_def)
  moreover have "plain_line (''['' @ s @ '']'')" using assms(1,2) by (auto simp: plain_line_def)
  ultimately show ?thesis
    using ini_loop_line [of "''['' @ s @ '']''" h u st rest] assms(5) by simp
qed

lemma ini_loop_blank:
  "ini_error st = 0 \<Longrightarrow>
   ini_loop h u st (CHR 0x0A # rest) = ini_loop h u (st\<lparr>lineno := lineno st + 1\<rparr>) rest"
  using ini_loop_line [of "[]" h u st rest]
  by (simp add: plain_line_def ini_line_def rstrip_def lskip_def isspace_def code_def BOM_def)

end
