(* ===== verification/C_Float.thy ===== *)
theory C_Float
  imports Complex_Main Prelude "HOL-Library.Log_Nat"
begin

text \<open>
  Binary floating point as the daemon uses it: the values of \<open>float\<close> (binary32) and
  \<open>double\<close> (binary64) as exact rationals with infinities and not-a-number, rounding to
  nearest with ties to even, the arithmetic and comparisons the sources perform, the
  scanner behind \<open>strtof\<close>, \<open>strtod\<close> and \<open>atof\<close>, and printing with \<open>%.nf\<close>.
  The sign of a zero is not represented (it is visible in no result modelled here but the
  printed \<open>-0\<close>). The interface \<open>float_format\<close> states what a precision and an exponent
  range give; both formats interpret it.
\<close>

section \<open>Values and rounding\<close>

datatype fp = Fin rat | FInf bool \<comment> \<open>True: negative\<close> | FNaN

definition two_pow :: "int \<Rightarrow> rat" where
  "two_pow k = (if 0 \<le> k then 2 ^ nat k else 1 / 2 ^ nat (- k))"

text \<open>The exponent of a positive rational: \<open>2 ^ e \<le> x < 2 ^ (e + 1)\<close>.\<close>

definition ilog2 :: "rat \<Rightarrow> int" where
  "ilog2 x = (let (n, d) = quotient_of x; k = bitlen n - bitlen d
              in if two_pow k \<le> x then k else k - 1)"

definition round_half_even :: "rat \<Rightarrow> int" where
  "round_half_even x =
     (let f = \<lfloor>x\<rfloor>; r = x - of_int f
      in if r < 1 / 2 then f else if 1 / 2 < r then f + 1 else if even f then f else f + 1)"

definition fp_round :: "nat \<Rightarrow> int \<Rightarrow> int \<Rightarrow> rat \<Rightarrow> fp" where
  "fp_round p qmin emax x =
     (if x = 0 then Fin 0
      else let q = max (ilog2 \<bar>x\<bar> - int p + 1) qmin;
               y = of_int (round_half_even (x / two_pow q)) * two_pow q
           in if two_pow (emax + 1) \<le> \<bar>y\<bar> then FInf (x < 0) else Fin y)"

definition f32 :: "rat \<Rightarrow> fp" where "f32 = fp_round 24 (- 149) 127"
definition f64 :: "rat \<Rightarrow> fp" where "f64 = fp_round 53 (- 1074) 1023"

text \<open>Conversion between the formats, \<open>(float) d\<close> and \<open>(double) f\<close>.\<close>

fun fp_conv :: "(rat \<Rightarrow> fp) \<Rightarrow> fp \<Rightarrow> fp" where
  "fp_conv rnd (Fin x) = rnd x"
| "fp_conv rnd (FInf s) = FInf s"
| "fp_conv rnd FNaN = FNaN"

section \<open>Arithmetic and comparison\<close>

fun fp_add :: "(rat \<Rightarrow> fp) \<Rightarrow> fp \<Rightarrow> fp \<Rightarrow> fp" where
  "fp_add rnd (Fin a) (Fin b) = rnd (a + b)"
| "fp_add rnd FNaN _ = FNaN"
| "fp_add rnd _ FNaN = FNaN"
| "fp_add rnd (FInf s) (FInf t) = (if s = t then FInf s else FNaN)"
| "fp_add rnd (FInf s) (Fin _) = FInf s"
| "fp_add rnd (Fin _) (FInf t) = FInf t"

fun fp_mul :: "(rat \<Rightarrow> fp) \<Rightarrow> fp \<Rightarrow> fp \<Rightarrow> fp" where
  "fp_mul rnd (Fin a) (Fin b) = rnd (a * b)"
| "fp_mul rnd FNaN _ = FNaN"
| "fp_mul rnd _ FNaN = FNaN"
| "fp_mul rnd (FInf s) (FInf t) = FInf (s \<noteq> t)"
| "fp_mul rnd (FInf s) (Fin b) = (if b = 0 then FNaN else FInf (s \<noteq> (b < 0)))"
| "fp_mul rnd (Fin a) (FInf t) = (if a = 0 then FNaN else FInf ((a < 0) \<noteq> t))"

text \<open>Division by a finite value that is not zero, the only kind in the sources.\<close>

fun fp_div_num :: "(rat \<Rightarrow> fp) \<Rightarrow> fp \<Rightarrow> rat \<Rightarrow> fp" where
  "fp_div_num rnd (Fin a) b = rnd (a / b)"
| "fp_div_num rnd (FInf s) b = FInf (s \<noteq> (b < 0))"
| "fp_div_num rnd FNaN b = FNaN"

fun fp_eq :: "fp \<Rightarrow> fp \<Rightarrow> bool" where
  "fp_eq (Fin a) (Fin b) = (a = b)"
| "fp_eq (FInf s) (FInf t) = (s = t)"
| "fp_eq _ _ = False"

fun fp_less :: "fp \<Rightarrow> fp \<Rightarrow> bool" where
  "fp_less (Fin a) (Fin b) = (a < b)"
| "fp_less (FInf s) (FInf t) = (s \<and> \<not> t)"
| "fp_less (FInf s) (Fin _) = s"
| "fp_less (Fin _) (FInf t) = (\<not> t)"
| "fp_less _ _ = False"

definition fp_le :: "fp \<Rightarrow> fp \<Rightarrow> bool" where
  "fp_le x y \<longleftrightarrow> fp_less x y \<or> fp_eq x y"

text \<open>Conversion to an integer drops the fraction; out of range it is undefined.\<close>

definition trunc_rat :: "rat \<Rightarrow> int" where
  "trunc_rat x = (if 0 \<le> x then \<lfloor>x\<rfloor> else \<lceil>x\<rceil>)"

fun fp_to_u32 :: "fp \<Rightarrow> 32 word c" where
  "fp_to_u32 (Fin x) =
     (if 0 \<le> trunc_rat x \<and> trunc_rat x < 2 ^ 32 then Inr (word_of_int (trunc_rat x))
      else Inl ConvOverflow)"
| "fp_to_u32 _ = Inl ConvOverflow"

fun fp_to_i32 :: "fp \<Rightarrow> int c" where
  "fp_to_i32 (Fin x) = (if is_i32 (trunc_rat x) then Inr (trunc_rat x) else Inl ConvOverflow)"
| "fp_to_i32 _ = Inl ConvOverflow"

section \<open>Scanning: strtof, strtod, atof\<close>

datatype scanned = NoConv | SRat rat | SInf bool | SNaN

definition ten_pow :: "int \<Rightarrow> rat" where
  "ten_pow k = (if 0 \<le> k then 10 ^ nat k else 1 / 10 ^ nat (- k))"

text \<open>An optional exponent: it is consumed only when a digit follows.\<close>

definition scan_exp :: "char \<Rightarrow> string \<Rightarrow> int \<times> string" where
  "scan_exp e s =
     (case s of [] \<Rightarrow> (0, [])
      | x # xs \<Rightarrow>
          let neg = (xs \<noteq> [] \<and> hd xs = CHR ''-'');
              ys = (if xs \<noteq> [] \<and> (hd xs = CHR ''-'' \<or> hd xs = CHR ''+'') then tl xs else xs);
              ds = takeWhile isdigit ys;
              v = int (read_nat ds)
          in if tolower x = e \<and> ds \<noteq> [] then (if neg then - v else v, dropWhile isdigit ys)
             else (0, s))"

definition split_frac :: "(char \<Rightarrow> bool) \<Rightarrow> string \<Rightarrow> string \<times> string \<times> string" where
  "split_frac isd s =
     (let ip = takeWhile isd s; r = dropWhile isd s
      in case r of
           [] \<Rightarrow> (ip, [], [])
         | c # cs \<Rightarrow> if c = CHR ''.'' then (ip, takeWhile isd cs, dropWhile isd cs) else (ip, [], r))"

definition scan_decimal :: "string \<Rightarrow> (rat \<times> string) option" where
  "scan_decimal s =
     (let (ip, fr, r) = split_frac isdigit s
      in if ip = [] \<and> fr = [] then None
         else let (e, r') = scan_exp (CHR ''e'') r
              in Some (of_nat (read_nat (ip @ fr)) / 10 ^ length fr * ten_pow e, r'))"

definition isxdigit :: "char \<Rightarrow> bool" where
  "isxdigit c \<longleftrightarrow> isdigit c \<or> (97 \<le> code (tolower c) \<and> code (tolower c) \<le> 102)"

definition xdigit_val :: "char \<Rightarrow> nat" where
  "xdigit_val c = (if isdigit c then digit_val c else code (tolower c) - 87)"

definition scan_hex :: "string \<Rightarrow> (rat \<times> string) option" where
  "scan_hex s =
     (let (ip, fr, r) = split_frac isxdigit s
      in if ip = [] \<and> fr = [] then None
         else let (e, r') = scan_exp (CHR ''p'') r
              in Some (of_nat (foldl (\<lambda>a c. 16 * a + xdigit_val c) 0 (ip @ fr)) / 16 ^ length fr
                        * two_pow e, r'))"

definition starts_ci :: "string \<Rightarrow> string \<Rightarrow> bool" where
  "starts_ci w s \<longleftrightarrow> map tolower (take (length w) s) = w"

text \<open>The text after \<open>nan\<close> may be a parenthesised word.\<close>

definition nan_rest :: "string \<Rightarrow> string" where
  "nan_rest s =
     (let b = takeWhile (\<lambda>c. isxdigit c \<or> (97 \<le> code (tolower c) \<and> code (tolower c) \<le> 122)
                             \<or> c = CHR ''_'') (drop 1 s);
          r = drop (1 + length b) s
      in if s \<noteq> [] \<and> hd s = CHR ''('' \<and> r \<noteq> [] \<and> hd r = CHR '')'' then tl r else s)"

definition scan_number :: "string \<Rightarrow> scanned \<times> string" where
  "scan_number str =
     (let s1 = dropWhile isspace str;
          neg = (s1 \<noteq> [] \<and> hd s1 = CHR ''-'');
          s = (if s1 \<noteq> [] \<and> (hd s1 = CHR ''-'' \<or> hd s1 = CHR ''+'') then tl s1 else s1);
          sgn_of = (\<lambda>x. if neg then - x else x)
      in if starts_ci ''infinity'' s then (SInf neg, drop 8 s)
         else if starts_ci ''inf'' s then (SInf neg, drop 3 s)
         else if starts_ci ''nan'' s then (SNaN, nan_rest (drop 3 s))
         else (case (if starts_ci ''0x'' s then scan_hex (drop 2 s) else None) of
                 Some (x, r) \<Rightarrow> (SRat (sgn_of x), r)
               | None \<Rightarrow> (case scan_decimal s of
                            Some (x, r) \<Rightarrow> (SRat (sgn_of x), r)
                          | None \<Rightarrow> (NoConv, str))))"

text \<open>
  The conversion: result, end pointer, and whether \<open>ERANGE\<close> is stored in \<open>errno\<close>
  (overflow, or a tiny result that is not exact; \<open>emin\<close> is the least normal exponent).
\<close>

definition strto_fp :: "(rat \<Rightarrow> fp) \<Rightarrow> int \<Rightarrow> string \<Rightarrow> fp \<times> string \<times> bool" where
  "strto_fp rnd emin str =
     (case scan_number str of
        (NoConv, r) \<Rightarrow> (Fin 0, r, False)
      | (SInf s, r) \<Rightarrow> (FInf s, r, False)
      | (SNaN, r) \<Rightarrow> (FNaN, r, False)
      | (SRat x, r) \<Rightarrow>
          (case rnd x of
             Fin y \<Rightarrow> (Fin y, r, y \<noteq> x \<and> \<bar>y\<bar> < two_pow emin)
           | v \<Rightarrow> (v, r, True)))"

definition strtof :: "string \<Rightarrow> fp \<times> string \<times> bool" where
  "strtof = strto_fp f32 (- 126)"

definition strtod :: "string \<Rightarrow> fp \<times> string \<times> bool" where
  "strtod = strto_fp f64 (- 1022)"

section \<open>Printing with a fixed number of decimals\<close>

definition pad_left :: "nat \<Rightarrow> string \<Rightarrow> string" where
  "pad_left k s = replicate (k - length s) (CHR ''0'') @ s"

fun show_fixed :: "nat \<Rightarrow> fp \<Rightarrow> string" where
  "show_fixed k (Fin x) =
     (let n = nat (round_half_even (\<bar>x\<bar> * 10 ^ k))
      in (if x < 0 then ''-'' else []) @ show_nat (n div 10 ^ k)
         @ (if k = 0 then [] else CHR ''.'' # pad_left k (show_nat (n mod 10 ^ k))))"
| "show_fixed k (FInf s) = (if s then ''-inf'' else ''inf'')"
| "show_fixed k FNaN = ''nan''"

section \<open>Lemmas: powers of two and rounding of integers\<close>

lemma two_pow_eq: "two_pow k = 2 powi k"
  by (simp add: two_pow_def power_int_def inverse_eq_divide power_one_over)

lemma two_pow_pos [simp]: "0 < two_pow k"
  by (simp add: two_pow_def)

lemma two_pow_add: "two_pow (a + b) = two_pow a * two_pow b"
  by (simp add: two_pow_eq power_int_add)

lemma two_pow_diff: "two_pow (a - b) = two_pow a / two_pow b"
  by (simp add: two_pow_eq power_int_diff)

lemma two_pow_le_iff [simp]: "two_pow a \<le> two_pow b \<longleftrightarrow> a \<le> b"
  using power_int_increasing [of a b "2 :: rat"] power_int_strict_increasing [of b a "2 :: rat"]
  by (auto simp: two_pow_eq not_le [symmetric])

lemma two_pow_less_iff [simp]: "two_pow a < two_pow b \<longleftrightarrow> a < b"
  by (simp add: not_le [symmetric])

lemma two_pow_nat: "0 \<le> k \<Longrightarrow> two_pow k = of_int (2 ^ nat k)"
  by (simp add: two_pow_def)

lemma round_half_even_int [simp]: "round_half_even (of_int m) = m"
  by (simp add: round_half_even_def)

lemma round_half_even_error: "\<bar>of_int (round_half_even x) - x\<bar> \<le> 1 / 2"
proof -
  have "of_int \<lfloor>x\<rfloor> \<le> x" "x < of_int \<lfloor>x\<rfloor> + 1" by linarith+
  then show ?thesis by (auto simp: round_half_even_def Let_def)
qed

lemma round_half_even_nonneg: "0 \<le> x \<Longrightarrow> 0 \<le> round_half_even x"
  by (auto simp: round_half_even_def Let_def)

lemma bitlen_pow: "0 < n \<Longrightarrow> two_pow (bitlen n - 1) \<le> of_int n \<and> of_int n < two_pow (bitlen n)"
proof -
  assume n: "0 < n"
  from bitlen_bounds [OF n] have a: "2 ^ nat (bitlen n - 1) \<le> n" and b: "n < 2 ^ nat (bitlen n)"
    by auto
  have "1 \<le> bitlen n" using n by (simp add: bitlen_eq_zero_iff bitlen_nonneg int_one_le_iff_zero_less order_less_le)
  then show ?thesis using a b
    by (simp add: two_pow_nat del: of_int_power of_int_numeral)
qed

lemma ilog2_bounds:
  assumes "0 < x"
  shows "two_pow (ilog2 x) \<le> x" "x < two_pow (ilog2 x + 1)"
proof -
  obtain n d where q: "quotient_of x = (n, d)" by (cases "quotient_of x")
  then have d: "0 < d" and x: "x = of_int n / of_int d"
    by (auto dest: quotient_of_denom_pos quotient_of_div)
  with assms have n: "0 < n" by (simp add: zero_less_divide_iff)
  let ?k = "bitlen n - bitlen d"
  have up: "x < two_pow (?k + 1)"
  proof -
    have "of_int n < two_pow (bitlen n)" "two_pow (bitlen d - 1) \<le> of_int d"
      using bitlen_pow n d by blast+
    then have "x < two_pow (bitlen n) / two_pow (bitlen d - 1)"
      unfolding x using d by (intro frac_less) (auto simp: n order_less_imp_le)
    then show ?thesis by (simp add: two_pow_diff [symmetric] algebra_simps)
  qed
  have lo: "two_pow (?k - 1) \<le> x"
  proof -
    have "two_pow (bitlen n - 1) \<le> of_int n" "of_int d < two_pow (bitlen d)"
      using bitlen_pow n d by blast+
    then have "two_pow (bitlen n - 1) / two_pow (bitlen d) \<le> x"
      unfolding x using d by (intro frac_le) (auto simp: n order_less_imp_le)
    then show ?thesis by (simp add: two_pow_diff [symmetric] algebra_simps)
  qed
  show "two_pow (ilog2 x) \<le> x" "x < two_pow (ilog2 x + 1)"
    using up lo by (auto simp: ilog2_def q Let_def)
qed

section \<open>What a format promises\<close>

text \<open>
  A precision of \<open>p\<close> bits, a least exponent and a greatest exponent. The law that every
  client uses: a value whose odd part fits the precision is not changed.
\<close>

locale float_format =
  fixes p :: nat and qmin emax :: int and rnd :: "rat \<Rightarrow> fp"
  assumes rnd_def: "rnd x = fp_round p qmin emax x"
    and qmin_neg: "qmin \<le> 0"
    and p_le: "int p \<le> emax"
begin

lemma rnd_exact:
  assumes m: "\<bar>m\<bar> < 2 ^ p" and k: "qmin \<le> k" and x: "x = of_int m * two_pow k"
    and small: "\<bar>x\<bar> < two_pow (emax + 1)"
  shows "rnd x = Fin x"
proof (cases "x = 0")
  case False
  then have pos: "0 < \<bar>x\<bar>" by simp
  have "(of_int \<bar>m\<bar> :: rat) < of_int (2 ^ p)" using m by (simp only: of_int_less_iff)
  then have "\<bar>x\<bar> < two_pow (int p) * two_pow k"
    by (simp add: x abs_mult two_pow_nat abs_of_pos)
  with ilog2_bounds(1) [OF pos] have "two_pow (ilog2 \<bar>x\<bar>) < two_pow (int p + k)"
    by (simp add: two_pow_add)
  then have "ilog2 \<bar>x\<bar> < int p + k" by simp
  define q where "q = max (ilog2 \<bar>x\<bar> - int p + 1) qmin"
  have "q \<le> k" using \<open>ilog2 \<bar>x\<bar> < int p + k\<close> k by (simp add: q_def)
  then have "x / two_pow q = of_int (m * 2 ^ nat (k - q))"
    using two_pow_nat [of "k - q"] by (simp add: x two_pow_diff flip: times_divide_eq_right)
  then have "of_int (round_half_even (x / two_pow q)) * two_pow q = x"
    using two_pow_pos [of q] by (simp only: round_half_even_int) (simp add: divide_eq_eq)
  with False small show ?thesis
    by (simp add: rnd_def fp_round_def Let_def q_def [symmetric])
qed (simp add: rnd_def fp_round_def)

lemma rnd_int_scaled:
  assumes "\<bar>m\<bar> < 2 ^ p" "of_int \<bar>m * 2 ^ j\<bar> < two_pow (emax + 1)"
  shows "rnd (of_int (m * 2 ^ j)) = Fin (of_int (m * 2 ^ j))"
  using assms by (intro rnd_exact [where m = m and k = "int j"])
    (auto simp: two_pow_nat abs_mult order_trans [OF qmin_neg])

lemma rnd_int:
  assumes "\<bar>m\<bar> < 2 ^ p"
  shows "rnd (of_int m) = Fin (of_int m)"
proof -
  have "(of_int \<bar>m\<bar> :: rat) < of_int (2 ^ p)" using assms by (simp only: of_int_less_iff)
  also have "\<dots> \<le> two_pow (emax + 1)"
    using p_le by (simp add: two_pow_nat [of "int p", simplified, symmetric])
  finally show ?thesis using rnd_int_scaled [of m 0] assms by simp
qed

text \<open>The error is at most half a unit in the last place.\<close>

lemma rnd_error:
  assumes x: "\<bar>x\<bar> < two_pow (e + 1)" and e: "qmin \<le> e - int p + 1" "e < emax" "0 < p"
  shows "\<exists>y. rnd x = Fin y \<and> \<bar>y - x\<bar> \<le> two_pow (e - int p)"
proof (cases "x = 0")
  case False
  then have pos: "0 < \<bar>x\<bar>" by simp
  have "two_pow (ilog2 \<bar>x\<bar>) < two_pow (e + 1)" using ilog2_bounds(1) [OF pos] x by linarith
  then have "ilog2 \<bar>x\<bar> \<le> e" by simp
  define q where "q = max (ilog2 \<bar>x\<bar> - int p + 1) qmin"
  define y where "y = of_int (round_half_even (x / two_pow q)) * two_pow q"
  have q: "q \<le> e - int p + 1" using \<open>ilog2 \<bar>x\<bar> \<le> e\<close> e(1) by (simp add: q_def)
  have "y - x = (of_int (round_half_even (x / two_pow q)) - x / two_pow q) * two_pow q"
    using less_imp_neq [OF two_pow_pos [of q]] by (simp add: y_def algebra_simps)
  then have "\<bar>y - x\<bar> = \<bar>of_int (round_half_even (x / two_pow q)) - x / two_pow q\<bar> * two_pow q"
    using two_pow_pos [of q] by (simp add: abs_mult abs_of_pos)
  also have "\<dots> \<le> 1 / 2 * two_pow q"
    using round_half_even_error less_imp_le [OF two_pow_pos] by (intro mult_right_mono) auto
  also have "\<dots> \<le> 1 / 2 * two_pow (e - int p + 1)" using q by simp
  also have "\<dots> = two_pow (e - int p)" using two_pow_add [of "e - int p" 1] by (simp add: two_pow_def)
  finally have err: "\<bar>y - x\<bar> \<le> two_pow (e - int p)" .
  have "two_pow (e - int p) \<le> two_pow (e + 1)" by simp
  then have "\<bar>y\<bar> < two_pow (e + 1) + two_pow (e + 1)" using x err by linarith
  also have "\<dots> = two_pow (e + 2)" using two_pow_add [of "e + 1" 1] by (simp add: two_pow_def [of 1] add.assoc)
  also have "\<dots> \<le> two_pow (emax + 1)" using e(2) by simp
  finally have "rnd x = Fin y" using False by (simp add: rnd_def fp_round_def Let_def q_def [symmetric] y_def [symmetric])
  then show ?thesis using err by blast
qed (simp add: rnd_def fp_round_def less_imp_le)

lemma rnd_nonneg: "0 \<le> x \<Longrightarrow> rnd x = Fin y \<Longrightarrow> 0 \<le> y"
  by (auto simp: rnd_def fp_round_def Let_def round_half_even_nonneg less_imp_le split: if_splits)

end

interpretation f32: float_format 24 "- 149" 127 f32
  by unfold_locales (simp_all add: f32_def)

interpretation f64: float_format 53 "- 1074" 1023 f64
  by unfold_locales (simp_all add: f64_def)

end
