(* ===== verification/Util.thy ===== *)
theory Util
  imports C_Float
begin

text \<open>
  \<^verbatim>\<open>src/src/util.c\<close>: time units, date arguments, the line reader, the copy loop, the
  sleep split and the small predicates. \<open>errno\<close> is explicit: a routine that reads or sets
  it takes and returns whether it holds \<open>ERANGE\<close>. The clock and the calendar
  (\<open>time\<close>, \<open>strptime\<close>, \<open>mktime\<close>) are the record \<open>clock\<close>. A failing \<open>malloc\<close> is the
  boolean argument \<open>oom\<close>.
\<close>

section \<open>Time units\<close>

definition unit_seconds :: "char \<Rightarrow> rat option" where
  "unit_seconds u =
     (if u = CHR ''s'' then Some 1
      else if u = CHR ''m'' then Some 60
      else if u = CHR ''h'' then Some (60 * 60)
      else if u = CHR ''d'' then Some (60 * 60 * 24)
      else None)"

definition rpiwd_units_to_milliseconds :: "bool \<Rightarrow> string \<Rightarrow> (32 word \<times> bool) c" where
  "rpiwd_units_to_milliseconds erange unitstr =
     (case dropWhile (\<lambda>c. isdigit c \<or> c = CHR ''.'') unitstr of
        [] \<Rightarrow> Inl OutOfBounds \<comment> \<open>\<open>*(ptr + 1)\<close> is past the terminator\<close>
      | unit # rest \<Rightarrow>
          if rest \<noteq> [] then Inr (0, erange)
          else (case unit_seconds unit of
                  None \<Rightarrow> Inr (0, erange)
                | Some seconds \<Rightarrow>
                    (case strtof unitstr of (count, _, er) \<Rightarrow>
                       if erange \<or> er \<or> fp_eq count (Fin 0) then Inr (0, erange \<or> er)
                       else cbind (fp_to_u32 (fp_mul f32 (Fin seconds) (fp_mul f32 count (Fin 1000))))
                              (\<lambda>ms. Inr (ms, erange \<or> er)))))"

definition rpiwd_direction_to_char :: "string \<Rightarrow> char" where
  "rpiwd_direction_to_char direction =
     (if direction = ''from'' then CHR ''>''
      else if direction = ''to'' then CHR ''<''
      else CHR ''?'')"

definition is_rpiwd_units :: "bool \<Rightarrow> string \<Rightarrow> bool \<times> bool" where
  "is_rpiwd_units erange str =
     (case strtof str of (count, _, er) \<Rightarrow> (\<not> (fp_eq count (Fin 0) \<or> erange \<or> er), erange \<or> er))"

text \<open>The pair of seconds and nanoseconds handed to \<open>nanosleep\<close>.\<close>

definition rpiwd_sleep :: "32 word \<Rightarrow> 32 word \<times> 32 word" where
  "rpiwd_sleep milliseconds = (milliseconds div 1000, milliseconds mod 1000 * 1000000)"

definition rpiwd_getline :: "bool \<Rightarrow> string \<Rightarrow> string \<Rightarrow> string option" where
  "rpiwd_getline oom line newline =
     (case strstr line newline of
        None \<Rightarrow> None
      | Some pos \<Rightarrow>
          let len = length line - length pos
          in if len \<le> 0 then None else if oom then None else Some (take len line))"

section \<open>Date arguments\<close>

record 'tm clock =
  time_now :: int
  strptime :: "string \<Rightarrow> string \<Rightarrow> 'tm \<Rightarrow> bool \<times> 'tm"
  mktime :: "'tm \<Rightarrow> int"
  tm_zero :: 'tm

definition SUPPORTED_DATETIME_FORMATS :: "string list" where
  "SUPPORTED_DATETIME_FORMATS = [''%Y-%m-%d %H:%M'', ''%Y-%m-%d'']"

text \<open>\<open>(time_t) millis\<close> on a 32-bit signed \<open>time_t\<close> is the two's complement reading.\<close>

definition rpiwd_units_to_time_t ::
  "'tm clock \<Rightarrow> bool \<Rightarrow> string \<Rightarrow> char \<Rightarrow> (int \<times> bool) c" where
  "rpiwd_units_to_time_t clk erange unitstr operation =
     cbind (rpiwd_units_to_milliseconds erange unitstr) (\<lambda>(millis, er).
       if millis = 0 then Inr (0, er)
       else if operation = CHR ''+'' then
         cbind (i32 (time_now clk + tdiv (sint millis) 1000)) (\<lambda>t. Inr (t, er))
       else if operation = CHR ''-'' then
         cbind (i32 (time_now clk - tdiv (sint millis) 1000)) (\<lambda>t. Inr (t, er))
       else Inr (0, er))"

text \<open>The format loop; a failed \<open>strptime\<close> leaves what it stored in the \<open>tm\<close>.\<close>

fun try_formats :: "'tm clock \<Rightarrow> string list \<Rightarrow> string \<Rightarrow> 'tm \<Rightarrow> int option" where
  "try_formats clk [] value tm = None"
| "try_formats clk (fmt # fmts) value tm =
     (case strptime clk value fmt tm of
        (True, tm') \<Rightarrow> Some (mktime clk tm')
      | (False, tm') \<Rightarrow> try_formats clk fmts value tm')"

definition normalize_date ::
  "'tm clock \<Rightarrow> bool \<Rightarrow> string \<Rightarrow> bool \<Rightarrow> (int \<times> bool \<times> bool) c" where
  "normalize_date clk erange value rdtn_performed =
     (if value = ''now'' then Inr (time_now clk, rdtn_performed, erange)
      else case try_formats clk SUPPORTED_DATETIME_FORMATS value (tm_zero clk) of
             Some t \<Rightarrow> Inr (t, False, erange)
           | None \<Rightarrow>
               if rdtn_performed then
                 cbind (rpiwd_units_to_time_t clk erange value (CHR ''-''))
                   (\<lambda>(t, er). Inr (t, True, er))
               else Inl UninitRead)"

section \<open>Files\<close>

text \<open>
  The files the daemon touches: their contents, which paths cannot be opened, and how many
  bytes the device still takes.
\<close>

record files =
  contents :: "string \<rightharpoonup> string"
  unreadable :: "string \<Rightarrow> bool"
  unwritable :: "string \<Rightarrow> bool"
  space :: nat

definition RPIWD_COPYFILE_BUFFSIZE :: nat where "RPIWD_COPYFILE_BUFFSIZE = 2048"
definition PID_FILE :: string where "PID_FILE = ''/tmp/rpiweatherd.pid''"

text \<open>
  The read/write loop: \<open>fread\<close> takes the next chunk, \<open>fwrite\<close> stores what still fits.
  Result: the return value so far and the bytes written.
\<close>

function copy_loop :: "nat \<Rightarrow> string \<Rightarrow> string \<Rightarrow> int \<times> string" where
  "copy_loop room src dst =
     (let buffer = take RPIWD_COPYFILE_BUFFSIZE src
      in if length buffer = 0 then (1, dst)
         else if room < length buffer then (- 1, dst @ take room buffer)
         else copy_loop (room - length buffer) (drop RPIWD_COPYFILE_BUFFSIZE src) (dst @ buffer))"
  by pat_completeness auto
termination
  by (relation "measure (\<lambda>(room, src, dst). length src)") (auto simp: RPIWD_COPYFILE_BUFFSIZE_def)

declare copy_loop.simps [simp del]

definition rpiwd_copyfile :: "files \<Rightarrow> string \<Rightarrow> string \<Rightarrow> int \<times> files" where
  "rpiwd_copyfile fs src dest =
     (case contents fs src of
        None \<Rightarrow> (0, fs)
      | Some text \<Rightarrow>
          if unreadable fs src then (0, fs)
          else if unwritable fs dest then (0, fs)
          else let text' = (if src = dest then [] else text); \<comment> \<open>\<open>wb\<close> truncates\<close>
                   (ret, out) = copy_loop (space fs) text' []
               in (ret, fs\<lparr>contents := (contents fs)(dest \<mapsto> out), space := space fs - length out\<rparr>))"

definition rpiwd_file_exists :: "files \<Rightarrow> string \<Rightarrow> bool" where
  "rpiwd_file_exists fs path \<longleftrightarrow> contents fs path \<noteq> None"

definition pid_file_exists :: "files \<Rightarrow> bool" where
  "pid_file_exists fs \<longleftrightarrow> contents fs PID_FILE \<noteq> None"

text \<open>
  \<open>open\<close> with \<open>O_CREAT | O_EXCL\<close> fails when the file is there. \<open>fd\<close> is the descriptor the
  system would hand out, \<open>pid\<close> the process number. The result of \<open>write\<close> is not looked at.
\<close>

definition write_pid_file :: "int \<Rightarrow> nat \<Rightarrow> files \<Rightarrow> int \<times> files" where
  "write_pid_file fd pid fs =
     (if contents fs PID_FILE \<noteq> None \<or> unwritable fs PID_FILE then (0, fs)
      else let out = take (space fs) (show_nat pid)
           in (fd, fs\<lparr>contents := (contents fs)(PID_FILE \<mapsto> out), space := space fs - length out\<rparr>))"

definition rpiwd_is_number :: "string \<Rightarrow> bool" where
  "rpiwd_is_number str \<longleftrightarrow> list_all isdigit str"

text \<open>The macro works on a \<open>float\<close>: each step rounds.\<close>

definition RPIWD_CELSIUS_TO_FARENHEIT :: "fp \<Rightarrow> fp" where
  "RPIWD_CELSIUS_TO_FARENHEIT var = fp_add f32 (fp_div_num f32 (fp_mul f32 var (Fin 9)) 5) (Fin 32)"

section \<open>Lemmas: time units\<close>

lemma code_simps [simp]:
  "isdigit (CHR ''s'') = False" "isdigit (CHR ''m'') = False" "isdigit (CHR ''h'') = False"
  "isdigit (CHR ''d'') = False" "isdigit (CHR ''.'') = False"
  by (simp_all add: isdigit_def code_def)

lemma unit_seconds_not_digit: "unit_seconds u = Some x \<Longrightarrow> \<not> isdigit u \<and> u \<noteq> CHR ''.''"
  by (auto simp: unit_seconds_def split: if_splits)

lemma takeWhile_digits_unit:
  "list_all isdigit ds \<Longrightarrow> \<not> isdigit u \<Longrightarrow> takeWhile isdigit (ds @ u # r) = ds"
  "list_all isdigit ds \<Longrightarrow> \<not> isdigit u \<Longrightarrow> dropWhile isdigit (ds @ u # r) = u # r"
  by (simp_all add: list_all_iff dropWhile_append)

text \<open>
  A decimal scan of digits, with or without a fraction, reads exactly those digits when what follows does
  not continue the number: no infinity, no exponent and no hexadecimal prefix can be seen.
\<close>

definition number_ends :: "string \<Rightarrow> bool" where
  "number_ends rest \<longleftrightarrow> rest = [] \<or> (\<not> isdigit (hd rest) \<and> hd rest \<noteq> CHR ''.'' \<and> tolower (hd rest) \<noteq> CHR ''x'')"

lemma takeWhile_ends: 
  "list_all isdigit ds \<Longrightarrow> rest = [] \<or> \<not> isdigit (hd rest) \<Longrightarrow> takeWhile isdigit (ds @ rest) = ds"
  "list_all isdigit ds \<Longrightarrow> rest = [] \<or> \<not> isdigit (hd rest) \<Longrightarrow> dropWhile isdigit (ds @ rest) = rest"
  by (cases rest; auto simp: list_all_iff takeWhile_append dropWhile_append)+

lemma tolower_nonletter: "isdigit d \<or> d = CHR ''.'' \<Longrightarrow> tolower d = d"
  by (auto simp: tolower_def isupper_def isdigit_def code_def)

lemma scan_number_decimal:
  assumes ip: "ip \<noteq> []" "list_all isdigit ip" and fr: "list_all isdigit fr"
    and rest: "number_ends rest" "scan_exp (CHR ''e'') rest = (0, rest)"
  defines "s \<equiv> ip @ (if fr = [] then [] else CHR ''.'' # fr) @ rest"
  defines "x \<equiv> of_nat (read_nat (ip @ fr)) / 10 ^ length fr"
  shows "scan_number s = (SRat x, rest)" "scan_number (CHR ''-'' # s) = (SRat (- x), rest)"
proof -
  obtain d es where d: "ip = d # es" "isdigit d" using ip by (cases ip) auto
  have lead: "\<not> isspace d" "d \<noteq> CHR ''-''" "d \<noteq> CHR ''+''" and minus: "\<not> isspace (CHR ''-'')"
    using d(2) by (auto dest: isdigit_simps simp: isspace_def code_def)
  have low: "tolower d = d" using d(2) by (simp add: tolower_nonletter)
  have w: "\<not> isdigit (CHR ''i'')" "\<not> isdigit (CHR ''n'')" by (simp_all add: isdigit_def code_def)
  have word: "\<not> starts_ci (c # cs) s" if "\<not> isdigit c" for c cs
    using that low d by (auto simp: starts_ci_def s_def)
  have "\<not> starts_ci ''0x'' s"
  proof
    assume "starts_ci ''0x'' s"
    then obtain e r where e: "s = d # e # r" "tolower e = CHR ''x''"
      by (cases s; cases "tl s") (auto simp: starts_ci_def s_def d)
    then have "e \<in> set es \<or> e = CHR ''.'' \<or> rest \<noteq> [] \<and> e = hd rest"
      by (cases es; cases rest) (auto simp: s_def d split: if_splits)
    moreover have "\<not> isdigit (CHR ''x'')" by (simp add: isdigit_def code_def)
    ultimately show False using e(2) rest(1) ip(2) d tolower_nonletter [of e]
      by (auto simp: number_ends_def list_all_iff)
  qed
  moreover have "scan_decimal s = Some (x, rest)"
  proof -
    have "rest = [] \<or> \<not> isdigit (hd rest)" using rest(1) by (auto simp: number_ends_def)
    note tw = takeWhile_ends [OF ip(2) this] takeWhile_ends [OF fr this] takeWhile_ends [OF ip(2), of "CHR ''.'' # fr @ rest"]
    have "split_frac isdigit s = (ip, fr, rest)"
    proof (cases "fr = []")
      case True
      then have "takeWhile isdigit s = ip" "dropWhile isdigit s = rest" using tw unfolding s_def by simp_all
      note e = this
      show ?thesis unfolding split_frac_def Let_def e using rest(1) True by (cases rest) (auto simp: number_ends_def)
    next
      case False
      then have "takeWhile isdigit s = ip" "dropWhile isdigit s = CHR ''.'' # fr @ rest" using tw unfolding s_def by simp_all
      note e = this
      show ?thesis unfolding split_frac_def Let_def e using tw by simp
    qed
    then show ?thesis using ip(1) rest(2) by (simp add: scan_decimal_def x_def ten_pow_def)
  qed
  ultimately show "scan_number s = (SRat x, rest)" "scan_number (CHR ''-'' # s) = (SRat (- x), rest)"
    using lead minus d word [OF w(1), of "''nfinity''"] word [OF w(1), of "''nf''"] word [OF w(2), of "''an''"]
    by (auto simp: scan_number_def s_def Let_def)
qed

lemma scan_number_suffix:
  assumes ds: "ds \<noteq> []" "list_all isdigit ds"
    and u: "\<not> isdigit u" "u \<noteq> CHR ''.''" "tolower u \<noteq> CHR ''x''"
  shows "scan_number (ds @ [u]) = (SRat (of_nat (read_nat ds)), [u])"
  using scan_number_decimal(1) [OF ds, of "[]" "[u]"] u by (simp add: number_ends_def scan_exp_def)

lemma scan_number_units:
  assumes "ds \<noteq> []" "list_all isdigit ds" "unit_seconds u \<noteq> None"
  shows "scan_number (ds @ [u]) = (SRat (of_nat (read_nat ds)), [u])"
  using assms
  by (intro scan_number_suffix)
     (auto simp: unit_seconds_def tolower_def isupper_def isdigit_def code_def split: if_splits)

lemma strtof_units:
  assumes "ds \<noteq> []" "list_all isdigit ds" "unit_seconds u \<noteq> None" "read_nat ds < 2 ^ 24"
  shows "strtof (ds @ [u]) = (Fin (of_nat (read_nat ds)), [u], False)"
  using f32.rnd_int [of "int (read_nat ds)"] assms
  by (simp add: strtof_def strto_fp_def scan_number_units)

lemma fp_mul_exact:
  assumes "a * b = of_int (m * 2 ^ j)" "\<bar>m\<bar> < 2 ^ 24" "\<bar>m\<bar> * 2 ^ j < 2 ^ 128"
  shows "fp_mul f32 (Fin a) (Fin b) = Fin (a * b)"
proof -
  have "(of_int \<bar>m * 2 ^ j\<bar> :: rat) < of_int (2 ^ 128)"
    using assms(3) by (simp only: of_int_less_iff) (simp add: abs_mult)
  then show ?thesis using f32.rnd_int_scaled [of m j] assms by (simp add: two_pow_def)
qed

text \<open>The largest counts for which the computation is exact and fits 32 bits.\<close>

definition max_units :: "char \<Rightarrow> nat" where
  "max_units u = (if u = CHR ''s'' then 16777 else if u = CHR ''m'' then 8947
                  else if u = CHR ''h'' then 596 else if u = CHR ''d'' then 49 else 0)"

definition seconds_of :: "char \<Rightarrow> nat" where
  "seconds_of u = (if u = CHR ''s'' then 1 else if u = CHR ''m'' then 60
                   else if u = CHR ''h'' then 3600 else if u = CHR ''d'' then 86400 else 0)"

lemma fp_to_u32_nat: "n < 2 ^ 32 \<Longrightarrow> fp_to_u32 (Fin (of_nat n)) = Inr (of_nat n)"
  by (simp add: trunc_rat_def)

lemma units_product:
  assumes "0 < n" "n \<le> max_units u"
  shows "unit_seconds u = Some (of_nat (seconds_of u))"
    and "fp_mul f32 (Fin (of_nat n)) (Fin 1000) = Fin (of_nat (n * 1000))"
    and "fp_mul f32 (Fin (of_nat (seconds_of u))) (Fin (of_nat (n * 1000)))
           = Fin (of_nat (n * 1000 * seconds_of u))"
    and "n * 1000 * seconds_of u < 2 ^ 32"
proof -
  have n: "n \<le> 16777" and u: "u \<in> {CHR ''s'', CHR ''m'', CHR ''h'', CHR ''d''}"
    using assms by (auto simp: max_units_def split: if_splits)
  show "unit_seconds u = Some (of_nat (seconds_of u))"
    using u by (auto simp: unit_seconds_def seconds_of_def)
  show "n * 1000 * seconds_of u < 2 ^ 32"
    using u assms(2) by (auto simp: max_units_def seconds_of_def)
  show "fp_mul f32 (Fin (of_nat n)) (Fin 1000) = Fin (of_nat (n * 1000))"
    using n fp_mul_exact [of "of_nat n" 1000 "int n * 125" 3] by simp
  have pow: "\<exists>j. seconds_of u * 1000 = k * 2 ^ j \<and> j \<le> 10"
    if "(u, k) \<in> {(CHR ''s'', 125), (CHR ''m'', 1875), (CHR ''h'', 28125), (CHR ''d'', 84375)}" for k :: nat
    using that by (auto simp: seconds_of_def intro: exI [where x = 3] exI [where x = 5]
        exI [where x = 7] exI [where x = 10])
  obtain k :: nat where k: "(u, k) \<in> {(CHR ''s'', 125), (CHR ''m'', 1875), (CHR ''h'', 28125), (CHR ''d'', 84375)}"
    using u by auto
  then obtain j where j: "seconds_of u * 1000 = k * 2 ^ j" "j \<le> 10" using pow by blast
  have nk: "n * k < 2 ^ 24" using k assms(2) by (auto simp: max_units_def)
  have eq: "seconds_of u * (n * 1000) = (n * k) * 2 ^ j"
    using j(1) by (metis (no_types, lifting) mult.assoc mult.commute)
  have big: "int (n * k) * 2 ^ j < 2 ^ 128"
  proof -
    have "int (n * k) \<le> int (2 ^ 24)" using nk by (simp only: of_nat_le_iff)
    then have "int (n * k) \<le> 2 ^ 24" by simp
    then have "int (n * k) * 2 ^ j \<le> 2 ^ 24 * 2 ^ 10"
      using j(2) by (intro mult_mono power_increasing) auto
    then show ?thesis by simp
  qed
  have "(of_nat (seconds_of u) :: rat) * of_nat (n * 1000) = of_nat (seconds_of u * (n * 1000))"
    by (simp only: of_nat_mult)
  also have "\<dots> = of_int (int (n * k) * 2 ^ j)" by (simp only: eq) simp
  finally have prod: "(of_nat (seconds_of u) :: rat) * of_nat (n * 1000) = of_int (int (n * k) * 2 ^ j)" .
  have "\<bar>int (n * k)\<bar> < int (2 ^ 24)" using nk by (simp only: abs_of_nat of_nat_less_iff)
  then have "\<bar>int (n * k)\<bar> < 2 ^ 24" "\<bar>int (n * k)\<bar> * 2 ^ j < 2 ^ 128"
    using big by simp_all
  from fp_mul_exact [OF prod this]
  have "fp_mul f32 (Fin (of_nat (seconds_of u))) (Fin (of_nat (n * 1000)))
      = Fin (of_nat (seconds_of u) * of_nat (n * 1000))" .
  then show "fp_mul f32 (Fin (of_nat (seconds_of u))) (Fin (of_nat (n * 1000)))
      = Fin (of_nat (n * 1000 * seconds_of u))"
    by (simp add: mult.commute mult.left_commute)
qed

lemma units_exact_digits:
  assumes "list_all isdigit ds" "0 < read_nat ds" "read_nat ds \<le> max_units u"
  shows "rpiwd_units_to_milliseconds False (ds @ [u])
           = Inr (of_nat (read_nat ds * 1000 * seconds_of u), False)"
proof -
  note P = units_product [OF assms(2,3)]
  have ne: "ds \<noteq> []" using assms(2) by (auto simp: read_nat_def)
  have u: "unit_seconds u \<noteq> None" "\<not> isdigit u" "u \<noteq> CHR ''.''"
    using P(1) unit_seconds_not_digit by auto
  have "read_nat ds < 2 ^ 24" using assms(3) by (auto simp: max_units_def split: if_splits)
  then have sf: "strtof (ds @ [u]) = (Fin (of_nat (read_nat ds)), [u], False)"
    using ne assms(1) u(1) by (rule strtof_units [rotated 3])
  have "dropWhile (\<lambda>c. isdigit c \<or> c = CHR ''.'') (ds @ [u]) = [u]"
    using assms(1) u by (simp add: dropWhile_append list_all_iff)
  then show ?thesis
    using P(1,2,3) fp_to_u32_nat [OF P(4)] sf assms(2)
    by (simp add: rpiwd_units_to_milliseconds_def del: of_nat_mult of_nat_numeral)
qed

lemma units_erange:
  "rpiwd_units_to_milliseconds True s = Inr (ms, er) \<Longrightarrow> ms = 0"
  by (auto simp: rpiwd_units_to_milliseconds_def split: list.splits option.splits if_splits prod.splits)

section \<open>Lemmas: lines and copies\<close>

lemma strstr_not_before:
  "strstr s n = Some t \<Longrightarrow> i + length t < length s \<Longrightarrow> take (length n) (drop i s) \<noteq> n"
proof (induction s n arbitrary: i rule: strstr.induct)
  case (2 c cs n)
  then show ?case
    by (cases i) (auto split: if_splits)
qed (auto split: if_splits)

lemma getline_Some_iff:
  assumes "rpiwd_getline oom line newline = Some l"
  shows "\<exists>rest. line = l @ newline @ rest" "l \<noteq> []"
proof -
  obtain pos where pos: "strstr line newline = Some pos" "length pos < length line"
      "l = take (length line - length pos) line"
    using assms by (auto simp: rpiwd_getline_def Let_def split: option.splits if_splits)
  obtain p where p: "line = p @ pos" "take (length newline) pos = newline"
    using strstr_Some [OF pos(1)] by blast
  have "pos = newline @ drop (length newline) pos"
    by (metis append_take_drop_id p(2))
  then show "\<exists>rest. line = l @ newline @ rest"
    using p(1) pos(3) by (auto intro: exI [where x = "drop (length newline) pos"])
  show "l \<noteq> []" using pos(2,3) by auto
qed

lemma copy_loop_step:
  assumes "take RPIWD_COPYFILE_BUFFSIZE src \<noteq> []" "\<not> room < length (take RPIWD_COPYFILE_BUFFSIZE src)"
  shows "copy_loop room src dst = copy_loop (room - length (take RPIWD_COPYFILE_BUFFSIZE src))
           (drop RPIWD_COPYFILE_BUFFSIZE src) (dst @ take RPIWD_COPYFILE_BUFFSIZE src)"
  by (subst copy_loop.simps) (simp only: Let_def length_0_conv assms if_False)

lemma copy_loop_room:
  "length src \<le> room \<Longrightarrow> copy_loop room src dst = (1, dst @ src)"
proof (induction room src dst rule: copy_loop.induct)
  case (1 room src dst)
  show ?case
  proof (cases "src = []")
    case True
    then show ?thesis by (simp add: copy_loop.simps)
  next
    case False
    let ?b = "take RPIWD_COPYFILE_BUFFSIZE src"
    have "?b \<noteq> []" using False by (simp add: RPIWD_COPYFILE_BUFFSIZE_def)
    moreover have "\<not> room < length ?b" using 1 by simp
    ultimately have "copy_loop room src dst
        = copy_loop (room - length ?b) (drop RPIWD_COPYFILE_BUFFSIZE src) (dst @ ?b)"
      by (rule copy_loop_step)
    also have "\<dots> = (1, (dst @ ?b) @ drop RPIWD_COPYFILE_BUFFSIZE src)"
      using \<open>?b \<noteq> []\<close> \<open>\<not> room < length ?b\<close> 1 by (intro "1.IH") auto
    finally show ?thesis by simp
  qed
qed

lemma copy_loop_full:
  "room < length src \<Longrightarrow> fst (copy_loop room src dst) = - 1"
proof (induction room src dst rule: copy_loop.induct)
  case (1 room src dst)
  let ?b = "take RPIWD_COPYFILE_BUFFSIZE src"
  have "?b \<noteq> []" using 1 by (auto simp: RPIWD_COPYFILE_BUFFSIZE_def)
  show ?case
  proof (cases "room < length ?b")
    case True
    then show ?thesis using \<open>?b \<noteq> []\<close> by (simp add: copy_loop.simps [of room src dst] Let_def)
  next
    case False
    then have "fst (copy_loop (room - length ?b) (drop RPIWD_COPYFILE_BUFFSIZE src) (dst @ ?b)) = - 1"
      using \<open>?b \<noteq> []\<close> 1 by (intro "1.IH") auto
    then show ?thesis using copy_loop_step [OF \<open>?b \<noteq> []\<close> False] by simp
  qed
qed

lemma units_to_time_t_eq:
  assumes "list_all isdigit ds" "0 < read_nat ds" "read_nat ds \<le> max_units u"
  defines "ms \<equiv> read_nat ds * 1000 * seconds_of u"
  shows "rpiwd_units_to_time_t clk False (ds @ [u]) (CHR ''-'') =
    cbind (i32 (time_now clk - tdiv (if ms < 2 ^ 31 then int ms else int ms - 2 ^ 32) 1000)) (\<lambda>t. Inr (t, False))"
proof -
  have ms: "0 < ms" "ms < 2 ^ 32"
    using assms(2,3) units_product(4) [OF assms(2,3)]
    by (auto simp: ms_def max_units_def seconds_of_def split: if_splits)
  have "(of_nat ms :: 32 word) \<noteq> 0"
  proof
    assume "(of_nat ms :: 32 word) = 0"
    then have "unat (of_nat ms :: 32 word) = 0" by simp
    with ms show False by (simp add: unsigned_of_nat take_bit_nat_eq_self)
  qed
  then show ?thesis
    using units_exact_digits [OF assms(1-3), folded ms_def] sint32_of_nat [OF ms(2)]
    by (simp add: rpiwd_units_to_time_t_def)
qed

lemma units_past:
  assumes "list_all isdigit ds" "0 < read_nat ds" "read_nat ds \<le> max_units u"
    and "read_nat ds * 1000 * seconds_of u < 2 ^ 31"
    and "is_i32 (time_now clk - int (read_nat ds * seconds_of u))"
  shows "rpiwd_units_to_time_t clk False (ds @ [u]) (CHR ''-'')
    = Inr (time_now clk - int (read_nat ds * seconds_of u), False)"
proof -
  let ?ms = "read_nat ds * 1000 * seconds_of u"
  have "tdiv (int ?ms) 1000 = int (read_nat ds * seconds_of u)"
    by (subst tdiv_nonneg) (simp_all add: mult.commute mult.left_commute)
  then show ?thesis
    using units_to_time_t_eq [OF assms(1-3), of clk] assms(4,5) by (simp add: i32_ok)
qed

section \<open>Properties\<close>

text \<open>C32. Interval strings are converted exactly: for every decimal count, leading zeros allowed,
  up to the limit of its unit (16777s, 8947m, 596h, 49d) the single-precision arithmetic gives the
  exact number of milliseconds, with no rounding, no overflow and \<open>errno\<close> untouched.\<close>
theorem units_to_milliseconds_exact:
  assumes "list_all isdigit ds" "0 < read_nat ds" "read_nat ds \<le> max_units u"
  shows "rpiwd_units_to_milliseconds False (ds @ [u]) = Inr (of_nat (read_nat ds * 1000 * seconds_of u), False)
    \<and> read_nat ds * 1000 * seconds_of u < 2 ^ 32"
  using units_exact_digits [OF assms] units_product(4) [OF assms(2,3)] by simp

theorem units_to_milliseconds_exact_witness:
  "rpiwd_units_to_milliseconds False (''015'' @ ''m'') = Inr (of_nat (read_nat ''015'' * 1000 * seconds_of (CHR ''m'')), False)
    \<and> read_nat ''015'' * 1000 * seconds_of (CHR ''m'') < 2 ^ 32"
  by (rule units_to_milliseconds_exact)
     (simp_all add: isdigit_def code_def read_nat_def digit_val_def max_units_def)

text \<open>\<open>errno\<close> is tested but never cleared: once it holds \<open>ERANGE\<close>, from this call or from
  any earlier one, every conversion that returns yields 0 milliseconds.\<close>
theorem units_errno_sticky:
  assumes "rpiwd_units_to_milliseconds True s = Inr (ms, er)"
  shows "ms = 0"
  using assms by (rule units_erange)

theorem units_errno_sticky_witness: "(0 :: 32 word) = 0"
proof (rule units_errno_sticky)
  show "rpiwd_units_to_milliseconds True ''5x'' = Inr (0, True)"
    by (simp add: rpiwd_units_to_milliseconds_def isdigit_def code_def unit_seconds_def)
qed

text \<open>A relative date of up to 2147483 seconds lies that many seconds before now.\<close>
theorem relative_date_past:
  assumes "list_all isdigit ds" "0 < read_nat ds" "read_nat ds \<le> max_units u"
    and "read_nat ds * 1000 * seconds_of u < 2 ^ 31"
    and "is_i32 (time_now clk - int (read_nat ds * seconds_of u))"
  shows "rpiwd_units_to_time_t clk False (ds @ [u]) (CHR ''-'')
    = Inr (time_now clk - int (read_nat ds * seconds_of u), False)"
  using assms by (rule units_past)

definition sample_clock :: "unit clock" where
  "sample_clock = \<lparr>time_now = 1510800000, strptime = (\<lambda>_ _ _. (False, ())), mktime = (\<lambda>_. 0), tm_zero = ()\<rparr>"

lemmas units_eval = isdigit_def code_def read_nat_def digit_val_def max_units_def seconds_of_def
  sample_clock_def INT_MIN_def INT_MAX_def

theorem relative_date_past_witness:
  "rpiwd_units_to_time_t sample_clock False (''3'' @ ''d'') (CHR ''-'')
    = Inr (time_now sample_clock - int (read_nat ''3'' * seconds_of (CHR ''d'')), False)"
  by (rule relative_date_past) (simp_all add: units_eval)

text \<open>Beyond that the cast of the millisecond count to the signed 32-bit \<open>time_t\<close> turns
  negative and the date lands in the future: \<open>30d\<close> ago is about 19 days ahead.\<close>
theorem relative_date_wraps:
  assumes "list_all isdigit ds" "0 < read_nat ds" "read_nat ds \<le> max_units u"
    and "2 ^ 31 + 1000 \<le> read_nat ds * 1000 * seconds_of u" "read_nat ds * 1000 * seconds_of u + 1000 \<le> 2 ^ 32"
    and "0 \<le> time_now clk" "is_i32 (time_now clk + 2147483)"
  shows "\<exists>t. rpiwd_units_to_time_t clk False (ds @ [u]) (CHR ''-'') = Inr (t, False) \<and> time_now clk < t"
proof -
  let ?ms = "read_nat ds * 1000 * seconds_of u"
  have "\<not> ?ms < 2 ^ 31" using assms(4) by linarith
  then have eq: "rpiwd_units_to_time_t clk False (ds @ [u]) (CHR ''-'')
      = cbind (i32 (time_now clk - tdiv (int ?ms - 2 ^ 32) 1000)) (\<lambda>t. Inr (t, False))"
    using units_to_time_t_eq [OF assms(1-3), of clk] by (simp only: if_False)
  define d where "d = (2 ^ 32 - int ?ms) div 1000"
  have "tdiv (int ?ms - 2 ^ 32) 1000 = - d"
    using assms(5) by (simp add: tdiv_def d_def sgn_if del: of_nat_mult)
  moreover have "0 < d" "d \<le> 2147483"
    using assms(4,5) by (simp_all add: d_def del: of_nat_mult)
  ultimately show ?thesis
    using eq assms(6,7) by (simp add: i32_def INT_MIN_def INT_MAX_def)
qed

theorem relative_date_wraps_witness:
  "\<exists>t. rpiwd_units_to_time_t sample_clock False (''30'' @ ''d'') (CHR ''-'') = Inr (t, False) \<and> time_now sample_clock < t"
  by (rule relative_date_wraps) (simp_all add: units_eval)

text \<open>The line reader returns exactly the text before the first occurrence of the line break,
  and only when that text is not empty.\<close>
theorem getline_first_line:
  assumes "rpiwd_getline oom line newline = Some l"
  shows "l \<noteq> [] \<and> (\<exists>rest. line = l @ newline @ rest) \<and>
    (\<forall>i. i < length l \<longrightarrow> take (length newline) (drop i line) \<noteq> newline)"
proof -
  obtain pos where pos: "strstr line newline = Some pos" "length pos < length line"
      "l = take (length line - length pos) line"
    using assms by (auto simp: rpiwd_getline_def Let_def split: option.splits if_splits)
  have "take (length newline) (drop i line) \<noteq> newline" if "i < length l" for i
    using strstr_not_before [OF pos(1)] that pos(2,3) by simp
  then show ?thesis using getline_Some_iff [OF assms] by blast
qed

theorem getline_first_line_witness:
  "''ab'' \<noteq> [] \<and> (\<exists>rest. ''ab;c;'' = ''ab'' @ '';'' @ rest) \<and>
    (\<forall>i. i < length ''ab'' \<longrightarrow> take (length '';'') (drop i ''ab;c;'') \<noteq> '';'')"
  by (rule getline_first_line [of False]) (simp add: rpiwd_getline_def)

text \<open>Copying a readable file to a writable path with enough room returns 1 and stores an exact
  copy, whatever the number of chunks; no other file changes. With too little room the result is
  -1.\<close>
theorem copyfile_exact:
  assumes "contents fs src = Some body" "\<not> unreadable fs src" "\<not> unwritable fs dest" "src \<noteq> dest"
  shows "if length body \<le> space fs
    then rpiwd_copyfile fs src dest = (1, fs\<lparr>contents := (contents fs)(dest \<mapsto> body), space := space fs - length body\<rparr>)
    else fst (rpiwd_copyfile fs src dest) = - 1 \<and> (\<forall>p. p \<noteq> dest \<longrightarrow> contents (snd (rpiwd_copyfile fs src dest)) p = contents fs p)"
  using assms copy_loop_room [of body "space fs" "[]"] copy_loop_full [of "space fs" body "[]"]
  by (auto simp: rpiwd_copyfile_def split: prod.splits)

definition sample_files :: files where
  "sample_files = \<lparr>contents = [''/skel'' \<mapsto> ''text''], unreadable = (\<lambda>_. False), unwritable = (\<lambda>_. False), space = 100\<rparr>"

theorem copyfile_exact_witness:
  "rpiwd_copyfile sample_files ''/skel'' ''/etc'' =
    (1, sample_files\<lparr>contents := (contents sample_files)(''/etc'' \<mapsto> ''text''), space := space sample_files - length ''text''\<rparr>)"
  using copyfile_exact [of sample_files "''/skel''" "''text''" "''/etc''"] by (simp add: sample_files_def)

text \<open>The sleep splits the milliseconds into seconds and nanoseconds without loss; the
  nanoseconds stay below one second and nothing wraps.\<close>
theorem sleep_split:
  "unat (fst (rpiwd_sleep ms)) * 1000000000 + unat (snd (rpiwd_sleep ms)) = unat ms * 1000000
   \<and> unat (snd (rpiwd_sleep ms)) < 1000000000"
proof -
  have q: "unat (ms div 1000) = unat ms div 1000" by (simp add: unat_div)
  have r: "unat (ms mod 1000) = unat ms mod 1000" by (simp add: unat_mod)
  have "unat (ms mod 1000) * unat (1000000 :: 32 word) < 2 ^ LENGTH(32)" using r by simp
  then have "unat (ms mod 1000 * 1000000) = unat ms mod 1000 * 1000000"
    using r by (subst unat_mult_lem [THEN iffD1]) simp_all
  moreover have "unat ms mod 1000 < 1000" "unat ms = 1000 * (unat ms div 1000) + unat ms mod 1000" by simp_all
  ultimately show ?thesis
    unfolding rpiwd_sleep_def fst_conv snd_conv q by linarith
qed

end
