(* ===== verification/Device.thy ===== *)
theory Device
  imports C_Float
begin

text \<open>
  \<^verbatim>\<open>src/devices/dht11.c\<close>, \<^verbatim>\<open>src/src/device.c\<close> and their headers. The levels of the data pins are
  the argument \<open>gpio\<close>: the level seen by the \<open>n\<close>-th \<open>digitalRead\<close> of a pin (True is HIGH). The
  measurement array is a list of cells, \<open>None\<close> for a cell that was never written.
\<close>

section \<open>The DHT11 sensor\<close>

definition RPIWD_DEVRETCODE_SUCCESS :: int where "RPIWD_DEVRETCODE_SUCCESS = 0"
definition RPIWD_DEVRETCODE_DEVICE_FAILURE :: int where "RPIWD_DEVRETCODE_DEVICE_FAILURE = - 1"
definition RPIWD_DEVRETCODE_DATA_FAILURE :: int where "RPIWD_DEVRETCODE_DATA_FAILURE = - 2"
definition RPIWD_DEVRETCODE_GENERAL_FAILURE :: int where "RPIWD_DEVRETCODE_GENERAL_FAILURE = - 3"
definition RPIWD_DEVRETCODE_MEMORY_ERROR :: int where "RPIWD_DEVRETCODE_MEMORY_ERROR = - 4"
definition RPIWD_DEVRETCODE_UNIT_ERROR :: int where "RPIWD_DEVRETCODE_UNIT_ERROR = - 5"

lemmas devretcode_defs = RPIWD_DEVRETCODE_SUCCESS_def RPIWD_DEVRETCODE_DEVICE_FAILURE_def
  RPIWD_DEVRETCODE_DATA_FAILURE_def RPIWD_DEVRETCODE_GENERAL_FAILURE_def
  RPIWD_DEVRETCODE_MEMORY_ERROR_def RPIWD_DEVRETCODE_UNIT_ERROR_def

definition DHT11_MAX_READS :: nat where "DHT11_MAX_READS = 96"
definition DHT11_MAX_RESULT_STRING_LEN :: nat where "DHT11_MAX_RESULT_STRING_LEN = 8"

type_synonym gpio = "int \<Rightarrow> nat \<Rightarrow> bool"
type_synonym measurements = "fp option list"

text \<open>
  Waiting for the level to leave \<open>last_state\<close>: the counter and the number of reads made so far.
  The counter goes up by one, so the test for 255 is a test for at least 255.
\<close>

function wait_change :: "(nat \<Rightarrow> bool) \<Rightarrow> bool \<Rightarrow> nat \<Rightarrow> nat \<Rightarrow> nat \<times> nat" where
  "wait_change pin last_state n counter =
     (if pin n = last_state then
        (if counter + 1 \<ge> 255 then (counter + 1, n + 1)
         else wait_change pin last_state (n + 1) (counter + 1))
      else (counter, n + 1))"
  by pat_completeness auto
termination
  by (relation "measure (\<lambda>(pin, last_state, n, counter). 255 - counter)") auto

declare wait_change.simps [simp del]

text \<open>The read loop from index \<open>i\<close> on; a store to \<open>data[j / 8]\<close> must stay within its five cells.\<close>

function dht11_read ::
  "(nat \<Rightarrow> bool) \<Rightarrow> nat \<Rightarrow> bool \<Rightarrow> nat \<Rightarrow> nat \<Rightarrow> int list \<Rightarrow> (nat \<times> int list) c" where
  "dht11_read pin i last_state n j data =
     (if DHT11_MAX_READS \<le> i then Inr (j, data)
      else case wait_change pin last_state n 0 of (counter, n') \<Rightarrow>
        let last_state' = pin n' in
        if counter = 255 then Inr (j, data)
        else if 4 \<le> i \<and> i mod 2 = 0 then
          (if 5 \<le> j div 8 then Inl BufferOverflow
           else let cell = 2 * (data ! (j div 8)) + (if 16 < counter then 1 else 0)
                in dht11_read pin (i + 1) last_state' (n' + 1) (j + 1) (data[j div 8 := cell]))
        else dht11_read pin (i + 1) last_state' (n' + 1) j data)"
  by pat_completeness auto
termination
  by (relation "measure (\<lambda>(pin, i, last_state, n, j, data). DHT11_MAX_READS - i)") auto

declare dht11_read.simps [simp del]

definition atof :: "string \<Rightarrow> fp" where "atof s = fst (strtod s)"

definition set_cell :: "measurements \<Rightarrow> nat \<Rightarrow> fp \<Rightarrow> measurements c" where
  "set_cell arr i v = (if i < length arr then Inr (arr[i := Some v]) else Inl BufferOverflow)"

definition show_reading :: "int \<Rightarrow> int \<Rightarrow> string c" where
  "show_reading a b = strcpy DHT11_MAX_RESULT_STRING_LEN (show_int a @ ''.'' @ show_int b)"

definition dht11_query_callback :: "gpio \<Rightarrow> int \<Rightarrow> measurements option \<Rightarrow> (int \<times> measurements option) c" where
  "dht11_query_callback gpio data_pin arr =
     cbind (dht11_read (gpio data_pin) 0 True 0 0 [0, 0, 0, 0, 0]) (\<lambda>(j, data).
       if 40 \<le> j \<and> data ! 4 = (data ! 0 + data ! 1 + data ! 2 + data ! 3) mod 256 then
         (case arr of
            None \<Rightarrow> Inr (RPIWD_DEVRETCODE_MEMORY_ERROR, None)
          | Some cells \<Rightarrow>
              cbind (show_reading (data ! 2) (data ! 3)) (\<lambda>buffer.
              cbind (set_cell cells 0 (fp_conv f32 (atof buffer))) (\<lambda>cells1.
              cbind (show_reading (data ! 0) (data ! 1)) (\<lambda>buffer2.
              cbind (set_cell cells1 1 (fp_conv f32 (atof buffer2))) (\<lambda>cells2.
                Inr (RPIWD_DEVRETCODE_SUCCESS, Some cells2))))))
       else Inr (RPIWD_DEVRETCODE_DATA_FAILURE, arr))"

definition dht11_test :: "gpio \<Rightarrow> int \<Rightarrow> bool" where
  "dht11_test gpio data_pin = gpio data_pin 0"

section \<open>The device table\<close>

definition RETCODE_DEVICE_INIT_OK :: int where "RETCODE_DEVICE_INIT_OK = 0"
definition RETCODE_DEVICE_INIT_UNKNOWN :: int where "RETCODE_DEVICE_INIT_UNKNOWN = - 1"

record device =
  dev_name :: "string option"
  pin_data :: int
  query_function :: "(gpio \<Rightarrow> int \<Rightarrow> measurements option \<Rightarrow> (int \<times> measurements option) c) option"
  test_function :: "(gpio \<Rightarrow> int \<Rightarrow> bool) option"

text \<open>The static table with its NULL sentinel, and the selected device as an index into it.\<close>

record device_state =
  supported :: "device list"
  selected_device :: "nat option"

definition supported_devices :: "device list" where
  "supported_devices =
     [\<lparr>dev_name = Some ''dht11'', pin_data = 0, query_function = Some dht11_query_callback,
       test_function = Some dht11_test\<rparr>,
      \<lparr>dev_name = None, pin_data = 0, query_function = None, test_function = None\<rparr>]"

definition device_state_init :: device_state where
  "device_state_init = \<lparr>supported = supported_devices, selected_device = None\<rparr>"

text \<open>The walk stops at the matching entry or at the sentinel.\<close>

fun find_device :: "device list \<Rightarrow> string \<Rightarrow> nat" where
  "find_device [] device_name = 0"
| "find_device (d # ds) device_name =
     (case dev_name d of
        None \<Rightarrow> 0
      | Some n \<Rightarrow> if n = device_name then 0 else Suc (find_device ds device_name))"

text \<open>The pointer is never NULL after the walk, so the test for it never fires.\<close>

definition device_init_by_name :: "device_state \<Rightarrow> string option \<Rightarrow> int \<Rightarrow> (int \<times> device_state) c" where
  "device_init_by_name st device_name data_pin =
     cbind (deref device_name) (\<lambda>name.
       let ptr = find_device (supported st) name in
       if length (supported st) \<le> ptr then Inl OutOfBounds
       else let d = supported st ! ptr;
                tab = (if dev_name d = Some name then (supported st)[ptr := d\<lparr>pin_data := data_pin\<rparr>]
                       else supported st)
            in Inr (RETCODE_DEVICE_INIT_OK, st\<lparr>supported := tab, selected_device := Some ptr\<rparr>))"

definition get_current_device :: "device_state \<Rightarrow> device option" where
  "get_current_device st = (case selected_device st of None \<Rightarrow> None | Some i \<Rightarrow> Some (supported st ! i))"

definition device_test_current :: "device_state \<Rightarrow> gpio \<Rightarrow> bool c" where
  "device_test_current st gpio =
     cbind (deref (get_current_device st)) (\<lambda>d.
     cbind (deref (test_function d)) (\<lambda>f. Inr (f gpio (pin_data d))))"

definition device_query_current ::
  "device_state \<Rightarrow> gpio \<Rightarrow> measurements option \<Rightarrow> (int \<times> measurements option) c" where
  "device_query_current st gpio arr =
     cbind (deref (get_current_device st)) (\<lambda>d.
     cbind (deref (query_function d)) (\<lambda>f. f gpio (pin_data d) arr))"

definition device_names :: "device list \<Rightarrow> string list" where
  "device_names ds = map (\<lambda>d. the (dev_name d)) (takeWhile (\<lambda>d. dev_name d \<noteq> None) ds)"

definition print_supported_device_names :: "device list \<Rightarrow> string" where
  "print_supported_device_names ds =
     ''Supported devices:'' @ [CHR 0x0A] @ concat (map (\<lambda>n. n @ '', '') (device_names ds)) @ [CHR 0x0A]"

section \<open>Reference decoder\<close>

text \<open>The counters the loop sees, up to the first timeout, and the bits among them.\<close>

fun counters :: "(nat \<Rightarrow> bool) \<Rightarrow> nat \<Rightarrow> bool \<Rightarrow> nat \<Rightarrow> nat list" where
  "counters pin 0 last_state n = []"
| "counters pin (Suc k) last_state n =
     (case wait_change pin last_state n 0 of (counter, n') \<Rightarrow>
        if counter = 255 then [] else counter # counters pin k (pin n') (n' + 1))"

fun sampled_bits :: "nat \<Rightarrow> nat list \<Rightarrow> bool list" where
  "sampled_bits i [] = []"
| "sampled_bits i (c # cs) =
     (if 4 \<le> i \<and> i mod 2 = 0 then [16 < c] else []) @ sampled_bits (i + 1) cs"

definition bits_val :: "bool list \<Rightarrow> int" where
  "bits_val bs = foldl (\<lambda>a b. 2 * a + (if b then 1 else 0)) 0 bs"

definition bytes_of :: "bool list \<Rightarrow> int list" where
  "bytes_of bs = map (\<lambda>k. bits_val (take 8 (drop (8 * k) bs))) [0..<5]"

definition dht11_bits :: "(nat \<Rightarrow> bool) \<Rightarrow> bool list" where
  "dht11_bits pin = sampled_bits 0 (counters pin DHT11_MAX_READS True 0)"

section \<open>Lemmas: the loop and the reference decoder\<close>

lemma bits_val_snoc: "bits_val (bs @ [b]) = 2 * bits_val bs + (if b then 1 else 0)"
  by (simp add: bits_val_def)

lemma bits_val_Nil [simp]: "bits_val [] = 0"
  by (simp add: bits_val_def)

lemma bits_val_bound: "0 \<le> bits_val bs \<and> bits_val bs < 2 ^ length bs"
  by (induction bs rule: rev_induct) (auto simp: bits_val_snoc)

lemma bytes_of_snoc:
  assumes "length bs < 40"
  shows "bytes_of (bs @ [b]) =
    (bytes_of bs)[length bs div 8 := 2 * (bytes_of bs ! (length bs div 8)) + (if b then 1 else 0)]"
proof (rule nth_equalityI)
  fix k assume "k < length (bytes_of (bs @ [b]))"
  then have k: "k < 5" by (simp add: bytes_of_def)
  let ?j = "length bs"
  consider "k < ?j div 8" | "k = ?j div 8" | "?j div 8 < k" by linarith
  then show "bytes_of (bs @ [b]) ! k =
      (bytes_of bs)[?j div 8 := 2 * (bytes_of bs ! (?j div 8)) + (if b then 1 else 0)] ! k"
  proof cases
    case 1
    then have "8 * k + 8 \<le> ?j" by presburger
    then show ?thesis using k 1 by (simp add: bytes_of_def)
  next
    case 2
    then have "8 * k \<le> ?j" "?j < 8 * k + 8" by presburger+
    then have "take 8 (drop (8 * k) (bs @ [b])) = take 8 (drop (8 * k) bs) @ [b]" by simp
    then show ?thesis using k 2 by (simp add: bytes_of_def bits_val_snoc)
  next
    case 3
    then have "?j < 8 * k" by presburger
    then show ?thesis using k 3 by (simp add: bytes_of_def)
  qed
qed (simp add: bytes_of_def)

lemma dht11_read_eq:
  "i + k = 96 \<Longrightarrow> length bs \<le> 40 \<Longrightarrow>
   dht11_read pin i lst n (length bs) (bytes_of bs) =
     (let all = bs @ sampled_bits i (counters pin k lst n)
      in if 40 < length all then Inl BufferOverflow else Inr (length all, bytes_of all))"
proof (induction k arbitrary: i lst n bs)
  case 0
  then show ?case by (subst dht11_read.simps) (simp add: DHT11_MAX_READS_def)
next
  case (Suc k)
  obtain counter n' where w: "wait_change pin lst n 0 = (counter, n')" by fastforce
  have i: "\<not> DHT11_MAX_READS \<le> i" using Suc.prems by (simp add: DHT11_MAX_READS_def)
  show ?case
  proof (cases "counter = 255")
    case True
    then show ?thesis using w i Suc.prems by (subst dht11_read.simps) simp
  next
    case False
    show ?thesis
    proof (cases "4 \<le> i \<and> i mod 2 = 0")
      case bit: True
      show ?thesis
      proof (cases "length bs = 40")
        case True
        then show ?thesis using w i False bit by (subst dht11_read.simps) (simp add: Let_def)
      next
        case short: False
        let ?b = "16 < counter"
        have "dht11_read pin (i + 1) (pin n') (n' + 1) (length (bs @ [?b])) (bytes_of (bs @ [?b])) =
            (let all = (bs @ [?b]) @ sampled_bits (i + 1) (counters pin k (pin n') (n' + 1))
             in if 40 < length all then Inl BufferOverflow else Inr (length all, bytes_of all))"
          using Suc.prems short by (intro Suc.IH) auto
        moreover have "dht11_read pin i lst n (length bs) (bytes_of bs) =
            dht11_read pin (i + 1) (pin n') (n' + 1) (length (bs @ [?b])) (bytes_of (bs @ [?b]))"
        proof -
          have "length bs < 40" "\<not> 5 \<le> length bs div 8" using short Suc.prems by simp_all
          then show ?thesis
            using w i False bit by (subst dht11_read.simps) (simp add: Let_def bytes_of_snoc)
        qed
        ultimately show ?thesis using w False bit by simp
      qed
    next
      case nobit: False
      show ?thesis
        using w i False Suc.prems Suc.IH [of "i + 1" bs "pin n'" "n' + 1"]
        by (subst dht11_read.simps) (simp add: Let_def if_not_P [OF nobit])
    qed
  qed
qed

lemma bytes_of_range: "k < 5 \<Longrightarrow> 0 \<le> bytes_of bs ! k \<and> bytes_of bs ! k < 256"
proof -
  assume k: "k < 5"
  let ?b = "take 8 (drop (8 * k) bs)"
  have "(2 :: int) ^ length ?b \<le> 2 ^ 8" by (rule power_increasing) auto
  then show ?thesis using k bits_val_bound [of ?b] by (simp add: bytes_of_def)
qed

lemma show_reading_fits:
  assumes "0 \<le> a" "a < 256" "0 \<le> b" "b < 256"
  shows "show_reading a b = Inr (show_int a @ ''.'' @ show_int b)"
  using length_show_nat [of 3 "nat a"] length_show_nat [of 3 "nat b"] assms
  by (simp add: show_reading_def show_int_def DHT11_MAX_RESULT_STRING_LEN_def nat_less_iff)

definition checksum_ok :: "bool list \<Rightarrow> bool" where
  "checksum_ok bs \<longleftrightarrow> length bs = 40 \<and>
     bytes_of bs ! 4 = (bytes_of bs ! 0 + bytes_of bs ! 1 + bytes_of bs ! 2 + bytes_of bs ! 3) mod 256"

definition reading :: "bool list \<Rightarrow> nat \<Rightarrow> fp" where
  "reading bs k = fp_conv f32 (atof (show_int (bytes_of bs ! k) @ ''.'' @ show_int (bytes_of bs ! (k + 1))))"

lemma dht11_query_eq:
  assumes "length cells \<ge> 2"
  shows "dht11_query_callback gpio pin (Some cells) =
    (let bs = dht11_bits (gpio pin)
     in if 40 < length bs then Inl BufferOverflow
        else if checksum_ok bs then Inr (RPIWD_DEVRETCODE_SUCCESS, Some (cells[0 := Some (reading bs 2), 1 := Some (reading bs 0)]))
        else Inr (RPIWD_DEVRETCODE_DATA_FAILURE, Some cells))"
proof -
  have init: "bytes_of [] = [0, 0, 0, 0, 0]" by (simp add: bytes_of_def upt_rec)
  have "dht11_read (gpio pin) 0 True 0 0 [0, 0, 0, 0, 0] =
      (let bs = dht11_bits (gpio pin) in if 40 < length bs then Inl BufferOverflow else Inr (length bs, bytes_of bs))"
    using dht11_read_eq [of 0 96 "[]" "gpio pin" True 0] by (simp add: init dht11_bits_def DHT11_MAX_READS_def)
  moreover have "show_reading (bytes_of bs ! k) (bytes_of bs ! l) = Inr (show_int (bytes_of bs ! k) @ ''.'' @ show_int (bytes_of bs ! l))"
    if "k < 5" "l < 5" for bs k l
    using bytes_of_range [OF that(1), of bs] bytes_of_range [OF that(2), of bs] by (intro show_reading_fits) auto
  ultimately show ?thesis
    using assms
    by (auto simp: dht11_query_callback_def Let_def checksum_ok_def reading_def set_cell_def)
qed

section \<open>The sensor interface\<close>

text \<open>
  What the daemon relies on: a query of an array with room for the two measurements that returns
  reports success or a data failure; on success both cells are written, on failure none is.
\<close>

locale sensor =
  fixes query :: "gpio \<Rightarrow> int \<Rightarrow> measurements option \<Rightarrow> (int \<times> measurements option) c"
  assumes codes: "2 \<le> length cells \<Longrightarrow> query g pin (Some cells) = Inr (ret, out) \<Longrightarrow>
      ret = RPIWD_DEVRETCODE_SUCCESS \<or> ret = RPIWD_DEVRETCODE_DATA_FAILURE"
    and success: "2 \<le> length cells \<Longrightarrow> query g pin (Some cells) = Inr (RPIWD_DEVRETCODE_SUCCESS, out) \<Longrightarrow>
      \<exists>t h. out = Some (cells[0 := Some t, 1 := Some h])"
    and failure: "2 \<le> length cells \<Longrightarrow> query g pin (Some cells) = Inr (RPIWD_DEVRETCODE_DATA_FAILURE, out) \<Longrightarrow>
      out = Some cells"
begin

lemma keeps_length: "2 \<le> length cells \<Longrightarrow> query g pin (Some cells) = Inr (ret, out) \<Longrightarrow>
    \<exists>cells'. out = Some cells' \<and> length cells' = length cells"
  using codes [of cells g pin ret out] success [of cells g pin out] failure [of cells g pin out] by auto

lemma written: "2 \<le> length cells \<Longrightarrow> query g pin (Some cells) = Inr (RPIWD_DEVRETCODE_SUCCESS, out) \<Longrightarrow>
    \<exists>cells'. out = Some cells' \<and> cells' ! 0 \<noteq> None \<and> cells' ! 1 \<noteq> None"
  using success [of cells g pin out] by (cases cells; cases "tl cells") auto

end

interpretation dht11: sensor dht11_query_callback
  by unfold_locales (auto simp: dht11_query_eq Let_def devretcode_defs split: if_splits)

lemma init_dht11:
  "device_init_by_name device_state_init (Some ''dht11'') pin =
   Inr (RETCODE_DEVICE_INIT_OK, \<lparr>supported = supported_devices[0 := (supported_devices ! 0)\<lparr>pin_data := pin\<rparr>],
        selected_device = Some 0\<rparr>)"
  by (simp add: device_init_by_name_def device_state_init_def supported_devices_def)

lemma query_dht11:
  assumes "device_init_by_name device_state_init (Some ''dht11'') pin = Inr (r, st)"
  shows "device_query_current st gpio arr = dht11_query_callback gpio pin arr"
  using assms by (auto simp: init_dht11 device_query_current_def get_current_device_def supported_devices_def)

section \<open>Properties\<close>

text \<open>C12. The bit-banging loop implements the reference decoder of the sensor's protocol: with
  at most 40 sampled bits the query succeeds exactly when all 40 are there and the fifth byte is the
  sum of the first four modulo 256; it then stores the temperature from bytes 2 and 3 and the
  humidity from bytes 0 and 1, and a failed query leaves the array alone. The text buffer of 8 bytes
  always suffices.\<close>
theorem dht11_query_decodes:
  assumes "2 \<le> length cells" "length (dht11_bits (gpio pin)) \<le> 40"
  shows "dht11_query_callback gpio pin (Some cells) =
    (let bs = dht11_bits (gpio pin)
     in if checksum_ok bs
        then Inr (RPIWD_DEVRETCODE_SUCCESS, Some (cells[0 := Some (reading bs 2), 1 := Some (reading bs 0)]))
        else Inr (RPIWD_DEVRETCODE_DATA_FAILURE, Some cells))"
  using assms by (simp add: dht11_query_eq Let_def)

lemma wait_stuck: "c < 255 \<Longrightarrow> (\<And>m. n \<le> m \<Longrightarrow> pin m = l) \<Longrightarrow> wait_change pin l n c = (255, n + 255 - c)"
proof (induction "255 - c" arbitrary: c n)
  case (Suc k)
  then show ?case by (subst wait_change.simps) auto
qed simp

lemma dht11_bits_stuck: "dht11_bits (\<lambda>_. True) = []"
  using wait_stuck [of 0 0 "\<lambda>_. True" True] by (simp add: dht11_bits_def DHT11_MAX_READS_def numeral_eq_Suc)

theorem dht11_query_decodes_witness:
  "dht11_query_callback (\<lambda>_ _. True) 7 (Some [None, None]) =
    (let bs = dht11_bits ((\<lambda>_ _. True) (7 :: int))
     in if checksum_ok bs
        then Inr (RPIWD_DEVRETCODE_SUCCESS, Some ([None, None][0 := Some (reading bs 2), 1 := Some (reading bs 0)]))
        else Inr (RPIWD_DEVRETCODE_DATA_FAILURE, Some [None, None]))"
  by (rule dht11_query_decodes) (simp_all add: dht11_bits_stuck)

lemma length_sampled_bits:
  "length (sampled_bits i cs) = length (filter (\<lambda>j. 4 \<le> j \<and> j mod 2 = 0) [i..<i + length cs])"
proof (induction cs arbitrary: i)
  case (Cons c cs)
  have upt: "[i..<i + length (c # cs)] = i # [i + 1..<i + 1 + length cs]"
    by (simp add: upt_conv_Cons del: upt_Suc)
  show ?case by (simp only: upt filter.simps sampled_bits.simps length_append Cons.IH) simp
qed simp

lemma counters_toggling: "length (counters odd k b n) = k"
proof (induction k arbitrary: b n)
  case (Suc k)
  have "wait_change odd True n 0 = (if odd n then 1 else 0, if odd n then n + 2 else n + 1)"
    "wait_change odd False n 0 = (if odd n then 0 else 1, if odd n then n + 1 else n + 2)"
    by (simp_all add: wait_change.simps)
  with Suc show ?case by (cases b) simp_all
qed simp

text \<open>The loop samples up to 46 bits but has room for 40: a line that keeps toggling makes it
  write past the five data cells. A square wave is such a line.\<close>
theorem dht11_toggling_overflows:
  assumes "2 \<le> length cells"
  shows "dht11_query_callback (\<lambda>_ n. odd n) pin (Some cells) = Inl BufferOverflow"
proof -
  have "length (dht11_bits odd) = length (filter (\<lambda>j. 4 \<le> j \<and> j mod 2 = 0) [0..<0 + 96])"
    unfolding dht11_bits_def length_sampled_bits counters_toggling DHT11_MAX_READS_def ..
  also have "\<dots> = 46" by (simp add: upt_rec)
  finally show ?thesis using dht11_query_eq [OF assms, of "\<lambda>_. odd" pin] by simp
qed

theorem dht11_toggling_overflows_witness:
  "dht11_query_callback (\<lambda>_ n. odd n) 7 (Some [None, None]) = Inl BufferOverflow"
  by (rule dht11_toggling_overflows) simp

text \<open>A line that sends 40 short pulses and then rests reads as 40 zero bits, a valid reading.\<close>

definition zero_line :: "nat \<Rightarrow> bool" where
  "zero_line n \<longleftrightarrow> odd n \<or> 168 \<le> n"

lemma counters_zero_line: "counters zero_line k True (2 * i) = replicate (min k (84 - i)) 0"
proof (induction k arbitrary: i)
  case (Suc k)
  show ?case
  proof (cases "i < 84")
    case True
    then have "wait_change zero_line True (2 * i) 0 = (0, 2 * i + 1)" "zero_line (2 * i + 1)"
      by (simp_all add: wait_change.simps [of zero_line] zero_line_def)
    moreover have "min (Suc k) (84 - i) = Suc (min k (84 - (i + 1)))" using True by simp
    ultimately show ?thesis using Suc.IH [of "i + 1"] by simp
  next
    case False
    then have "wait_change zero_line True (2 * i) 0 = (255, 2 * i + 255)"
      using wait_stuck [of 0 "2 * i" zero_line True] by (simp add: zero_line_def)
    with False show ?thesis by simp
  qed
qed simp

lemma sampled_zero: "set (sampled_bits i (replicate k 0)) \<subseteq> {False}"
  by (induction k arbitrary: i) auto

lemma zero_line_bits: "dht11_bits zero_line = replicate 40 False"
proof -
  have c: "counters zero_line 96 True 0 = replicate 84 0" using counters_zero_line [of 96 0] by simp
  have "length (sampled_bits 0 (replicate 84 0)) = length (filter (\<lambda>j. 4 \<le> j \<and> j mod 2 = 0) [0..<0 + 84])"
    unfolding length_sampled_bits length_replicate ..
  also have "\<dots> = 40" by (simp add: upt_rec)
  finally show ?thesis
    using sampled_zero [of 0 84]
    by (intro replicate_eqI) (auto simp: dht11_bits_def DHT11_MAX_READS_def c)
qed

lemma zero_line_reading:
  assumes "2 \<le> length cells"
  shows "dht11_query_callback (\<lambda>_. zero_line) pin (Some cells) =
   Inr (RPIWD_DEVRETCODE_SUCCESS, Some (cells[0 := Some (reading (replicate 40 False) 2), 1 := Some (reading (replicate 40 False) 0)]))"
proof -
  have "bits_val (replicate k False) = 0" for k
    by (induction k) (simp_all add: bits_val_snoc replicate_append_same [symmetric])
  then have "checksum_ok (replicate 40 False)" by (simp add: checksum_ok_def bytes_of_def upt_rec)
  then show ?thesis by (simp add: dht11_query_eq [OF assms] zero_line_bits Let_def)
qed

text \<open>Selecting the sensor by its name directs every later query to the DHT11 driver on the
  configured pin.\<close>
theorem device_init_selects:
  assumes "device_init_by_name device_state_init (Some ''dht11'') pin = Inr (r, st)"
  shows "r = RETCODE_DEVICE_INIT_OK \<and> device_query_current st gpio arr = dht11_query_callback gpio pin arr \<and>
    device_test_current st gpio = Inr (gpio pin 0)"
  using assms query_dht11 [OF assms]
  by (auto simp: init_dht11 device_test_current_def get_current_device_def supported_devices_def dht11_test_def)

theorem device_init_selects_witness:
  "RETCODE_DEVICE_INIT_OK = RETCODE_DEVICE_INIT_OK \<and>
   device_query_current \<lparr>supported = supported_devices[0 := (supported_devices ! 0)\<lparr>pin_data := 4\<rparr>], selected_device = Some 0\<rparr>
     (\<lambda>_ _. True) None = dht11_query_callback (\<lambda>_ _. True) 4 None \<and>
   device_test_current \<lparr>supported = supported_devices[0 := (supported_devices ! 0)\<lparr>pin_data := 4\<rparr>], selected_device = Some 0\<rparr>
     (\<lambda>_ _. True) = Inr ((\<lambda>_ _. True) (4 :: int) (0 :: nat))"
  by (rule device_init_selects) (rule init_dht11)

text \<open>An unknown device name is accepted as well: the walk ends on the sentinel, which is not
  NULL, the call returns success, and the first query or test calls through a NULL pointer.\<close>
theorem device_init_unknown:
  assumes "name \<noteq> ''dht11''"
  shows "\<exists>st. device_init_by_name device_state_init (Some name) pin = Inr (RETCODE_DEVICE_INIT_OK, st) \<and>
    device_query_current st gpio arr = Inl NullDeref \<and> device_test_current st gpio = Inl NullDeref"
  using assms
  by (simp add: device_init_by_name_def device_state_init_def supported_devices_def Let_def
      device_query_current_def device_test_current_def get_current_device_def)

theorem device_init_unknown_witness:
  "\<exists>st. device_init_by_name device_state_init (Some ''dht22'') 4 = Inr (RETCODE_DEVICE_INIT_OK, st) \<and>
    device_query_current st (\<lambda>_ _. True) None = Inl NullDeref \<and> device_test_current st (\<lambda>_ _. True) = Inl NullDeref"
  by (rule device_init_unknown) simp

end
