(* ===== verification/Parson.thy ===== *)
theory Parson
  imports Util "HOL-Library.AList"
begin

text \<open>
  The part of the bundled JSON library (\<^verbatim>\<open>src/deps/parson.c\<close>) that the daemon runs: the
  value type, UTF-8 validation, objects as growing arrays of name/value pairs with a
  capacity, the plain and the dotted setters and getters, and the two-pass serializer.
  The flag \<open>mem\<close> says whether \<open>parson_malloc\<close> returns memory during the call. Mutation of
  an object through a pointer is an updated object in the result; a \<open>JSON_Status\<close> is a
  boolean.
\<close>

unbundle bit_operations_syntax

section \<open>Values and objects\<close>

text \<open>Arrays and objects carry their capacity beside their items.\<close>

datatype json =
    JSONNull
  | JSONBoolean bool
  | JSONNumber fp
  | JSONString string
  | JSONArray nat "json list"
  | JSONObject nat "(string \<times> json) list"

type_synonym jobject = "nat \<times> (string \<times> json) list"

definition STARTING_CAPACITY :: nat where "STARTING_CAPACITY = 15"
definition OBJECT_MAX_CAPACITY :: nat where "OBJECT_MAX_CAPACITY = 960"

definition json_object_init :: jobject where "json_object_init = (0, [])"

definition json_value_init_object :: "bool \<Rightarrow> jobject option" where
  "json_value_init_object mem = (if mem then Some json_object_init else None)"

definition json_value_get_object :: "json option \<Rightarrow> jobject option" where
  "json_value_get_object v = (case v of Some (JSONObject cap kvs) \<Rightarrow> Some (cap, kvs) | _ \<Rightarrow> None)"

definition json_object_get_count :: "jobject \<Rightarrow> nat" where
  "json_object_get_count obj = length (snd obj)"

text \<open>The loop of \<open>json_object_nget_value\<close> returns the first pair of that name.\<close>

definition json_object_nget_value :: "jobject \<Rightarrow> string \<Rightarrow> nat \<Rightarrow> json option" where
  "json_object_nget_value obj name n = map_of (snd obj) (take n name)"

definition json_object_get_value :: "jobject \<Rightarrow> string \<Rightarrow> json option" where
  "json_object_get_value obj name = json_object_nget_value obj name (length name)"

definition json_object_get_object :: "jobject \<Rightarrow> string \<Rightarrow> jobject option" where
  "json_object_get_object obj name = json_value_get_object (json_object_get_value obj name)"

function json_object_dotget_value :: "jobject option \<Rightarrow> string \<Rightarrow> json option" where
  "json_object_dotget_value obj name =
     (case obj of None \<Rightarrow> None
      | Some ob \<Rightarrow>
          if CHR ''.'' \<in> set name then
            json_object_dotget_value
              (json_value_get_object
                 (json_object_nget_value ob name (length (takeWhile (\<lambda>c. c \<noteq> CHR ''.'') name))))
              (drop 1 (dropWhile (\<lambda>c. c \<noteq> CHR ''.'') name))
          else json_object_get_value ob name)"
  by pat_completeness auto
termination
proof (relation "measure (\<lambda>(obj, name). length name)")
  fix ob :: jobject and name :: string
  assume "CHR ''.'' \<in> set name"
  then have "dropWhile (\<lambda>c. c \<noteq> CHR ''.'') name \<noteq> []" by auto
  then show "((json_value_get_object
         (json_object_nget_value ob name (length (takeWhile (\<lambda>c. c \<noteq> CHR ''.'') name))),
       drop 1 (dropWhile (\<lambda>c. c \<noteq> CHR ''.'') name)), (obj, name))
      \<in> measure (\<lambda>(obj, name). length name)" for obj
    using length_dropWhile_le [of "\<lambda>c. c \<noteq> CHR ''.''" name]
    by (cases "dropWhile (\<lambda>c. c \<noteq> CHR ''.'') name") auto
qed simp

declare json_object_dotget_value.simps [simp del]

section \<open>Growing an object\<close>

definition json_object_resize :: "bool \<Rightarrow> jobject \<Rightarrow> nat \<Rightarrow> bool \<times> jobject" where
  "json_object_resize mem obj new_capacity =
     (if new_capacity = 0 then (False, obj)
      else if \<not> mem then (False, obj)
      else (True, (new_capacity, snd obj)))"

definition json_object_add :: "bool \<Rightarrow> jobject \<Rightarrow> string \<Rightarrow> json \<Rightarrow> bool \<times> jobject" where
  "json_object_add mem obj name value =
     (if json_object_get_value obj name \<noteq> None then (False, obj)
      else
        let new_capacity = max (fst obj * 2) STARTING_CAPACITY;
            full = (length (snd obj) \<ge> fst obj);
            (ok, obj1) = (if full then
                            (if new_capacity > OBJECT_MAX_CAPACITY then (False, obj)
                             else json_object_resize mem obj new_capacity)
                          else (True, obj))
        in if \<not> ok then (False, obj1)
           else if \<not> mem then (False, obj1) \<comment> \<open>\<open>parson_strdup (name)\<close>\<close>
           else (True, (fst obj1, snd obj1 @ [(name, value)])))"

definition json_object_set_value :: "bool \<Rightarrow> jobject \<Rightarrow> string \<Rightarrow> json option \<Rightarrow> bool \<times> jobject" where
  "json_object_set_value mem obj name value =
     (case value of
        None \<Rightarrow> (False, obj)
      | Some v \<Rightarrow>
          if json_object_get_value obj name \<noteq> None
          then (True, (fst obj, AList.update name v (snd obj)))
          else json_object_add mem obj name v)"

text \<open>A nested object that is changed through \<open>temp_obj\<close>.\<close>

definition put_object :: "jobject \<Rightarrow> string \<Rightarrow> jobject \<Rightarrow> jobject" where
  "put_object obj name sub = (fst obj, AList.update name (JSONObject (fst sub) (snd sub)) (snd obj))"

function json_object_dotset_value ::
  "bool \<Rightarrow> jobject \<Rightarrow> string \<Rightarrow> json option \<Rightarrow> bool \<times> jobject" where
  "json_object_dotset_value mem obj name value =
     (if value = None then (False, obj)
      else if CHR ''.'' \<notin> set name then json_object_set_value mem obj name value
      else if \<not> mem then (False, obj) \<comment> \<open>\<open>current_name\<close> is NULL, no object is found, none is made\<close>
      else
        let current_name = takeWhile (\<lambda>c. c \<noteq> CHR ''.'') name;
            rest = drop 1 (dropWhile (\<lambda>c. c \<noteq> CHR ''.'') name)
        in case json_object_get_object obj current_name of
             Some temp_obj \<Rightarrow>
               (let (ok, temp_obj') = json_object_dotset_value mem temp_obj rest value
                in (ok, put_object obj current_name temp_obj'))
           | None \<Rightarrow>
               (case json_value_init_object mem of
                  None \<Rightarrow> (False, obj)
                | Some new_obj \<Rightarrow>
                    (case json_object_add mem obj current_name
                            (JSONObject (fst new_obj) (snd new_obj)) of
                       (False, obj1) \<Rightarrow> (False, obj1)
                     | (True, obj1) \<Rightarrow>
                         (let (ok, temp_obj') = json_object_dotset_value mem new_obj rest value
                          in (ok, put_object obj1 current_name temp_obj')))))"
  by pat_completeness auto

lemma after_dot_shorter:
  "CHR ''.'' \<in> set name \<Longrightarrow> length (dropWhile (\<lambda>c. c \<noteq> CHR ''.'') name) - Suc 0 < length name"
proof -
  assume "CHR ''.'' \<in> set name"
  then have "dropWhile (\<lambda>c. c \<noteq> CHR ''.'') name \<noteq> []" by auto
  then show ?thesis
    using length_dropWhile_le [of "\<lambda>c. c \<noteq> CHR ''.''" name]
    by (cases "dropWhile (\<lambda>c. c \<noteq> CHR ''.'') name") auto
qed

termination json_object_dotset_value
  by (relation "measure (\<lambda>(mem, obj, name, value). length name)") (auto simp: after_dot_shorter)

declare json_object_dotset_value.simps [simp del]

section \<open>UTF-8 validation\<close>

definition IS_CONT :: "nat \<Rightarrow> bool" where "IS_CONT b \<longleftrightarrow> b AND 0xC0 = 0x80"

definition num_bytes_in_utf8_sequence :: "nat \<Rightarrow> nat" where
  "num_bytes_in_utf8_sequence c =
     (if c = 0xC0 \<or> c = 0xC1 \<or> c > 0xF4 \<or> IS_CONT c then 0
      else if c AND 0x80 = 0 then 1
      else if c AND 0xE0 = 0xC0 then 2
      else if c AND 0xF0 = 0xE0 then 3
      else if c AND 0xF8 = 0xF0 then 4
      else 0)"

text \<open>Byte \<open>i\<close> of a C string; at its end the terminator is read.\<close>

definition byte :: "string \<Rightarrow> nat \<Rightarrow> nat" where
  "byte s i = (if i < length s then code (s ! i) else 0)"

text \<open>The result: 0 for an invalid sequence, else its length.\<close>

definition verify_utf8_sequence :: "string \<Rightarrow> nat" where
  "verify_utf8_sequence s =
     (let len = num_bytes_in_utf8_sequence (byte s 0);
          cp_ok =
            (if len = 1 then Some (byte s 0)
             else if len = 2 \<and> IS_CONT (byte s 1) then
               Some (push_bit 6 (byte s 0 AND 0x1F) OR (byte s 1 AND 0x3F))
             else if len = 3 \<and> IS_CONT (byte s 1) \<and> IS_CONT (byte s 2) then
               Some (push_bit 6 (push_bit 6 (byte s 0 AND 0xF) OR (byte s 1 AND 0x3F))
                     OR (byte s 2 AND 0x3F))
             else if len = 4 \<and> IS_CONT (byte s 1) \<and> IS_CONT (byte s 2) \<and> IS_CONT (byte s 3) then
               Some (push_bit 6 (push_bit 6 (push_bit 6 (byte s 0 AND 0x7) OR (byte s 1 AND 0x3F))
                                 OR (byte s 2 AND 0x3F))
                     OR (byte s 3 AND 0x3F))
             else None)
      in case cp_ok of
           None \<Rightarrow> 0
         | Some cp \<Rightarrow>
             if cp < 0x80 \<and> len > 1 \<or> cp < 0x800 \<and> len > 2 \<or> cp < 0x10000 \<and> len > 3 then 0
             else if cp > 0x10FFFF then 0
             else if cp \<ge> 0xD800 \<and> cp \<le> 0xDFFF then 0
             else len)"

function is_valid_utf8 :: "string \<Rightarrow> bool" where
  "is_valid_utf8 s =
     (if s = [] then True
      else if verify_utf8_sequence s = 0 then False
      else is_valid_utf8 (drop (verify_utf8_sequence s) s))"
  by pat_completeness auto
termination
  by (relation "measure length") auto

declare is_valid_utf8.simps [simp del]

lemma verify_ascii: "code c < 128 \<Longrightarrow> verify_utf8_sequence (c # cs) = 1"
proof -
  assume c: "code c < 128"
  have "n AND 0x80 = 0 \<and> n AND 0xC0 \<noteq> 0x80" if "n < 128" for n :: nat
  proof -
    have b: "\<not> bit n 7" using that by (simp add: bit_iff_odd)
    then have "n AND 2 ^ 7 = 0" by (simp only: and_exp_eq_0_iff_not_bit not_False_eq_True)
    moreover have "\<not> bit (n AND 0xC0) 7" using b by (simp add: bit_and_iff)
    then have "n AND 0xC0 \<noteq> 0x80" by (auto simp: bit_iff_odd)
    ultimately show ?thesis by simp
  qed
  from this [OF c] c show ?thesis
    by (simp add: verify_utf8_sequence_def num_bytes_in_utf8_sequence_def IS_CONT_def byte_def)
qed

lemma is_valid_ascii: "\<forall>c \<in> set s. code c < 128 \<Longrightarrow> is_valid_utf8 s"
  by (induction s) (simp_all add: is_valid_utf8.simps verify_ascii)

lemma is_valid_Nil [simp]: "is_valid_utf8 []"
  by (simp add: is_valid_utf8.simps)

section \<open>Values from C data, and the setters of the API\<close>

definition json_value_init_string :: "bool \<Rightarrow> string option \<Rightarrow> json option" where
  "json_value_init_string mem str =
     (case str of
        None \<Rightarrow> None
      | Some s \<Rightarrow> if \<not> is_valid_utf8 s then None
                  else if \<not> mem then None else Some (JSONString s))"

definition json_value_init_number :: "bool \<Rightarrow> fp \<Rightarrow> json option" where
  "json_value_init_number mem n = (if mem then Some (JSONNumber n) else None)"

definition json_object_set_string :: "bool \<Rightarrow> jobject \<Rightarrow> string \<Rightarrow> string option \<Rightarrow> bool \<times> jobject" where
  "json_object_set_string mem obj name str =
     json_object_set_value mem obj name (json_value_init_string mem str)"

definition json_object_set_number :: "bool \<Rightarrow> jobject \<Rightarrow> string \<Rightarrow> fp \<Rightarrow> bool \<times> jobject" where
  "json_object_set_number mem obj name n =
     json_object_set_value mem obj name (json_value_init_number mem n)"

definition json_object_dotset_string ::
  "bool \<Rightarrow> jobject \<Rightarrow> string \<Rightarrow> string option \<Rightarrow> bool \<times> jobject" where
  "json_object_dotset_string mem obj name str =
     (case json_value_init_string mem str of
        None \<Rightarrow> (False, obj)
      | Some v \<Rightarrow> json_object_dotset_value mem obj name (Some v))"

definition json_object_dotset_number :: "bool \<Rightarrow> jobject \<Rightarrow> string \<Rightarrow> fp \<Rightarrow> bool \<times> jobject" where
  "json_object_dotset_number mem obj name n =
     (case json_value_init_number mem n of
        None \<Rightarrow> (False, obj)
      | Some v \<Rightarrow> json_object_dotset_value mem obj name (Some v))"

section \<open>Serialization\<close>

text \<open>
  \<open>json_serialize_to_buffer_r\<close> runs twice: with a NULL buffer it only counts, then it writes.
  The flag \<open>buf\<close> tells the two apart. The state of a pass is \<open>written_total\<close>, an \<open>int\<close>, and the text
  appended to the buffer. The error is the return value \<open>-1\<close> or undefined behaviour, in a number
  conversion or when the total exceeds the largest \<open>int\<close>.
\<close>

datatype ser_error = SerFail | SerUB ub

type_synonym ser = "ser_error + (nat \<times> string)"

definition append_string :: "bool \<Rightarrow> string \<Rightarrow> nat \<times> string" where
  "append_string buf s = (length s, if buf then s else [])"

text \<open>\<open>buf += written; written_total += written\<close>.\<close>

definition add_written :: "nat \<times> string \<Rightarrow> nat \<times> string \<Rightarrow> ser" where
  "add_written acc written =
     (if INT_MAX < int (fst acc + fst written) then Inl (SerUB SignedOverflow)
      else Inr (fst acc + fst written, snd acc @ snd written))"

fun append_indent :: "bool \<Rightarrow> nat \<Rightarrow> ser" where
  "append_indent buf 0 = Inr (0, [])"
| "append_indent buf (Suc level) = cbind (append_indent buf level) (\<lambda>acc. add_written acc (append_string buf ''    ''))"

definition hex4 :: "nat \<Rightarrow> string" where
  "hex4 n = CHR 0x5C # ''u00'' @ [(''01'' ! (n div 16)), (''0123456789abcdef'' ! (n mod 16))]"

definition escape_char :: "char \<Rightarrow> string" where
  "escape_char c =
     (if c = CHR 0x22 then [CHR 0x5C, CHR 0x22]
      else if c = CHR 0x5C then [CHR 0x5C, CHR 0x5C]
      else if c = CHR ''/'' then [CHR 0x5C, CHR ''/'']
      else if c = CHR 0x08 then [CHR 0x5C, CHR ''b'']
      else if c = CHR 0x0C then [CHR 0x5C, CHR ''f'']
      else if c = CHR 0x0A then [CHR 0x5C, CHR ''n'']
      else if c = CHR 0x0D then [CHR 0x5C, CHR ''r'']
      else if c = CHR 0x09 then [CHR 0x5C, CHR ''t'']
      else if code c < 32 then hex4 (code c)
      else [c])"

fun serialize_chars :: "bool \<Rightarrow> nat \<times> string \<Rightarrow> string \<Rightarrow> ser" where
  "serialize_chars buf acc [] = Inr acc"
| "serialize_chars buf acc (c # cs) =
     cbind (add_written acc (append_string buf (escape_char c))) (\<lambda>acc. serialize_chars buf acc cs)"

definition json_serialize_string :: "bool \<Rightarrow> string \<Rightarrow> ser" where
  "json_serialize_string buf s =
     cbind (add_written (0, []) (append_string buf [CHR 0x22])) (\<lambda>acc.
     cbind (serialize_chars buf acc s) (\<lambda>acc.
       add_written acc (append_string buf [CHR 0x22])))"

text \<open>
  A number prints as an \<open>int\<close> when it is one, as an \<open>unsigned\<close> when it is one, and with
  \<open>%f\<close> otherwise; both tests convert first.
\<close>

definition serialize_number :: "fp \<Rightarrow> ser_error + string" where
  "serialize_number num =
     (case fp_to_i32 num of
        Inl e \<Rightarrow> Inl (SerUB e)
      | Inr i \<Rightarrow>
          if fp_eq num (Fin (of_int i)) then Inr (show_int i)
          else (case fp_to_u32 num of
                  Inl e \<Rightarrow> Inl (SerUB e)
                | Inr u \<Rightarrow>
                    if fp_eq num (Fin (of_nat (unat u))) then Inr (show_nat (unat u))
                    else Inr (show_fixed 6 num)))"

lemma size_map_of: "map_of kvs k = Some v \<Longrightarrow> size v < Suc (size_list (size_prod (\<lambda>_. 0) size) kvs)"
  by (induction kvs) (auto split: if_splits)

text \<open>The loops go on with the total of the value they belong to.\<close>

function (sequential)
      json_serialize_to_buffer_r :: "bool \<Rightarrow> bool \<Rightarrow> nat \<Rightarrow> json \<Rightarrow> ser"
  and serialize_items :: "bool \<Rightarrow> bool \<Rightarrow> nat \<Rightarrow> json list \<Rightarrow> nat \<times> string \<Rightarrow> ser"
  and serialize_members :: "bool \<Rightarrow> bool \<Rightarrow> nat \<Rightarrow> (string \<times> json) list \<Rightarrow> string list \<Rightarrow> nat \<times> string \<Rightarrow> ser"
where
  "json_serialize_to_buffer_r buf pretty level JSONNull = add_written (0, []) (append_string buf ''null'')"
| "json_serialize_to_buffer_r buf pretty level (JSONBoolean b) =
     add_written (0, []) (append_string buf (if b then ''true'' else ''false''))"
| "json_serialize_to_buffer_r buf pretty level (JSONNumber num) =
     cbind (serialize_number num) (\<lambda>s. add_written (0, []) (append_string buf s))"
| "json_serialize_to_buffer_r buf pretty level (JSONString s) =
     cbind (json_serialize_string buf s) (\<lambda>w. add_written (0, []) w)"
| "json_serialize_to_buffer_r buf pretty level (JSONArray cap items) =
     cbind (add_written (0, []) (append_string buf ''['')) (\<lambda>acc.
     cbind (if items \<noteq> [] \<and> pretty then add_written acc (append_string buf ''\<newline>'') else Inr acc) (\<lambda>acc.
     cbind (serialize_items buf pretty level items acc) (\<lambda>acc.
     cbind (if items \<noteq> [] \<and> pretty then cbind (append_indent buf level) (\<lambda>w. add_written acc w) else Inr acc) (\<lambda>acc.
       add_written acc (append_string buf '']'')))))"
| "json_serialize_to_buffer_r buf pretty level (JSONObject cap kvs) =
     cbind (add_written (0, []) (append_string buf ''{'')) (\<lambda>acc.
     cbind (if kvs \<noteq> [] \<and> pretty then add_written acc (append_string buf ''\<newline>'') else Inr acc) (\<lambda>acc.
     cbind (serialize_members buf pretty level kvs (map fst kvs) acc) (\<lambda>acc.
     cbind (if kvs \<noteq> [] \<and> pretty then cbind (append_indent buf level) (\<lambda>w. add_written acc w) else Inr acc) (\<lambda>acc.
       add_written acc (append_string buf ''}'')))))"
| "serialize_items buf pretty level [] acc = Inr acc"
| "serialize_items buf pretty level (v # vs) acc =
     cbind (if pretty then cbind (append_indent buf (level + 1)) (\<lambda>w. add_written acc w) else Inr acc) (\<lambda>acc.
     cbind (json_serialize_to_buffer_r buf pretty (level + 1) v) (\<lambda>w.
     cbind (add_written acc w) (\<lambda>acc.
     cbind (if vs \<noteq> [] then add_written acc (append_string buf '','') else Inr acc) (\<lambda>acc.
     cbind (if pretty then add_written acc (append_string buf ''\<newline>'') else Inr acc) (\<lambda>acc.
       serialize_items buf pretty level vs acc)))))"
| "serialize_members buf pretty level kvs [] acc = Inr acc"
| "serialize_members buf pretty level kvs (key # keys) acc =
     cbind (if pretty then cbind (append_indent buf (level + 1)) (\<lambda>w. add_written acc w) else Inr acc) (\<lambda>acc.
     cbind (json_serialize_string buf key) (\<lambda>w.
     cbind (add_written acc w) (\<lambda>acc.
     cbind (add_written acc (append_string buf '':'')) (\<lambda>acc.
     cbind (if pretty then add_written acc (append_string buf '' '') else Inr acc) (\<lambda>acc.
       case map_of kvs key of
         None \<Rightarrow> Inl SerFail
       | Some v \<Rightarrow>
           cbind (json_serialize_to_buffer_r buf pretty (level + 1) v) (\<lambda>w.
           cbind (add_written acc w) (\<lambda>acc.
           cbind (if keys \<noteq> [] then add_written acc (append_string buf '','') else Inr acc) (\<lambda>acc.
           cbind (if pretty then add_written acc (append_string buf ''\<newline>'') else Inr acc) (\<lambda>acc.
             serialize_members buf pretty level kvs keys acc)))))))))"
  by pat_completeness auto

termination
  by (relation "measures
       [\<lambda>x. case x of Inl (buf, pretty, level, v) \<Rightarrow> 2 * size v
         | Inr (Inl (buf, pretty, level, vs, acc)) \<Rightarrow> 2 * size_list size vs + 1
         | Inr (Inr (buf, pretty, level, kvs, keys, acc)) \<Rightarrow> 2 * size_list (size_prod (\<lambda>_. 0) size) kvs + 1,
        \<lambda>x. case x of Inr (Inr (buf, pretty, level, kvs, keys, acc)) \<Rightarrow> length keys | _ \<Rightarrow> 0]")
     (auto dest: size_map_of)

text \<open>\<open>res + 1\<close> is an addition of \<open>int\<close>s, too.\<close>

definition json_serialization_size :: "json \<Rightarrow> ser_error + nat" where
  "json_serialization_size v =
     (case json_serialize_to_buffer_r False False 0 v of
        Inl SerFail \<Rightarrow> Inr 0
      | Inl (SerUB e) \<Rightarrow> Inl (SerUB e)
      | Inr (n, _) \<Rightarrow> if int n = INT_MAX then Inl (SerUB SignedOverflow) else Inr (n + 1))"

definition json_serialize_to_buffer :: "json \<Rightarrow> nat \<Rightarrow> ser_error + string" where
  "json_serialize_to_buffer v buf_size =
     cbind (json_serialization_size v) (\<lambda>needed.
       if needed = 0 \<or> buf_size < needed then Inl SerFail
       else cbind (json_serialize_to_buffer_r True False 0 v) (\<lambda>(n, s).
              if length s < buf_size then Inr s else Inl (SerUB BufferOverflow)))"

definition json_serialize_to_string :: "bool \<Rightarrow> json \<Rightarrow> string option c" where
  "json_serialize_to_string mem v =
     (case json_serialization_size v of
        Inl SerFail \<Rightarrow> Inr None
      | Inl (SerUB e) \<Rightarrow> Inl e
      | Inr buf_size_bytes \<Rightarrow>
          if buf_size_bytes = 0 then Inr None
          else if \<not> mem then Inr None
          else (case json_serialize_to_buffer v buf_size_bytes of
                  Inl SerFail \<Rightarrow> Inr None
                | Inl (SerUB e) \<Rightarrow> Inl e
                | Inr s \<Rightarrow> Inr (Some s)))"

text \<open>The same three functions for indented text.\<close>

definition json_serialization_size_pretty :: "json \<Rightarrow> ser_error + nat" where
  "json_serialization_size_pretty v =
     (case json_serialize_to_buffer_r False True 0 v of
        Inl SerFail \<Rightarrow> Inr 0
      | Inl (SerUB e) \<Rightarrow> Inl (SerUB e)
      | Inr (n, _) \<Rightarrow> if int n = INT_MAX then Inl (SerUB SignedOverflow) else Inr (n + 1))"

definition json_serialize_to_buffer_pretty :: "json \<Rightarrow> nat \<Rightarrow> ser_error + string" where
  "json_serialize_to_buffer_pretty v buf_size =
     cbind (json_serialization_size_pretty v) (\<lambda>needed.
       if needed = 0 \<or> buf_size < needed then Inl SerFail
       else cbind (json_serialize_to_buffer_r True True 0 v) (\<lambda>(n, s).
              if length s < buf_size then Inr s else Inl (SerUB BufferOverflow)))"

definition json_serialize_to_string_pretty :: "bool \<Rightarrow> json \<Rightarrow> string option c" where
  "json_serialize_to_string_pretty mem v =
     (case json_serialization_size_pretty v of
        Inl SerFail \<Rightarrow> Inr None
      | Inl (SerUB e) \<Rightarrow> Inl e
      | Inr buf_size_bytes \<Rightarrow>
          if buf_size_bytes = 0 then Inr None
          else if \<not> mem then Inr None
          else (case json_serialize_to_buffer_pretty v buf_size_bytes of
                  Inl SerFail \<Rightarrow> Inr None
                | Inl (SerUB e) \<Rightarrow> Inl e
                | Inr s \<Rightarrow> Inr (Some s)))"

section \<open>The text of a value\<close>

text \<open>What a value reads in JSON, without buffers and counters: the reference for the two passes.\<close>

abbreviation quoted :: "string \<Rightarrow> string" where
  "quoted s \<equiv> CHR 0x22 # concat (map escape_char s) @ [CHR 0x22]"

abbreviation indent :: "bool \<Rightarrow> nat \<Rightarrow> string" where
  "indent pretty level \<equiv> if pretty then replicate (4 * level) (CHR '' '') else []"

function (sequential)
      value_text :: "bool \<Rightarrow> nat \<Rightarrow> json \<Rightarrow> ser_error + string"
  and items_text :: "bool \<Rightarrow> nat \<Rightarrow> json list \<Rightarrow> ser_error + string"
  and members_text :: "bool \<Rightarrow> nat \<Rightarrow> (string \<times> json) list \<Rightarrow> string list \<Rightarrow> ser_error + string"
where
  "value_text pretty level JSONNull = Inr ''null''"
| "value_text pretty level (JSONBoolean b) = Inr (if b then ''true'' else ''false'')"
| "value_text pretty level (JSONNumber num) = serialize_number num"
| "value_text pretty level (JSONString s) = Inr (quoted s)"
| "value_text pretty level (JSONArray cap items) =
     cbind (items_text pretty level items) (\<lambda>body.
       Inr (''['' @ (if items \<noteq> [] \<and> pretty then ''\<newline>'' else []) @ body @ indent (items \<noteq> [] \<and> pretty) level @ '']''))"
| "value_text pretty level (JSONObject cap kvs) =
     cbind (members_text pretty level kvs (map fst kvs)) (\<lambda>body.
       Inr (''{'' @ (if kvs \<noteq> [] \<and> pretty then ''\<newline>'' else []) @ body @ indent (kvs \<noteq> [] \<and> pretty) level @ ''}''))"
| "items_text pretty level [] = Inr []"
| "items_text pretty level (v # vs) =
     cbind (value_text pretty (level + 1) v) (\<lambda>x.
     cbind (items_text pretty level vs) (\<lambda>more.
       Inr (indent pretty (level + 1) @ x @ (if vs \<noteq> [] then '','' else []) @ (if pretty then ''\<newline>'' else []) @ more)))"
| "members_text pretty level kvs [] = Inr []"
| "members_text pretty level kvs (key # keys) =
     (case map_of kvs key of
        None \<Rightarrow> Inl SerFail
      | Some v \<Rightarrow>
         cbind (value_text pretty (level + 1) v) (\<lambda>x.
         cbind (members_text pretty level kvs keys) (\<lambda>more.
           Inr (indent pretty (level + 1) @ quoted key @ '':'' @ (if pretty then '' '' else []) @ x @
                (if keys \<noteq> [] then '','' else []) @ (if pretty then ''\<newline>'' else []) @ more))))"
  by pat_completeness auto

termination
  by (relation "measures
       [\<lambda>x. case x of Inl (pretty, level, v) \<Rightarrow> 2 * size v
         | Inr (Inl (pretty, level, vs)) \<Rightarrow> 2 * size_list size vs + 1
         | Inr (Inr (pretty, level, kvs, keys)) \<Rightarrow> 2 * size_list (size_prod (\<lambda>_. 0) size) kvs + 1,
        \<lambda>x. case x of Inr (Inr (pretty, level, kvs, keys)) \<Rightarrow> length keys | _ \<Rightarrow> 0]")
     (auto dest: size_map_of)

section \<open>Lemmas: a pass writes the text\<close>

text \<open>Appending a text to a total that is in range.\<close>

definition puts :: "bool \<Rightarrow> string \<Rightarrow> nat \<times> string \<Rightarrow> ser" where
  "puts buf s acc = add_written acc (append_string buf s)"

definition in_range :: "nat \<times> string \<Rightarrow> bool" where
  "in_range acc \<longleftrightarrow> int (fst acc) \<le> INT_MAX"

lemma in_range_zero [simp]: "in_range (0, [])"
  by (simp add: in_range_def INT_MAX_def)

lemma puts_Nil: "in_range acc \<Longrightarrow> puts buf [] acc = Inr acc"
  by (simp add: puts_def add_written_def append_string_def in_range_def)

lemma puts_bind:
  "(\<And>acc'. in_range acc' \<Longrightarrow> f acc' = puts buf t acc') \<Longrightarrow> cbind (puts buf s acc) f = puts buf (s @ t) acc"
  by (simp add: puts_def add_written_def append_string_def in_range_def INT_MAX_def)

lemma puts_written: "cbind (puts buf s (0, [])) (add_written acc) = puts buf s acc"
  by (simp add: puts_def add_written_def append_string_def)

lemma puts_if: "in_range acc \<Longrightarrow> (if b then puts buf s acc else Inr acc) = puts buf (if b then s else []) acc"
  by (simp add: puts_Nil)

lemma written_then: "cbind (puts buf s (0, [])) (\<lambda>w. cbind (add_written acc w) f) = cbind (puts buf s acc) f"
  by (simp add: puts_def add_written_def append_string_def)

lemma written_after: "in_range acc \<Longrightarrow> (if b then cbind (puts buf s (0, [])) (add_written acc) else Inr acc) = puts buf (if b then s else []) acc"
  by (simp add: puts_written puts_Nil)

lemma puts_fold: "add_written acc (append_string buf s) = puts buf s acc"
  by (simp add: puts_def)

lemma append_indent_puts: "append_indent buf level = puts buf (replicate (4 * level) (CHR '' '')) (0, [])"
proof (induction level)
  case (Suc level)
  have "replicate (4 * Suc level) (CHR '' '') = replicate (4 * level) (CHR '' '') @ ''    ''"
    using replicate_add [of "4 * level" 4 "CHR '' ''"] by (simp add: numeral_eq_Suc)
  then show ?case using Suc by (simp add: puts_bind puts_fold del: replicate_Suc mult_Suc_right)
qed (simp add: puts_Nil)

lemma serialize_chars_puts: "in_range acc \<Longrightarrow> serialize_chars buf acc s = puts buf (concat (map escape_char s)) acc"
  by (induction s arbitrary: acc) (simp_all add: puts_Nil puts_fold puts_bind)

lemma json_serialize_string_puts: "json_serialize_string buf s = puts buf (quoted s) (0, [])"
  unfolding json_serialize_string_def puts_fold
  using puts_bind [of _ buf "concat (map escape_char s) @ [CHR 0x22]" "[CHR 0x22]" "(0, [])"]
  by (simp add: serialize_chars_puts puts_bind)

lemmas ser_simps = json_serialize_to_buffer_r.simps serialize_items.simps serialize_members.simps
lemmas puts_simps = puts_fold append_indent_puts json_serialize_string_puts written_then written_after puts_if

declare append_indent.simps [simp del]

lemma passes_write:
  "value_text pretty level v = Inr t \<Longrightarrow> json_serialize_to_buffer_r buf pretty level v = puts buf t (0, [])"
  "items_text pretty level vs = Inr t \<Longrightarrow> in_range acc \<Longrightarrow> serialize_items buf pretty level vs acc = puts buf t acc"
  "members_text pretty level kvs keys = Inr t \<Longrightarrow> in_range acc \<Longrightarrow> serialize_members buf pretty level kvs keys acc = puts buf t acc"
proof (induction pretty level v and pretty level vs and pretty level kvs keys arbitrary: t and t acc and t acc
    rule: value_text_items_text_members_text.induct)
  case (4 pretty level s)
  then show ?case by (simp add: json_serialize_string_puts puts_written)
next
  case (5 pretty level cap items)
  then obtain body where b: "items_text pretty level items = Inr body"
    "t = ''['' @ (if items \<noteq> [] \<and> pretty then ''\<newline>'' else []) @ body @ indent (items \<noteq> [] \<and> pretty) level @ '']''"
    by (auto simp: cbind_eq_Inr)
  show ?case unfolding ser_simps b(2) by (((simp only: puts_simps in_range_zero 5(1) [OF b(1)])?, rule puts_bind)+, simp only: puts_simps in_range_zero 5(1) [OF b(1)])
next
  case (6 pretty level cap kvs)
  then obtain body where b: "members_text pretty level kvs (map fst kvs) = Inr body"
    "t = ''{'' @ (if kvs \<noteq> [] \<and> pretty then ''\<newline>'' else []) @ body @ indent (kvs \<noteq> [] \<and> pretty) level @ ''}''"
    by (auto simp: cbind_eq_Inr)
  show ?case unfolding ser_simps b(2) by (((simp only: puts_simps in_range_zero 6(1) [OF b(1)])?, rule puts_bind)+, simp only: puts_simps in_range_zero 6(1) [OF b(1)])
next
  case (8 pretty level v vs)
  then obtain x more where b: "value_text pretty (level + 1) v = Inr x" "items_text pretty level vs = Inr more"
    "t = indent pretty (level + 1) @ x @ (if vs \<noteq> [] then '','' else []) @ (if pretty then ''\<newline>'' else []) @ more"
    by (auto simp: cbind_eq_Inr)
  note IH = 8(1) [OF b(1)] 8(2) [OF b(1,2)]
  show ?case unfolding ser_simps b(3) by (((simp only: puts_simps IH 8(4))?, rule puts_bind)+, simp only: puts_simps IH)
next
  case (10 pretty level kvs key keys)
  then obtain v x more where v: "map_of kvs key = Some v" and b: "value_text pretty (level + 1) v = Inr x" "members_text pretty level kvs keys = Inr more"
    "t = indent pretty (level + 1) @ quoted key @ '':'' @ (if pretty then '' '' else []) @ x @
       (if keys \<noteq> [] then '','' else []) @ (if pretty then ''\<newline>'' else []) @ more"
    by (auto simp: cbind_eq_Inr split: option.splits)
  note IH = 10(1) [OF v b(1)] 10(2) [OF v b(1,2)]
  show ?case unfolding ser_simps b(3) v option.case by (((simp only: puts_simps IH 10(4))?, rule puts_bind)+, simp only: puts_simps IH)
qed (auto simp: puts_Nil puts_fold)

text \<open>A value that has no text fails, or overflows before it can.\<close>

lemma fails_cbind: "(\<And>x. m = Inr x \<Longrightarrow> \<exists>e. f x = Inl e) \<Longrightarrow> \<exists>e. cbind m f = Inl e"
  by (cases m) auto

lemma fails_stop: "\<exists>e. m = Inl e \<Longrightarrow> \<exists>e. cbind m f = Inl e"
  by auto

lemma passes_fail:
  "value_text pretty level v = Inl e \<Longrightarrow> \<exists>e. json_serialize_to_buffer_r buf pretty level v = Inl e"
  "items_text pretty level vs = Inl e \<Longrightarrow> \<exists>e. serialize_items buf pretty level vs acc = Inl e"
  "members_text pretty level kvs keys = Inl e \<Longrightarrow> \<exists>e. serialize_members buf pretty level kvs keys acc = Inl e"
proof (induction pretty level v and pretty level vs and pretty level kvs keys arbitrary: e and e acc and e acc
    rule: value_text_items_text_members_text.induct)
  case (5 pretty level cap items)
  then have "items_text pretty level items = Inl e" by (cases "items_text pretty level items") auto
  note IH = 5(1) [OF this]
  show ?case unfolding ser_simps by (rule fails_cbind, rule fails_cbind, rule fails_stop, rule IH)
next
  case (6 pretty level cap kvs)
  then have "members_text pretty level kvs (map fst kvs) = Inl e" by (cases "members_text pretty level kvs (map fst kvs)") auto
  note IH = 6(1) [OF this]
  show ?case unfolding ser_simps by (rule fails_cbind, rule fails_cbind, rule fails_stop, rule IH)
next
  case (8 pretty level v vs)
  show ?case
  proof (cases "value_text pretty (level + 1) v")
    case (Inl u)
    note IH = 8(1) [OF Inl]
    show ?thesis unfolding ser_simps by (rule fails_cbind, rule fails_stop, rule IH)
  next
    case (Inr x)
    then have "items_text pretty level vs = Inl e" using 8(3) by (cases "items_text pretty level vs") auto
    note IH = 8(2) [OF Inr this]
    show ?thesis unfolding ser_simps by (rule fails_cbind)+ (rule IH)
  qed
next
  case (10 pretty level kvs key keys)
  show ?case
  proof (cases "map_of kvs key")
    case None
    show ?thesis unfolding ser_simps None option.case by (rule fails_cbind)+ simp
  next
    case (Some v)
    show ?thesis
    proof (cases "value_text pretty (level + 1) v")
      case (Inl u)
      note IH = 10(1) [OF Some Inl]
      show ?thesis unfolding ser_simps Some option.case by (rule fails_cbind, rule fails_cbind, rule fails_cbind, rule fails_cbind, rule fails_cbind, rule fails_stop, rule IH)
    next
      case (Inr x)
      then have "members_text pretty level kvs keys = Inl e" using 10(3) Some by (cases "members_text pretty level kvs keys") auto
      note IH = 10(2) [OF Some Inr this]
      show ?thesis unfolding ser_simps Some option.case by (rule fails_cbind)+ (rule IH)
    qed
  qed
qed simp_all

lemma pass_written:
  "json_serialize_to_buffer_r True pretty level v = Inr (n, s) \<longleftrightarrow> value_text pretty level v = Inr s \<and> n = length s \<and> int n \<le> INT_MAX"
proof (cases "value_text pretty level v")
  case (Inl e)
  then show ?thesis using passes_fail(1) [OF Inl, of True] by auto
next
  case (Inr t)
  then show ?thesis using passes_write(1) [OF Inr, of True] by (auto simp: puts_def add_written_def append_string_def)
qed

text \<open>The counting pass fails as the writing pass does.\<close>

definition counted :: "ser \<Rightarrow> ser" where
  "counted r = (case r of Inl e \<Rightarrow> Inl e | Inr (n, s) \<Rightarrow> Inr (n, []))"

lemma counted_cbind:
  "m' = counted m \<Longrightarrow> (\<And>a b. m = Inr b \<Longrightarrow> fst a = fst b \<Longrightarrow> snd a = [] \<Longrightarrow> f' a = counted (f b)) \<Longrightarrow> cbind m' f' = counted (cbind m f)"
  by (cases m) (auto simp: counted_def)

lemma counted_add:
  "fst a = fst b \<Longrightarrow> snd a = [] \<Longrightarrow> fst x = fst y \<Longrightarrow> snd x = [] \<Longrightarrow> add_written a x = counted (add_written b y)"
  by (simp add: add_written_def counted_def)

lemma counted_if: "(b \<Longrightarrow> x = counted y) \<Longrightarrow> (\<not> b \<Longrightarrow> x' = counted y') \<Longrightarrow> (if b then x else x') = counted (if b then y else y')"
  by simp

lemma counted_Inr: "fst a = fst b \<Longrightarrow> snd a = [] \<Longrightarrow> Inr a = counted (Inr b)"
  by (cases a; cases b) (simp add: counted_def)

lemma counted_puts: "puts False s (0, []) = counted (puts True s (0, []))"
  by (simp add: puts_def add_written_def append_string_def counted_def)

lemmas counted_intros = counted_cbind counted_add counted_if counted_Inr counted_puts

lemma two_passes:
  "json_serialize_to_buffer_r False pretty level v = counted (json_serialize_to_buffer_r True pretty level v)"
  "fst a = fst b \<Longrightarrow> snd a = [] \<Longrightarrow> serialize_items False pretty level vs a = counted (serialize_items True pretty level vs b)"
  "fst a = fst b \<Longrightarrow> snd a = [] \<Longrightarrow> serialize_members False pretty level kvs keys a = counted (serialize_members True pretty level kvs keys b)"
proof (induction pretty level v and pretty level vs and pretty level kvs keys arbitrary: and a b and a b
    rule: value_text_items_text_members_text.induct)
  case (3 pretty level num)
  show ?case by (cases "serialize_number num") (auto simp: counted_def add_written_def append_string_def)
next
  case (4 pretty level s)
  show ?case unfolding ser_simps json_serialize_string_puts by (intro counted_intros) simp_all
next
  case (5 pretty level cap items)
  show ?case unfolding ser_simps append_indent_puts by (intro counted_intros 5) (simp_all add: append_string_def)
next
  case (6 pretty level cap kvs)
  show ?case unfolding ser_simps append_indent_puts by (intro counted_intros 6) (simp_all add: append_string_def)
next
  case (8 pretty level v vs)
  have IH: "serialize_items False pretty level vs a = counted (serialize_items True pretty level vs b)"
    if "json_serialize_to_buffer_r True pretty (level + 1) v = Inr w" "fst a = fst b" "snd a = []" for a b w
    using that pass_written by (cases w) (blast intro: 8(2))
  show ?case unfolding ser_simps append_indent_puts
    by (intro counted_intros 8(1) IH) (use 8(3,4) in \<open>simp_all add: append_string_def\<close>)
next
  case (10 pretty level kvs key keys)
  show ?case
  proof (cases "map_of kvs key")
    case None
    show ?thesis unfolding ser_simps append_indent_puts json_serialize_string_puts None option.case
      by (intro counted_intros) (use 10(3,4) in \<open>simp_all add: append_string_def counted_def\<close>)
  next
    case (Some v)
    have IH: "serialize_members False pretty level kvs keys a = counted (serialize_members True pretty level kvs keys b)"
      if "json_serialize_to_buffer_r True pretty (level + 1) v = Inr w" "fst a = fst b" "snd a = []" for a b w
      using that pass_written by (cases w) (blast intro: 10(2) [OF Some])
    show ?thesis unfolding ser_simps append_indent_puts json_serialize_string_puts Some option.case
      by (intro counted_intros 10(1) [OF Some] IH) (use 10(3,4) in \<open>simp_all add: append_string_def\<close>)
  qed
qed (simp_all add: counted_add counted_Inr append_string_def)

lemma serialize_to_string_eq:
  "json_serialize_to_string True v =
     (case json_serialize_to_buffer_r True False 0 v of
        Inl SerFail \<Rightarrow> Inr None | Inl (SerUB e) \<Rightarrow> Inl e
      | Inr (n, s) \<Rightarrow> if int n = INT_MAX then Inl SignedOverflow else Inr (Some s))"
  using two_passes(1) [of False 0 v] pass_written [of False 0 v]
  by (auto simp: json_serialize_to_string_def json_serialization_size_def json_serialize_to_buffer_def counted_def
      split: sum.splits ser_error.splits)

lemma serialize_to_string_pretty_eq:
  "json_serialize_to_string_pretty True v =
     (case json_serialize_to_buffer_r True True 0 v of
        Inl SerFail \<Rightarrow> Inr None | Inl (SerUB e) \<Rightarrow> Inl e
      | Inr (n, s) \<Rightarrow> if int n = INT_MAX then Inl SignedOverflow else Inr (Some s))"
  using two_passes(1) [of True 0 v] pass_written [of True 0 v]
  by (auto simp: json_serialize_to_string_pretty_def json_serialization_size_pretty_def json_serialize_to_buffer_pretty_def counted_def
      split: sum.splits ser_error.splits)

text \<open>With memory, a value is printed exactly when it has a text whose size with the terminator is an \<open>int\<close>.\<close>

lemma serialize_to_string_text:
  "json_serialize_to_string True v = Inr (Some s) \<longleftrightarrow> value_text False 0 v = Inr s \<and> int (length s) < INT_MAX"
  "json_serialize_to_string_pretty True v = Inr (Some s) \<longleftrightarrow> value_text True 0 v = Inr s \<and> int (length s) < INT_MAX"
proof -
  have "json_serialize_to_string True v = Inr (Some s) \<longleftrightarrow> (\<exists>n. json_serialize_to_buffer_r True False 0 v = Inr (n, s) \<and> int n \<noteq> INT_MAX)"
    "json_serialize_to_string_pretty True v = Inr (Some s) \<longleftrightarrow> (\<exists>n. json_serialize_to_buffer_r True True 0 v = Inr (n, s) \<and> int n \<noteq> INT_MAX)"
    by (auto simp: serialize_to_string_eq serialize_to_string_pretty_eq split: sum.splits ser_error.splits)
  then show "json_serialize_to_string True v = Inr (Some s) \<longleftrightarrow> value_text False 0 v = Inr s \<and> int (length s) < INT_MAX"
    "json_serialize_to_string_pretty True v = Inr (Some s) \<longleftrightarrow> value_text True 0 v = Inr s \<and> int (length s) < INT_MAX"
    by (auto simp: pass_written)
qed

section \<open>Properties\<close>

text \<open>C11. The serializer's two passes agree: on every value the first pass counts exactly the bytes
  the second writes, so the buffer it allocates is never overrun and \<open>json_serialize_to_string\<close>
  fails only where a single pass would, or where the size with the terminator is no \<open>int\<close>. What is written is the text of the
  value, and a value that has a text is printed, unless that text is too long for the counters.\<close>
theorem json_two_passes_agree:
  "json_serialize_to_string True v =
     (case json_serialize_to_buffer_r True False 0 v of
        Inl SerFail \<Rightarrow> Inr None | Inl (SerUB e) \<Rightarrow> Inl e
      | Inr (n, s) \<Rightarrow> if int n = INT_MAX then Inl SignedOverflow else Inr (Some s))
   \<and> (case json_serialize_to_buffer_r True False 0 v of
        Inl _ \<Rightarrow> True
      | Inr (n, s) \<Rightarrow> value_text False 0 v = Inr s \<and> n = length s \<and> int n \<le> INT_MAX \<and>
          json_serialization_size v = (if int n = INT_MAX then Inl (SerUB SignedOverflow) else Inr (length s + 1)))
   \<and> (case value_text False 0 v of
        Inl _ \<Rightarrow> \<exists>e. json_serialize_to_buffer_r True False 0 v = Inl e
      | Inr s \<Rightarrow> json_serialize_to_string True v = (if int (length s) < INT_MAX then Inr (Some s) else Inl SignedOverflow))"
proof (cases "value_text False 0 v")
  case (Inl e)
  then show ?thesis using passes_fail(1) [OF Inl, of True] by (auto simp: serialize_to_string_eq split: sum.split)
next
  case (Inr s)
  then show ?thesis
    using two_passes(1) [of False 0 v] passes_write(1) [OF Inr, of True]
    by (auto simp: serialize_to_string_eq json_serialization_size_def counted_def puts_def add_written_def append_string_def)
qed

text \<open>A negative number with a fraction, such as a temperature of -5.5 degrees, makes the
  serializer convert it to \<open>unsigned int\<close>, which is undefined.\<close>
theorem json_negative_fraction:
  assumes "q \<le> - 1" "- 2147483648 < q" "q \<notin> \<int>"
  shows "json_serialize_to_string True (JSONNumber (Fin q)) = Inl ConvOverflow"
proof -
  have t: "trunc_rat q = \<lceil>q\<rceil>" using assms(1) by (simp add: trunc_rat_def)
  have "is_i32 \<lceil>q\<rceil>" using assms(1,2) by (simp add: INT_MIN_def INT_MAX_def ceiling_le_iff le_ceiling_iff)
  moreover have "q \<noteq> of_int \<lceil>q\<rceil>" using assms(3) by (metis Ints_of_int)
  moreover have "\<lceil>q\<rceil> < 0" using assms(1) by (simp add: ceiling_less_iff)
  ultimately have "serialize_number (Fin q) = Inl (SerUB ConvOverflow)"
    using t by (simp add: serialize_number_def)
  then show ?thesis by (simp add: serialize_to_string_eq)
qed

theorem json_negative_fraction_witness:
  "json_serialize_to_string True (JSONNumber (Fin (- 11 / 2))) = Inl ConvOverflow"
proof (rule json_negative_fraction)
  show "(- 11 / 2 :: rat) \<notin> \<int>"
  proof
    assume "(- 11 / 2 :: rat) \<in> \<int>"
    then obtain k :: int where "- 11 / 2 = (of_int k :: rat)" by (auto elim: Ints_cases)
    then have "(- 11 :: rat) = of_int (2 * k)" by (simp add: field_simps)
    then have "(- 11 :: int) = 2 * k" by (metis of_int_eq_iff of_int_minus of_int_numeral)
    then show False by presburger
  qed
qed simp_all

end
