(* ===== verification/Bounded_Store.thy ===== *)
theory Bounded_Store
  imports Prelude
begin

text \<open>
  The contract that the daemon's fixed-capacity containers share: an append that keeps
  order, succeeds while there is room and leaves the container alone when there is none.
  Two containers of the sources implement it: JSON objects (room for 960 members) and
  key/value lists (room for the capacity they were allocated with).
\<close>

locale bounded_store =
  fixes add :: "'s \<Rightarrow> 'a \<Rightarrow> bool \<times> 's"
    and entries :: "'s \<Rightarrow> 'a list"
    and limit :: "'s \<Rightarrow> nat"
    and fits :: "'a list \<Rightarrow> 'a \<Rightarrow> bool"
    and inv :: "'s \<Rightarrow> bool"
  assumes add_room: "inv s \<Longrightarrow> length (entries s) < limit s \<Longrightarrow> fits (entries s) x \<Longrightarrow>
      fst (add s x) \<and> entries (snd (add s x)) = entries s @ [x]"
    and add_full: "inv s \<Longrightarrow> limit s \<le> length (entries s) \<Longrightarrow> add s x = (False, s)"
    and add_inv: "inv s \<Longrightarrow> inv (snd (add s x))"
    and add_limit: "inv s \<Longrightarrow> limit (snd (add s x)) = limit s"
    and entries_limit: "inv s \<Longrightarrow> length (entries s) \<le> limit s"
begin

text \<open>Adding a list of items one after the other, as the loops of the clients do.\<close>

primrec add_all :: "'s \<Rightarrow> 'a list \<Rightarrow> 's" where
  "add_all s [] = s"
| "add_all s (x # xs) = add_all (snd (add s x)) xs"

primrec all_fit :: "'a list \<Rightarrow> 'a list \<Rightarrow> bool" where
  "all_fit es [] = True"
| "all_fit es (x # xs) = (fits es x \<and> all_fit (es @ [x]) xs)"

lemma add_all_full: "inv s \<Longrightarrow> limit s \<le> length (entries s) \<Longrightarrow> add_all s xs = s"
  by (induction xs) (simp_all add: add_full)

lemma add_all_inv: "inv s \<Longrightarrow> inv (add_all s xs) \<and> limit (add_all s xs) = limit s"
  by (induction xs arbitrary: s) (simp_all add: add_inv add_limit)

text \<open>The container holds the items in order, up to its limit; the rest is dropped.\<close>

lemma entries_add_all:
  "inv s \<Longrightarrow> all_fit (entries s) xs \<Longrightarrow> entries (add_all s xs) = take (limit s) (entries s @ xs)"
proof (induction xs arbitrary: s)
  case Nil
  then show ?case by (simp add: entries_limit)
next
  case (Cons x xs)
  show ?case
  proof (cases "length (entries s) < limit s")
    case True
    with Cons.prems have a: "entries (snd (add s x)) = entries s @ [x]" by (simp add: add_room)
    have "entries (add_all (snd (add s x)) xs) = take (limit (snd (add s x))) (entries (snd (add s x)) @ xs)"
      using Cons.prems a by (intro Cons.IH) (simp_all add: add_inv)
    then show ?thesis using Cons.prems a by (simp add: add_limit)
  next
    case False
    then have "entries (add_all s (x # xs)) = entries s"
      using Cons.prems by (subst add_all_full) simp_all
    then show ?thesis using False entries_limit [OF Cons.prems(1)] by simp
  qed
qed

end

end
