(* ===== verification/Json_Paths.thy ===== *)
theory Json_Paths
  imports Parson Bounded_Store "HOL-Library.Sublist"
begin

text \<open>
  What the object operations of \<^verbatim>\<open>src/deps/parson.c\<close> promise their clients. A dotted
  name is a path of keys; \<open>set_path\<close> and \<open>get_path\<close> say what the dotted setter and getter do
  on paths, and a set is seen by the gets of its own path and by no other. Objects keep
  their capacity in the doubling chain from 15 to 960, so that an object takes exactly 960
  members: it is a \<open>bounded_store\<close>.
\<close>

section \<open>Paths\<close>

function path :: "string \<Rightarrow> string list" where
  "path name = (if CHR ''.'' \<in> set name
                then takeWhile (\<lambda>c. c \<noteq> CHR ''.'') name # path (drop 1 (dropWhile (\<lambda>c. c \<noteq> CHR ''.'') name))
                else [name])"
  by pat_completeness auto
termination
  by (relation "measure length") (simp_all add: after_dot_shorter)

declare path.simps [simp del]

fun get_path :: "jobject option \<Rightarrow> string list \<Rightarrow> json option" where
  "get_path None ks = None"
| "get_path (Some obj) [] = None"
| "get_path (Some obj) [k] = map_of (snd obj) k"
| "get_path (Some obj) (k # ks) = get_path (json_value_get_object (map_of (snd obj) k)) ks"

fun set_path :: "jobject \<Rightarrow> string list \<Rightarrow> json \<Rightarrow> bool \<times> jobject" where
  "set_path obj [] v = (False, obj)"
| "set_path obj [k] v = json_object_set_value True obj k (Some v)"
| "set_path obj (k # ks) v =
     (case json_object_get_object obj k of
        Some sub \<Rightarrow> (case set_path sub ks v of (ok, sub') \<Rightarrow> (ok, put_object obj k sub'))
      | None \<Rightarrow>
          (case json_object_add True obj k (JSONObject 0 []) of
             (False, obj1) \<Rightarrow> (False, obj1)
           | (True, obj1) \<Rightarrow>
               (case set_path json_object_init ks v of (ok, sub') \<Rightarrow> (ok, put_object obj1 k sub'))))"

lemma path_no_dot [simp]: "CHR ''.'' \<notin> set k \<Longrightarrow> path k = [k]"
  by (simp add: path.simps)

lemma path_dot [simp]: "CHR ''.'' \<notin> set k \<Longrightarrow> path (k @ CHR ''.'' # rest) = k # path rest"
proof -
  assume k: "CHR ''.'' \<notin> set k"
  have "takeWhile (\<lambda>c. c \<noteq> CHR ''.'') (k @ CHR ''.'' # rest) = k"
    using k by (subst takeWhile_append2) auto
  moreover have "dropWhile (\<lambda>c. c \<noteq> CHR ''.'') (k @ CHR ''.'' # rest) = CHR ''.'' # rest"
    using k by (subst dropWhile_append2) auto
  ultimately show ?thesis by (subst path.simps) simp
qed

lemma path_nonempty [simp]: "path name \<noteq> []"
  by (subst path.simps) simp

lemma get_value_map_of [simp]: "json_object_get_value obj name = map_of (snd obj) name"
  by (simp add: json_object_get_value_def json_object_nget_value_def)

lemma dotget_path: "json_object_dotget_value (Some obj) name = get_path (Some obj) (path name)"
proof (induction name arbitrary: obj rule: path.induct)
  case (1 name)
  show ?case
  proof (cases "CHR ''.'' \<in> set name")
    case True
    let ?k = "takeWhile (\<lambda>c. c \<noteq> CHR ''.'') name"
    let ?r = "drop 1 (dropWhile (\<lambda>c. c \<noteq> CHR ''.'') name)"
    let ?o = "json_value_get_object (map_of (snd obj) ?k)"
    have "json_object_dotget_value (Some obj) name = json_object_dotget_value ?o ?r"
      using True
      by (subst json_object_dotget_value.simps)
         (simp add: json_object_nget_value_def takeWhile_eq_take [symmetric])
    also have "\<dots> = get_path ?o (path ?r)"
      using 1 [OF True] by (cases ?o) (simp_all add: json_object_dotget_value.simps [of None])
    finally show ?thesis
      using True by (subst path.simps) (cases "path ?r"; simp)
  qed (simp add: json_object_dotget_value.simps)
qed

lemma dotset_path:
  "json_object_dotset_value True obj name (Some v) = set_path obj (path name) v"
proof (induction name arbitrary: obj rule: path.induct)
  case (1 name)
  show ?case
  proof (cases "CHR ''.'' \<in> set name")
    case True
    define r where "r = drop 1 (dropWhile (\<lambda>c. c \<noteq> CHR ''.'') name)"
    obtain p ps where ps: "path r = p # ps"
      by (meson neq_Nil_conv path_nonempty)
    note IH = 1 [OF True, folded r_def, unfolded ps]
    have "path name = takeWhile (\<lambda>c. c \<noteq> CHR ''.'') name # p # ps"
      using True ps by (subst path.simps) (simp add: r_def)
    then show ?thesis
      using True
      by (subst json_object_dotset_value.simps)
         (simp add: Let_def r_def [symmetric] IH json_value_init_object_def json_object_init_def
           del: One_nat_def split: option.split bool.split prod.split)
  qed (simp add: json_object_dotset_value.simps)
qed

section \<open>A set is seen by the gets of its path only\<close>

lemma add_True_map_of:
  "json_object_add True obj k v = (True, obj1) \<Longrightarrow>
   map_of (snd obj) k = None \<and> map_of (snd obj1) = (map_of (snd obj))(k \<mapsto> v)"
  by (auto simp: json_object_add_def json_object_resize_def Let_def map_add_def fun_eq_iff
      split: if_splits option.splits)

lemma set_value_map_of:
  "json_object_set_value True obj k (Some v) = (True, obj1) \<Longrightarrow>
   map_of (snd obj1) = (map_of (snd obj))(k \<mapsto> v)"
  by (auto simp: json_object_set_value_def update_conv' dest: add_True_map_of split: if_splits)

lemma put_object_map_of [simp]:
  "map_of (snd (put_object obj k sub)) = (map_of (snd obj))(k \<mapsto> JSONObject (fst sub) (snd sub))"
  by (simp add: put_object_def update_conv')

lemma get_object_simps [simp]:
  "json_value_get_object (Some (JSONObject cap kvs)) = Some (cap, kvs)"
  "json_value_get_object None = None"
  by (simp_all add: json_value_get_object_def)

lemma get_path_Cons:
  "ks \<noteq> [] \<Longrightarrow> get_path (Some obj) (k # ks) = get_path (json_value_get_object (map_of (snd obj) k)) ks"
  by (cases ks) auto

lemma get_path_init [simp]: "get_path (Some json_object_init) ks = None"
  by (cases ks; cases "tl ks") (auto simp: json_object_init_def)

lemma set_path_get:
  "set_path obj ks v = (True, obj') \<Longrightarrow>
   get_path (Some obj') ks = Some v \<and>
   (\<forall>qs. parallel ks qs \<longrightarrow> get_path (Some obj') qs = get_path (Some obj) qs)"
proof (induction ks arbitrary: obj obj')
  case (Cons k ks')
  show ?case
  proof (cases ks')
    case Nil
    have m: "map_of (snd obj') = (map_of (snd obj))(k \<mapsto> v)"
      using Cons.prems Nil set_value_map_of by simp
    have "get_path (Some obj') qs = get_path (Some obj) qs" if "parallel [k] qs" for qs
      using that m by (cases qs; cases "tl qs") (auto simp: get_path_Cons parallel_def)
    with m Nil show ?thesis by simp
  next
    case ks: (Cons k2 ks)
    define sub where "sub = (case json_object_get_object obj k of Some s \<Rightarrow> s | None \<Rightarrow> json_object_init)"
    obtain base sub' where sub': "set_path sub ks' v = (True, sub')"
      and obj': "obj' = put_object base k sub'"
      and base: "map_of (snd base) = (if json_object_get_object obj k = None
                   then (map_of (snd obj))(k \<mapsto> JSONObject 0 []) else map_of (snd obj))"
      and fresh: "json_object_get_object obj k = None \<Longrightarrow> map_of (snd obj) k = None"
    proof (cases "json_object_get_object obj k")
      case (Some s)
      with Cons.prems show ?thesis
        by (intro that [of "snd (set_path s ks' v)" obj]) (auto simp: ks sub_def split: prod.splits)
    next
      case None
      with Cons.prems show ?thesis
        by (intro that [of "snd (set_path json_object_init ks' v)"
                           "snd (json_object_add True obj k (JSONObject 0 []))"])
           (auto simp: ks sub_def dest: add_True_map_of split: prod.splits bool.splits)
    qed
    note IH = Cons.IH [OF sub']
    have "get_path (Some obj') qs = get_path (Some obj) qs" if par: "parallel (k # ks') qs" for qs
    proof (cases "qs \<noteq> [] \<and> hd qs = k")
      case True
      then obtain rs where "qs = k # rs" by (cases qs) auto
      with par have qs: "qs = k # rs" "parallel ks' rs" "rs \<noteq> []"
        by (auto simp: parallel_def)
      have "get_path (Some sub) rs = get_path (json_value_get_object (map_of (snd obj) k)) rs"
        using fresh by (auto simp: sub_def json_object_get_object_def split: option.splits)
      with IH qs show ?thesis by (simp add: obj' get_path_Cons)
    next
      case False
      then show ?thesis
        by (cases qs; cases "tl qs") (auto simp: obj' base get_path_Cons)
    qed
    with IH show ?thesis by (simp add: obj' ks)
  qed
qed simp

section \<open>Objects are bounded stores\<close>

definition wf_object :: "jobject \<Rightarrow> bool" where
  "wf_object obj \<longleftrightarrow> fst obj \<in> {0, 15, 30, 60, 120, 240, 480, 960} \<and> length (snd obj) \<le> fst obj"

lemma wf_object_init [simp]: "wf_object json_object_init"
  by (simp add: wf_object_def json_object_init_def)

lemma wf_object_add: "wf_object obj \<Longrightarrow> wf_object (snd (json_object_add True obj k v))"
  by (auto simp: wf_object_def json_object_add_def json_object_resize_def Let_def
      STARTING_CAPACITY_def OBJECT_MAX_CAPACITY_def)

lemma wf_object_update: "wf_object obj \<Longrightarrow> map_of (snd obj) k \<noteq> None \<Longrightarrow>
    wf_object (fst obj, AList.update k v (snd obj))"
proof -
  assume "wf_object obj" "map_of (snd obj) k \<noteq> None"
  moreover have "length (AList.update k v al) = length al" if "map_of al k \<noteq> None" for al
    using that by (induction al) auto
  ultimately show ?thesis by (simp add: wf_object_def)
qed

lemma object_add_room:
  assumes "wf_object obj" "length (snd obj) < 960" "k \<notin> fst ` set (snd obj)"
  shows "fst (json_object_add True obj k v) \<and>
         snd (snd (json_object_add True obj k v)) = snd obj @ [(k, v)]"
proof -
  have "map_of (snd obj) k = None" using assms(3) by (simp add: map_of_eq_None_iff)
  with assms show ?thesis
    by (auto simp: wf_object_def json_object_add_def json_object_resize_def Let_def
        STARTING_CAPACITY_def OBJECT_MAX_CAPACITY_def)
qed

lemma object_add_full:
  "wf_object obj \<Longrightarrow> 960 \<le> length (snd obj) \<Longrightarrow> json_object_add True obj k v = (False, obj)"
  by (auto simp: wf_object_def json_object_add_def Let_def OBJECT_MAX_CAPACITY_def STARTING_CAPACITY_def)

interpretation jo: bounded_store
  "\<lambda>obj kv. json_object_add True obj (fst kv) (snd kv)" snd "\<lambda>_. 960"
  "\<lambda>es kv. fst kv \<notin> fst ` set es" wf_object
proof unfold_locales
  fix s :: jobject and x :: "string \<times> json"
  assume inv: "wf_object s"
  show "length (snd s) < 960 \<Longrightarrow> fst x \<notin> fst ` set (snd s) \<Longrightarrow>
      fst (json_object_add True s (fst x) (snd x)) \<and>
      snd (snd (json_object_add True s (fst x) (snd x))) = snd s @ [x]"
    using object_add_room [OF inv, of "fst x" "snd x"] by simp
  show "960 \<le> length (snd s) \<Longrightarrow> json_object_add True s (fst x) (snd x) = (False, s)"
    using object_add_full [OF inv] .
  show "wf_object (snd (json_object_add True s (fst x) (snd x)))"
    using wf_object_add [OF inv] .
  show "length (snd s) \<le> 960"
    using inv by (auto simp: wf_object_def)
qed simp

section \<open>Properties\<close>

text \<open>A successful dotted set is seen by a dotted get of the same name, and by no get of a name
  whose path neither extends nor prefixes the one that was set.\<close>
theorem json_dotset_dotget:
  assumes "json_object_dotset_value True obj name (Some v) = (True, obj')"
  shows "json_object_dotget_value (Some obj') name = Some v \<and>
    (\<forall>other. parallel (path name) (path other) \<longrightarrow>
       json_object_dotget_value (Some obj') other = json_object_dotget_value (Some obj) other)"
  using set_path_get [of obj "path name" v obj'] assms by (simp add: dotset_path dotget_path)

theorem json_dotset_dotget_witness:
  "json_object_dotget_value (Some (15, [(''a'', JSONNull)])) ''a'' = Some JSONNull \<and>
   json_object_dotget_value (Some (15, [(''a'', JSONNull)])) ''b'' = json_object_dotget_value (Some json_object_init) ''b''"
proof -
  have "json_object_dotset_value True json_object_init ''a'' (Some JSONNull) = (True, (15, [(''a'', JSONNull)]))"
    by (simp add: dotset_path json_object_set_value_def json_object_add_def json_object_resize_def
       json_object_init_def STARTING_CAPACITY_def OBJECT_MAX_CAPACITY_def)
  moreover have "parallel (path ''a'') (path ''b'')" by (simp add: parallel_def)
  ultimately show ?thesis using json_dotset_dotget by blast
qed

text \<open>An object filled key after key with distinct names keeps the first 960 members in
  order and refuses every further one: capacity doubling from 15 stops there.\<close>
theorem json_object_capacity:
  assumes "distinct (map fst kvs)"
  shows "snd (foldl (\<lambda>obj kv. snd (json_object_add True obj (fst kv) (snd kv))) json_object_init kvs) = take 960 kvs"
proof -
  have all: "foldl (\<lambda>obj kv. snd (json_object_add True obj (fst kv) (snd kv))) obj xs = jo.add_all obj xs" for obj xs
    by (induction xs arbitrary: obj) auto
  have "jo.all_fit es xs" if "distinct (map fst (es @ xs))" for es xs
    using that by (induction xs arbitrary: es) auto
  then have "jo.all_fit [] kvs" using assms by simp
  then show ?thesis
    using jo.entries_add_all [of json_object_init kvs] all by (simp add: wf_object_def json_object_init_def)
qed

theorem json_object_capacity_witness:
  "snd (foldl (\<lambda>obj kv. snd (json_object_add True obj (fst kv) (snd kv))) json_object_init
     (map (\<lambda>i. (replicate i (CHR ''k''), JSONNull)) [0..<961])) = take 960 (map (\<lambda>i. (replicate i (CHR ''k''), JSONNull)) [0..<961])"
  by (rule json_object_capacity) (auto simp: distinct_map inj_on_def comp_def dest: replicate_eq_replicate [THEN iffD1])

end
