(* ===== verification/Datastructures.thy ===== *)
theory Datastructures
  imports Json_Paths
begin

text \<open>
  \<^verbatim>\<open>src/src/datastructures.c\<close> and its header: weather entries, entry lists, key/value
  lists, and the JSON documents made of them. A failing \<open>malloc\<close> is a boolean argument; the
  arrays of the two list types hold the slots written so far.
\<close>

section \<open>Entries and lists\<close>

definition RPIWD_MEASURE_TEMPERATURE :: nat where "RPIWD_MEASURE_TEMPERATURE = 0"
definition RPIWD_MEASURE_HUMIDITY :: nat where "RPIWD_MEASURE_HUMIDITY = 1"
definition RPIWD_MAX_MEASUREMENTS :: nat where "RPIWD_MAX_MEASUREMENTS = 8"
definition RPIWD_TEMPERATURE_CELSIUS :: char where "RPIWD_TEMPERATURE_CELSIUS = CHR ''c''"
definition RPIWD_TEMPERATURE_FARENHEIT :: char where "RPIWD_TEMPERATURE_FARENHEIT = CHR ''f''"
definition RPIWD_DEFAULT_TEMP_UNIT :: char where "RPIWD_DEFAULT_TEMP_UNIT = RPIWD_TEMPERATURE_FARENHEIT"
definition RPIWD_DEFAULT_HUMID_UNIT :: char where "RPIWD_DEFAULT_HUMID_UNIT = CHR ''%''"
definition JSON_SERIALIZER_TEMP_ID_BUFFER_SIZE :: nat where
  "JSON_SERIALIZER_TEMP_ID_BUFFER_SIZE = 32"

record entry =
  entry_id :: int
  record_date :: "string option"
  temperature :: fp
  humidity :: fp
  location :: "string option"
  device_name :: "string option"

record entrylist =
  el_size :: nat
  el_capacity :: nat
  el_entries :: "entry list"

record key_value_pair =
  kv_key :: "string option"
  kv_value :: "string option"

record key_value_list =
  kl_length :: nat
  kl_capacity :: nat
  kl_pairs :: "key_value_pair list"

text \<open>
  A fresh entry: the string fields are NULL; the caller fills the rest, which is
  indeterminate here (the argument \<open>junk\<close>).
\<close>

definition entry_alloc :: "bool \<Rightarrow> entry \<Rightarrow> entry option" where
  "entry_alloc oom junk =
     (if oom then None
      else Some (junk\<lparr>record_date := None, location := None, device_name := None\<rparr>))"

definition entrylist_alloc :: "bool \<Rightarrow> bool \<Rightarrow> nat \<Rightarrow> entrylist option" where
  "entrylist_alloc oom_list oom_array capacity =
     (if oom_list then None
      else if oom_array then None
      else Some \<lparr>el_size = 0, el_capacity = capacity, el_entries = []\<rparr>)"

definition key_value_pair_emplace :: "string option \<Rightarrow> string option \<Rightarrow> key_value_pair" where
  "key_value_pair_emplace key value = \<lparr>kv_key = key, kv_value = value\<rparr>"

definition key_value_list_alloc :: "bool \<Rightarrow> bool \<Rightarrow> nat \<Rightarrow> key_value_list option" where
  "key_value_list_alloc oom_list oom_array max_items =
     (if oom_list then None
      else if oom_array then None
      else Some \<lparr>kl_length = 0, kl_capacity = max_items, kl_pairs = []\<rparr>)"

definition key_value_list_emplace ::
  "key_value_list \<Rightarrow> string option \<Rightarrow> string option \<Rightarrow> int \<times> key_value_list" where
  "key_value_list_emplace list key value =
     (if kl_length list + 1 > kl_capacity list then (- 1, list)
      else (1, list\<lparr>kl_pairs := take (kl_length list) (kl_pairs list) @ [key_value_pair_emplace key value],
                    kl_length := kl_length list + 1\<rparr>))"

section \<open>JSON documents\<close>

text \<open>
  The calls \<open>sprintf (refkey_str, \<dots>)\<close> followed by a dotted set; the status of the set is not
  looked at. The key must fit the 32-byte buffer.
\<close>

definition put_number :: "bool \<Rightarrow> jobject \<Rightarrow> string \<Rightarrow> fp \<Rightarrow> jobject c" where
  "put_number mem obj key n =
     cbind (strcpy JSON_SERIALIZER_TEMP_ID_BUFFER_SIZE key) (\<lambda>k.
       Inr (snd (json_object_dotset_number mem obj k n)))"

definition put_string :: "bool \<Rightarrow> jobject \<Rightarrow> string \<Rightarrow> string option \<Rightarrow> jobject c" where
  "put_string mem obj key s =
     cbind (strcpy JSON_SERIALIZER_TEMP_ID_BUFFER_SIZE key) (\<lambda>k.
       Inr (snd (json_object_dotset_string mem obj k s)))"

text \<open>
  The unit string is a static array of 8 characters; its first is the temperature unit. A
  zero byte there would end the copied string.
\<close>

definition append_units :: "bool \<Rightarrow> jobject \<Rightarrow> string \<Rightarrow> jobject" where
  "append_units mem jobj unitstr =
     (let t = unitstr ! RPIWD_MEASURE_TEMPERATURE;
          tempunit = (if t = CHR 0x00 then [] else [t]);
          jobj1 = snd (json_object_dotset_string mem jobj ''units.tempunit'' (Some tempunit))
      in snd (json_object_dotset_string mem jobj1 ''units.humidunit'' (Some [RPIWD_DEFAULT_HUMID_UNIT])))"

text \<open>The six fields of an entry under the prefix \<open>pre\<close>.\<close>

definition put_entry :: "bool \<Rightarrow> jobject \<Rightarrow> string \<Rightarrow> entry \<Rightarrow> jobject c" where
  "put_entry mem obj pre e =
     cbind (put_number mem obj (pre @ ''id'') (Fin (of_int (entry_id e)))) (\<lambda>o1.
     cbind (put_string mem o1 (pre @ ''record_date'') (record_date e)) (\<lambda>o2.
     cbind (put_number mem o2 (pre @ ''temperature'') (temperature e)) (\<lambda>o3.
     cbind (put_number mem o3 (pre @ ''humidity'') (humidity e)) (\<lambda>o4.
     cbind (put_string mem o4 (pre @ ''location'') (location e)) (\<lambda>o5.
            put_string mem o5 (pre @ ''device_name'') (device_name e))))))"

definition entry_to_json_value :: "bool \<Rightarrow> entry option \<Rightarrow> string \<Rightarrow> json option c" where
  "entry_to_json_value mem ent unitstr =
     (case json_value_init_object mem of
        None \<Rightarrow> Inr None
      | Some rootval \<Rightarrow>
          (case ent of
             None \<Rightarrow> Inr None
           | Some e \<Rightarrow>
               let o1 = snd (json_object_set_number mem rootval ''length'' (Fin 1));
                   o2 = append_units mem o1 unitstr;
                   o3 = snd (json_object_set_number mem o2 ''errcode'' (Fin 0));
                   o4 = snd (json_object_set_string mem o3 ''errmsg'' (Some []));
                   o5 = snd (json_object_set_number mem o4 ''id'' (Fin (of_int (entry_id e))))
               in cbind (put_entry mem o5 (show_int (entry_id e) @ ''.'') e) (\<lambda>ob.
                    Inr (Some (JSONObject (fst ob) (snd ob))))))"

fun put_entries :: "bool \<Rightarrow> jobject \<Rightarrow> entry list \<Rightarrow> jobject c" where
  "put_entries mem obj [] = Inr obj"
| "put_entries mem obj (e # es) =
     cbind (put_entry mem obj (''results.'' @ show_int (entry_id e) @ ''.'') e) (\<lambda>ob.
       put_entries mem ob es)"

definition entrylist_to_json_value :: "bool \<Rightarrow> entrylist option \<Rightarrow> string \<Rightarrow> json option c" where
  "entrylist_to_json_value mem list unitstr =
     (case list of
        None \<Rightarrow> Inr None
      | Some listptr \<Rightarrow>
          (case json_value_init_object mem of
             None \<Rightarrow> Inr None
           | Some rootval \<Rightarrow>
               let o1 = snd (json_object_set_number mem rootval ''length'' (Fin (of_nat (el_size listptr))));
                   o2 = append_units mem o1 unitstr;
                   o3 = snd (json_object_set_number mem o2 ''errcode'' (Fin 0));
                   o4 = snd (json_object_set_string mem o3 ''errmsg'' (Some []))
               in if length (el_entries listptr) < el_size listptr then Inl UninitRead
                  else cbind (put_entries mem o4 (take (el_size listptr) (el_entries listptr))) (\<lambda>ob.
                         Inr (Some (JSONObject (fst ob) (snd ob))))))"

fun put_pairs :: "bool \<Rightarrow> jobject \<Rightarrow> key_value_pair list \<Rightarrow> jobject c" where
  "put_pairs mem obj [] = Inr obj"
| "put_pairs mem obj (p # ps) =
     cbind (deref (kv_key p)) (\<lambda>key.
     cbind (put_string mem obj (''results.'' @ key) (kv_value p)) (\<lambda>ob.
       put_pairs mem ob ps))"

definition key_value_list_to_json_value :: "bool \<Rightarrow> key_value_list option \<Rightarrow> json option c" where
  "key_value_list_to_json_value mem list =
     (case json_value_init_object mem of
        None \<Rightarrow> cbind (deref list) (\<lambda>_. Inr None)
      | Some rootval \<Rightarrow>
          cbind (deref list) (\<lambda>listptr.
            let o1 = snd (json_object_set_number mem rootval ''length'' (Fin (of_nat (kl_length listptr))));
                o2 = snd (json_object_set_number mem o1 ''errcode'' (Fin 0));
                o3 = snd (json_object_set_string mem o2 ''errmsg'' (Some []))
            in if length (kl_pairs listptr) < kl_length listptr then Inl UninitRead
               else cbind (put_pairs mem o3 (take (kl_length listptr) (kl_pairs listptr))) (\<lambda>ob.
                      Inr (Some (JSONObject (fst ob) (snd ob))))))"

section \<open>Well-formed lists; key/value lists are bounded stores\<close>

definition wf_entrylist :: "entrylist \<Rightarrow> bool" where
  "wf_entrylist l \<longleftrightarrow> length (el_entries l) = el_size l \<and> el_size l \<le> el_capacity l"

definition wf_kvlist :: "key_value_list \<Rightarrow> bool" where
  "wf_kvlist l \<longleftrightarrow> length (kl_pairs l) = kl_length l \<and> kl_length l \<le> kl_capacity l"

lemma wf_kvlist_alloc [wf_intros]: "key_value_list_alloc o1 o2 n = Some l \<Longrightarrow> wf_kvlist l"
  by (auto simp: key_value_list_alloc_def wf_kvlist_def split: if_splits)

lemma wf_entrylist_alloc [wf_intros]: "entrylist_alloc o1 o2 n = Some l \<Longrightarrow> wf_entrylist l"
  by (auto simp: entrylist_alloc_def wf_entrylist_def split: if_splits)

definition kv_add :: "key_value_list \<Rightarrow> key_value_pair \<Rightarrow> bool \<times> key_value_list" where
  "kv_add l p = (case key_value_list_emplace l (kv_key p) (kv_value p) of (r, l') \<Rightarrow> (r = 1, l'))"

interpretation kl: bounded_store kv_add kl_pairs kl_capacity "\<lambda>_ _. True" wf_kvlist
  by unfold_locales
     (auto simp: kv_add_def key_value_list_emplace_def key_value_pair_emplace_def wf_kvlist_def)

lemma emplace_snd: "snd (key_value_list_emplace l k v) = snd (kv_add l \<lparr>kv_key = k, kv_value = v\<rparr>)"
  by (simp add: kv_add_def split: prod.split)

lemma wf_kvlist_emplace [wf_intros]: "wf_kvlist l \<Longrightarrow> wf_kvlist (snd (key_value_list_emplace l k v))"
  by (simp add: emplace_snd kl.add_inv)

section \<open>Running several sets under one path\<close>

fun run_sets :: "jobject \<Rightarrow> string list \<Rightarrow> (string \<times> json) list \<Rightarrow> jobject" where
  "run_sets obj ps [] = obj"
| "run_sets obj ps ((f, v) # sets) = run_sets (snd (set_path obj (ps @ [f]) v)) ps sets"

lemma update_triv: "map_of al k = Some v \<Longrightarrow> AList.update k v al = al"
  by (induction al) (auto split: if_splits)

lemma update_twice: "AList.update k v (AList.update k w al) = AList.update k v al"
  by (induction al) auto

lemma put_object_triv: "map_of (snd obj) k = Some (JSONObject (fst sub) (snd sub)) \<Longrightarrow> put_object obj k sub = obj"
  by (simp add: put_object_def update_triv)

lemma put_object_twice: "put_object (put_object obj k a) k b = put_object obj k b"
  by (simp add: put_object_def update_twice)

lemma get_object_put [simp]: "json_object_get_object (put_object obj k sub) k = Some sub"
  by (simp add: json_object_get_object_def)

lemma get_object_map_of:
  "json_object_get_object obj k = Some sub \<longleftrightarrow> map_of (snd obj) k = Some (JSONObject (fst sub) (snd sub))"
  by (auto simp: json_object_get_object_def json_value_get_object_def split: option.splits json.splits)

lemma set_path_present:
  "json_object_get_object obj k = Some sub \<Longrightarrow> ps \<noteq> [] \<Longrightarrow>
   snd (set_path obj (k # ps) v) = put_object obj k (snd (set_path sub ps v))"
  by (cases ps) (auto split: prod.split)

lemma run_sets_present:
  "json_object_get_object obj k = Some sub \<Longrightarrow>
   run_sets obj (k # ps) sets = put_object obj k (run_sets sub ps sets)"
proof (induction sets arbitrary: obj sub)
  case Nil
  then show ?case by (simp add: put_object_triv get_object_map_of)
next
  case (Cons s sets)
  obtain f v where s: "s = (f, v)" by (cases s)
  have "run_sets obj (k # ps) (s # sets)
      = run_sets (put_object obj k (snd (set_path sub (ps @ [f]) v))) (k # ps) sets"
    using set_path_present [OF Cons.prems, of "ps @ [f]" v] by (simp add: s)
  also have "\<dots> = put_object obj k (run_sets (snd (set_path sub (ps @ [f]) v)) ps sets)"
    by (subst Cons.IH [OF get_object_put]) (simp add: put_object_twice)
  finally show ?case by (simp add: s)
qed

lemma run_sets_new:
  assumes "map_of (snd obj) k = None" "fst (json_object_add True obj k (JSONObject 0 []))" "sets \<noteq> []"
  shows "run_sets obj (k # ps) sets =
           put_object (snd (json_object_add True obj k (JSONObject 0 []))) k (run_sets json_object_init ps sets)"
proof -
  obtain f v ss where s: "sets = (f, v) # ss" using assms(3) by (cases sets) auto
  obtain obj1 where o1: "json_object_add True obj k (JSONObject 0 []) = (True, obj1)"
    using assms(2) by (cases "json_object_add True obj k (JSONObject 0 [])") auto
  have none: "json_object_get_object obj k = None"
    using assms(1) by (simp add: json_object_get_object_def)
  have "set_path obj (k # ps @ [f]) v = (fst (set_path json_object_init (ps @ [f]) v),
      put_object obj1 k (snd (set_path json_object_init (ps @ [f]) v)))"
    using none o1 by (cases "ps @ [f]") (auto split: prod.split)
  then have "run_sets obj (k # ps) sets
      = run_sets (put_object obj1 k (snd (set_path json_object_init (ps @ [f]) v))) (k # ps) ss"
    by (simp add: s)
  then show ?thesis
    by (simp add: run_sets_present s o1 put_object_twice)
qed

lemma run_sets_full:
  assumes "map_of (snd obj) k = None" "json_object_add True obj k (JSONObject 0 []) = (False, obj)"
  shows "run_sets obj (k # ps) sets = obj"
proof -
  have none: "json_object_get_object obj k = None"
    using assms(1) by (simp add: json_object_get_object_def)
  have "snd (set_path obj (k # ps @ [f]) v) = obj" for f v
    using none assms(2) by (cases "ps @ [f]") auto
  then show ?thesis by (induction sets) auto
qed

section \<open>The document of an entry list\<close>

definition str_field :: "string \<Rightarrow> string option \<Rightarrow> (string \<times> json) list" where
  "str_field f s = (case s of Some t \<Rightarrow> if is_valid_utf8 t then [(f, JSONString t)] else [] | None \<Rightarrow> [])"

text \<open>The members an entry should have: a NULL or malformed string has none.\<close>

definition entry_members :: "entry \<Rightarrow> (string \<times> json) list" where
  "entry_members e =
     (''id'', JSONNumber (Fin (of_int (entry_id e)))) # str_field ''record_date'' (record_date e)
     @ [(''temperature'', JSONNumber (temperature e)), (''humidity'', JSONNumber (humidity e))]
     @ str_field ''location'' (location e) @ str_field ''device_name'' (device_name e)"

definition result_member :: "entry \<Rightarrow> string \<times> json" where
  "result_member e = (show_int (entry_id e), JSONObject 15 (entry_members e))"

lemma run_sets_append: "run_sets obj ps (a @ b) = run_sets (run_sets obj ps a) ps b"
  by (induction obj ps a rule: run_sets.induct) auto

lemma put_number_run:
  "path key = ps @ [f] \<Longrightarrow> length key < 32 \<Longrightarrow>
   put_number True obj key n = Inr (run_sets obj ps [(f, JSONNumber n)])"
  by (simp add: put_number_def JSON_SERIALIZER_TEMP_ID_BUFFER_SIZE_def json_object_dotset_number_def
      json_value_init_number_def dotset_path)

lemma put_string_run:
  "path key = ps @ [f] \<Longrightarrow> length key < 32 \<Longrightarrow>
   put_string True obj key s = Inr (run_sets obj ps (str_field f s))"
  by (simp add: put_string_def JSON_SERIALIZER_TEMP_ID_BUFFER_SIZE_def json_object_dotset_string_def
      json_value_init_string_def dotset_path str_field_def split: option.split)

lemma put_entry_run:
  assumes path: "\<And>f. CHR ''.'' \<notin> set f \<Longrightarrow> path (pre @ f) = ps @ [f]" and len: "length pre \<le> 20"
  shows "put_entry True obj pre e = Inr (run_sets obj ps (entry_members e))"
  using len
  by (simp add: put_entry_def put_number_run [OF path] put_string_run [OF path] entry_members_def
      run_sets_append)

lemma show_int_no_dot [simp]: "CHR ''.'' \<notin> set (show_int i)"
proof -
  have "CHR ''.'' \<notin> set (show_nat n)" for n
    using show_nat_isdigit by force
  then show ?thesis by (simp add: show_int_def)
qed

lemma show_nat_inj: "show_nat m = show_nat n \<Longrightarrow> m = n"
  by (metis read_show_nat)

lemma show_nat_not_minus: "show_nat m \<noteq> CHR ''-'' # s"
  by (metis hd_show_nat isdigit_simps(2) list.sel(1))

lemma show_int_inj: "show_int i = show_int j \<Longrightarrow> i = j"
  by (auto simp: show_int_def show_nat_not_minus show_nat_not_minus [symmetric]
      dest: show_nat_inj split: if_splits)

lemma entry_members_distinct: "distinct (map fst (entry_members e))"
  by (auto simp: entry_members_def str_field_def split: option.split)

lemma entry_members_length: "0 < length (entry_members e) \<and> length (entry_members e) \<le> 6"
  by (auto simp: entry_members_def str_field_def split: option.split)

lemma run_sets_flat:
  "fst obj = 15 \<or> obj = json_object_init \<Longrightarrow> distinct (map fst (snd obj @ sets)) \<Longrightarrow>
   length (snd obj) + length sets \<le> 15 \<Longrightarrow> sets \<noteq> [] \<Longrightarrow> run_sets obj [] sets = (15, snd obj @ sets)"
proof (induction sets arbitrary: obj)
  case (Cons s sets)
  obtain f v where s: "s = (f, v)" by (cases s)
  have fresh: "map_of (snd obj) f = None" using Cons.prems(2) by (auto simp: s map_of_eq_None_iff)
  have step: "snd (set_path obj [f] v) = (15, snd obj @ [(f, v)])"
    using Cons.prems fresh
    by (auto simp: json_object_set_value_def json_object_add_def json_object_resize_def Let_def
        STARTING_CAPACITY_def OBJECT_MAX_CAPACITY_def json_object_init_def)
  show ?case
  proof (cases "sets = []")
    case False
    then have "run_sets (15, snd obj @ [(f, v)]) [] sets = (15, snd (15 :: nat, snd obj @ [(f, v)]) @ sets)"
      using Cons.prems by (intro Cons.IH) (auto simp: s)
    then show ?thesis using step by (simp add: s)
  qed (use step in \<open>simp add: s\<close>)
qed simp

lemma run_sets_entry: "run_sets json_object_init [] (entry_members e) = (15, entry_members e)"
  using run_sets_flat [of json_object_init "entry_members e"] entry_members_distinct [of e]
    entry_members_length [of e]
  by (auto simp: json_object_init_def)

lemma update_last: "k \<notin> fst ` set al \<Longrightarrow> AList.update k v (al @ [(k, w)]) = al @ [(k, v)]"
  by (induction al) auto

lemma add_indep:
  assumes "map_of (snd obj) k = None"
  shows "fst (json_object_add True obj k v) = fst (json_object_add True obj k w)"
    and "fst (snd (json_object_add True obj k v)) = fst (snd (json_object_add True obj k w))"
  using assms by (simp_all add: json_object_add_def json_object_resize_def Let_def)

lemma run_sets_result:
  assumes wf: "wf_object res" and fresh: "fst (result_member e) \<notin> fst ` set (snd res)"
  shows "run_sets res [show_int (entry_id e)] (entry_members e)
           = snd (json_object_add True res (fst (result_member e)) (snd (result_member e)))"
proof -
  let ?k = "show_int (entry_id e)"
  have none: "map_of (snd res) ?k = None"
    using fresh by (simp add: map_of_eq_None_iff result_member_def)
  show ?thesis
  proof (cases "length (snd res) < 960")
    case True
    note A = object_add_room [OF wf True fresh]
    have "run_sets res [?k] (entry_members e) = put_object (snd (json_object_add True res ?k (JSONObject 0 [])))
        ?k (15, entry_members e)"
      using none A entry_members_length [of e]
      by (subst run_sets_new) (auto simp: run_sets_entry result_member_def)
    then show ?thesis
      using A add_indep(2) [OF none] fresh
      by (simp add: put_object_def result_member_def update_last prod_eq_iff)
  next
    case False
    then show ?thesis
      using object_add_full [OF wf] run_sets_full [OF none] by simp
  qed
qed

text \<open>The results object, entry after entry, is a bounded store being filled.\<close>

definition results_of :: "jobject \<Rightarrow> entry list \<Rightarrow> jobject" where
  "results_of res es = jo.add_all res (map result_member es)"

lemma all_fit_distinct: "distinct (map fst (es @ xs)) \<Longrightarrow> jo.all_fit es xs"
  by (induction xs arbitrary: es) auto

lemma results_of_entries:
  "distinct (map entry_id es) \<Longrightarrow> snd (results_of json_object_init es) = take 960 (map result_member es)"
proof -
  assume d: "distinct (map entry_id es)"
  have "distinct (map fst (map result_member es))"
    using d by (auto simp: distinct_map result_member_def inj_on_def comp_def dest: show_int_inj)
  then have "jo.all_fit [] (map result_member es)" by (intro all_fit_distinct) simp
  then show ?thesis
    using jo.entries_add_all [of json_object_init "map result_member es"]
    by (simp add: results_of_def wf_object_def json_object_init_def)
qed

lemma path_results: "CHR ''.'' \<notin> set f \<Longrightarrow> path ((''results.'' @ show_int i @ ''.'') @ f) = [''results'', show_int i] @ [f]"
  using path_dot [of "''results''" "show_int i @ CHR ''.'' # f"] by simp

lemma put_entries_present:
  assumes "json_object_get_object obj ''results'' = Some res" "wf_object res"
    and "\<forall>e \<in> set es. is_i32 (entry_id e)"
    and "distinct (map (fst \<circ> result_member) es)"
    and "\<forall>e \<in> set es. fst (result_member e) \<notin> fst ` set (snd res)"
  shows "put_entries True obj es = Inr (put_object obj ''results'' (results_of res es))"
  using assms
proof (induction es arbitrary: obj res)
  case Nil
  then show ?case by (simp add: results_of_def put_object_triv get_object_map_of)
next
  case (Cons e es)
  let ?m = "result_member e"
  let ?res = "snd (json_object_add True res (fst ?m) (snd ?m))"
  have len: "length (''results.'' @ show_int (entry_id e) @ ''.'') \<le> 20"
    using length_show_int [of "entry_id e"] Cons.prems by simp
  have "put_entry True obj (''results.'' @ show_int (entry_id e) @ ''.'') e
      = Inr (put_object obj ''results'' ?res)"
    using put_entry_run [OF path_results len] run_sets_present [OF Cons.prems(1)]
      run_sets_result [OF Cons.prems(2)] Cons.prems(5)
    by simp
  moreover have "put_entries True (put_object obj ''results'' ?res) es
      = Inr (put_object (put_object obj ''results'' ?res) ''results'' (results_of ?res es))"
  proof (rule Cons.IH [OF get_object_put wf_object_add [OF Cons.prems(2)]])
    have "fst ` set (snd ?res) \<subseteq> insert (fst ?m) (fst ` set (snd res))"
      by (auto simp: json_object_add_def json_object_resize_def Let_def split: if_splits)
    moreover have "fst (result_member e') \<noteq> fst ?m \<and> fst (result_member e') \<notin> fst ` set (snd res)"
      if "e' \<in> set es" for e'
      using that Cons.prems(4,5) by (auto simp: image_iff)
    ultimately show "\<forall>e \<in> set es. fst (result_member e) \<notin> fst ` set (snd ?res)"
      by blast
  qed (use Cons.prems in auto)
  ultimately show ?case by (simp add: results_of_def put_object_twice)
qed

definition doc_header :: "nat \<Rightarrow> string \<Rightarrow> (string \<times> json) list" where
  "doc_header n unitstr =
     [(''length'', JSONNumber (Fin (of_nat n))),
      (''units'', JSONObject 15 [(''tempunit'', JSONString [unitstr ! 0]), (''humidunit'', JSONString ''%'')]),
      (''errcode'', JSONNumber (Fin 0)), (''errmsg'', JSONString [])]"

lemma path_units: "path ''units.tempunit'' = [''units'', ''tempunit'']" "path ''units.humidunit'' = [''units'', ''humidunit'']"
  using path_dot [of "''units''" "''tempunit''"] path_dot [of "''units''" "''humidunit''"] by simp_all

lemmas set_unfold = json_object_set_value_def json_object_add_def json_object_resize_def
  STARTING_CAPACITY_def OBJECT_MAX_CAPACITY_def json_object_init_def put_object_def
  json_object_get_object_def json_value_get_object_def

lemma valid_char: "unitstr ! 0 \<in> {CHR ''c'', CHR ''f''} \<Longrightarrow> is_valid_utf8 [unitstr ! 0] \<and> unitstr ! 0 \<noteq> CHR 0x00"
  by (auto intro!: is_valid_ascii simp: code_def)

lemma units_set:
  assumes "unitstr ! 0 \<in> {CHR ''c'', CHR ''f''}"
  shows "append_units True (15, [(''length'', x)]) unitstr =
    (15, [(''length'', x),
          (''units'', JSONObject 15 [(''tempunit'', JSONString [unitstr ! 0]), (''humidunit'', JSONString ''%'')])])"
proof -
  have v: "is_valid_utf8 [unitstr ! 0]" "unitstr ! 0 \<noteq> CHR 0x00" "is_valid_utf8 ''%''"
    using valid_char [OF assms] is_valid_ascii [of "''%''"] by (simp_all add: code_def)
  then show ?thesis
    by (simp add: append_units_def Let_def RPIWD_MEASURE_TEMPERATURE_def RPIWD_DEFAULT_HUMID_UNIT_def
        json_object_dotset_string_def json_value_init_string_def dotset_path path_units set_unfold)
qed

lemma put_entries_new:
  assumes "fst obj = 15" "length (snd obj) < 15" "''results'' \<notin> fst ` set (snd obj)"
    and ids: "\<forall>e \<in> set es. is_i32 (entry_id e)" and d: "distinct (map (fst \<circ> result_member) es)"
    and "es \<noteq> []"
  shows "put_entries True obj es =
    Inr (15, snd obj @ [(''results'', JSONObject (fst (results_of json_object_init es)) (snd (results_of json_object_init es)))])"
proof -
  obtain e es' where es: "es = e # es'" using assms(6) by (cases es) auto
  let ?m = "result_member e"
  let ?res = "snd (json_object_add True json_object_init (fst ?m) (snd ?m))"
  have none: "map_of (snd obj) ''results'' = None" using assms(3) by (simp add: map_of_eq_None_iff)
  have add: "json_object_add True obj ''results'' (JSONObject 0 []) = (True, (15, snd obj @ [(''results'', JSONObject 0 [])]))"
    using assms(1,2) none by (simp add: json_object_add_def)
  have len: "length (''results.'' @ show_int (entry_id e) @ ''.'') \<le> 20"
    using length_show_int [of "entry_id e"] ids by (simp add: es)
  define base where "base = (15 :: nat, snd obj @ [(''results'', JSONObject 0 [])])"
  have "put_entry True obj (''results.'' @ show_int (entry_id e) @ ''.'') e
      = Inr (put_object base ''results'' ?res)"
    using put_entry_run [OF path_results len] entry_members_length [of e]
      run_sets_result [OF wf_object_init, of e] none add
    by (simp add: run_sets_new base_def json_object_init_def)
  moreover have "put_entries True (put_object base ''results'' ?res) es'
      = Inr (put_object (put_object base ''results'' ?res) ''results'' (results_of ?res es'))"
  proof (rule put_entries_present [OF get_object_put wf_object_add [OF wf_object_init]])
    show "\<forall>e \<in> set es'. fst (result_member e) \<notin> fst ` set (snd ?res)"
      using d
      by (auto simp: es json_object_init_def json_object_add_def json_object_resize_def Let_def image_iff
          split: if_splits)
  qed (use ids d in \<open>auto simp: es\<close>)
  ultimately have "put_entries True obj es = Inr (put_object base ''results'' (results_of ?res es'))"
    by (simp add: es put_object_twice)
  moreover have "put_object base ''results'' r = (15, snd obj @ [(''results'', JSONObject (fst r) (snd r))])" for r
    using assms(3) by (simp add: put_object_def base_def update_last)
  ultimately show ?thesis by (simp add: es results_of_def)
qed

lemma doc_root:
  assumes "unitstr ! 0 \<in> {CHR ''c'', CHR ''f''}"
  shows "snd (json_object_set_string True (snd (json_object_set_number True (append_units True
           (snd (json_object_set_number True json_object_init ''length'' (Fin (of_nat n)))) unitstr)
           ''errcode'' (Fin 0))) ''errmsg'' (Some [])) = (15, doc_header n unitstr)"
proof -
  have "snd (json_object_set_number True json_object_init ''length'' (Fin (of_nat n)))
      = (15, [(''length'', JSONNumber (Fin (of_nat n)))])"
    by (simp add: json_object_set_number_def json_value_init_number_def set_unfold)
  then show ?thesis
    by (simp add: units_set [OF assms] json_object_set_number_def json_value_init_number_def
        json_object_set_string_def json_value_init_string_def json_object_set_value_def
        json_object_add_def doc_header_def)
qed

text \<open>What the document of an entry list is meant to be, with the limit of an object.\<close>

definition entrylist_document :: "entry list \<Rightarrow> string \<Rightarrow> json" where
  "entrylist_document es unitstr =
     JSONObject 15 (doc_header (length es) unitstr @
       (if es = [] then []
        else [(''results'', JSONObject (fst (results_of json_object_init es)) (take 960 (map result_member es)))]))"

lemma entrylist_json:
  assumes wf: "wf_entrylist l" and unit: "unitstr ! 0 \<in> {CHR ''c'', CHR ''f''}"
    and ids: "\<forall>e \<in> set (el_entries l). is_i32 (entry_id e)" "distinct (map entry_id (el_entries l))"
  shows "entrylist_to_json_value True (Some l) unitstr = Inr (Some (entrylist_document (el_entries l) unitstr))"
proof (cases "el_entries l = []")
  case True
  then show ?thesis
    using wf doc_root [OF unit, of 0]
    by (simp add: entrylist_to_json_value_def json_value_init_object_def entrylist_document_def wf_entrylist_def Let_def)
next
  case False
  have d: "distinct (map (fst \<circ> result_member) (el_entries l))"
    using ids(2) by (auto simp: distinct_map result_member_def inj_on_def dest: show_int_inj)
  have "''results'' \<notin> fst ` set (doc_header n unitstr)" "length (doc_header n unitstr) < 15" for n
    by (auto simp: doc_header_def)
  then show ?thesis
    using False wf doc_root [OF unit] put_entries_new [OF _ _ _ ids(1) d False] results_of_entries [OF ids(2)]
    by (simp add: entrylist_to_json_value_def json_value_init_object_def entrylist_document_def wf_entrylist_def Let_def)
qed

section \<open>The document of a key/value list\<close>

definition pair_members :: "key_value_pair \<Rightarrow> (string \<times> json) list" where
  "pair_members p = (case kv_key p of None \<Rightarrow> [] | Some k \<Rightarrow> str_field k (kv_value p))"

lemma run_sets_add_all:
  "wf_object obj \<Longrightarrow> distinct (map fst (snd obj @ sets)) \<Longrightarrow> run_sets obj [] sets = jo.add_all obj sets"
proof (induction sets arbitrary: obj)
  case (Cons s sets)
  obtain f v where s: "s = (f, v)" by (cases s)
  have none: "map_of (snd obj) f = None" using Cons.prems(2) by (auto simp: s map_of_eq_None_iff)
  let ?o = "snd (json_object_add True obj f v)"
  have "snd ?o = snd obj @ [(f, v)] \<or> ?o = obj"
    using object_add_room [OF Cons.prems(1), of f v] object_add_full [OF Cons.prems(1), of f v] none
    by (cases "length (snd obj) < 960") (auto simp: map_of_eq_None_iff)
  then have "run_sets ?o [] sets = jo.add_all ?o sets"
    using Cons.prems by (intro Cons.IH; elim disjE) (simp_all add: s wf_object_add)
  then show ?case using none by (simp add: s json_object_set_value_def)
qed simp

definition good_pair :: "key_value_pair \<Rightarrow> bool" where
  "good_pair p \<longleftrightarrow> (case kv_key p of None \<Rightarrow> False | Some k \<Rightarrow> CHR ''.'' \<notin> set k \<and> length k < 24)"

lemma put_pairs_run:
  "list_all good_pair ps \<Longrightarrow>
   put_pairs True obj ps = Inr (run_sets obj [''results''] (concat (map pair_members ps)))"
proof (induction ps arbitrary: obj)
  case (Cons p ps)
  then obtain k where k: "kv_key p = Some k" "CHR ''.'' \<notin> set k" "length k < 24"
    by (auto simp: good_pair_def split: option.splits)
  have "path (''results.'' @ k) = [''results''] @ [k]"
    using path_dot [of "''results''" k] k by simp
  with Cons k show ?case
    by (simp add: put_string_run [of "''results.'' @ k" "[''results'']" k, simplified] run_sets_append pair_members_def)
qed simp

definition kvlist_document :: "key_value_pair list \<Rightarrow> json" where
  "kvlist_document ps =
     (let ms = concat (map pair_members ps) in
      JSONObject 15 ([(''length'', JSONNumber (Fin (of_nat (length ps)))),
                      (''errcode'', JSONNumber (Fin 0)), (''errmsg'', JSONString [])] @
        (if ms = [] then []
         else [(''results'', JSONObject (fst (jo.add_all json_object_init ms)) (take 960 ms))])))"

lemma kvlist_json:
  assumes wf: "wf_kvlist l" and good: "list_all good_pair (kl_pairs l)" and d: "distinct (map kv_key (kl_pairs l))"
  shows "key_value_list_to_json_value True (Some l) = Inr (Some (kvlist_document (kl_pairs l)))"
proof -
  define ms where "ms = concat (map pair_members (kl_pairs l))"
  define o3 where "o3 = (15 :: nat, [(''length'', JSONNumber (Fin (of_nat (length (kl_pairs l))))),
                      (''errcode'', JSONNumber (Fin 0)), (''errmsg'', JSONString [])])"
  have mem: "\<exists>p \<in> set ps. kv_key p = Some (fst m)" if "m \<in> set (concat (map pair_members ps))" for m ps
    using that by (auto simp: pair_members_def str_field_def split: option.splits if_splits)
  have dist: "distinct (map fst (concat (map pair_members ps)))" if "distinct (map kv_key ps)" for ps
    using that
  proof (induction ps)
    case (Cons p ps)
    then show ?case
      by (auto simp: pair_members_def str_field_def split: option.split dest!: mem)
  qed simp
  have add_all: "run_sets json_object_init [] ms = jo.add_all json_object_init ms"
    "snd (jo.add_all json_object_init ms) = take 960 ms"
    using dist [OF d, folded ms_def] jo.entries_add_all [of json_object_init ms] all_fit_distinct [of "[]" ms]
    by (simp_all add: run_sets_add_all json_object_init_def wf_object_def)
  have "run_sets o3 [''results''] ms = (15, snd o3 @ (if ms = [] then [] else
      [(''results'', JSONObject (fst (jo.add_all json_object_init ms)) (take 960 ms))]))"
    using add_all
    by (auto simp: o3_def run_sets_new json_object_add_def put_object_def)
  moreover have "snd (json_object_set_string True (snd (json_object_set_number True (snd (json_object_set_number True
      json_object_init ''length'' (Fin (of_nat (length (kl_pairs l)))))) ''errcode'' (Fin 0))) ''errmsg'' (Some [])) = o3"
    by (simp add: json_object_set_number_def json_value_init_number_def json_object_set_string_def
        json_value_init_string_def set_unfold o3_def)
  ultimately show ?thesis
    using wf put_pairs_run [OF good]
    by (simp add: key_value_list_to_json_value_def json_value_init_object_def kvlist_document_def wf_kvlist_def
        Let_def ms_def [symmetric] o3_def)
qed

section \<open>The document of one entry\<close>

definition entry_document :: "entry \<Rightarrow> string \<Rightarrow> json" where
  "entry_document e unitstr =
     JSONObject 15 (doc_header 1 unitstr @ [(''id'', JSONNumber (Fin (of_int (entry_id e)))),
       (show_int (entry_id e), JSONObject 15 (entry_members e))])"

lemma show_int_hd: "isdigit (hd (show_int i)) \<or> hd (show_int i) = CHR ''-''"
  using hd_show_nat by (auto simp: show_int_def)

lemma show_int_fresh: "k \<noteq> [] \<Longrightarrow> \<not> isdigit (hd k) \<Longrightarrow> hd k \<noteq> CHR ''-'' \<Longrightarrow> show_int i \<noteq> k"
  using show_int_hd by metis

lemma entry_json:
  assumes unit: "unitstr ! 0 \<in> {CHR ''c'', CHR ''f''}" and id: "is_i32 (entry_id e)"
  shows "entry_to_json_value True (Some e) unitstr = Inr (Some (entry_document e unitstr))"
proof -
  let ?k = "show_int (entry_id e)"
  define o5 where "o5 = (15 :: nat, doc_header 1 unitstr @ [(''id'', JSONNumber (Fin (of_int (entry_id e))))])"
  have root5: "snd (json_object_set_number True (15, doc_header 1 unitstr) ''id'' (Fin (of_int (entry_id e)))) = o5"
    by (simp add: json_object_set_number_def json_value_init_number_def json_object_set_value_def
        json_object_add_def doc_header_def o5_def)
  have fresh: "?k \<notin> fst ` set (snd o5)"
    using show_int_fresh [of _ "entry_id e"]
    by (auto simp: o5_def doc_header_def isdigit_def code_def)
  have none: "map_of (snd o5) ?k = None" using fresh by (simp add: map_of_eq_None_iff)
  have add: "json_object_add True o5 ?k (JSONObject 0 []) = (True, (15, snd o5 @ [(?k, JSONObject 0 [])]))"
    using none by (simp add: json_object_add_def) (simp add: o5_def doc_header_def)
  have "put_entry True o5 (?k @ ''.'') e = Inr (run_sets o5 [?k] (entry_members e))"
    using length_show_int [OF id] path_dot [of ?k]
    by (intro put_entry_run) auto
  also have "run_sets o5 [?k] (entry_members e) = (15, snd o5 @ [(?k, JSONObject 15 (entry_members e))])"
    using none add entry_members_length [of e] fresh
    by (subst run_sets_new) (auto simp: run_sets_entry put_object_def update_last)
  finally show ?thesis
    using doc_root [OF unit, of 1] root5
    by (simp add: entry_to_json_value_def json_value_init_object_def Let_def entry_document_def o5_def)
qed

section \<open>Properties\<close>

text \<open>C6. The JSON document of an entry list is the intended one: the header with the number of
  entries, the units and a zero error code, and under \<open>results\<close> one object per entry keyed by its
  decimal id, in order, for the first 960 entries. No key overruns the 32-byte key buffer for any
  32-bit id.\<close>
theorem entrylist_document_correct:
  assumes "wf_entrylist l" "unitstr ! 0 \<in> {CHR ''c'', CHR ''f''}"
    and "\<forall>e \<in> set (el_entries l). is_i32 (entry_id e)" "distinct (map entry_id (el_entries l))"
  shows "entrylist_to_json_value True (Some l) unitstr = Inr (Some (entrylist_document (el_entries l) unitstr))"
  using assms by (rule entrylist_json)

definition sample_entry :: "int \<Rightarrow> entry" where
  "sample_entry i = \<lparr>entry_id = i, record_date = Some ''2017-11-16 02:54'', temperature = Fin 20, humidity = Fin 40,
                     location = Some ''attic'', device_name = Some ''dht11''\<rparr>"

definition sample_list :: "nat \<Rightarrow> entrylist" where
  "sample_list n = \<lparr>el_size = n, el_capacity = n, el_entries = map (\<lambda>i. sample_entry (int i)) [0..<n]\<rparr>"

lemma sample_list_ok:
  assumes "n \<le> 2048"
  shows "wf_entrylist (sample_list n)" "\<forall>e \<in> set (el_entries (sample_list n)). is_i32 (entry_id e)"
    "distinct (map entry_id (el_entries (sample_list n)))"
  using assms by (auto simp: sample_list_def wf_entrylist_def sample_entry_def INT_MIN_def INT_MAX_def distinct_map inj_on_def comp_def)

theorem entrylist_document_correct_witness:
  "entrylist_to_json_value True (Some (sample_list 3)) ''c'' = Inr (Some (entrylist_document (el_entries (sample_list 3)) ''c''))"
  by (rule entrylist_document_correct) (use sample_list_ok [of 3] in auto)

text \<open>A list longer than 960 entries, which the database handler produces up to 2048, loses
  the rest silently: the document announces all of them under \<open>length\<close> and carries 960.\<close>
theorem entrylist_document_truncated:
  assumes "wf_entrylist l" "unitstr ! 0 \<in> {CHR ''c'', CHR ''f''}"
    and "\<forall>e \<in> set (el_entries l). is_i32 (entry_id e)" "distinct (map entry_id (el_entries l))"
    and "960 < el_size l"
  shows "\<exists>kvs cap ms. entrylist_to_json_value True (Some l) unitstr = Inr (Some (JSONObject 15 kvs)) \<and>
    json_object_get_value (15, kvs) ''length'' = Some (JSONNumber (Fin (of_nat (el_size l)))) \<and>
    json_object_get_value (15, kvs) ''results'' = Some (JSONObject cap ms) \<and> length ms = 960"
proof -
  have "length (el_entries l) = el_size l" using assms(1) by (simp add: wf_entrylist_def)
  moreover from this have "el_entries l \<noteq> []" using assms(5) by auto
  ultimately show ?thesis
    using entrylist_json [OF assms(1-4)] assms(5) by (simp add: entrylist_document_def doc_header_def)
qed

theorem entrylist_document_truncated_witness:
  "\<exists>kvs cap ms. entrylist_to_json_value True (Some (sample_list 1000)) ''f'' = Inr (Some (JSONObject 15 kvs)) \<and>
    json_object_get_value (15, kvs) ''length'' = Some (JSONNumber (Fin (of_nat (el_size (sample_list 1000))))) \<and>
    json_object_get_value (15, kvs) ''results'' = Some (JSONObject cap ms) \<and> length ms = 960"
  by (rule entrylist_document_truncated) (use sample_list_ok [of 1000] in \<open>auto simp: sample_list_def\<close>)

text \<open>The document of a single entry carries the header, the id and the entry's members under
  its decimal id.\<close>
theorem entry_document_correct:
  assumes "unitstr ! 0 \<in> {CHR ''c'', CHR ''f''}" "is_i32 (entry_id e)"
  shows "entry_to_json_value True (Some e) unitstr = Inr (Some (entry_document e unitstr))"
  using assms by (rule entry_json)

theorem entry_document_correct_witness:
  "entry_to_json_value True (Some (sample_entry (- 7))) ''c'' = Inr (Some (entry_document (sample_entry (- 7)) ''c''))"
  by (rule entry_document_correct) (simp_all add: sample_entry_def INT_MIN_def INT_MAX_def)

text \<open>The document of a key/value list carries the number of pairs and, under \<open>results\<close>, every
  pair with a valid value, in order; keys below 24 characters without dots fit the key buffer.\<close>
theorem kvlist_document_correct:
  assumes "wf_kvlist l" "list_all good_pair (kl_pairs l)" "distinct (map kv_key (kl_pairs l))"
  shows "key_value_list_to_json_value True (Some l) = Inr (Some (kvlist_document (kl_pairs l)))"
  using assms by (rule kvlist_json)

theorem kvlist_document_correct_witness:
  "key_value_list_to_json_value True (Some \<lparr>kl_length = 1, kl_capacity = 2, kl_pairs = [\<lparr>kv_key = Some ''units'', kv_value = Some ''metric''\<rparr>]\<rparr>)
    = Inr (Some (kvlist_document (kl_pairs \<lparr>kl_length = 1, kl_capacity = 2, kl_pairs = [\<lparr>kv_key = Some ''units'', kv_value = Some ''metric''\<rparr>]\<rparr>)))"
  by (rule kvlist_document_correct) (simp_all add: wf_kvlist_def good_pair_def)

text \<open>Pairs put one after the other into a list allocated for \<open>n\<close> are kept in order up to
  \<open>n\<close>; the ones beyond are refused without touching the list, and the array is never overrun.\<close>
theorem kvlist_emplace_all:
  assumes "key_value_list_alloc False False n = Some l"
  shows "kl_pairs (foldl (\<lambda>l (k, v). snd (key_value_list_emplace l k v)) l kvs)
    = take n (map (\<lambda>(k, v). \<lparr>kv_key = k, kv_value = v\<rparr>) kvs)"
proof -
  have all: "foldl (\<lambda>l (k, v). snd (key_value_list_emplace l k v)) l' xs
      = kl.add_all l' (map (\<lambda>(k, v). \<lparr>kv_key = k, kv_value = v\<rparr>) xs)" for l' xs
    by (induction xs arbitrary: l') (auto simp: emplace_snd)
  have fit: "kl.all_fit es xs" for es xs by (induction xs arbitrary: es) auto
  have l: "wf_kvlist l" "kl_pairs l = []" "kl_capacity l = n"
    using assms by (auto simp: key_value_list_alloc_def wf_kvlist_def)
  show ?thesis using kl.entries_add_all [OF l(1) fit] l(2,3) by (simp add: all)
qed

theorem kvlist_emplace_all_witness:
  "kl_pairs (foldl (\<lambda>l (k, v). snd (key_value_list_emplace l k v)) \<lparr>kl_length = 0, kl_capacity = 1, kl_pairs = []\<rparr>
      [(Some ''a'', None), (Some ''b'', None)])
    = take 1 (map (\<lambda>(k, v). \<lparr>kv_key = k, kv_value = v\<rparr>) [(Some ''a'', None), (Some ''b'', None)])"
  by (rule kvlist_emplace_all) (simp add: key_value_list_alloc_def)

end
