(* ===== verification/Config.thy ===== *)
theory Config
  imports Ini Util Device Datastructures
begin

text \<open>
  \<^verbatim>\<open>src/src/confighandler.c\<close> and its header: the configuration record, the callback that fills it
  from the INI parser, the writer, the checker and the current configuration with its unit string.
  \<open>errno\<close> is explicit as in the utilities. The strings are heap pointers: freeing them leaves the
  record with dangling ones, as the code does.
\<close>

section \<open>The configuration\<close>

definition CONFIG_FILE_DEFAULT_LOCATION :: string where
  "CONFIG_FILE_DEFAULT_LOCATION = ''/etc/rpiweatherd/rpiweatherd.conf''"
definition CONFIG_BLANK_FILE_LOCATION :: string where
  "CONFIG_BLANK_FILE_LOCATION = ''/etc/rpiweatherd/skel/rpiweatherd.conf''"
definition CONFIG_LOCATION :: string where "CONFIG_LOCATION = ''measure_location''"
definition CONFIG_QUERY_INTERVAL :: string where "CONFIG_QUERY_INTERVAL = ''query_interval''"
definition CONFIG_DEVICE_NAME :: string where "CONFIG_DEVICE_NAME = ''device_name''"
definition CONFIG_DEVICE_CONFIG :: string where "CONFIG_DEVICE_CONFIG = ''device_config''"
definition CONFIG_UNITS :: string where "CONFIG_UNITS = ''units''"
definition CONFIG_COMM_PORT :: string where "CONFIG_COMM_PORT = ''comm_port''"
definition CONFIG_NUM_WORKER_THREADS :: string where "CONFIG_NUM_WORKER_THREADS = ''num_worker_threads''"

lemmas config_key_defs = CONFIG_LOCATION_def CONFIG_QUERY_INTERVAL_def CONFIG_DEVICE_NAME_def
  CONFIG_DEVICE_CONFIG_def CONFIG_UNITS_def CONFIG_COMM_PORT_def CONFIG_NUM_WORKER_THREADS_def

definition CONFIG_ERROR_COMM_PORT :: int where "CONFIG_ERROR_COMM_PORT = - 1"
definition CONFIG_ERROR_DEVICE_CONFIG :: int where "CONFIG_ERROR_DEVICE_CONFIG = - 2"
definition CONFIG_ERROR_NUM_WTHREADS :: int where "CONFIG_ERROR_NUM_WTHREADS = - 3"
definition CONFIG_NUM_WORKER_THREADS_MAX :: int where "CONFIG_NUM_WORKER_THREADS_MAX = 4"
definition CONFIG_MAX_QUERY_ATTEMPTS :: int where "CONFIG_MAX_QUERY_ATTEMPTS = 64"
definition CONFIG_MAX_TRIGGERS :: nat where "CONFIG_MAX_TRIGGERS = 16"

lemmas config_error_defs = CONFIG_ERROR_COMM_PORT_def CONFIG_ERROR_DEVICE_CONFIG_def CONFIG_ERROR_NUM_WTHREADS_def

record rpiwd_config =
  config_count :: nat
  measure_location :: "string ptr"
  cfg_device_name :: "string ptr"
  device_config :: int
  query_interval :: "string ptr"
  comm_port :: int
  num_worker_threads :: int

text \<open>The static configuration of a fresh process.\<close>

definition zero_config :: rpiwd_config where
  "zero_config = \<lparr>config_count = 0, measure_location = Null, cfg_device_name = Null, device_config = 0,
                  query_interval = Null, comm_port = 0, num_worker_threads = 0\<rparr>"

section \<open>Reading and writing\<close>

text \<open>
  The callback works on the configuration, the static counter \<open>temp_count\<close> and \<open>errno\<close>. \<open>oom\<close> says for which
  settings, by their number, \<open>strdup\<close> fails; the result is stored without a check.
\<close>

type_synonym config_user = "rpiwd_config \<times> nat \<times> bool"

definition inih_callback :: "(nat \<Rightarrow> bool) \<Rightarrow> config_user ini_handler" where
  "inih_callback oom user section name value =
     (case user of (conf, temp_count, erange) \<Rightarrow>
        let copy = (if oom temp_count then Null else Ptr value);
            ok = (\<lambda>conf' er. (1, (conf', temp_count + 1, er)));
            (num, er) = strtol value;
            er' = (erange \<or> er)
        in if value = [] then (0, user)
           else if name = CONFIG_LOCATION then ok (conf\<lparr>measure_location := copy\<rparr>) erange
           else if name = CONFIG_QUERY_INTERVAL then ok (conf\<lparr>query_interval := copy\<rparr>) erange
           else if name = CONFIG_DEVICE_NAME then ok (conf\<lparr>cfg_device_name := copy\<rparr>) erange
           else if name = CONFIG_DEVICE_CONFIG then
             (let conf' = conf\<lparr>device_config := num\<rparr>
              in if er' then (CONFIG_ERROR_DEVICE_CONFIG, (conf', temp_count, er')) else ok conf' er')
           else if name = CONFIG_UNITS then ok conf erange
           else if name = CONFIG_COMM_PORT then
             (let conf' = conf\<lparr>comm_port := num\<rparr>
              in if er' then (CONFIG_ERROR_COMM_PORT, (conf', temp_count, er')) else ok conf' er')
           else if name = CONFIG_NUM_WORKER_THREADS then
             (let conf' = conf\<lparr>num_worker_threads := num\<rparr>
              in if er' then (CONFIG_ERROR_NUM_WTHREADS, (conf', temp_count, er')) else ok conf' er')
           else (0, user))"

text \<open>The text written; a string that is not there is read through.\<close>

definition config_text :: "rpiwd_config \<Rightarrow> string c" where
  "config_text conf =
     cbind (load (measure_location conf)) (\<lambda>loc.
     cbind (load (query_interval conf)) (\<lambda>iv.
     cbind (load (cfg_device_name conf)) (\<lambda>dev.
       Inr (''[General]'' @ [CHR 0x0A] @
            CONFIG_LOCATION @ ''='' @ loc @ [CHR 0x0A] @
            CONFIG_QUERY_INTERVAL @ ''='' @ iv @ [CHR 0x0A] @
            [CHR 0x0A] @ ''[Device Configuration]'' @ [CHR 0x0A] @
            CONFIG_DEVICE_NAME @ ''='' @ dev @ [CHR 0x0A] @
            CONFIG_DEVICE_CONFIG @ ''='' @ show_int (device_config conf) @ [CHR 0x0A] @
            [CHR 0x0A] @ ''[Server Configuration]'' @ [CHR 0x0A] @
            CONFIG_COMM_PORT @ ''='' @ show_int (comm_port conf) @ [CHR 0x0A] @
            CONFIG_NUM_WORKER_THREADS @ ''='' @ show_int (num_worker_threads conf) @ [CHR 0x0A]))))"

definition write_config_file :: "files \<Rightarrow> string \<Rightarrow> rpiwd_config \<Rightarrow> (int \<times> files) c" where
  "write_config_file fs fname conf =
     (if unwritable fs fname then Inr (- 1, fs)
      else cbind (config_text conf) (\<lambda>text.
             let out = take (space fs) text
             in Inr (0, fs\<lparr>contents := (contents fs)(fname \<mapsto> out), space := space fs - length out\<rparr>)))"

definition open_read :: "files \<Rightarrow> string \<rightharpoonup> string" where
  "open_read fs fname = (if unreadable fs fname then None else contents fs fname)"

text \<open>The flag, the configuration and \<open>errno\<close>.\<close>

definition parse_config_file :: "(nat \<Rightarrow> bool) \<Rightarrow> files \<Rightarrow> string \<Rightarrow> rpiwd_config \<Rightarrow> bool \<Rightarrow> int \<times> rpiwd_config \<times> bool" where
  "parse_config_file oom fs fname conf erange =
     (case ini_parse (open_read fs) fname (inih_callback oom) (conf, 0, erange) of
        (parse_flag, (conf', temp_count, er)) \<Rightarrow> (parse_flag, conf'\<lparr>config_count := temp_count\<rparr>, er))"

definition free_config :: "rpiwd_config \<Rightarrow> rpiwd_config c" where
  "free_config conf =
     cbind (free_ptr (measure_location conf)) (\<lambda>loc.
     cbind (free_ptr (cfg_device_name conf)) (\<lambda>dev.
     cbind (free_ptr (query_interval conf)) (\<lambda>iv.
       Inr (conf\<lparr>measure_location := loc, cfg_device_name := dev, query_interval := iv,
                 comm_port := 0, device_config := 0\<rparr>))))"

definition generate_blank_config :: "files \<Rightarrow> string \<Rightarrow> int \<times> files" where
  "generate_blank_config fs fname =
     (case rpiwd_copyfile fs CONFIG_BLANK_FILE_LOCATION fname of (status, fs') \<Rightarrow>
        if status = 0 then (- 1, fs') else (1, fs'))"

section \<open>Checking\<close>

text \<open>The search over the device table compares every name up to the first match.\<close>

fun device_known :: "device list \<Rightarrow> string ptr \<Rightarrow> bool c" where
  "device_known [] name = Inl OutOfBounds"
| "device_known (d # ds) name =
     (case dev_name d of
        None \<Rightarrow> Inr False
      | Some n \<Rightarrow> cbind (load name) (\<lambda>s. if s = n then Inr True else device_known ds name))"

definition config_has_errors :: "rpiwd_config \<Rightarrow> nat c" where
  "config_has_errors conf =
     (let f1 = (if measure_location conf = Null then 1 else 0)
      in cbind (device_known supported_devices (cfg_device_name conf)) (\<lambda>nameflag.
           let f2 = (if nameflag then 0 else 1);
               f3 = (if query_interval conf = Null then 1 else 0);
               f4 = (if num_worker_threads conf = 0 then 1
                     else if num_worker_threads conf > CONFIG_NUM_WORKER_THREADS_MAX \<or> num_worker_threads conf < 0
                     then 1 else 0)
           in Inr (f1 + f2 + f3 + f4)))"

section \<open>The current configuration\<close>

definition default_unitstring :: string where
  "default_unitstring =
     (replicate RPIWD_MAX_MEASUREMENTS (CHR 0x00))[RPIWD_MEASURE_TEMPERATURE := RPIWD_DEFAULT_TEMP_UNIT,
        RPIWD_MEASURE_HUMIDITY := RPIWD_DEFAULT_HUMID_UNIT]"

record config_state =
  current_config :: rpiwd_config
  unitstring :: string

definition init_current_config :: "(nat \<Rightarrow> bool) \<Rightarrow> files \<Rightarrow> string \<Rightarrow> config_state \<Rightarrow> bool \<Rightarrow> int \<times> config_state \<times> bool" where
  "init_current_config oom fs config_path st erange =
     (case parse_config_file oom fs config_path (current_config st) erange of (flag, conf, er) \<Rightarrow>
        (flag, st\<lparr>current_config := conf, unitstring := default_unitstring\<rparr>, er))"

definition get_current_config :: "config_state \<Rightarrow> rpiwd_config" where
  "get_current_config st = current_config st"

definition free_current_config :: "config_state \<Rightarrow> config_state c" where
  "free_current_config st = cbind (free_config (current_config st)) (\<lambda>conf. Inr (st\<lparr>current_config := conf\<rparr>))"

definition get_unit_string :: "config_state \<Rightarrow> string" where
  "get_unit_string st = unitstring st"

section \<open>Lemmas: the callback on each key\<close>

lemma callback_strings:
  assumes "v \<noteq> []"
  shows "inih_callback oom (conf, n, er) sec CONFIG_LOCATION v = (1, (conf\<lparr>measure_location := if oom n then Null else Ptr v\<rparr>, n + 1, er))"
    and "inih_callback oom (conf, n, er) sec CONFIG_QUERY_INTERVAL v = (1, (conf\<lparr>query_interval := if oom n then Null else Ptr v\<rparr>, n + 1, er))"
    and "inih_callback oom (conf, n, er) sec CONFIG_DEVICE_NAME v = (1, (conf\<lparr>cfg_device_name := if oom n then Null else Ptr v\<rparr>, n + 1, er))"
  using assms by (simp_all add: inih_callback_def config_key_defs Let_def split: prod.split)

lemma show_int_nonempty [simp]: "show_int i \<noteq> []"
  by (simp add: show_int_def)

lemma callback_numbers:
  assumes "is_i32 i"
  shows "inih_callback oom (conf, n, False) sec CONFIG_DEVICE_CONFIG (show_int i) = (1, (conf\<lparr>device_config := i\<rparr>, n + 1, False))"
    and "inih_callback oom (conf, n, False) sec CONFIG_COMM_PORT (show_int i) = (1, (conf\<lparr>comm_port := i\<rparr>, n + 1, False))"
    and "inih_callback oom (conf, n, False) sec CONFIG_NUM_WORKER_THREADS (show_int i) = (1, (conf\<lparr>num_worker_threads := i\<rparr>, n + 1, False))"
  using assms by (simp_all add: inih_callback_def config_key_defs Let_def)

lemma show_nat_no_comment: "no_comment b (show_nat n)"
proof -
  have "no_comment b ds" if "list_all isdigit ds" for ds b
    using that by (induction ds arbitrary: b) (auto simp: isdigit_def code_def)
  then show ?thesis by (simp add: show_nat_digits)
qed

lemma digit_clean: "isdigit c \<Longrightarrow> \<not> isspace c \<and> c \<noteq> CHR 0x0A \<and> c \<noteq> CHR 0x00"
  using isdigit_simps(1) [of c] by (auto simp: isdigit_def isspace_def code_def)

lemma clean_show_int: "clean_value (show_int i)"
proof -
  have nat: "clean_value (show_nat n)" for n
    using show_nat_isdigit [of _ n] digit_clean show_nat_no_comment [of False n]
    by (simp add: clean_value_def hd_in_set last_in_set)
  have "clean_value (CHR ''-'' # show_nat n)" for n
    using nat [of n] show_nat_no_comment [of False n] by (simp add: clean_value_def isspace_def code_def)
  with nat show ?thesis by (simp add: show_int_def)
qed

lemma clean_keys:
  "clean_name CONFIG_LOCATION" "clean_name CONFIG_QUERY_INTERVAL" "clean_name CONFIG_DEVICE_NAME"
  "clean_name CONFIG_DEVICE_CONFIG" "clean_name CONFIG_COMM_PORT" "clean_name CONFIG_NUM_WORKER_THREADS"
  by (simp_all add: config_key_defs clean_name_def MAX_NAME_def isspace_def code_def)

lemma loop_key:
  assumes "clean_name key" "length key < 28" "clean_value v" "length v < 170" "ini_error st = 0"
    and "inih_callback oom u (ini_section st) key v = (1, u')"
  shows "ini_loop (inih_callback oom) u st (key @ ''='' @ v @ CHR 0x0A # rest) =
    ini_loop (inih_callback oom) u' (st\<lparr>lineno := lineno st + 1, prev_name := key\<rparr>) rest"
  using assms by (intro ini_loop_pair [where r = 1]) auto

lemma key_lengths:
  "length CONFIG_LOCATION < 28" "length CONFIG_QUERY_INTERVAL < 28" "length CONFIG_DEVICE_NAME < 28"
  "length CONFIG_DEVICE_CONFIG < 28" "length CONFIG_COMM_PORT < 28" "length CONFIG_NUM_WORKER_THREADS < 28"
  by (simp_all add: config_key_defs)

lemma clean_value_nonempty: "clean_value v \<Longrightarrow> v \<noteq> []"
  by (simp add: clean_value_def)

lemmas loop_location = loop_key [OF clean_keys(1) key_lengths(1) _ _ _ callback_strings(1) [OF clean_value_nonempty]]
lemmas loop_interval = loop_key [OF clean_keys(2) key_lengths(2) _ _ _ callback_strings(2) [OF clean_value_nonempty]]
lemmas loop_device = loop_key [OF clean_keys(3) key_lengths(3) _ _ _ callback_strings(3) [OF clean_value_nonempty]]

lemma short_int: "is_i32 i \<Longrightarrow> length (show_int i) < 170"
  using length_show_int [of i] by simp

lemmas loop_device_config = loop_key [OF clean_keys(4) key_lengths(4) clean_show_int short_int _ callback_numbers(1)]
lemmas loop_comm_port = loop_key [OF clean_keys(5) key_lengths(5) clean_show_int short_int _ callback_numbers(2)]
lemmas loop_workers = loop_key [OF clean_keys(6) key_lengths(6) clean_show_int short_int _ callback_numbers(3)]

lemma loop_sections:
  assumes "ini_error st = 0"
  shows "ini_loop h u st (''['' @ ''General'' @ '']'' @ CHR 0x0A # rest) =
      ini_loop h u (st\<lparr>lineno := lineno st + 1, ini_section := ''General'', prev_name := []\<rparr>) rest"
    and "ini_loop h u st (''['' @ ''Device Configuration'' @ '']'' @ CHR 0x0A # rest) =
      ini_loop h u (st\<lparr>lineno := lineno st + 1, ini_section := ''Device Configuration'', prev_name := []\<rparr>) rest"
    and "ini_loop h u st (''['' @ ''Server Configuration'' @ '']'' @ CHR 0x0A # rest) =
      ini_loop h u (st\<lparr>lineno := lineno st + 1, ini_section := ''Server Configuration'', prev_name := []\<rparr>) rest"
  by (rule ini_loop_section; use assms in \<open>simp add: plain_line_def\<close>)+

lemma parse_config_text:
  assumes v: "clean_value loc" "clean_value iv" "clean_value dev"
    and len: "length loc < 170" "length iv < 170" "length dev < 170"
    and i: "is_i32 dc" "is_i32 port" "is_i32 nw"
    and conf: "conf = \<lparr>config_count = k, measure_location = Ptr loc, cfg_device_name = Ptr dev, device_config = dc,
                       query_interval = Ptr iv, comm_port = port, num_worker_threads = nw\<rparr>"
    and printed: "config_text conf = Inr body"
  shows "\<exists>conf'. ini_parse_stream (inih_callback oom) (c0, 0, False) body = (0, (conf', 6, False)) \<and>
    conf'\<lparr>config_count := 6\<rparr> = conf\<lparr>config_count := 6, measure_location := if oom 0 then Null else Ptr loc,
      query_interval := if oom 1 then Null else Ptr iv, cfg_device_name := if oom 2 then Null else Ptr dev\<rparr>"
proof -
  have body: "body = ''['' @ ''General'' @ '']'' @ CHR 0x0A #
      CONFIG_LOCATION @ ''='' @ loc @ CHR 0x0A # CONFIG_QUERY_INTERVAL @ ''='' @ iv @ CHR 0x0A #
      CHR 0x0A # ''['' @ ''Device Configuration'' @ '']'' @ CHR 0x0A #
      CONFIG_DEVICE_NAME @ ''='' @ dev @ CHR 0x0A # CONFIG_DEVICE_CONFIG @ ''='' @ show_int dc @ CHR 0x0A #
      CHR 0x0A # ''['' @ ''Server Configuration'' @ '']'' @ CHR 0x0A #
      CONFIG_COMM_PORT @ ''='' @ show_int port @ CHR 0x0A # CONFIG_NUM_WORKER_THREADS @ ''='' @ show_int nw @ CHR 0x0A # []"
    using printed by (auto simp: config_text_def conf)
  show ?thesis
    unfolding ini_parse_stream_def body
    using i
    by (simp only: loop_sections ini_loop_blank loop_location loop_interval loop_device
          loop_device_config loop_comm_port loop_workers v len ini_state.simps ini_loop_end)
       (simp add: conf numeral_2_eq_2)
qed

lemma default_unitstring_ok: "default_unitstring ! 0 \<in> {CHR ''c'', CHR ''f''}" "length default_unitstring = 8"
  by (simp_all add: default_unitstring_def RPIWD_MAX_MEASUREMENTS_def RPIWD_MEASURE_TEMPERATURE_def
      RPIWD_MEASURE_HUMIDITY_def RPIWD_DEFAULT_TEMP_UNIT_def RPIWD_TEMPERATURE_FARENHEIT_def)

lemma accepted_config:
  assumes "config_has_errors conf = Inr 0"
  shows "measure_location conf \<noteq> Null \<and> cfg_device_name conf = Ptr ''dht11'' \<and> query_interval conf \<noteq> Null \<and>
    1 \<le> num_worker_threads conf \<and> num_worker_threads conf \<le> 4"
proof -
  have "device_known supported_devices nm = Inr True \<Longrightarrow> nm = Ptr ''dht11''" for nm
    by (cases nm) (auto simp: supported_devices_def split: if_splits)
  with assms show ?thesis
    by (auto simp: config_has_errors_def Let_def CONFIG_NUM_WORKER_THREADS_MAX_def split: if_splits)
qed

section \<open>Properties\<close>

text \<open>C9. Round trip of the configuration file: writing a configuration whose strings are clean
  (not empty, no white space at the ends, no line break, no inline comment) and below 170
  characters and parsing the file, into any record, gives the same settings with six keys counted,
  no error and \<open>errno\<close> untouched, when the three strings can be copied.\<close>
theorem config_roundtrip:
  assumes "conf = \<lparr>config_count = k, measure_location = Ptr loc, cfg_device_name = Ptr dev, device_config = dc,
                   query_interval = Ptr iv, comm_port = port, num_worker_threads = nw\<rparr>"
    and "list_all (\<lambda>v. clean_value v \<and> length v < 170) [loc, iv, dev]" "list_all is_i32 [dc, port, nw]"
    and "\<not> unwritable fs fname" "\<not> unreadable fs fname" "1024 \<le> space fs"
    and "\<not> oom 0" "\<not> oom 1" "\<not> oom 2"
  shows "\<exists>fs'. write_config_file fs fname conf = Inr (0, fs') \<and>
    parse_config_file oom fs' fname c0 False = (0, conf\<lparr>config_count := 6\<rparr>, False)"
proof -
  obtain body where body: "config_text conf = Inr body" by (simp add: config_text_def assms(1))
  have len: "length body \<le> 1024"
    using body assms(2) short_int length_show_int [of dc] length_show_int [of port] length_show_int [of nw] assms(3)
    by (auto simp: config_text_def assms(1) config_key_defs)
  have vs: "clean_value loc" "clean_value iv" "clean_value dev" "length loc < 170" "length iv < 170" "length dev < 170"
    "is_i32 dc" "is_i32 port" "is_i32 nw" using assms(2,3) by simp_all
  obtain conf' where conf': "ini_parse_stream (inih_callback oom) (c0, 0, False) body = (0, (conf', 6, False))"
    "conf'\<lparr>config_count := 6\<rparr> = conf\<lparr>config_count := 6\<rparr>"
    using parse_config_text [OF vs assms(1) body, of oom c0] assms(1,7-9) by auto
  show ?thesis
    using body len conf' assms(4-6)
    by (simp add: write_config_file_def Let_def parse_config_file_def ini_parse_def open_read_def)
qed

theorem config_roundtrip_witness:
  "\<exists>fs'. write_config_file \<lparr>contents = Map.empty, unreadable = \<lambda>_. False, unwritable = \<lambda>_. False, space = 4096\<rparr> ''rpi.conf''
      \<lparr>config_count = 0, measure_location = Ptr ''My attic'', cfg_device_name = Ptr ''dht11'', device_config = 7,
       query_interval = Ptr ''15m'', comm_port = 6005, num_worker_threads = 2\<rparr> = Inr (0, fs') \<and>
    parse_config_file (\<lambda>_. False) fs' ''rpi.conf'' zero_config False =
      (0, \<lparr>config_count = 0, measure_location = Ptr ''My attic'', cfg_device_name = Ptr ''dht11'', device_config = 7,
           query_interval = Ptr ''15m'', comm_port = 6005, num_worker_threads = 2\<rparr>\<lparr>config_count := 6\<rparr>, False)"
  by (rule config_roundtrip [OF refl])
     (simp_all add: clean_value_def isspace_def code_def INT_MIN_def INT_MAX_def)

text \<open>A configuration the checker accepts names the supported device, has a location and an
  interval, and asks for one to four worker threads.\<close>
theorem config_accepted:
  assumes "config_has_errors conf = Inr 0"
  shows "measure_location conf \<noteq> Null \<and> cfg_device_name conf = Ptr ''dht11'' \<and> query_interval conf \<noteq> Null \<and>
    1 \<le> num_worker_threads conf \<and> num_worker_threads conf \<le> 4"
  using assms by (rule accepted_config)

definition sample_config :: rpiwd_config where
  "sample_config = \<lparr>config_count = 6, measure_location = Ptr ''attic'', cfg_device_name = Ptr ''dht11'', device_config = 7,
                    query_interval = Ptr ''15m'', comm_port = 6005, num_worker_threads = 2\<rparr>"

theorem config_accepted_witness:
  "measure_location sample_config \<noteq> Null \<and> cfg_device_name sample_config = Ptr ''dht11'' \<and>
   query_interval sample_config \<noteq> Null \<and> 1 \<le> num_worker_threads sample_config \<and> num_worker_threads sample_config \<le> 4"
  by (rule config_accepted)
     (simp add: config_has_errors_def sample_config_def supported_devices_def CONFIG_NUM_WORKER_THREADS_MAX_def)

text \<open>A configuration without a device name crashes the checker instead of being reported: the
  name is compared through a NULL pointer.\<close>
theorem config_missing_device_crashes:
  assumes "cfg_device_name conf = Null"
  shows "config_has_errors conf = Inl NullDeref"
  using assms by (simp add: config_has_errors_def supported_devices_def)

theorem config_missing_device_crashes_witness: "config_has_errors zero_config = Inl NullDeref"
  by (rule config_missing_device_crashes) (simp add: zero_config_def)

text \<open>The callback signals a number out of range with a negative value, which the parser takes
  for success: every such port is stored clamped to the largest integer, no error is reported, the
  key is not counted and \<open>errno\<close> stays set.\<close>
theorem config_range_error_ignored:
  assumes "INT_MAX < int (read_nat ds)" "list_all isdigit ds" "ds \<noteq> []" "length ds < 170"
  shows "ini_parse_stream (inih_callback oom) (conf, 0, False) (CONFIG_COMM_PORT @ ''='' @ ds @ [CHR 0x0A]) =
    (0, (conf\<lparr>comm_port := INT_MAX\<rparr>, 0, True))"
proof -
  have d: "isdigit c" if "c \<in> set ds" for c using that assms(2) by (simp add: list_all_iff)
  obtain x xs where x: "ds = x # xs" using assms(3) by (cases ds) auto
  have lead: "\<not> isspace x" "x \<noteq> CHR ''-''" "x \<noteq> CHR ''+''" using d [of x] isdigit_simps by (auto simp: x)
  have "strtol ds = (INT_MAX, True)"
  proof -
    have tw: "takeWhile isdigit xs = xs" using d by (simp add: x)
    show ?thesis using assms(1,2) lead by (simp add: strtol_def Let_def x tw)
  qed
  then have cb: "inih_callback oom (conf, 0, False) sec CONFIG_COMM_PORT ds = (CONFIG_ERROR_COMM_PORT, (conf\<lparr>comm_port := INT_MAX\<rparr>, 0, True))" for sec
    using assms(3) by (simp add: inih_callback_def config_key_defs Let_def)
  have nc: "no_comment b ds" for b
    using assms(2) by (induction ds arbitrary: b) (auto simp: isdigit_def code_def)
  have clean: "clean_value ds"
    using assms(3) d digit_clean nc by (simp add: clean_value_def)
  have "ini_loop (inih_callback oom) (conf, 0, False) st (CONFIG_COMM_PORT @ ''='' @ ds @ CHR 0x0A # []) =
      ini_loop (inih_callback oom) (conf\<lparr>comm_port := INT_MAX\<rparr>, 0, True) (st\<lparr>lineno := lineno st + 1, prev_name := CONFIG_COMM_PORT\<rparr>) []"
    if "ini_error st = 0" for st
    using that cb clean clean_keys(5) key_lengths(5) assms(4)
    by (intro ini_loop_pair [where r = CONFIG_ERROR_COMM_PORT]) (auto simp: config_error_defs)
  then show ?thesis by (simp add: ini_parse_stream_def)
qed

theorem config_range_error_ignored_witness:
  "ini_parse_stream (inih_callback (\<lambda>_. False)) (sample_config, 0, False) (CONFIG_COMM_PORT @ ''='' @ ''99999999999'' @ [CHR 0x0A]) =
    (0, (sample_config\<lparr>comm_port := INT_MAX\<rparr>, 0, True))"
  by (rule config_range_error_ignored)
     (simp_all add: read_nat_def digit_val_def code_def isdigit_def INT_MAX_def)

text \<open>A failed copy of the blank configuration that ran out of space is reported as success:
  the caller tests for 0 while the copy returns -1.\<close>
theorem blank_config_full_disk:
  assumes "contents fs CONFIG_BLANK_FILE_LOCATION = Some body" "space fs < length body"
    and "\<not> unreadable fs CONFIG_BLANK_FILE_LOCATION" "\<not> unwritable fs fname" "fname \<noteq> CONFIG_BLANK_FILE_LOCATION"
  shows "fst (generate_blank_config fs fname) = 1 \<and> fst (rpiwd_copyfile fs CONFIG_BLANK_FILE_LOCATION fname) = - 1"
  using assms copy_loop_full [of "space fs" body "[]"]
  by (auto simp: generate_blank_config_def rpiwd_copyfile_def split: prod.splits)

theorem blank_config_full_disk_witness:
  "fst (generate_blank_config \<lparr>contents = [CONFIG_BLANK_FILE_LOCATION \<mapsto> ''text''], unreadable = \<lambda>_. False,
      unwritable = \<lambda>_. False, space = 2\<rparr> ''a'') = 1 \<and>
   fst (rpiwd_copyfile \<lparr>contents = [CONFIG_BLANK_FILE_LOCATION \<mapsto> ''text''], unreadable = \<lambda>_. False,
      unwritable = \<lambda>_. False, space = 2\<rparr> CONFIG_BLANK_FILE_LOCATION ''a'') = - 1"
  by (rule blank_config_full_disk [where body = "''text''"]) (simp_all add: CONFIG_BLANK_FILE_LOCATION_def)

end
