(* ===== verification/Dbhandler.thy ===== *)
theory Dbhandler
  imports Config
begin

text \<open>
  \<^verbatim>\<open>src/src/dbhandler.c\<close> and \<^verbatim>\<open>src/src/mqmsg.c\<close> with their headers: the messages that go through
  the queues, the queries, and the database thread. SQLite is the parameter \<open>sqlite\<close>: what its calls
  return for a database state of any type. Members of a message that the code leaves
  uninitialised are \<open>None\<close>; reading one is undefined behaviour.
\<close>

section \<open>Constants and queries\<close>

definition DB_DEFAULT_FILE_PATH :: string where "DB_DEFAULT_FILE_PATH = ''/etc/rpiweatherd/rpiwd_data.db''"
definition SQL_COMMAND_BUFFER_SIZE :: nat where "SQL_COMMAND_BUFFER_SIZE = 512"
definition DBHANDLER_MAX_FETCHED_ENTRIES :: nat where "DBHANDLER_MAX_FETCHED_ENTRIES = 2048"

definition DAY_START :: "int \<Rightarrow> int" where "DAY_START t = t - tmod t 86400"
definition DAY_END :: "int \<Rightarrow> int c" where "DAY_END t = cbind (i32 (t + 86399)) (\<lambda>s. i32 (s - tmod t 86400))"

definition DBHANDLER_ERROR_SUCCESS :: int where "DBHANDLER_ERROR_SUCCESS = 0"
definition DBHANDLER_ERROR_TOO_MANY_ENTRIES :: int where "DBHANDLER_ERROR_TOO_MANY_ENTRIES = - 1"
definition DBHANDLER_ERROR_SQL_ERROR :: int where "DBHANDLER_ERROR_SQL_ERROR = - 2"
definition DBHANDLER_ERROR_NO_MEMORY :: int where "DBHANDLER_ERROR_NO_MEMORY = - 3"

lemmas dbhandler_error_defs = DBHANDLER_ERROR_SUCCESS_def DBHANDLER_ERROR_TOO_MANY_ENTRIES_def
  DBHANDLER_ERROR_SQL_ERROR_def DBHANDLER_ERROR_NO_MEMORY_def

definition STAT_NAME_TOTAL_REQUESTS :: string where "STAT_NAME_TOTAL_REQUESTS = ''total_requests''"
definition STAT_NAME_TOTAL_ENTRIES :: string where "STAT_NAME_TOTAL_ENTRIES = ''total_entries''"

definition SQLCMD_TABLE_CREATION_QUERIES :: "string list" where
  "SQLCMD_TABLE_CREATION_QUERIES =
     [''CREATE TABLE IF NOT EXISTS tblData('' @ ''ID INTEGER PRIMARY KEY AUTOINCREMENT, '' @
      ''RECORD_DATE TEXT NOT NULL, '' @ ''TEMPERATURE FLOAT NOT NULL, '' @ ''HUMIDITY FLOAT NOT NULL, '' @
      ''LOCATION TEXT NOT NULL, '' @ ''DEVICE_NAME TEXT NOT NULL);'',
      ''CREATE TABLE IF NOT EXISTS tblStats('' @ ''KEY TEXT PRIMARY KEY NOT NULL, '' @
      ''DISPLAY_NAME TEXT NOT NULL,'' @ ''VALUE INTEGER NOT NULL);'']"

abbreviation quote :: string where "quote \<equiv> [CHR 0x27]"

definition SQLCMD_WRITE_ENTRY :: string where
  "SQLCMD_WRITE_ENTRY = ''INSERT INTO tblData '' @ ''VALUES(null, datetime('' @ quote @ ''now'' @ quote @
     ''), @temp, @humid, '' @ ''@location, @devicename);''"

definition SQLCMD_INCREASE_STAT :: "string \<Rightarrow> string" where
  "SQLCMD_INCREASE_STAT s = ''UPDATE tblStats SET VALUE = VALUE + 1 WHERE KEY = '' @ quote @ s @ quote @ '';''"

definition SQLCMD_INSERT_INITIAL_STATS :: string where
  "SQLCMD_INSERT_INITIAL_STATS =
     ''INSERT OR IGNORE INTO tblStats VALUES'' @
     ''('' @ quote @ ''total_requests'' @ quote @ '', '' @ quote @ ''Total count of requests'' @ quote @ '', 0),'' @
     ''('' @ quote @ ''total_entries'' @ quote @ '', '' @ quote @ ''Total count of entries'' @ quote @ '', 0);''"

definition SQLCMD_SELECT_STATS :: string where "SQLCMD_SELECT_STATS = ''SELECT DISPLAY_NAME, VALUE FROM tblStats''"
definition SQLCMD_COUNT_INITIAL_STATS :: string where "SQLCMD_COUNT_INITIAL_STATS = ''SELECT COUNT(*) FROM tblStats''"

text \<open>\<open>datetime(%f, 'unixepoch', 'localtime')\<close> with a whole number of seconds.\<close>

definition sql_datetime :: "int \<Rightarrow> string" where
  "sql_datetime t = ''datetime('' @ show_fixed 6 (f64 (of_int t)) @ '', '' @ quote @ ''unixepoch'' @ quote @
     '', '' @ quote @ ''localtime'' @ quote @ '')''"

definition SQLCMD_COUNT_BY_DATE :: "char \<Rightarrow> int \<Rightarrow> string" where
  "SQLCMD_COUNT_BY_DATE cmp t =
     ''SELECT COUNT(*) FROM tblData WHERE datetime(RECORD_DATE)'' @ '' '' @ [cmp] @ '' '' @ sql_datetime t @ '';''"
definition SQLCMD_READ_BY_DATE :: "char \<Rightarrow> int \<Rightarrow> string" where
  "SQLCMD_READ_BY_DATE cmp t =
     ''SELECT * FROM tblData WHERE datetime(RECORD_DATE)'' @ '' '' @ [cmp] @ '' '' @ sql_datetime t @ '';''"
definition SQLCMD_READ_BY_DATE_RANGE :: "int \<Rightarrow> int \<Rightarrow> string" where
  "SQLCMD_READ_BY_DATE_RANGE a b =
     ''SELECT * FROM tblData WHERE datetime(RECORD_DATE) '' @ ''BETWEEN '' @ sql_datetime a @ '' '' @
     ''AND '' @ sql_datetime b @ '';''"
definition SQLCMD_COUNT_BY_DATE_RANGE :: "int \<Rightarrow> int \<Rightarrow> string" where
  "SQLCMD_COUNT_BY_DATE_RANGE a b =
     ''SELECT COUNT(*) FROM tblData WHERE '' @ ''datetime(RECORD_DATE) BETWEEN '' @ sql_datetime a @ '' '' @
     ''AND '' @ sql_datetime b @ '';''"
definition SQLCMD_SELECT_N :: "int \<Rightarrow> string" where
  "SQLCMD_SELECT_N n = ''SELECT * FROM tblData LIMIT '' @ show_int n @ '';''"
definition SQLCMD_COUNT_SELECT_N :: "int \<Rightarrow> string" where
  "SQLCMD_COUNT_SELECT_N n = ''SELECT '' @ show_int n @ '';''"

section \<open>Messages\<close>

definition DB_MSGTYPE_WRITEENTRY :: int where "DB_MSGTYPE_WRITEENTRY = 100"
definition DB_MSGTYPE_FETCH :: int where "DB_MSGTYPE_FETCH = 101"
definition DB_MSGTYPE_CURRENT :: int where "DB_MSGTYPE_CURRENT = 102"
definition DB_MSGTYPE_STATS :: int where "DB_MSGTYPE_STATS = 103"
definition DB_MSGTYPE_CONFIG :: int where "DB_MSGTYPE_CONFIG = 104"
definition DB_MSG_NO_SOCKFD :: int where "DB_MSG_NO_SOCKFD = - 100"
definition MQ_MAXMESSAGES :: nat where "MQ_MAXMESSAGES = 20"

lemmas msgtype_defs = DB_MSGTYPE_WRITEENTRY_def DB_MSGTYPE_FETCH_def DB_MSGTYPE_CURRENT_def
  DB_MSGTYPE_STATS_def DB_MSGTYPE_CONFIG_def

datatype mq = DbMq | WorkerMq

text \<open>What the \<open>void *\<close> of a message points to.\<close>

datatype msg_data = NoData | EntryData "entry option" | ListData "entrylist option" | KvData "key_value_list option"

record rpiwd_mqmsg =
  mtype :: "int option"
  is_completed :: "int option"
  sockfd :: "int option"
  retcode :: "int option"
  receiver_mq :: "mq option"
  fcountq :: "string option"
  fselectq :: "string option"
  unitstr :: string
  data :: msg_data

text \<open>Using an automatic variable that was never assigned.\<close>

definition read_init :: "'a option \<Rightarrow> 'a c" where
  "read_init v = (case v of None \<Rightarrow> Inl UninitRead | Some x \<Rightarrow> Inr x)"

fun entry_data :: "msg_data \<Rightarrow> entry option c" where
  "entry_data (EntryData e) = Inr e" | "entry_data _ = Inl UninitRead"
fun list_data :: "msg_data \<Rightarrow> entrylist option c" where
  "list_data (ListData l) = Inr l" | "list_data _ = Inl UninitRead"
fun kv_data :: "msg_data \<Rightarrow> key_value_list option c" where
  "kv_data (KvData l) = Inr l" | "kv_data _ = Inl UninitRead"

definition uninit_mqmsg :: rpiwd_mqmsg where
  "uninit_mqmsg = \<lparr>mtype = None, is_completed = None, sockfd = None, retcode = None, receiver_mq = None,
                   fcountq = None, fselectq = None, unitstr = [], data = NoData\<rparr>"

definition rpiwd_mqmsg_init :: "config_state \<Rightarrow> rpiwd_mqmsg \<Rightarrow> rpiwd_mqmsg" where
  "rpiwd_mqmsg_init st ret =
     ret\<lparr>fcountq := None, fselectq := None, is_completed := Some 0,
         unitstr := take RPIWD_MAX_MEASUREMENTS (get_unit_string st)\<rparr>"

section \<open>SQLite\<close>

text \<open>
  The parameter: result codes of \<open>sqlite3_open\<close>, \<open>sqlite3_exec\<close> and \<open>sqlite3_prepare_v2\<close>, the rows a
  prepared query steps through before the first code other than \<open>SQLITE_ROW\<close>, and the step of the
  insertion with its bound values. A row answers the column accessors.
\<close>

definition SQLITE_OK :: int where "SQLITE_OK = 0"
definition SQLITE_DONE :: int where "SQLITE_DONE = 101"

record sql_row =
  column_int :: "nat \<Rightarrow> int"
  column_text :: "nat \<Rightarrow> string option"
  column_double :: "nat \<Rightarrow> fp"

datatype sql_bind = BindDouble fp | BindText "string option"

record 'db sqlite =
  sql_open :: "string \<Rightarrow> int"
  sql_exec :: "'db \<Rightarrow> string option \<Rightarrow> int \<times> 'db"
  sql_prepare :: "'db \<Rightarrow> string option \<Rightarrow> int"
  sql_rows :: "'db \<Rightarrow> string option \<Rightarrow> sql_row list"
  sql_insert :: "'db \<Rightarrow> string \<Rightarrow> sql_bind list \<Rightarrow> int \<times> 'db"

section \<open>Start and stop\<close>

text \<open>The database connection, the queue and the thread.\<close>

record dbhandler =
  db_open :: bool
  db_mq_open :: bool
  db_thread :: "nat ptr"

definition dbhandler_init :: dbhandler where
  "dbhandler_init = \<lparr>db_open = False, db_mq_open = False, db_thread = Null\<rparr>"

fun run_execs :: "'db sqlite \<Rightarrow> 'db \<Rightarrow> int \<Rightarrow> string list \<Rightarrow> int \<times> 'db" where
  "run_execs sq db result [] = (result, db)"
| "run_execs sq db result (q # qs) =
     (case sql_exec sq db (Some q) of (rc, db') \<Rightarrow> run_execs sq db' (result + rc) qs)"

text \<open>\<open>mq_ok\<close> and \<open>thread_ok\<close> say whether \<open>mq_open\<close> and \<open>pthread_create\<close> succeed.\<close>

definition init_dbhandler ::
  "'db sqlite \<Rightarrow> bool \<Rightarrow> nat option \<Rightarrow> 'db \<Rightarrow> dbhandler \<Rightarrow> int \<times> 'db \<times> dbhandler" where
  "init_dbhandler sq mq_ok thread db h =
     (if sql_open sq DB_DEFAULT_FILE_PATH \<noteq> SQLITE_OK then (- 1, db, h)
      else let h1 = h\<lparr>db_open := True\<rparr>;
               (result, db1) = run_execs sq db (sql_open sq DB_DEFAULT_FILE_PATH)
                                 (SQLCMD_TABLE_CREATION_QUERIES @ [SQLCMD_INSERT_INITIAL_STATS])
           in if result \<noteq> SQLITE_OK then (- 1, db1, h1\<lparr>db_open := False\<rparr>)
              else if \<not> mq_ok then (- 1, db1, h1)
              else (1, db1, h1\<lparr>db_mq_open := True,
                              db_thread := (case thread of None \<Rightarrow> db_thread h | Some t \<Rightarrow> Ptr t)\<rparr>))"

definition quit_db_mq :: "dbhandler \<Rightarrow> dbhandler" where
  "quit_db_mq h = h\<lparr>db_mq_open := False\<rparr>"

definition db_thread_cleanup_routine :: "dbhandler \<Rightarrow> dbhandler" where
  "db_thread_cleanup_routine h = (quit_db_mq h)\<lparr>db_open := False\<rparr>"

text \<open>
  Cancelling a thread that was never created, or was joined before, is undefined. The cancelled
  thread runs its cleanup routine at \<open>mq_receive\<close>.
\<close>

definition quit_dbhandler :: "dbhandler \<Rightarrow> dbhandler c" where
  "quit_dbhandler h =
     cbind (load (db_thread h)) (\<lambda>_. Inr ((db_thread_cleanup_routine h)\<lparr>db_thread := Dangling\<rparr>))"

section \<open>Queries\<close>

definition format_query :: "bool \<Rightarrow> string \<Rightarrow> string option" where
  "format_query oom formatted = (if oom then None else Some (take (SQL_COMMAND_BUFFER_SIZE - 1) formatted))"

text \<open>A statement that was not prepared is NULL; stepping it fails.\<close>

definition write_raw_entry ::
  "'db sqlite \<Rightarrow> 'db \<Rightarrow> fp \<Rightarrow> fp \<Rightarrow> string option \<Rightarrow> string option \<Rightarrow> int \<times> 'db" where
  "write_raw_entry sq db temp humid loc dev =
     (if sql_prepare sq db (Some SQLCMD_WRITE_ENTRY) = SQLITE_OK then
        (case sql_insert sq db SQLCMD_WRITE_ENTRY
                [BindDouble temp, BindDouble humid, BindText loc, BindText dev] of
           (rc, db') \<Rightarrow> if rc \<noteq> SQLITE_DONE then (- 1, db') else (1, db'))
      else (- 1, db))"

definition increase_stat :: "'db sqlite \<Rightarrow> bool \<Rightarrow> 'db \<Rightarrow> string \<Rightarrow> 'db" where
  "increase_stat sq oom db stat_name =
     snd (sql_exec sq db (format_query oom (SQLCMD_INCREASE_STAT stat_name)))"

text \<open>The \<open>int\<close> of the column is cast to \<open>size_t\<close>.\<close>

definition exec_formatted_count_query :: "'db sqlite \<Rightarrow> 'db \<Rightarrow> string option \<Rightarrow> nat" where
  "exec_formatted_count_query sq db count_query =
     (if sql_prepare sq db count_query = SQLITE_OK then
        (case sql_rows sq db count_query of
           [] \<Rightarrow> 0
         | row # _ \<Rightarrow> nat (column_int row 0 mod 2 ^ 32))
      else 0)"

definition row_entry :: "bool \<Rightarrow> sql_row \<Rightarrow> entry c" where
  "row_entry keep_native_unit row =
     cbind (deref (column_text row 1)) (\<lambda>date.
     cbind (deref (column_text row 4)) (\<lambda>loc.
     cbind (deref (column_text row 5)) (\<lambda>dev.
       let t = fp_conv f32 (column_double row 2) in
       Inr \<lparr>entry_id = column_int row 0, record_date = Some date,
            temperature = (if keep_native_unit then t else RPIWD_CELSIUS_TO_FARENHEIT t),
            humidity = fp_conv f32 (column_double row 3),
            location = Some loc, device_name = Some dev\<rparr>)))"

fun fetch_rows :: "bool \<Rightarrow> nat \<Rightarrow> nat \<Rightarrow> sql_row list \<Rightarrow> entry list c" where
  "fetch_rows keep_native_unit capacity i [] = Inr []"
| "fetch_rows keep_native_unit capacity i (row # rows) =
     (if capacity \<le> i then Inl BufferOverflow
      else cbind (row_entry keep_native_unit row) (\<lambda>e.
           cbind (fetch_rows keep_native_unit capacity (i + 1) rows) (\<lambda>es. Inr (e # es))))"

text \<open>The list and what is in \<open>*errcode\<close> afterwards.\<close>

definition exec_fetch_query ::
  "'db sqlite \<Rightarrow> bool \<Rightarrow> bool \<Rightarrow> 'db \<Rightarrow> string option \<Rightarrow> string option \<Rightarrow> bool \<Rightarrow> int option
   \<Rightarrow> (entrylist option \<times> int option) c" where
  "exec_fetch_query sq oom_list oom_array db countq selectq keep_native_unit errcode =
     (let count = exec_formatted_count_query sq db countq
      in if count > DBHANDLER_MAX_FETCHED_ENTRIES then Inr (None, Some DBHANDLER_ERROR_TOO_MANY_ENTRIES)
         else case entrylist_alloc oom_list oom_array count of
                None \<Rightarrow> Inr (None, errcode)
              | Some list \<Rightarrow>
                  if sql_prepare sq db selectq = SQLITE_OK then
                    cbind (fetch_rows keep_native_unit count 0 (sql_rows sq db selectq)) (\<lambda>es.
                      Inr (Some (list\<lparr>el_entries := es, el_size := length es\<rparr>), Some DBHANDLER_ERROR_SUCCESS))
                  else Inr (None, Some DBHANDLER_ERROR_SQL_ERROR))"

fun kv_rows :: "key_value_list \<Rightarrow> sql_row list \<Rightarrow> int option \<Rightarrow> key_value_list \<times> int option" where
  "kv_rows kvlist [] errcode = (kvlist, errcode)"
| "kv_rows kvlist (row # rows) errcode =
     (case key_value_list_emplace kvlist (column_text row 0) (column_text row 1) of (addflag, kvlist') \<Rightarrow>
        if addflag = 0 then (kvlist', Some DBHANDLER_ERROR_NO_MEMORY) else kv_rows kvlist' rows errcode)"

text \<open>The final test compares the pointer \<open>errcode\<close>, not what it points to, so it never fires.\<close>

definition exec_key_value_query ::
  "'db sqlite \<Rightarrow> bool \<Rightarrow> bool \<Rightarrow> 'db \<Rightarrow> string option \<Rightarrow> string option \<Rightarrow> int option
   \<Rightarrow> key_value_list option \<times> int option" where
  "exec_key_value_query sq oom_list oom_array db countq selectq errcode =
     (let count = exec_formatted_count_query sq db countq
      in case key_value_list_alloc oom_list oom_array count of
           None \<Rightarrow> (None, errcode)
         | Some kvlist \<Rightarrow>
             if count > DBHANDLER_MAX_FETCHED_ENTRIES then (None, Some DBHANDLER_ERROR_TOO_MANY_ENTRIES)
             else if sql_prepare sq db selectq = SQLITE_OK then
               (case kv_rows kvlist (sql_rows sq db selectq) errcode of (l, ec) \<Rightarrow> (Some l, ec))
             else (Some kvlist, errcode))"

definition dbhandler_strerror :: "int \<Rightarrow> string" where
  "dbhandler_strerror errcode =
     (if errcode = DBHANDLER_ERROR_SUCCESS then ''Success''
      else if errcode = DBHANDLER_ERROR_TOO_MANY_ENTRIES
        then ''Too many entires to fetch. See documentation for more information.''
      else if errcode = DBHANDLER_ERROR_SQL_ERROR then ''Internal SQL error''
      else if errcode = DBHANDLER_ERROR_NO_MEMORY then ''Out of memory.''
      else ''General DBHANDLER error.'')"

section \<open>The database thread\<close>

text \<open>The message handed to the database queue for a measurement.\<close>

definition request_write_entry :: "bool \<Rightarrow> entry \<Rightarrow> fp \<Rightarrow> fp \<Rightarrow> string ptr \<Rightarrow> string ptr \<Rightarrow> rpiwd_mqmsg c" where
  "request_write_entry oom junk temp humid locp devp =
     cbind (deref (entry_alloc oom junk)) (\<lambda>e.
     cbind (load locp) (\<lambda>loc.
     cbind (load devp) (\<lambda>dev.
       Inr (uninit_mqmsg\<lparr>mtype := Some DB_MSGTYPE_WRITEENTRY, sockfd := Some DB_MSG_NO_SOCKFD,
              data := EntryData (Some (e\<lparr>temperature := temp, humidity := humid, location := Some loc,
                                         device_name := Some dev\<rparr>))\<rparr>))))"

text \<open>The allocations of the thread that may fail.\<close>

record db_oom =
  oom_list :: bool
  oom_array :: bool
  oom_query :: bool

definition emplace_all :: "key_value_list \<Rightarrow> key_value_pair list \<Rightarrow> key_value_list" where
  "emplace_all l ps = foldl (\<lambda>l p. snd (key_value_list_emplace l (kv_key p) (kv_value p))) l ps"

text \<open>One turn of the loop: the new database and the message sent back, if any.\<close>

definition db_handle :: "'db sqlite \<Rightarrow> db_oom \<Rightarrow> 'db \<Rightarrow> rpiwd_mqmsg \<Rightarrow> ('db \<times> rpiwd_mqmsg option) c" where
  "db_handle sq oom db msg =
     cbind (read_init (mtype msg)) (\<lambda>ty.
       if ty = DB_MSGTYPE_WRITEENTRY then
         cbind (entry_data (data msg)) (\<lambda>p.
         cbind (deref p) (\<lambda>ent.
           let db1 = snd (write_raw_entry sq db (temperature ent) (humidity ent) (location ent) (device_name ent))
           in Inr (increase_stat sq (oom_query oom) db1 STAT_NAME_TOTAL_ENTRIES, None)))
       else if ty = DB_MSGTYPE_FETCH then
         cbind (exec_fetch_query sq (oom_list oom) (oom_array oom) db (fcountq msg) (fselectq msg)
                  (unitstr msg ! RPIWD_MEASURE_TEMPERATURE = RPIWD_TEMPERATURE_CELSIUS) (retcode msg)) (\<lambda>(l, ec).
           Inr (increase_stat sq (oom_query oom) db STAT_NAME_TOTAL_REQUESTS,
                Some (msg\<lparr>data := ListData l, retcode := ec, is_completed := Some 1\<rparr>)))
       else if ty = DB_MSGTYPE_STATS then
         (case exec_key_value_query sq (oom_list oom) (oom_array oom) db (fcountq msg) (fselectq msg) (retcode msg) of
            (listptr, ec) \<Rightarrow>
              cbind (deref listptr) (\<lambda>l.
              cbind (if kl_length l = 0 then Inr (data msg)
                     else cbind (kv_data (data msg)) (\<lambda>p.
                          cbind (deref p) (\<lambda>dst.
                            Inr (KvData (Some (emplace_all dst (take (kl_length l) (kl_pairs l)))))))) (\<lambda>d.
                Inr (increase_stat sq (oom_query oom) db STAT_NAME_TOTAL_REQUESTS,
                     Some (msg\<lparr>data := d, retcode := ec, is_completed := Some 1\<rparr>)))))
       else Inr (db, Some (msg\<lparr>is_completed := Some 1\<rparr>)))"

text \<open>The loop over the messages received before the thread is cancelled.\<close>

fun db_thread_event_loop ::
  "'db sqlite \<Rightarrow> db_oom \<Rightarrow> 'db \<Rightarrow> rpiwd_mqmsg list \<Rightarrow> ('db \<times> rpiwd_mqmsg list) c" where
  "db_thread_event_loop sq oom db [] = Inr (db, [])"
| "db_thread_event_loop sq oom db (msg # msgs) =
     cbind (db_handle sq oom db msg) (\<lambda>(db1, out).
     cbind (db_thread_event_loop sq oom db1 msgs) (\<lambda>(db2, outs).
       Inr (db2, (case out of None \<Rightarrow> outs | Some m \<Rightarrow> m # outs))))"

section \<open>Lemmas: the fetch loop\<close>

text \<open>The columns the tables declare \<open>NOT NULL\<close>, and the entry a row stands for.\<close>

definition row_ok :: "sql_row \<Rightarrow> bool" where
  "row_ok row \<longleftrightarrow> column_text row 1 \<noteq> None \<and> column_text row 4 \<noteq> None \<and> column_text row 5 \<noteq> None"

definition entry_of_row :: "char \<Rightarrow> sql_row \<Rightarrow> entry" where
  "entry_of_row unit row =
     (let t = fp_conv f32 (column_double row 2) in
      \<lparr>entry_id = column_int row 0, record_date = column_text row 1,
       temperature = (if unit = RPIWD_TEMPERATURE_CELSIUS then t else RPIWD_CELSIUS_TO_FARENHEIT t),
       humidity = fp_conv f32 (column_double row 3), location = column_text row 4, device_name = column_text row 5\<rparr>)"

lemma read_init_simps [simp]: "read_init None = Inl UninitRead" "read_init (Some x) = Inr x"
  by (simp_all add: read_init_def)

lemma row_entry_ok: "row_ok row \<Longrightarrow> row_entry (u = RPIWD_TEMPERATURE_CELSIUS) row = Inr (entry_of_row u row)"
  by (auto simp: row_entry_def row_ok_def entry_of_row_def Let_def)

lemma fetch_rows_ok:
  "i + length rows \<le> cap \<Longrightarrow> list_all row_ok rows \<Longrightarrow>
   fetch_rows (u = RPIWD_TEMPERATURE_CELSIUS) cap i rows = Inr (map (entry_of_row u) rows)"
  by (induction rows arbitrary: i) (auto simp: row_entry_ok)

lemma fetch_rows_length: "fetch_rows k cap i rows = Inr es \<Longrightarrow> rows \<noteq> [] \<Longrightarrow> i + length es \<le> cap"
proof (induction rows arbitrary: i es)
  case (Cons row rows)
  then show ?case
    by (cases "rows = []") (fastforce simp: cbind_eq_Inr split: if_splits)+
qed simp

lemma fetch_rows_overflow:
  "cap < i + length rows \<Longrightarrow> i \<le> cap \<Longrightarrow> list_all row_ok rows \<Longrightarrow>
   fetch_rows (u = RPIWD_TEMPERATURE_CELSIUS) cap i rows = Inl BufferOverflow"
  by (induction rows arbitrary: i) (auto simp: row_entry_ok)

lemma fetch_rows_wf:
  assumes "fetch_rows k cap 0 rows = Inr es"
  shows "length es \<le> cap"
  using assms fetch_rows_length [OF assms] by (cases rows) auto

section \<open>Lemmas: key/value rows\<close>

definition row_pair :: "sql_row \<Rightarrow> key_value_pair" where
  "row_pair row = \<lparr>kv_key = column_text row 0, kv_value = column_text row 1\<rparr>"

lemma emplace_nonzero: "key_value_list_emplace l k v = (r, l') \<Longrightarrow> r \<noteq> 0"
  by (auto simp: key_value_list_emplace_def split: if_splits)

lemma kv_rows_add_all: "kv_rows l rows ec = (kl.add_all l (map row_pair rows), ec)"
proof (induction rows arbitrary: l)
  case (Cons row rows)
  obtain r l' where e: "key_value_list_emplace l (column_text row 0) (column_text row 1) = (r, l')"
    by (cases "key_value_list_emplace l (column_text row 0) (column_text row 1)")
  then have "l' = snd (kv_add l (row_pair row))" by (simp add: kv_add_def row_pair_def)
  with e emplace_nonzero [OF e] Cons show ?case by simp
qed simp

lemma emplace_all_add_all: "emplace_all l ps = kl.add_all l ps"
  unfolding emplace_all_def by (induction ps arbitrary: l) (auto simp: kv_add_def split: prod.split)

lemma kl_all_fit: "kl.all_fit es xs"
  by (induction xs arbitrary: es) auto

lemma kl_add_all: "wf_kvlist l \<Longrightarrow>
  wf_kvlist (kl.add_all l xs) \<and> kl_capacity (kl.add_all l xs) = kl_capacity l \<and>
  kl_pairs (kl.add_all l xs) = take (kl_capacity l) (kl_pairs l @ xs) \<and>
  kl_length (kl.add_all l xs) = length (kl_pairs (kl.add_all l xs))"
  using kl.add_all_inv [of l xs]
  by (simp add: kl.entries_add_all kl_all_fit) (simp add: wf_kvlist_def kl.entries_add_all kl_all_fit)

section \<open>Lemmas: the handlers\<close>

text \<open>
  The behaviour of SQL the code relies on: both queries can be prepared, the first column of the
  counting one is the number of rows of the other.
\<close>

definition answers :: "'db sqlite \<Rightarrow> 'db \<Rightarrow> string option \<Rightarrow> string option \<Rightarrow> sql_row list \<Rightarrow> bool" where
  "answers sq db countq selectq rows \<longleftrightarrow>
     sql_prepare sq db countq = SQLITE_OK \<and> sql_prepare sq db selectq = SQLITE_OK \<and>
     map (\<lambda>r. column_int r 0) (sql_rows sq db countq) = [int (length rows)] \<and> sql_rows sq db selectq = rows"

lemma answers_count:
  "answers sq db countq selectq rows \<Longrightarrow> length rows < 2 ^ 32 \<Longrightarrow> exec_formatted_count_query sq db countq = length rows"
  by (auto simp: answers_def exec_formatted_count_query_def zmod_int [symmetric] split: list.splits)

abbreviation bump :: "'db sqlite \<Rightarrow> db_oom \<Rightarrow> 'db \<Rightarrow> string \<Rightarrow> 'db" where
  "bump sq oom db name \<equiv> increase_stat sq (oom_query oom) db name"

lemma db_handle_fetch:
  "mtype msg = Some DB_MSGTYPE_FETCH \<Longrightarrow> db_handle sq oom db msg =
     cbind (exec_fetch_query sq (oom_list oom) (oom_array oom) db (fcountq msg) (fselectq msg)
              (unitstr msg ! 0 = RPIWD_TEMPERATURE_CELSIUS) (retcode msg)) (\<lambda>(l, ec).
       Inr (bump sq oom db STAT_NAME_TOTAL_REQUESTS,
            Some (msg\<lparr>data := ListData l, retcode := ec, is_completed := Some 1\<rparr>)))"
  by (simp add: db_handle_def msgtype_defs RPIWD_MEASURE_TEMPERATURE_def)

lemma db_handle_write:
  "mtype msg = Some DB_MSGTYPE_WRITEENTRY \<Longrightarrow> data msg = EntryData (Some e) \<Longrightarrow> db_handle sq oom db msg =
     Inr (bump sq oom (snd (write_raw_entry sq db (temperature e) (humidity e) (location e) (device_name e)))
            STAT_NAME_TOTAL_ENTRIES, None)"
  by (simp add: db_handle_def Let_def)

lemma exec_fetch_ok:
  assumes "answers sq db countq selectq rows" "length rows \<le> 2048" "list_all row_ok rows"
  shows "exec_fetch_query sq False False db countq selectq (u = RPIWD_TEMPERATURE_CELSIUS) ec =
    Inr (Some \<lparr>el_size = length rows, el_capacity = length rows, el_entries = map (entry_of_row u) rows\<rparr>,
         Some DBHANDLER_ERROR_SUCCESS)"
  using assms answers_count [OF assms(1)] fetch_rows_ok [of 0 rows "length rows" u]
  by (simp add: exec_fetch_query_def Let_def DBHANDLER_MAX_FETCHED_ENTRIES_def entrylist_alloc_def answers_def)

lemma exec_fetch_cases:
  assumes "exec_fetch_query sq o1 o2 db countq selectq k ec = Inr (p, ec')"
  shows "(\<exists>l. p = Some l \<and> ec' = Some DBHANDLER_ERROR_SUCCESS \<and> wf_entrylist l \<and> el_size l \<le> 2048) \<or>
    (p = None \<and> ec' \<in> {Some DBHANDLER_ERROR_TOO_MANY_ENTRIES, Some DBHANDLER_ERROR_SQL_ERROR}) \<or>
    (p = None \<and> (o1 \<or> o2) \<and> ec' = ec)"
  using assms
  by (auto simp: exec_fetch_query_def Let_def DBHANDLER_MAX_FETCHED_ENTRIES_def entrylist_alloc_def
      cbind_eq_Inr wf_entrylist_def split: if_splits dest: fetch_rows_wf)

lemma exec_kv_ok:
  assumes "exec_formatted_count_query sq db countq = n" "n \<le> 2048" "sql_prepare sq db selectq = SQLITE_OK"
  shows "\<exists>l. exec_key_value_query sq False False db countq selectq ec = (Some l, ec) \<and>
    kl_length l = length (kl_pairs l) \<and> kl_pairs l = take n (map row_pair (sql_rows sq db selectq))"
proof -
  define l0 where "l0 = \<lparr>kl_length = 0, kl_capacity = n, kl_pairs = []\<rparr>"
  have "wf_kvlist l0" by (simp add: l0_def wf_kvlist_def)
  note all = kl_add_all [OF this, of "map row_pair (sql_rows sq db selectq)"]
  have "exec_key_value_query sq False False db countq selectq ec =
      (Some (kl.add_all l0 (map row_pair (sql_rows sq db selectq))), ec)"
    using assms by (simp add: exec_key_value_query_def key_value_list_alloc_def l0_def
        kv_rows_add_all DBHANDLER_MAX_FETCHED_ENTRIES_def)
  moreover have "kl_capacity l0 = n" "kl_pairs l0 = []" by (simp_all add: l0_def)
  ultimately show ?thesis using all by simp
qed

lemma db_handle_stats_eq:
  assumes "mtype msg = Some DB_MSGTYPE_STATS"
    and "exec_key_value_query sq (oom_list oom) (oom_array oom) db (fcountq msg) (fselectq msg) (retcode msg) = (Some q, ec)"
    and "kl_length q = length (kl_pairs q)" "data msg = KvData (Some dst)"
  shows "db_handle sq oom db msg = Inr (bump sq oom db STAT_NAME_TOTAL_REQUESTS,
    Some (msg\<lparr>data := KvData (Some (kl.add_all dst (kl_pairs q))), retcode := ec, is_completed := Some 1\<rparr>))"
proof -
  have ty: "DB_MSGTYPE_STATS \<noteq> DB_MSGTYPE_WRITEENTRY" "DB_MSGTYPE_STATS \<noteq> DB_MSGTYPE_FETCH"
    by (simp_all add: msgtype_defs)
  show ?thesis
    unfolding db_handle_def assms(1) read_init_simps cbind_Inr
    by (simp only: ty if_False if_True assms(2-4) prod.case deref_simps cbind_Inr kv_data.simps)
       (simp add: emplace_all_add_all)
qed

lemma db_handle_stats:
  assumes "mtype msg = Some DB_MSGTYPE_STATS" "data msg = KvData (Some dst)" "wf_kvlist dst"
    and "\<not> oom_list oom" "\<not> oom_array oom" "exec_formatted_count_query sq db (fcountq msg) = n" "n \<le> 2048"
    and "sql_prepare sq db (fselectq msg) = SQLITE_OK"
  shows "\<exists>l. db_handle sq oom db msg = Inr (bump sq oom db STAT_NAME_TOTAL_REQUESTS,
      Some (msg\<lparr>data := KvData (Some l), is_completed := Some 1\<rparr>)) \<and>
    wf_kvlist l \<and> kl_capacity l = kl_capacity dst \<and>
    kl_pairs l = take (kl_capacity dst) (kl_pairs dst @ take n (map row_pair (sql_rows sq db (fselectq msg))))"
proof -
  obtain q where q: "exec_key_value_query sq False False db (fcountq msg) (fselectq msg) (retcode msg) = (Some q, retcode msg)"
    "kl_length q = length (kl_pairs q)" "kl_pairs q = take n (map row_pair (sql_rows sq db (fselectq msg)))"
    using exec_kv_ok [OF assms(6-8)] by blast
  show ?thesis
    using db_handle_stats_eq [OF assms(1) _ q(2) assms(2), of sq oom db "retcode msg"] q(1) q(3) assms(4,5)
      kl_add_all [OF assms(3), of "kl_pairs q"]
    by (intro exI [where x = "kl.add_all dst (kl_pairs q)"]) simp
qed

text \<open>The set-up statements succeed one after the other.\<close>

fun all_exec_ok :: "'db sqlite \<Rightarrow> 'db \<Rightarrow> string list \<Rightarrow> bool" where
  "all_exec_ok sq db [] = True"
| "all_exec_ok sq db (q # qs) \<longleftrightarrow>
     fst (sql_exec sq db (Some q)) = SQLITE_OK \<and> all_exec_ok sq (snd (sql_exec sq db (Some q))) qs"

definition db_setup_ok :: "'db sqlite \<Rightarrow> bool \<Rightarrow> 'db \<Rightarrow> bool" where
  "db_setup_ok sq mq_ok db \<longleftrightarrow> sql_open sq DB_DEFAULT_FILE_PATH = SQLITE_OK \<and> mq_ok \<and>
     all_exec_ok sq db (SQLCMD_TABLE_CREATION_QUERIES @ [SQLCMD_INSERT_INITIAL_STATS])"

lemma run_execs_zero:
  "(\<And>d q. 0 \<le> fst (sql_exec sq d q)) \<Longrightarrow> 0 \<le> r \<Longrightarrow> fst (run_execs sq db r qs) = 0 \<longleftrightarrow> r = 0 \<and> all_exec_ok sq db qs"
proof (induction qs arbitrary: db r)
  case (Cons q qs)
  obtain rc db' where e: "sql_exec sq db (Some q) = (rc, db')" by (cases "sql_exec sq db (Some q)")
  have "0 \<le> rc" using Cons.prems(1) [of db "Some q"] e by simp
  with Cons.IH [OF Cons.prems(1), of "r + rc" db'] Cons.prems(2) e show ?case
    by (auto simp: SQLITE_OK_def)
qed simp

section \<open>Lemmas: one answer per request\<close>

text \<open>A message the database thread can serve without undefined behaviour.\<close>

definition db_msg_safe :: "'db sqlite \<Rightarrow> db_oom \<Rightarrow> 'db \<Rightarrow> rpiwd_mqmsg \<Rightarrow> bool" where
  "db_msg_safe sq oom db msg \<longleftrightarrow>
     (mtype msg = Some DB_MSGTYPE_WRITEENTRY \<and> (\<exists>e. data msg = EntryData (Some e))) \<or>
     (mtype msg = Some DB_MSGTYPE_FETCH \<and>
        (\<exists>rows. answers sq db (fcountq msg) (fselectq msg) rows \<and> length rows < 2 ^ 31 \<and> list_all row_ok rows)) \<or>
     (mtype msg = Some DB_MSGTYPE_STATS \<and> (\<exists>l. data msg = KvData (Some l) \<and> wf_kvlist l) \<and>
        \<not> oom_list oom \<and> \<not> oom_array oom \<and> exec_formatted_count_query sq db (fcountq msg) \<le> 2048 \<and>
        sql_prepare sq db (fselectq msg) = SQLITE_OK)"

lemma exec_fetch_returns:
  assumes "answers sq db countq selectq rows" "length rows < 2 ^ 31" "list_all row_ok rows"
  shows "\<exists>r. exec_fetch_query sq o1 o2 db countq selectq (u = RPIWD_TEMPERATURE_CELSIUS) ec = Inr r"
  using assms answers_count [OF assms(1)] fetch_rows_ok [of 0 rows "length rows" u]
  by (auto simp: exec_fetch_query_def Let_def entrylist_alloc_def answers_def)

lemma db_handle_safe:
  assumes "db_msg_safe sq oom db msg"
  shows "\<exists>db' out. db_handle sq oom db msg = Inr (db', out) \<and>
    (if mtype msg = Some DB_MSGTYPE_WRITEENTRY then out = None
     else \<exists>m. out = Some m \<and> sockfd m = sockfd msg \<and> mtype m = mtype msg \<and> is_completed m = Some 1)"
  using assms unfolding db_msg_safe_def
proof (elim disjE conjE exE)
  fix e assume "mtype msg = Some DB_MSGTYPE_WRITEENTRY" "data msg = EntryData (Some e)"
  then show ?thesis by (simp add: db_handle_write)
next
  fix rows assume ty: "mtype msg = Some DB_MSGTYPE_FETCH"
    and "answers sq db (fcountq msg) (fselectq msg) rows" "length rows < 2 ^ 31" "list_all row_ok rows"
  from exec_fetch_returns [OF this(2-4)] obtain l ec where
    "exec_fetch_query sq (oom_list oom) (oom_array oom) db (fcountq msg) (fselectq msg)
       (unitstr msg ! 0 = RPIWD_TEMPERATURE_CELSIUS) (retcode msg) = Inr (l, ec)" by (metis surj_pair)
  with ty show ?thesis by (simp add: db_handle_fetch msgtype_defs)
next
  fix l assume "mtype msg = Some DB_MSGTYPE_STATS" "data msg = KvData (Some l)" "wf_kvlist l"
    "\<not> oom_list oom" "\<not> oom_array oom" "exec_formatted_count_query sq db (fcountq msg) \<le> 2048"
    "sql_prepare sq db (fselectq msg) = SQLITE_OK"
  from db_handle_stats [OF this(1-5) refl this(6,7)] this(1) show ?thesis
    by (auto simp: msgtype_defs)
qed

section \<open>Properties\<close>

text \<open>A fetch request whose select query yields as many rows as its count query announced, at
  most 2048, comes back complete: a well-formed list with one entry per row in order, the
  temperature converted unless the message asks for Celsius, and return code success.\<close>
theorem fetch_request_answered:
  assumes "mtype msg = Some DB_MSGTYPE_FETCH" "\<not> oom_list oom" "\<not> oom_array oom"
    and "answers sq db (fcountq msg) (fselectq msg) rows" "length rows \<le> 2048" "list_all row_ok rows"
  shows "\<exists>l. db_handle sq oom db msg = Inr (increase_stat sq (oom_query oom) db STAT_NAME_TOTAL_REQUESTS,
      Some (msg\<lparr>data := ListData (Some l), retcode := Some DBHANDLER_ERROR_SUCCESS, is_completed := Some 1\<rparr>)) \<and>
    wf_entrylist l \<and> el_entries l = map (entry_of_row (unitstr msg ! 0)) rows"
  using assms exec_fetch_ok [OF assms(4-6), of "unitstr msg ! 0" "retcode msg"]
  by (auto simp: db_handle_fetch wf_entrylist_def)

definition sample_row :: "int \<Rightarrow> sql_row" where
  "sample_row i = \<lparr>column_int = (\<lambda>_. i), column_text = (\<lambda>_. Some ''2017-11-16''), column_double = (\<lambda>_. Fin 20)\<rparr>"

text \<open>A database that records the insertions; every counting query answers with \<open>n\<close>.\<close>

definition sample_sql :: "int \<Rightarrow> sql_row list \<Rightarrow> sql_bind list list sqlite" where
  "sample_sql n rows =
     \<lparr>sql_open = (\<lambda>_. 0), sql_exec = (\<lambda>db _. (0, db)), sql_prepare = (\<lambda>_ _. 0),
      sql_rows = (\<lambda>_ q. if q = Some ''count'' then [sample_row n] else rows),
      sql_insert = (\<lambda>db _ vs. (101, db @ [vs]))\<rparr>"

definition sample_msg :: "int \<Rightarrow> msg_data \<Rightarrow> rpiwd_mqmsg" where
  "sample_msg ty d = uninit_mqmsg\<lparr>mtype := Some ty, sockfd := Some 7, fcountq := Some ''count'',
     fselectq := Some ''select'', unitstr := ''f%'', data := d\<rparr>"

lemmas sample_db_defs = sample_msg_def sample_sql_def sample_row_def uninit_mqmsg_def

theorem fetch_request_answered_witness:
  "\<exists>l. db_handle (sample_sql 2 [sample_row 1, sample_row 2]) \<lparr>oom_list = False, oom_array = False, oom_query = False\<rparr> []
      (sample_msg DB_MSGTYPE_FETCH NoData) =
    Inr (increase_stat (sample_sql 2 [sample_row 1, sample_row 2]) (oom_query \<lparr>oom_list = False, oom_array = False, oom_query = False\<rparr>)
           [] STAT_NAME_TOTAL_REQUESTS,
      Some (sample_msg DB_MSGTYPE_FETCH NoData\<lparr>data := ListData (Some l), retcode := Some DBHANDLER_ERROR_SUCCESS, is_completed := Some 1\<rparr>)) \<and>
    wf_entrylist l \<and> el_entries l = map (entry_of_row (unitstr (sample_msg DB_MSGTYPE_FETCH NoData) ! 0)) [sample_row 1, sample_row 2]"
  by (rule fetch_request_answered) (simp_all add: sample_db_defs answers_def SQLITE_OK_def row_ok_def)

text \<open>Whatever the database does, a fetch request that comes back carries either a well-formed
  list of at most 2048 entries and return code success, or no list and the code of a refused size or of a
  failed statement; only when the list could not be allocated is the return code left as it was.\<close>
theorem fetch_result_classified:
  assumes "mtype msg = Some DB_MSGTYPE_FETCH" "db_handle sq oom db msg = Inr (db', Some m)"
  shows "is_completed m = Some 1 \<and> sockfd m = sockfd msg \<and>
    ((\<exists>l. data m = ListData (Some l) \<and> retcode m = Some DBHANDLER_ERROR_SUCCESS \<and> wf_entrylist l \<and> el_size l \<le> 2048) \<or>
     (data m = ListData None \<and> retcode m \<in> {Some DBHANDLER_ERROR_TOO_MANY_ENTRIES, Some DBHANDLER_ERROR_SQL_ERROR}) \<or>
     (data m = ListData None \<and> (oom_list oom \<or> oom_array oom) \<and> retcode m = retcode msg))"
  using assms by (auto simp: db_handle_fetch cbind_eq_Inr dest!: exec_fetch_cases)

theorem fetch_result_classified_witness:
  "is_completed (sample_msg DB_MSGTYPE_FETCH (ListData None)\<lparr>retcode := Some DBHANDLER_ERROR_TOO_MANY_ENTRIES, is_completed := Some 1\<rparr>) = Some 1"
proof -
  let ?m = "sample_msg DB_MSGTYPE_FETCH (ListData None)\<lparr>retcode := Some DBHANDLER_ERROR_TOO_MANY_ENTRIES, is_completed := Some 1\<rparr>"
  have "db_handle (sample_sql 4096 []) \<lparr>oom_list = False, oom_array = False, oom_query = False\<rparr> []
      (sample_msg DB_MSGTYPE_FETCH NoData) = Inr ([], Some ?m)"
    by (simp add: db_handle_def msgtype_defs exec_fetch_query_def exec_formatted_count_query_def increase_stat_def
        sample_db_defs DBHANDLER_MAX_FETCHED_ENTRIES_def SQLITE_OK_def)
  from fetch_result_classified [OF _ this] show ?thesis by (simp add: sample_db_defs)
qed

text \<open>When the select query yields more rows than the count query announced, the entry array
  of the announced size is overrun.\<close>
theorem fetch_more_rows_overflows:
  assumes "mtype msg = Some DB_MSGTYPE_FETCH" "\<not> oom_list oom" "\<not> oom_array oom"
    and "exec_formatted_count_query sq db (fcountq msg) < length (sql_rows sq db (fselectq msg))"
    and "exec_formatted_count_query sq db (fcountq msg) \<le> 2048" "sql_prepare sq db (fselectq msg) = SQLITE_OK"
    and "list_all row_ok (sql_rows sq db (fselectq msg))"
  shows "db_handle sq oom db msg = Inl BufferOverflow"
  using assms fetch_rows_overflow [of _ 0 "sql_rows sq db (fselectq msg)" "unitstr msg ! 0"]
  by (simp add: db_handle_fetch exec_fetch_query_def Let_def DBHANDLER_MAX_FETCHED_ENTRIES_def entrylist_alloc_def)

theorem fetch_more_rows_overflows_witness:
  "db_handle (sample_sql 0 [sample_row 1]) \<lparr>oom_list = False, oom_array = False, oom_query = False\<rparr> []
     (sample_msg DB_MSGTYPE_FETCH NoData) = Inl BufferOverflow"
  by (rule fetch_more_rows_overflows)
     (simp_all add: sample_db_defs row_ok_def exec_formatted_count_query_def SQLITE_OK_def)

text \<open>The statistics rows are appended to the list the worker started, in order; rows beyond
  what the count query announced and beyond the capacity of the list are dropped without overrunning
  either array.\<close>
theorem stats_rows_appended:
  assumes "mtype msg = Some DB_MSGTYPE_STATS" "data msg = KvData (Some dst)" "wf_kvlist dst"
    and "\<not> oom_list oom" "\<not> oom_array oom" "exec_formatted_count_query sq db (fcountq msg) = n" "n \<le> 2048"
    and "sql_prepare sq db (fselectq msg) = SQLITE_OK"
  shows "\<exists>l. db_handle sq oom db msg = Inr (increase_stat sq (oom_query oom) db STAT_NAME_TOTAL_REQUESTS,
      Some (msg\<lparr>data := KvData (Some l), is_completed := Some 1\<rparr>)) \<and>
    wf_kvlist l \<and> kl_capacity l = kl_capacity dst \<and>
    kl_pairs l = take (kl_capacity dst) (kl_pairs dst @ take n (map row_pair (sql_rows sq db (fselectq msg))))"
  using assms by (rule db_handle_stats)

theorem stats_rows_appended_witness:
  "\<exists>l. db_handle (sample_sql 1 [sample_row 3]) \<lparr>oom_list = False, oom_array = False, oom_query = False\<rparr> []
      (sample_msg DB_MSGTYPE_STATS (KvData (Some \<lparr>kl_length = 0, kl_capacity = 1, kl_pairs = []\<rparr>))) =
    Inr (increase_stat (sample_sql 1 [sample_row 3]) (oom_query \<lparr>oom_list = False, oom_array = False, oom_query = False\<rparr>)
           [] STAT_NAME_TOTAL_REQUESTS,
      Some (sample_msg DB_MSGTYPE_STATS (KvData (Some \<lparr>kl_length = 0, kl_capacity = 1, kl_pairs = []\<rparr>))
        \<lparr>data := KvData (Some l), is_completed := Some 1\<rparr>)) \<and>
    wf_kvlist l \<and> kl_capacity l = kl_capacity \<lparr>kl_length = 0, kl_capacity = 1, kl_pairs = []\<rparr> \<and>
    kl_pairs l = take (kl_capacity \<lparr>kl_length = 0, kl_capacity = 1, kl_pairs = []\<rparr>)
      (kl_pairs \<lparr>kl_length = 0, kl_capacity = 1, kl_pairs = []\<rparr> @ take 1 (map row_pair (sql_rows (sample_sql 1 [sample_row 3]) []
        (fselectq (sample_msg DB_MSGTYPE_STATS (KvData (Some \<lparr>kl_length = 0, kl_capacity = 1, kl_pairs = []\<rparr>)))))))"
  by (rule stats_rows_appended)
     (simp_all add: sample_db_defs wf_kvlist_def exec_formatted_count_query_def SQLITE_OK_def)

text \<open>C8. The database thread answers every request it can serve exactly once and in the order
  received, marked complete and with the socket and type it came with; write requests are answered by
  nothing.\<close>
theorem db_loop_answers_in_order:
  assumes "\<forall>db. list_all (db_msg_safe sq oom db) msgs"
  shows "\<exists>db' outs. db_thread_event_loop sq oom db msgs = Inr (db', outs) \<and>
    map (\<lambda>m. (sockfd m, mtype m)) outs
      = map (\<lambda>m. (sockfd m, mtype m)) (filter (\<lambda>m. mtype m \<noteq> Some DB_MSGTYPE_WRITEENTRY) msgs) \<and>
    list_all (\<lambda>m. is_completed m = Some 1) outs"
  using assms
proof (induction msgs arbitrary: db)
  case (Cons msg msgs)
  then have safe: "db_msg_safe sq oom db msg" by simp
  obtain db1 out where h: "db_handle sq oom db msg = Inr (db1, out)"
    "if mtype msg = Some DB_MSGTYPE_WRITEENTRY then out = None
     else \<exists>m. out = Some m \<and> sockfd m = sockfd msg \<and> mtype m = mtype msg \<and> is_completed m = Some 1"
    using db_handle_safe [OF safe] by blast
  moreover obtain db' outs where "db_thread_event_loop sq oom db1 msgs = Inr (db', outs)"
    "map (\<lambda>m. (sockfd m, mtype m)) outs
      = map (\<lambda>m. (sockfd m, mtype m)) (filter (\<lambda>m. mtype m \<noteq> Some DB_MSGTYPE_WRITEENTRY) msgs)"
    "list_all (\<lambda>m. is_completed m = Some 1) outs"
    using Cons.IH [of db1] Cons.prems by auto
  ultimately show ?case by (auto split: if_splits)
qed simp

theorem db_loop_answers_in_order_witness:
  "\<exists>db' outs. db_thread_event_loop (sample_sql 1 [sample_row 1]) \<lparr>oom_list = False, oom_array = False, oom_query = False\<rparr> []
      [sample_msg DB_MSGTYPE_FETCH NoData, sample_msg DB_MSGTYPE_WRITEENTRY (EntryData (Some (sample_entry 1)))] = Inr (db', outs) \<and>
    map (\<lambda>m. (sockfd m, mtype m)) outs = map (\<lambda>m. (sockfd m, mtype m)) (filter (\<lambda>m. mtype m \<noteq> Some DB_MSGTYPE_WRITEENTRY)
      [sample_msg DB_MSGTYPE_FETCH NoData, sample_msg DB_MSGTYPE_WRITEENTRY (EntryData (Some (sample_entry 1)))]) \<and>
    list_all (\<lambda>m. is_completed m = Some 1) outs"
  by (rule db_loop_answers_in_order)
     (simp add: db_msg_safe_def answers_def sample_db_defs row_ok_def SQLITE_OK_def)

text \<open>With result codes that are not negative, as SQLite's are, the handler starts exactly when
  the database opens, each of the set-up statements succeeds in turn and the queue opens; otherwise
  it reports failure and no thread is made.\<close>
theorem init_dbhandler_starts:
  assumes "\<And>d q. 0 \<le> fst (sql_exec sq d q)"
  shows "fst (init_dbhandler sq mq_ok thread db h) = (if db_setup_ok sq mq_ok db then 1 else - 1) \<and>
    db_thread (snd (snd (init_dbhandler sq mq_ok thread db h))) =
      (if db_setup_ok sq mq_ok db then case thread of None \<Rightarrow> db_thread h | Some t \<Rightarrow> Ptr t else db_thread h)"
  using run_execs_zero [of sq 0 db "SQLCMD_TABLE_CREATION_QUERIES @ [SQLCMD_INSERT_INITIAL_STATS]", OF assms order_refl]
  by (auto simp: init_dbhandler_def db_setup_ok_def SQLITE_OK_def Let_def split: prod.splits)

theorem init_dbhandler_starts_witness:
  "fst (init_dbhandler (sample_sql 0 []) True (Some 1) [] dbhandler_init) = 1 \<and>
   db_thread (snd (snd (init_dbhandler (sample_sql 0 []) True (Some 1) [] dbhandler_init))) = Ptr 1"
  using init_dbhandler_starts [where sq = "sample_sql 0 []" and mq_ok = True and db = "[]" and thread = "Some 1" and h = dbhandler_init]
  by (simp add: db_setup_ok_def sample_sql_def SQLITE_OK_def SQLCMD_TABLE_CREATION_QUERIES_def)

end
