(* ===== verification/Http.thy ===== *)
theory Http
  imports Util Json_Paths
begin

text \<open>
  \<^verbatim>\<open>src/src/http.c\<close> and its header: the request parser, the response writer and the socket
  reader. Allocation failures are a predicate on the allocation sites; the date line, the
  server identification (generated by the build) and the system calls on the socket are the
  record \<open>http_env\<close>. What \<open>read\<close> leaves undefined in the receive buffer is an argument.
\<close>

section \<open>Sizes, codes and types\<close>

definition HTTP_RESPONSE_HEADER_SIZE :: nat where "HTTP_RESPONSE_HEADER_SIZE = 512"
definition HTTP_COMMAND_MAX_SIZE :: nat where "HTTP_COMMAND_MAX_SIZE = 1024"
definition HTTP_PROTO_MAX_SIZE :: nat where "HTTP_PROTO_MAX_SIZE = 16"
definition HTTP_ARGS_MAX_SIZE :: nat where "HTTP_ARGS_MAX_SIZE = 512"
definition RESPONSE_BUFFER_SIZE :: nat where "RESPONSE_BUFFER_SIZE = 4096"

definition HTTP_CODE_OK :: int where "HTTP_CODE_OK = 200"
definition HTTP_CODE_NO_CONTENT :: int where "HTTP_CODE_NO_CONTENT = 204"
definition HTTP_CODE_NOT_FOUND :: int where "HTTP_CODE_NOT_FOUND = 404"
definition HTTP_CODE_REQUEST_TIMEOUT :: int where "HTTP_CODE_REQUEST_TIMEOUT = 408"
definition HTTP_CODE_REQUEST_BAD_REQUEST :: int where "HTTP_CODE_REQUEST_BAD_REQUEST = 400"
definition HTTP_CODE_FORBIDDEN :: int where "HTTP_CODE_FORBIDDEN = 403"
definition HTTP_CODE_TOO_MANY_REQUESTS :: int where "HTTP_CODE_TOO_MANY_REQUESTS = 429"
definition HTTP_CODE_PAYLOAD_TOO_LARGE :: int where "HTTP_CODE_PAYLOAD_TOO_LARGE = 413"
definition HTTP_CODE_URI_TOO_LONG :: int where "HTTP_CODE_URI_TOO_LONG = 414"
definition HTTP_CODE_INTERNAL_SERVER_ERROR :: int where "HTTP_CODE_INTERNAL_SERVER_ERROR = 500"
definition HTTP_CODE_VERSION_NOT_SUPPORTED :: int where "HTTP_CODE_VERSION_NOT_SUPPORTED = 505"
definition HTTP_CODE_INSUFFICIENT_STORAGE :: int where "HTTP_CODE_INSUFFICIENT_STORAGE = 507"

lemmas http_code_defs =
  HTTP_CODE_OK_def HTTP_CODE_NO_CONTENT_def HTTP_CODE_NOT_FOUND_def HTTP_CODE_REQUEST_TIMEOUT_def
  HTTP_CODE_REQUEST_BAD_REQUEST_def HTTP_CODE_FORBIDDEN_def HTTP_CODE_TOO_MANY_REQUESTS_def
  HTTP_CODE_PAYLOAD_TOO_LARGE_def HTTP_CODE_URI_TOO_LONG_def HTTP_CODE_INTERNAL_SERVER_ERROR_def
  HTTP_CODE_VERSION_NOT_SUPPORTED_def HTTP_CODE_INSUFFICIENT_STORAGE_def

definition HTTP_PARSER_ERROR_SUCCESS :: int where "HTTP_PARSER_ERROR_SUCCESS = 0"
definition HTTP_PARSER_ERROR_UNKNOWN_PARAM :: int where "HTTP_PARSER_ERROR_UNKNOWN_PARAM = - 1"
definition HTTP_PARSER_ERROR_REQUEST_TOO_LONG :: int where "HTTP_PARSER_ERROR_REQUEST_TOO_LONG = - 2"
definition HTTP_PARSER_ERROR_PARAMS_REQUIRED :: int where "HTTP_PARSER_ERROR_PARAMS_REQUIRED = - 3"
definition HTTP_PARSER_ERROR_BAD_REQUEST_FORMAT :: int where "HTTP_PARSER_ERROR_BAD_REQUEST_FORMAT = - 4"
definition HTTP_PARSER_ERROR_WRONG_PROTOCOL :: int where "HTTP_PARSER_ERROR_WRONG_PROTOCOL = - 5"
definition HTTP_PARSER_ERROR_NO_MEMORY :: int where "HTTP_PARSER_ERROR_NO_MEMORY = - 6"
definition HTTP_PARSER_ERROR_DUPLICATE_PARAMS :: int where "HTTP_PARSER_ERROR_DUPLICATE_PARAMS = - 7"

lemmas http_parser_defs =
  HTTP_PARSER_ERROR_SUCCESS_def HTTP_PARSER_ERROR_UNKNOWN_PARAM_def HTTP_PARSER_ERROR_REQUEST_TOO_LONG_def
  HTTP_PARSER_ERROR_PARAMS_REQUIRED_def HTTP_PARSER_ERROR_BAD_REQUEST_FORMAT_def
  HTTP_PARSER_ERROR_WRONG_PROTOCOL_def HTTP_PARSER_ERROR_NO_MEMORY_def HTTP_PARSER_ERROR_DUPLICATE_PARAMS_def

record http_cmd_param =
  p_name :: "string option"
  p_value :: "string option"

text \<open>The \<open>length\<close> member of the struct is \<open>cmd_length\<close>; \<open>params\<close> lists the slots written.\<close>

record http_cmd =
  cmdname :: string
  cmd_length :: nat
  params :: "http_cmd_param list"

datatype http_alloc =
    AllocLine | AllocCmd | AllocCmdName | AllocParams | AllocRealloc
  | AllocParamName nat | AllocParamValue nat

section \<open>Parsing a request\<close>

text \<open>The comparisons stop at the first NULL name with a crash.\<close>

fun count_params :: "http_cmd_param list \<Rightarrow> string option \<Rightarrow> nat c" where
  "count_params [] name = Inr 0"
| "count_params (p # ps) name =
     cbind (deref (p_name p)) (\<lambda>pn.
     cbind (deref name) (\<lambda>n.
     cbind (count_params ps name) (\<lambda>count. Inr (if pn = n then count + 1 else count))))"

definition http_cmd_param_count :: "http_cmd \<Rightarrow> string option \<Rightarrow> nat c" where
  "http_cmd_param_count cmd name = count_params (take (cmd_length cmd) (params cmd)) name"

text \<open>
  The result is the return value with what was stored in \<open>http_proto\<close>, \<open>args\<close> and
  \<open>commandstr\<close>, which the caller zeroed.
\<close>

definition break_request :: "string \<Rightarrow> (int \<times> string \<times> string \<times> string) c" where
  "break_request url =
     cbind (strcpy HTTP_COMMAND_MAX_SIZE url) (\<lambda>all_line.
       case strtok '' '' all_line of
         (None, _) \<Rightarrow> Inr (HTTP_PARSER_ERROR_BAD_REQUEST_FORMAT, [], [], [])
       | (Some _, save1) \<Rightarrow>
           (case strtok '' /?'' save1 of
              (None, _) \<Rightarrow> Inr (HTTP_PARSER_ERROR_BAD_REQUEST_FORMAT, [], [], [])
            | (Some t2, save2) \<Rightarrow>
                cbind (strcpy HTTP_COMMAND_MAX_SIZE t2) (\<lambda>commandstr.
                  case strtok '' '' save2 of
                    (None, _) \<Rightarrow> Inr (HTTP_PARSER_ERROR_BAD_REQUEST_FORMAT, [], [], commandstr)
                  | (Some t3, save3) \<Rightarrow>
                      if t3 = ''HTTP/1.0'' \<or> t3 = ''HTTP/1.1''
                      then cbind (strcpy HTTP_PROTO_MAX_SIZE t3) (\<lambda>http_proto.
                             Inr (HTTP_PARSER_ERROR_SUCCESS, http_proto, [], commandstr))
                      else cbind (strcpy HTTP_ARGS_MAX_SIZE t3) (\<lambda>args.
                             case strtok '' '' save3 of
                               (None, _) \<Rightarrow> Inr (HTTP_PARSER_ERROR_BAD_REQUEST_FORMAT, [], args, commandstr)
                             | (Some t4, _) \<Rightarrow>
                                 cbind (strcpy HTTP_PROTO_MAX_SIZE t4) (\<lambda>http_proto.
                                   Inr (HTTP_PARSER_ERROR_SUCCESS, http_proto, args, commandstr))))))"

definition parse_http_param :: "(http_alloc \<Rightarrow> bool) \<Rightarrow> nat \<Rightarrow> string option \<Rightarrow> http_cmd_param c" where
  "parse_http_param oom i paramstr =
     cbind (deref paramstr) (\<lambda>local.
       case strtok ''='' local of (part, saveptr) \<Rightarrow>
         let name = (if oom (AllocParamName i) then None else part);
             value = (if oom (AllocParamValue i) then None else fst (strtok ''='' saveptr))
         in Inr \<lparr>p_name = name, p_value = value\<rparr>)"

text \<open>
  The \<open>do\<close>/\<open>while\<close> over the parts: \<open>cmd_iter\<close> is the index of the next slot of an array of
  \<open>slots\<close> entries.
\<close>

function parse_params ::
  "(http_alloc \<Rightarrow> bool) \<Rightarrow> nat \<Rightarrow> nat \<Rightarrow> string option \<Rightarrow> string \<Rightarrow> http_cmd_param list c" where
  "parse_params oom slots cmd_iter part saveptr =
     cbind (parse_http_param oom cmd_iter part) (\<lambda>p.
       if slots \<le> cmd_iter then Inl BufferOverflow
       else case strtok ''&'' saveptr of
              (None, _) \<Rightarrow> Inr [p]
            | (Some part', saveptr') \<Rightarrow>
                cbind (parse_params oom slots (cmd_iter + 1) (Some part') saveptr') (\<lambda>ps. Inr (p # ps)))"
  by pat_completeness auto
termination
  by (relation "measure (\<lambda>(oom, slots, i, part, saveptr). length saveptr)")
     (auto simp: eq_commute [of "(Some _, _)"] dest: strtok_length)

declare parse_params.simps [simp del]

text \<open>The duplicate check over the first \<open>length\<close> parameters: does one occur twice?\<close>

fun has_duplicate :: "http_cmd \<Rightarrow> http_cmd_param list \<Rightarrow> bool c" where
  "has_duplicate cmd [] = Inr False"
| "has_duplicate cmd (p # ps) =
     cbind (http_cmd_param_count cmd (p_name p)) (\<lambda>n.
       if n > 1 then Inr True else has_duplicate cmd ps)"

definition check_duplicates :: "http_cmd \<Rightarrow> int \<Rightarrow> (http_cmd option \<times> int) c" where
  "check_duplicates cmd response =
     cbind (has_duplicate cmd (take (cmd_length cmd) (params cmd))) (\<lambda>dup.
       if dup then Inr (None, HTTP_PARSER_ERROR_DUPLICATE_PARAMS) else Inr (Some cmd, response))"

text \<open>
  \<open>realloc\<close> to zero bytes returns NULL. With a NULL array the clean-up of a command of
  positive length reads through it.
\<close>

definition parse_http_request ::
  "(http_alloc \<Rightarrow> bool) \<Rightarrow> string \<Rightarrow> int \<Rightarrow> (http_cmd option \<times> int) c" where
  "parse_http_request oom request response =
     (case rpiwd_getline (oom AllocLine) request [CHR 0x0D, CHR 0x0A] of
        None \<Rightarrow> Inr (None, response)
      | Some line \<Rightarrow>
          cbind (break_request line) (\<lambda>(bflag, http_proto, args, commandstr).
            if bflag < 0 then Inr (None, bflag)
            else if http_proto \<noteq> ''HTTP/1.1'' \<and> http_proto \<noteq> ''HTTP/1.0''
            then Inr (None, HTTP_PARSER_ERROR_WRONG_PROTOCOL)
            else if oom AllocCmd then Inr (None, HTTP_PARSER_ERROR_NO_MEMORY)
            else if oom AllocCmdName then Inr (None, HTTP_PARSER_ERROR_NO_MEMORY)
            else let actual_count = count_list args (CHR ''&'')
                 in if oom AllocParams then Inr (None, HTTP_PARSER_ERROR_NO_MEMORY)
                    else if actual_count = 0 then
                      cbind (parse_http_param oom 0 (Some args)) (\<lambda>p.
                        check_duplicates \<lparr>cmdname = commandstr,
                                          cmd_length = (if p_name p \<noteq> None then 1 else 0),
                                          params = [p]\<rparr> response)
                    else
                      (case strtok ''&'' args of (part, saveptr) \<Rightarrow>
                       cbind (parse_params oom (actual_count + 1) 0 part saveptr) (\<lambda>ps.
                         let cmd_iter = length ps
                         in if cmd_iter - 1 \<noteq> actual_count then
                              (if oom AllocRealloc \<and> cmd_iter - 1 > 0 then Inl NullDeref
                               else if cmd_iter - 1 = 0 then Inr (None, HTTP_PARSER_ERROR_NO_MEMORY)
                               else check_duplicates \<lparr>cmdname = commandstr, cmd_length = cmd_iter - 1,
                                                      params = take (cmd_iter - 1) ps\<rparr> response)
                            else check_duplicates \<lparr>cmdname = commandstr, cmd_length = cmd_iter,
                                                   params = ps\<rparr> response))))"

section \<open>Responses\<close>

definition http_code_str :: "int \<Rightarrow> string option" where
  "http_code_str httpcode =
     (if httpcode = HTTP_CODE_OK then Some ''200 OK''
      else if httpcode = HTTP_CODE_NO_CONTENT then Some ''204 No Content''
      else if httpcode = HTTP_CODE_REQUEST_BAD_REQUEST then Some ''400 Bad Request''
      else if httpcode = HTTP_CODE_FORBIDDEN then Some ''403 Forbidden''
      else if httpcode = HTTP_CODE_NOT_FOUND then Some ''404 Not Found''
      else if httpcode = HTTP_CODE_TOO_MANY_REQUESTS then Some ''429 Too Many Requests''
      else if httpcode = HTTP_CODE_REQUEST_TIMEOUT then Some ''408 Request Timeout''
      else if httpcode = HTTP_CODE_PAYLOAD_TOO_LARGE then Some ''413 Payload Too Large''
      else if httpcode = HTTP_CODE_URI_TOO_LONG then Some ''414 URI Too Long''
      else if httpcode = HTTP_CODE_INTERNAL_SERVER_ERROR then Some ''500 Internal Server Error''
      else if httpcode = HTTP_CODE_VERSION_NOT_SUPPORTED then Some ''505 HTTP Version Not Supported''
      else if httpcode = HTTP_CODE_INSUFFICIENT_STORAGE then Some ''507 Insufficient Storage''
      else None)"

definition http_parser_strerror :: "int \<Rightarrow> string" where
  "http_parser_strerror errcode =
     (if errcode = HTTP_PARSER_ERROR_SUCCESS then ''Success''
      else if errcode = HTTP_PARSER_ERROR_UNKNOWN_PARAM then ''Unknown parameter''
      else if errcode = HTTP_PARSER_ERROR_REQUEST_TOO_LONG then ''HTTP request line is too long''
      else if errcode = HTTP_PARSER_ERROR_PARAMS_REQUIRED then ''HTTP command requires parameters''
      else if errcode = HTTP_PARSER_ERROR_BAD_REQUEST_FORMAT then ''HTTP request is malformed.''
      else if errcode = HTTP_PARSER_ERROR_WRONG_PROTOCOL
        then ''rpiweatherd only supports HTTP/1.0 or HTTP/1.1''
      else if errcode = HTTP_PARSER_ERROR_DUPLICATE_PARAMS
        then ''Duplicate parameters in HTTP query string''
      else ''Unknown error'')"

text \<open>
  The surroundings of a response: \<open>calloc\<close> failing, JSON allocations succeeding, what
  \<open>ctime_r\<close> stores (a line of 25 characters with its newline), the server identification
  and the result of \<open>write\<close>.
\<close>

record http_env =
  calloc_fails :: bool
  json_mem :: bool
  ctime_line :: string
  server_id :: string
  sock_write :: "string \<Rightarrow> int"

abbreviation crlf :: string where "crlf \<equiv> [CHR 0x0D, CHR 0x0A]"

definition HTTP_RESPONSE_TEMPLATE :: "string \<Rightarrow> string \<Rightarrow> string \<Rightarrow> string \<Rightarrow> string \<Rightarrow> string" where
  "HTTP_RESPONSE_TEMPLATE resp_string date_buffer server content_length body =
     ''HTTP/1.1 '' @ resp_string @ crlf @ ''Date: '' @ date_buffer @ crlf @ ''Server: '' @ server @ crlf @
     ''Cache-control: no-store'' @ crlf @ ''Content-Type: text/html'' @ crlf @ content_length @ crlf @ body"

text \<open>The \<open>%d\<close> of the content length prints the 32-bit reading of the length.\<close>

definition content_length_line :: "nat \<Rightarrow> string" where
  "content_length_line datalen =
     (if datalen \<noteq> 0 then ''Content-Length: '' @ show_int (signed_take_bit 31 (int datalen)) @ crlf else [])"

definition make_response :: "http_env \<Rightarrow> int \<Rightarrow> string option \<Rightarrow> string option c" where
  "make_response env httpcode data =
     (let body = (case data of None \<Rightarrow> [] | Some d \<Rightarrow> d);
          datalen = length body
      in if calloc_fails env then Inr None
         else cbind (deref (http_code_str httpcode)) (\<lambda>fmt.
              cbind (strcpy (HTTP_RESPONSE_HEADER_SIZE div 2) fmt) (\<lambda>resp_string.
              cbind (strcpy (HTTP_RESPONSE_HEADER_SIZE div 2) (content_length_line datalen)) (\<lambda>content_length.
              cbind (strcpy 26 (ctime_line env)) (\<lambda>line.
              cbind (if line = [] then Inl BufferOverflow else Inr (butlast line)) (\<lambda>date_buffer.
              cbind (strcpy (HTTP_RESPONSE_HEADER_SIZE + datalen)
                       (HTTP_RESPONSE_TEMPLATE resp_string date_buffer (server_id env) content_length body))
                (\<lambda>response. Inr (Some response))))))))"

text \<open>The return value, and the bytes handed to \<open>write\<close> if it was called.\<close>

definition send_response :: "http_env \<Rightarrow> int \<Rightarrow> string option \<Rightarrow> (int \<times> string option) c" where
  "send_response env httpcode data =
     cbind (make_response env httpcode data) (\<lambda>response.
       case response of
         None \<Rightarrow> Inr (- 1, None)
       | Some r \<Rightarrow> Inr (sock_write env r, Some r))"

definition error_document :: "bool \<Rightarrow> int \<Rightarrow> string option \<Rightarrow> jobject option" where
  "error_document mem errcode err =
     (case json_value_init_object mem of
        None \<Rightarrow> None
      | Some o0 \<Rightarrow>
          let o1 = snd (json_object_set_number mem o0 ''length'' (Fin 0));
              o2 = snd (json_object_set_number mem o1 ''errcode'' (Fin (of_int errcode)));
              o3 = snd (json_object_set_string mem o2 ''errmsg'' err)
          in Some o3)"

definition send_http_error_response ::
  "http_env \<Rightarrow> int \<Rightarrow> int \<Rightarrow> string option \<Rightarrow> (int \<times> string option) c" where
  "send_http_error_response env httpcode errcode err =
     (case error_document (json_mem env) errcode err of
        None \<Rightarrow> Inr (- 1, None)
      | Some ob \<Rightarrow>
          cbind (json_serialize_to_string (json_mem env) (JSONObject (fst ob) (snd ob))) (\<lambda>serialized.
            case serialized of
              None \<Rightarrow> Inr (- 1, None)
            | Some s \<Rightarrow>
                cbind (make_response env httpcode (Some s)) (\<lambda>response.
                cbind (deref response) (\<lambda>r. Inr (sock_write env r, Some r)))))"

section \<open>Reading from the socket\<close>

datatype read_result = ReadError | ReadBytes string

text \<open>
  The C string seen in the receive buffer: the bytes read, then whatever the uninitialised
  rest of the buffer and the memory after it hold (\<open>junk\<close>), up to the first zero byte.
\<close>

definition buffer_string :: "string \<Rightarrow> string \<Rightarrow> string" where
  "buffer_string bytes junk = takeWhile (\<lambda>c. c \<noteq> CHR 0x00) (take RESPONSE_BUFFER_SIZE bytes @ junk)"

definition read_and_parse_response ::
  "(http_alloc \<Rightarrow> bool) \<Rightarrow> read_result \<Rightarrow> string \<Rightarrow> int \<Rightarrow> bool \<Rightarrow> (http_cmd option \<times> int \<times> bool) c" where
  "read_and_parse_response oom rd junk response is_eof =
     (case rd of
        ReadError \<Rightarrow> Inr (None, response, is_eof)
      | ReadBytes bytes \<Rightarrow>
          if bytes = [] then Inr (None, response, True)
          else cbind (parse_http_request oom (buffer_string bytes junk) response) (\<lambda>(cmd, response').
                 Inr (cmd, response', is_eof)))"

section \<open>Lemmas: the parameter array\<close>

text \<open>A token consumes its delimiter, so there are at most as many parts as separators plus one.\<close>

lemma strtok_count:
  assumes "strtok [d] s = (Some t, rest)" "rest \<noteq> []"
  shows "count_list rest d < count_list s d"
proof -
  define u where "u = dropWhile (\<lambda>c. c \<in> set [d]) s"
  define r where "r = dropWhile (\<lambda>c. c \<notin> set [d]) u"
  have rest: "rest = drop 1 r" using assms by (auto simp: strtok_def Let_def u_def r_def split: if_splits)
  have ne: "r \<noteq> []" using assms(2) rest by auto
  have "hd r = d" using hd_dropWhile [of "\<lambda>c. c \<notin> set [d]" u] ne by (simp add: r_def)
  with ne rest have r: "r = d # rest" by (cases r) auto
  have split: "s = takeWhile (\<lambda>c. c \<in> set [d]) s @ takeWhile (\<lambda>c. c \<notin> set [d]) u @ r"
    by (simp add: u_def r_def)
  have "count_list r d \<le> count_list s d" by (subst split) (simp del: split_paired_All)
  with r show ?thesis by simp
qed

lemma parse_params_bound:
  "cmd_iter + count_list saveptr (CHR ''&'') + (if saveptr = [] then 0 else 1) < slots \<Longrightarrow>
   parse_params oom slots cmd_iter part saveptr \<noteq> Inl BufferOverflow"
proof (induction oom slots cmd_iter part saveptr rule: parse_params.induct)
  case (1 oom slots i part s)
  have "parse_http_param oom i part \<noteq> Inl BufferOverflow"
    by (cases part) (simp_all add: parse_http_param_def Let_def split: prod.split)
  moreover have "parse_params oom slots (i + 1) (Some p') s' \<noteq> Inl BufferOverflow"
    if "parse_http_param oom i part = Inr x" "strtok ''&'' s = (Some p', s')" for x p' s'
  proof (rule "1.IH" [OF that(1) _ that(2) [symmetric] refl])
    show "\<not> slots \<le> i" using "1.prems" by simp
    have "s \<noteq> []" using that(2) by auto
    moreover have "s' \<noteq> [] \<Longrightarrow> count_list s' (CHR ''&'') < count_list s (CHR ''&'')"
      using strtok_count [OF that(2)] .
    ultimately show "i + 1 + count_list s' (CHR ''&'') + (if s' = [] then 0 else 1) < slots"
      using "1.prems" by auto
  qed
  moreover have "\<not> slots \<le> i" using "1.prems" by simp
  ultimately show ?case
    by (subst parse_params.simps)
       (auto split: sum.split option.split prod.split simp: cbind_def)
qed

lemma parse_params_first:
  assumes "count_list args (CHR ''&'') = n" "n \<noteq> 0" "strtok ''&'' args = (part, saveptr)"
  shows "parse_params oom (n + 1) 0 part saveptr \<noteq> Inl BufferOverflow"
proof (cases part)
  case None
  then show ?thesis by (subst parse_params.simps) (simp add: parse_http_param_def)
next
  case (Some t)
  have "saveptr \<noteq> [] \<Longrightarrow> count_list saveptr (CHR ''&'') < n"
    using strtok_count [of "CHR ''&''" args t saveptr] assms Some by simp
  then show ?thesis using assms(2) by (intro parse_params_bound) auto
qed

lemma parse_params_length:
  "parse_params oom slots i part s = Inr ps \<Longrightarrow> ps \<noteq> [] \<and> i + length ps \<le> slots"
proof (induction oom slots i part s arbitrary: ps rule: parse_params.induct)
  case (1 oom slots i part s)
  from "1.prems" obtain p where p: "parse_http_param oom i part = Inr p" and s: "\<not> slots \<le> i"
    and r: "(case strtok ''&'' s of (None, _) \<Rightarrow> Inr [p] | (Some part', s') \<Rightarrow>
        cbind (parse_params oom slots (i + 1) (Some part') s') (\<lambda>ps. Inr (p # ps))) = Inr ps"
    by (subst (asm) parse_params.simps) (auto split: if_splits)
  show ?case
  proof (cases "strtok ''&'' s")
    case (Pair a s')
    then show ?thesis
      using r s "1.IH" [OF p s Pair [symmetric]] by (cases a) fastforce+
  qed
qed

section \<open>Lemmas: what a parsed command looks like\<close>

definition wf_cmd :: "http_cmd \<Rightarrow> bool" where
  "wf_cmd cmd \<longleftrightarrow> cmd_length cmd \<le> length (params cmd) \<and>
     (\<forall>p \<in> set (take (cmd_length cmd) (params cmd)). p_name p \<noteq> None) \<and>
     distinct (map p_name (take (cmd_length cmd) (params cmd)))"

lemma count_params_Inr:
  "count_params ps name = Inr n \<Longrightarrow> ps \<noteq> [] \<Longrightarrow>
   name \<noteq> None \<and> (\<forall>p \<in> set ps. p_name p \<noteq> None) \<and> n = count_list (map p_name ps) name"
proof (induction ps arbitrary: n)
  case (Cons p ps)
  then show ?case by (cases "ps = []") (auto simp: cbind_eq_Inr split: if_splits)
qed simp

lemma count_params_total:
  "name \<noteq> None \<Longrightarrow> \<forall>p \<in> set ps. p_name p \<noteq> None \<Longrightarrow>
   count_params ps name = Inr (count_list (map p_name ps) name)"
  by (induction ps) auto

lemma distinct_count_list: "\<forall>x \<in> set xs. count_list xs x \<le> 1 \<Longrightarrow> distinct xs"
proof (induction xs)
  case (Cons x xs)
  have "count_list xs x = 0" using Cons.prems by (auto dest!: bspec [of _ _ x])
  then have "x \<notin> set xs" by (simp add: count_list_0_iff)
  moreover have "\<forall>y \<in> set xs. count_list xs y \<le> 1"
  proof
    fix y assume "y \<in> set xs"
    then have "count_list (x # xs) y \<le> 1" using Cons.prems by auto
    then show "count_list xs y \<le> 1" by (auto split: if_splits)
  qed
  ultimately show ?case using Cons.IH by simp
qed simp

lemma count_list_distinct: "distinct xs \<Longrightarrow> count_list xs x \<le> 1"
  by (induction xs) auto

lemma has_duplicate_Inr:
  "has_duplicate cmd qs = Inr b \<Longrightarrow> set qs \<subseteq> set (take (cmd_length cmd) (params cmd)) \<Longrightarrow>
   b = (\<exists>q \<in> set qs. count_list (map p_name (take (cmd_length cmd) (params cmd))) (p_name q) > 1)
   \<and> (qs \<noteq> [] \<longrightarrow> (\<forall>p \<in> set (take (cmd_length cmd) (params cmd)). p_name p \<noteq> None))"
proof (induction cmd qs arbitrary: b rule: has_duplicate.induct)
  case (2 cmd p ps)
  let ?all = "take (cmd_length cmd) (params cmd)"
  from "2.prems" obtain n where n: "count_params ?all (p_name p) = Inr n"
    and b: "(if n > 1 then Inr True else has_duplicate cmd ps) = Inr b"
    by (auto simp: http_cmd_param_count_def)
  have "?all \<noteq> []" using "2.prems"(2) by (auto simp del: take_eq_Nil)
  note c = count_params_Inr [OF n this]
  show ?case
  proof (cases "n > 1")
    case True
    then show ?thesis using b c by auto
  next
    case False
    then have "has_duplicate cmd ps = Inr b" using b by simp
    then show ?thesis
      using "2.IH" [of n b] n False c "2.prems"(2) by (auto simp: http_cmd_param_count_def)
  qed
qed simp

lemma has_duplicate_total:
  "\<forall>p \<in> set (take (cmd_length cmd) (params cmd)) \<union> set qs. p_name p \<noteq> None \<Longrightarrow> \<exists>b. has_duplicate cmd qs = Inr b"
  by (induction qs) (auto simp: http_cmd_param_count_def count_params_total)

lemma check_duplicates_wf:
  assumes "check_duplicates cmd r = Inr (Some cmd', r')" "cmd_length cmd \<le> length (params cmd)"
  shows "cmd' = cmd \<and> r' = r \<and> wf_cmd cmd"
proof -
  let ?all = "take (cmd_length cmd) (params cmd)"
  from assms(1) have h: "has_duplicate cmd ?all = Inr False" "cmd' = cmd" "r' = r"
    by (auto simp: check_duplicates_def split: if_splits)
  note d = has_duplicate_Inr [OF h(1) order.refl]
  then have "distinct (map p_name ?all)"
    by (intro distinct_count_list) (auto simp: not_less)
  with d h(2,3) assms(2) show ?thesis by (cases "?all = []") (auto simp: wf_cmd_def)
qed

lemma check_duplicates_ok:
  assumes "wf_cmd cmd"
  shows "check_duplicates cmd r = Inr (Some cmd, r)"
proof -
  let ?all = "take (cmd_length cmd) (params cmd)"
  obtain b where b: "has_duplicate cmd ?all = Inr b"
    using has_duplicate_total [of cmd ?all] assms by (auto simp: wf_cmd_def)
  have "count_list (map p_name ?all) x \<le> 1" for x
    using assms count_list_distinct by (auto simp: wf_cmd_def)
  then have "\<not> b" using has_duplicate_Inr [OF b order.refl] by (auto simp: not_less)
  with b show ?thesis by (simp add: check_duplicates_def)
qed

lemma parse_http_request_wf:
  assumes "parse_http_request oom req r = Inr (Some cmd, r')"
  shows "wf_cmd cmd \<and> r' = r"
proof -
  have single: "wf_cmd cmd \<and> r' = r"
    if "cbind (parse_http_param oom 0 (Some args)) (\<lambda>p. check_duplicates \<lparr>cmdname = c,
      cmd_length = (if p_name p \<noteq> None then 1 else 0), params = [p]\<rparr> r) = Inr (Some cmd, r')" for args c
    using that by (elim cbind_eq_InrE) (drule check_duplicates_wf; auto split: if_splits)
  have many: "wf_cmd cmd \<and> r' = r"
    if "check_duplicates \<lparr>cmdname = c, cmd_length = n, params = ps\<rparr> r = Inr (Some cmd, r')" "n \<le> length ps"
    for c n ps
    using check_duplicates_wf [OF that(1)] that(2) by simp
  show ?thesis
    using assms
    by (auto simp: parse_http_request_def Let_def split: option.splits if_splits prod.splits sum.splits
        elim!: cbind_eq_InrE dest!: many intro: single)
qed

section \<open>Lemmas: a printed request parses back\<close>

definition url_safe :: "string \<Rightarrow> bool" where
  "url_safe s \<longleftrightarrow> s \<noteq> [] \<and> (\<forall>c \<in> set s. c \<notin> set '' /?&='' \<and> c \<noteq> CHR 0x0D \<and> c \<noteq> CHR 0x00)"

fun show_param :: "string \<times> string option \<Rightarrow> string" where
  "show_param (n, None) = n"
| "show_param (n, Some v) = n @ ''='' @ v"

fun query :: "(string \<times> string option) list \<Rightarrow> string" where
  "query [] = []"
| "query [p] = show_param p"
| "query (p # ps) = show_param p @ ''&'' @ query ps"

definition show_request :: "string \<Rightarrow> (string \<times> string option) list \<Rightarrow> string" where
  "show_request c ps = ''GET /'' @ c @ (if ps = [] then [] else ''?'' @ query ps) @ '' HTTP/1.1''"

definition safe_param :: "string \<times> string option \<Rightarrow> bool" where
  "safe_param p \<longleftrightarrow> url_safe (fst p) \<and> (case snd p of None \<Rightarrow> True | Some v \<Rightarrow> url_safe v)"

definition to_param :: "string \<times> string option \<Rightarrow> http_cmd_param" where
  "to_param p = \<lparr>p_name = Some (fst p), p_value = snd p\<rparr>"

definition request_cmd :: "string \<Rightarrow> (string \<times> string option) list \<Rightarrow> http_cmd" where
  "request_cmd c ps =
     \<lparr>cmdname = c, cmd_length = length ps,
      params = (if ps = [] then [\<lparr>p_name = None, p_value = None\<rparr>] else map to_param ps)\<rparr>"

lemma show_param_safe:
  assumes "safe_param p"
  shows "show_param p \<noteq> []" "\<forall>c \<in> set (show_param p). c \<notin> set '' /?&'' \<and> c \<noteq> CHR 0x0D"
  using assms
  by (cases p rule: show_param.cases; auto simp: safe_param_def url_safe_def)+

lemma query_safe:
  assumes "list_all safe_param ps"
  shows "\<forall>c \<in> set (query ps). c \<notin> set '' /?'' \<and> c \<noteq> CHR 0x0D" "ps \<noteq> [] \<Longrightarrow> query ps \<noteq> []"
  using assms
proof (induction ps rule: query.induct)
  case (3 p q ps)
  case 1
  then show ?case using show_param_safe(2) [of p] 3(1) by (auto simp del: query.simps simp: query.simps(3))
next
  case (3 p q ps)
  case 2
  then show ?case by simp
qed (use show_param_safe in auto)

lemma count_query: "list_all safe_param ps \<Longrightarrow> count_list (query ps) (CHR ''&'') = length ps - 1"
proof (induction ps rule: query.induct)
  case (2 p)
  then show ?case using show_param_safe(2) [of p] by (auto simp: count_list_0_iff)
next
  case (3 p q ps)
  then have "count_list (show_param p) (CHR ''&'') = 0"
    using show_param_safe(2) [of p] by (auto simp: count_list_0_iff)
  with 3 show ?case by simp
qed simp

lemma parse_show_param:
  assumes "safe_param p"
  shows "parse_http_param (\<lambda>_. False) i (Some (show_param p)) = Inr (to_param p)"
proof (cases p rule: show_param.cases)
  case (1 n)
  then show ?thesis
    using assms strtok_last [of n "''=''"]
    by (simp add: parse_http_param_def to_param_def safe_param_def url_safe_def)
next
  case (2 n v)
  then show ?thesis
    using assms strtok_delim [of n "''=''" "CHR ''=''" v] strtok_last [of v "''=''"]
    by (simp add: parse_http_param_def to_param_def safe_param_def url_safe_def)
qed

lemma strtok_query:
  assumes "list_all safe_param (p # ps)"
  shows "strtok ''&'' (query (p # ps)) = (Some (show_param p), query ps)"
  using assms show_param_safe [of p]
    strtok_last [of "show_param p" "''&''"] strtok_delim [of "show_param p" "''&''" "CHR ''&''" "query ps"]
  by (cases ps) auto

lemma parse_params_query:
  "list_all safe_param (p # ps) \<Longrightarrow> i + length ps < slots \<Longrightarrow>
   parse_params (\<lambda>_. False) slots i (Some (show_param p)) (query ps) = Inr (map to_param (p # ps))"
proof (induction ps arbitrary: p i)
  case Nil
  then show ?case by (subst parse_params.simps) (simp add: parse_show_param)
next
  case (Cons q ps)
  then have "parse_params (\<lambda>_. False) slots (i + 1) (Some (show_param q)) (query ps) = Inr (map to_param (q # ps))"
    by (intro Cons.IH) auto
  with Cons.prems strtok_query [of q ps] show ?case
    by (subst parse_params.simps) (simp add: parse_show_param)
qed

lemma wf_request_cmd: "distinct (map fst ps) \<Longrightarrow> wf_cmd (request_cmd c ps)"
  by (auto simp: wf_cmd_def request_cmd_def to_param_def comp_def distinct_map inj_on_def)

lemma break_show_request:
  assumes c: "url_safe c" and ps: "list_all safe_param ps"
    and len: "length (show_request c ps) < 1024" "length (query ps) < 512"
  shows "break_request (show_request c ps) = Inr (0, ''HTTP/1.1'', query ps, c)"
proof -
  define tail where "tail = (if ps = [] then '' HTTP/1.1'' else ''?'' @ query ps @ '' HTTP/1.1'')"
  have all: "show_request c ps = ''GET'' @ CHR '' '' # (CHR ''/'' # c @ tail)"
    by (simp add: show_request_def tail_def)
  have t1: "strtok '' '' (show_request c ps) = (Some ''GET'', CHR ''/'' # c @ tail)"
    unfolding all by (rule strtok_delim) auto
  define save where "save = (if ps = [] then ''HTTP/1.1'' else query ps @ '' HTTP/1.1'')"
  have t2: "strtok '' /?'' (CHR ''/'' # c @ tail) = (Some c, save)"
  proof -
    have tl: "tail = hd tail # save" "hd tail \<in> set '' /?''"
      by (simp_all add: tail_def save_def)
    have "c \<noteq> []" "\<forall>x \<in> set c. x \<notin> set '' /?''"
      using c by (simp_all add: url_safe_def)
    then have "strtok '' /?'' (c @ hd tail # save) = (Some c, save)"
      using tl(2) by (rule strtok_delim)
    then show ?thesis using tl(1) strtok_skip [of "CHR ''/''" "'' /?''" "c @ tail"] by simp
  qed
  have qs: "\<forall>x \<in> set (query ps). x \<notin> set '' ''" "CHR ''/'' \<notin> set (query ps)"
    using query_safe(1) [OF ps] by auto
  have "CHR ''/'' \<in> set ''HTTP/1.0''" "CHR ''/'' \<in> set ''HTTP/1.1''" by simp_all
  with qs(2) have "query ps \<noteq> ''HTTP/1.0''" "query ps \<noteq> ''HTTP/1.1''" by metis+
  moreover have "strtok '' '' (query ps @ '' HTTP/1.1'') = (Some (query ps), ''HTTP/1.1'')" if "ps \<noteq> []"
    using strtok_delim [of "query ps" "'' ''" "CHR '' ''" "''HTTP/1.1''"] qs query_safe(2) [OF ps that] by simp
  moreover have "strtok '' '' ''HTTP/1.1'' = (Some ''HTTP/1.1'', [])" by (rule strtok_last) auto
  moreover have "length c < 1024" using len(1) by (simp add: show_request_def)
  ultimately show ?thesis
    using t1 t2 len
    by (simp add: break_request_def HTTP_COMMAND_MAX_SIZE_def HTTP_PROTO_MAX_SIZE_def HTTP_ARGS_MAX_SIZE_def
        http_parser_defs save_def)
qed

lemma strstr_at: "\<forall>c \<in> set l. c \<noteq> d \<Longrightarrow> strstr (l @ (d # ds) @ r) (d # ds) = Some ((d # ds) @ r)"
  by (induction l) auto

lemma getline_at: "\<forall>c \<in> set l. c \<noteq> d \<Longrightarrow> l \<noteq> [] \<Longrightarrow> rpiwd_getline False (l @ (d # ds) @ r) (d # ds) = Some l"
  using strstr_at [of l d ds r] by (simp add: rpiwd_getline_def Let_def)

lemma parse_show_request:
  assumes c: "url_safe c" and ps: "list_all safe_param ps" "distinct (map fst ps)"
    and len: "length (show_request c ps) < 1024" "length (query ps) < 512"
  shows "parse_http_request (\<lambda>_. False) (show_request c ps @ crlf @ rest) r = Inr (Some (request_cmd c ps), r)"
proof -
  have "\<forall>x \<in> set (show_request c ps). x \<noteq> CHR 0x0D"
    using c query_safe(1) [OF ps(1)] by (auto simp: show_request_def url_safe_def)
  then have line: "rpiwd_getline False (show_request c ps @ crlf @ rest) crlf = Some (show_request c ps)"
    by (rule getline_at) (simp add: show_request_def)
  note pre = line break_show_request [OF c ps(1) len] count_query [OF ps(1)]
    check_duplicates_ok [OF wf_request_cmd [OF ps(2), of c]]
  show ?thesis
  proof (cases ps rule: query.cases)
    case 1
    then show ?thesis
      using pre by (simp add: parse_http_request_def parse_http_param_def request_cmd_def)
  next
    case (2 p)
    then show ?thesis
      using pre ps(1) by (simp add: parse_http_request_def parse_show_param request_cmd_def) (simp add: to_param_def)
  next
    case (3 p q qs)
    have "parse_params (\<lambda>_. False) (length ps) 0 (Some (show_param p)) (query (q # qs)) = Inr (map to_param ps)"
      using ps(1) parse_params_query [of p "q # qs" 0 "length ps"] 3 by simp
    then show ?thesis
      using pre ps(1) strtok_query [of p "q # qs"] 3
      by (simp add: parse_http_request_def Let_def request_cmd_def del: query.simps)
  qed
qed

section \<open>Lemmas: responses\<close>

lemma code_str_length: "http_code_str httpcode = Some s \<Longrightarrow> length s \<le> 30"
  by (auto simp: http_code_str_def split: if_splits)

lemma content_length_line_small:
  "n < 2 ^ 31 \<Longrightarrow> content_length_line n = (if n = 0 then [] else ''Content-Length: '' @ show_nat n @ crlf)"
  by (simp add: content_length_line_def show_int_def signed_take_bit_int_eq_self)

lemma make_response_ok:
  assumes "\<not> calloc_fails env" "http_code_str httpcode = Some status" "length (ctime_line env) = 25"
    and "length (server_id env) < 256" "length body < 2 ^ 31"
  shows "make_response env httpcode (Some body) =
    Inr (Some (HTTP_RESPONSE_TEMPLATE status (butlast (ctime_line env)) (server_id env)
      (if body = [] then [] else ''Content-Length: '' @ show_nat (length body) @ crlf) body))"
proof -
  have "length (show_nat (length body)) \<le> 10"
    using assms(5) by (intro length_show_nat) auto
  moreover have "length status \<le> 30" using code_str_length [OF assms(2)] .
  moreover have "ctime_line env \<noteq> []" using assms(3) by auto
  ultimately show ?thesis
    using assms
    by (simp add: make_response_def Let_def HTTP_RESPONSE_HEADER_SIZE_def content_length_line_small
        HTTP_RESPONSE_TEMPLATE_def)
qed

definition error_body :: "int \<Rightarrow> string \<Rightarrow> string" where
  "error_body errcode err =
     (let q = [CHR 0x22] in
      ''{'' @ q @ ''length'' @ q @ '':0,'' @ q @ ''errcode'' @ q @ '':'' @ show_int errcode @ '','' @
      q @ ''errmsg'' @ q @ '':'' @ q @ concat (map escape_char err) @ q @ ''}'')"

lemma serialize_number_int: "is_i32 i \<Longrightarrow> serialize_number (Fin (of_int i)) = Inr (show_int i)"
  by (simp add: serialize_number_def trunc_rat_def)

lemma error_document_eq:
  assumes "is_valid_utf8 err"
  shows "error_document True errcode (Some err) =
    Some (15, [(''length'', JSONNumber (Fin 0)), (''errcode'', JSONNumber (Fin (of_int errcode))),
               (''errmsg'', JSONString err)])"
  using assms
  by (simp add: error_document_def Let_def json_value_init_object_def json_object_set_number_def
      json_object_set_string_def json_value_init_number_def json_value_init_string_def
      json_object_set_value_def json_object_add_def json_object_resize_def json_object_init_def
      STARTING_CAPACITY_def OBJECT_MAX_CAPACITY_def)

lemma serialize_error:
  assumes "is_i32 errcode" "int (length (error_body errcode err)) < INT_MAX"
  shows "json_serialize_to_string True (JSONObject 15
    [(''length'', JSONNumber (Fin 0)), (''errcode'', JSONNumber (Fin (of_int errcode))), (''errmsg'', JSONString err)])
    = Inr (Some (error_body errcode err))"
proof -
  have "serialize_number (Fin 0) = Inr ''0''"
    using serialize_number_int [of 0] by (simp add: INT_MIN_def INT_MAX_def show_int_def show_nat.simps digit_char_def)
  then show ?thesis
    using serialize_number_int [OF assms(1)] assms(2)
    by (simp add: serialize_to_string_text error_body_def Let_def escape_char_def code_def)
qed

lemma error_reply_ok:
  assumes "\<not> calloc_fails env" "json_mem env" "http_code_str httpcode = Some status"
    and "length (ctime_line env) = 25" "length (server_id env) < 256"
    and "is_i32 errcode" "is_valid_utf8 err" "length (error_body errcode err) < 2 ^ 31 - 1"
  shows "\<exists>text. send_http_error_response env httpcode errcode (Some err) = Inr (sock_write env text, Some text)
    \<and> text = HTTP_RESPONSE_TEMPLATE status (butlast (ctime_line env)) (server_id env)
        (''Content-Length: '' @ show_nat (length (error_body errcode err)) @ crlf) (error_body errcode err)"
proof -
  have "error_body errcode err \<noteq> []" by (simp add: error_body_def Let_def)
  then show ?thesis
    using make_response_ok [OF assms(1,3-5)] serialize_error [OF assms(6)] error_document_eq [OF assms(7)] assms(2,8)
    by (simp add: send_http_error_response_def INT_MAX_def)
qed

section \<open>Lemmas: what follows the first line does not matter\<close>

lemma strstr_append: "strstr a n = Some t \<Longrightarrow> strstr (a @ b) n = Some (t @ b)"
proof (induction a)
  case Nil
  then show ?case by (cases b) (auto split: if_splits)
next
  case (Cons x a)
  have "length n \<le> length (x # a)"
    using strstr_Some [OF Cons.prems] by (metis le_trans length_append length_take min.cobounded1 min.commute trans_le_add2)
  then have "take (length n) (x # a @ b) = take (length n) (x # a)"
    by (metis append_Cons take_append append_Nil2 diff_is_0_eq' take0)
  with Cons show ?case by (auto split: if_splits)
qed

lemma getline_append:
  assumes "strstr a n \<noteq> None"
  shows "rpiwd_getline oom (a @ b) n = rpiwd_getline oom a n"
proof -
  obtain t where t: "strstr a n = Some t" using assms by blast
  obtain p where p: "a = p @ t" using strstr_Some [OF t] by blast
  show ?thesis
    unfolding rpiwd_getline_def strstr_append [OF t] t by (simp add: p)
qed

lemma parse_append:
  "strstr a crlf \<noteq> None \<Longrightarrow> parse_http_request oom (a @ b) r = parse_http_request oom a r"
  by (simp add: parse_http_request_def getline_append)

lemma takeWhile_append_ex: "\<exists>b. takeWhile P (xs @ ys) = takeWhile P xs @ b"
  by (induction xs) auto

lemma buffer_string_junk:
  "\<exists>b. buffer_string bytes junk = takeWhile (\<lambda>c. c \<noteq> CHR 0x00) (take RESPONSE_BUFFER_SIZE bytes) @ b"
  unfolding buffer_string_def by (rule takeWhile_append_ex)

lemma count_params_no_overflow: "count_params ps name \<noteq> Inl BufferOverflow"
  by (induction ps) (auto simp: cbind_def deref_def split: sum.split option.split)

lemma has_duplicate_no_overflow: "has_duplicate cmd qs \<noteq> Inl BufferOverflow"
proof (induction qs)
  case (Cons q qs)
  then show ?case
    using count_params_no_overflow [of "take (cmd_length cmd) (params cmd)" "p_name q"]
    by (auto simp: http_cmd_param_count_def cbind_def split: sum.split)
qed simp

lemma check_no_overflow: "check_duplicates cmd r \<noteq> Inl BufferOverflow"
  using has_duplicate_no_overflow [of cmd "take (cmd_length cmd) (params cmd)"]
  by (auto simp: check_duplicates_def cbind_def split: sum.split)

section \<open>Properties\<close>

text \<open>C5. Round trip of the request parser: for a command and parameters made of URL-safe
  characters, with distinct names and within the buffer sizes, parsing the printed request line
  (whatever follows the line break) gives back exactly that command and those parameters, in
  order, and leaves the response code alone. No buffer overflows and no NULL read on the way.\<close>
theorem http_request_roundtrip:
  assumes "url_safe c" "list_all safe_param ps" "distinct (map fst ps)"
    and "length (show_request c ps) < 1024" "length (query ps) < 512"
  shows "parse_http_request (\<lambda>_. False) (show_request c ps @ crlf @ rest) r = Inr (Some (request_cmd c ps), r)"
  using assms by (rule parse_show_request)

theorem http_request_roundtrip_witness:
  "parse_http_request (\<lambda>_. False)
     (show_request ''fetch'' [(''from'', Some ''3d''), (''to'', Some ''now'')] @ crlf @ ''Host: pi'') 7
   = Inr (Some (request_cmd ''fetch'' [(''from'', Some ''3d''), (''to'', Some ''now'')]), 7)"
  by (rule http_request_roundtrip) (simp_all add: url_safe_def safe_param_def show_request_def)

text \<open>C28. Every command the parser hands out is well formed, whichever allocations fail: its
  length is within its array, every counted parameter has a name, and no name occurs twice.\<close>
theorem http_request_wf:
  assumes "parse_http_request oom req r = Inr (Some cmd, r')"
  shows "wf_cmd cmd \<and> r' = r"
  using assms by (rule parse_http_request_wf)

theorem http_request_wf_witness:
  "wf_cmd (request_cmd ''fetch'' [(''on'', Some ''now'')]) \<and> (0 :: int) = 0"
proof (rule http_request_wf)
  show "parse_http_request (\<lambda>_. False)
      (show_request ''fetch'' [(''on'', Some ''now'')] @ crlf @ []) 0 =
      Inr (Some (request_cmd ''fetch'' [(''on'', Some ''now'')]), 0)"
    by (rule parse_show_request) (simp_all add: url_safe_def safe_param_def show_request_def)
qed

text \<open>The parameter array, sized by the number of separators plus one, is never overrun:
  whatever the request and whichever allocations fail, the only overflows are those of the fixed
  buffers of the request line.\<close>
theorem http_params_never_overflow:
  "parse_http_request oom req r = Inl BufferOverflow \<longleftrightarrow>
   (\<exists>line. rpiwd_getline (oom AllocLine) req crlf = Some line \<and> break_request line = Inl BufferOverflow)"
proof -
  have single: "cbind (parse_http_param oom 0 (Some args)) f \<noteq> Inl BufferOverflow"
    if "\<And>x. f x \<noteq> Inl BufferOverflow" for args and f :: "http_cmd_param \<Rightarrow> (http_cmd option \<times> int) c"
    using that by (simp add: parse_http_param_def split: prod.split)
  have many: "cbind (parse_params oom (Suc (count_list args (CHR ''&''))) 0 part saveptr) f \<noteq> Inl BufferOverflow"
    if "\<And>x. f x \<noteq> Inl BufferOverflow" "0 < count_list args (CHR ''&'')" "strtok ''&'' args = (part, saveptr)"
    for args part saveptr and f :: "http_cmd_param list \<Rightarrow> (http_cmd option \<times> int) c"
    using parse_params_first [OF refl _ that(3), of oom] that(1,2)
    by (cases "parse_params oom (Suc (count_list args (CHR ''&''))) 0 part saveptr") auto
  show ?thesis
  proof (cases "rpiwd_getline (oom AllocLine) req crlf")
    case (Some line)
    show ?thesis
    proof (cases "break_request line")
      case (Inr b)
      obtain bflag proto args c where b: "b = (bflag, proto, args, c)" by (cases b)
      obtain part saveptr where st: "strtok ''&'' args = (part, saveptr)" by fastforce
      show ?thesis
        using Some Inr st
        by (auto simp: parse_http_request_def b Let_def check_no_overflow single many split: if_splits)
    qed (simp add: parse_http_request_def Some)
  qed (simp add: parse_http_request_def)
qed

text \<open>The daemon reads up to 4096 bytes but copies the request line into 1024: every request
  whose first line has 1024 characters or more (and no carriage return inside) overflows the stack
  buffer of \<open>break_request\<close>.\<close>
theorem http_long_line_overflows:
  assumes "\<forall>c \<in> set line. c \<noteq> CHR 0x0D" "1024 \<le> length line" "\<not> oom AllocLine"
  shows "parse_http_request oom (line @ crlf @ rest) r = Inl BufferOverflow"
proof -
  have "line \<noteq> []" using assms(2) by auto
  then have "rpiwd_getline (oom AllocLine) (line @ crlf @ rest) crlf = Some line"
    using getline_at [OF assms(1), of "[CHR 0x0A]" rest] assms(3) by simp
  then show ?thesis
    using assms(2) by (simp add: parse_http_request_def break_request_def strcpy_def HTTP_COMMAND_MAX_SIZE_def)
qed

theorem http_long_line_overflows_witness:
  "parse_http_request (\<lambda>_. False) (replicate 1024 (CHR ''A'') @ crlf @ []) 0 = Inl BufferOverflow"
  by (rule http_long_line_overflows) simp_all

text \<open>C34. A response never overruns its buffer of 512 bytes plus the data, for every known status
  code, every server identification below 256 characters and every body below two gigabytes; it is
  the template filled with the status line, the date without its newline, the server, the exact
  length of the body, and the body.\<close>
theorem http_response_fits:
  assumes "\<not> calloc_fails env" "http_code_str httpcode = Some status" "length (ctime_line env) = 25"
    and "length (server_id env) < 256" "length body < 2 ^ 31"
  shows "make_response env httpcode (Some body) =
    Inr (Some (HTTP_RESPONSE_TEMPLATE status (butlast (ctime_line env)) (server_id env)
      (if body = [] then [] else ''Content-Length: '' @ show_nat (length body) @ crlf) body))"
  using assms by (rule make_response_ok)

definition sample_env :: http_env where
  "sample_env = \<lparr>calloc_fails = False, json_mem = True, ctime_line = ''Thu Nov 16 02:54:00 2017'' @ [CHR 0x0A],
                 server_id = ''rpiweatherd'', sock_write = (\<lambda>s. int (length s))\<rparr>"

theorem http_response_fits_witness:
  "make_response sample_env 200 (Some ''hello'') =
    Inr (Some (HTTP_RESPONSE_TEMPLATE ''200 OK'' (butlast (ctime_line sample_env)) (server_id sample_env)
      (if ''hello'' = [] then [] else ''Content-Length: '' @ show_nat (length ''hello'') @ crlf) ''hello''))"
  by (rule http_response_fits) (simp_all add: sample_env_def http_code_str_def http_code_defs)

text \<open>An error reply is a complete response with the JSON body that carries the length 0, the
  error code and the escaped message; the whole text is handed to one \<open>write\<close>, whose result is
  returned.\<close>
theorem http_error_reply:
  assumes "\<not> calloc_fails env" "json_mem env" "http_code_str httpcode = Some status"
    and "length (ctime_line env) = 25" "length (server_id env) < 256"
    and "is_i32 errcode" "is_valid_utf8 err" "length (error_body errcode err) < 2 ^ 31 - 1"
  shows "\<exists>text. send_http_error_response env httpcode errcode (Some err) = Inr (sock_write env text, Some text)
    \<and> text = HTTP_RESPONSE_TEMPLATE status (butlast (ctime_line env)) (server_id env)
        (''Content-Length: '' @ show_nat (length (error_body errcode err)) @ crlf) (error_body errcode err)"
  using assms by (rule error_reply_ok)

theorem http_error_reply_witness:
  "\<exists>text. send_http_error_response sample_env 400 (- 4) (Some ''bad'') = Inr (sock_write sample_env text, Some text)
    \<and> text = HTTP_RESPONSE_TEMPLATE ''400 Bad Request'' (butlast (ctime_line sample_env)) (server_id sample_env)
        (''Content-Length: '' @ show_nat (length (error_body (- 4) ''bad'')) @ crlf) (error_body (- 4) ''bad'')"
proof (rule http_error_reply)
  show "is_valid_utf8 ''bad''" by (rule is_valid_ascii) (simp add: code_def)
  show "length (error_body (- 4) ''bad'') < 2 ^ 31 - 1"
    by (simp add: error_body_def Let_def show_int_def show_nat.simps escape_char_def code_def)
qed (simp_all add: sample_env_def http_code_str_def http_code_defs INT_MIN_def INT_MAX_def)

text \<open>The receive buffer is not terminated, but once the bytes read hold a line break before
  any zero byte the outcome does not depend on what follows them in memory.\<close>
theorem http_read_ignores_junk:
  assumes "strstr (takeWhile (\<lambda>c. c \<noteq> CHR 0x00) (take RESPONSE_BUFFER_SIZE bytes)) crlf \<noteq> None"
  shows "read_and_parse_response oom (ReadBytes bytes) junk r eof =
         read_and_parse_response oom (ReadBytes bytes) junk' r eof"
proof -
  obtain b b' where
    "buffer_string bytes junk = takeWhile (\<lambda>c. c \<noteq> CHR 0x00) (take RESPONSE_BUFFER_SIZE bytes) @ b"
    "buffer_string bytes junk' = takeWhile (\<lambda>c. c \<noteq> CHR 0x00) (take RESPONSE_BUFFER_SIZE bytes) @ b'"
    using buffer_string_junk by metis
  then show ?thesis
    using parse_append [OF assms] by (simp add: read_and_parse_response_def)
qed

theorem http_read_ignores_junk_witness:
  "read_and_parse_response (\<lambda>_. False) (ReadBytes (''GET'' @ crlf)) ''junk'' 0 False =
   read_and_parse_response (\<lambda>_. False) (ReadBytes (''GET'' @ crlf)) [] 0 False"
  by (rule http_read_ignores_junk) (simp add: RESPONSE_BUFFER_SIZE_def)

text \<open>A trailing separator costs the last parameter: of the printed parameters followed by one
  more \<open>&\<close> the parser keeps all but the last, without an error.\<close>
theorem http_trailing_separator:
  "parse_http_request (\<lambda>_. False) (''GET /fetch?from=3d&to=now& HTTP/1.1'' @ crlf) r =
   Inr (Some (request_cmd ''fetch'' [(''from'', Some ''3d'')]), r)"
  by (simp add: parse_http_request_def rpiwd_getline_def break_request_def strtok_def parse_params.simps
      parse_http_param_def check_duplicates_def http_cmd_param_count_def request_cmd_def to_param_def
      HTTP_COMMAND_MAX_SIZE_def HTTP_PROTO_MAX_SIZE_def HTTP_ARGS_MAX_SIZE_def http_parser_defs)

end
