(* ===== verification/Listener.thy ===== *)
theory Listener
  imports Dbhandler Http
begin

text \<open>
  \<^verbatim>\<open>src/src/listener.c\<close> and its header: the command callbacks, the dispatcher, the worker's turn on a
  message, and the start of the listener. What the callbacks read of the system (clock, database, sensor,
  configuration, host information) is the record \<open>listener_env\<close>. A parsed command always has its
  parameter array, so an empty list of slots stands for the NULL pointer.
\<close>

section \<open>Constants\<close>

definition MAX_WORKER_THREADS :: int where "MAX_WORKER_THREADS = 4"
definition LISTENER_MQUEUE_MAX_MESSAGES :: nat where "LISTENER_MQUEUE_MAX_MESSAGES = 512"
definition STR_PORT_BUFFER_SIZE :: nat where "STR_PORT_BUFFER_SIZE = 16"
definition STATS_COMMAND_BUFFER_LENGTH :: nat where "STATS_COMMAND_BUFFER_LENGTH = 64"
definition STATS_EXTRA_STATS_COUNT :: nat where "STATS_EXTRA_STATS_COUNT = 5"
definition HOST_NAME_MAX :: nat where "HOST_NAME_MAX = 64"

definition CALLBACK_RETCODE_SUCCESS :: int where "CALLBACK_RETCODE_SUCCESS = 0"
definition CALLBACK_RETCODE_UNKNOWN_PARAM :: int where "CALLBACK_RETCODE_UNKNOWN_PARAM = - 1001"
definition CALLBACK_RETCODE_PARAM_ERROR :: int where "CALLBACK_RETCODE_PARAM_ERROR = - 1002"
definition CALLBACK_RETCODE_UNKNOWN_COMMAND :: int where "CALLBACK_RETCODE_UNKNOWN_COMMAND = - 1003"
definition CALLBACK_RETCODE_PARAMS_MISSING :: int where "CALLBACK_RETCODE_PARAMS_MISSING = - 1004"
definition CALLBACK_RETCODE_TOO_MANY_PARAMS :: int where "CALLBACK_RETCODE_TOO_MANY_PARAMS = - 1005"
definition CALLBACK_RETCODE_NO_PARAMS_NEEDED :: int where "CALLBACK_RETCODE_NO_PARAMS_NEEDED = - 1006"
definition CALLBACK_RETCODE_MEMORY_ERROR :: int where "CALLBACK_RETCODE_MEMORY_ERROR = - 1007"
definition CALLBACK_RETCODE_DEVICE_ERROR :: int where "CALLBACK_RETCODE_DEVICE_ERROR = - 1008"

lemmas retcode_defs = CALLBACK_RETCODE_SUCCESS_def CALLBACK_RETCODE_UNKNOWN_PARAM_def
  CALLBACK_RETCODE_PARAM_ERROR_def CALLBACK_RETCODE_UNKNOWN_COMMAND_def CALLBACK_RETCODE_PARAMS_MISSING_def
  CALLBACK_RETCODE_TOO_MANY_PARAMS_def CALLBACK_RETCODE_NO_PARAMS_NEEDED_def
  CALLBACK_RETCODE_MEMORY_ERROR_def CALLBACK_RETCODE_DEVICE_ERROR_def

definition command_callback_strerror :: "int \<Rightarrow> string" where
  "command_callback_strerror errcode =
     (if errcode = CALLBACK_RETCODE_SUCCESS then ''Success''
      else if errcode = CALLBACK_RETCODE_UNKNOWN_PARAM
        then ''Query contains unknown parameters; please refer to documentation.''
      else if errcode = CALLBACK_RETCODE_PARAM_ERROR then ''Query parameter has incorrect value.''
      else if errcode = CALLBACK_RETCODE_UNKNOWN_COMMAND then ''Unrecognized command.''
      else if errcode = CALLBACK_RETCODE_PARAMS_MISSING then ''Command requires parameters.''
      else if errcode = CALLBACK_RETCODE_TOO_MANY_PARAMS then ''Too many parameters.''
      else if errcode = CALLBACK_RETCODE_NO_PARAMS_NEEDED
        then ''Parameters provided to command but the command does '' @ ''not accept any arguments.''
      else ''Unknown command callback error.'')"

section \<open>Surroundings of the callbacks\<close>

record ('tm, 'db) listener_env =
  le_clock :: "'tm clock"
  le_sql :: "'db sqlite"
  le_db :: 'db
  le_config :: config_state
  le_device :: device_state
  le_gpio :: "nat \<Rightarrow> gpio" \<comment> \<open>the pins during the \<open>n\<close>-th query\<close>
  le_hostname :: string
  le_version :: string
  le_uptime :: int
  le_freeram :: "32 word"
  le_f_bsize :: "32 word"
  le_f_bfree :: "32 word"
  le_oom_query :: bool
  le_oom_entry :: bool
  le_oom_list :: bool
  le_oom_array :: bool
  le_junk :: entry \<comment> \<open>what \<open>malloc\<close> leaves in a fresh entry\<close>

text \<open>Every callback returns its code, the message and \<open>errno\<close>.\<close>

type_synonym callback_result = "(int \<times> rpiwd_mqmsg \<times> bool) c"

section \<open>The fetch command\<close>

record fetch_args =
  fa_from :: int
  fa_to :: int
  fa_on :: int
  fa_select :: int

datatype loop_exit = Next | Break int | Return int

text \<open>One turn of the parameter loop on the arguments, the unit string and \<open>errno\<close>.\<close>

definition fetch_param ::
  "'tm clock \<Rightarrow> http_cmd_param \<Rightarrow> fetch_args \<Rightarrow> string \<Rightarrow> bool \<Rightarrow> (loop_exit \<times> fetch_args \<times> string \<times> bool) c" where
  "fetch_param clk p a u erange =
     (case p_value p of
        None \<Rightarrow> Inr (Break CALLBACK_RETCODE_PARAM_ERROR, a, u, erange)
      | Some v \<Rightarrow>
          cbind (deref (p_name p)) (\<lambda>n.
            if n = ''tempunit'' then
              (if length v = 1 then
                 let c = tolower (hd v) in
                 if c = RPIWD_TEMPERATURE_CELSIUS then
                   Inr (Next, a, u[RPIWD_MEASURE_TEMPERATURE := RPIWD_TEMPERATURE_CELSIUS], erange)
                 else if c \<noteq> RPIWD_TEMPERATURE_FARENHEIT then
                   Inr (Break CALLBACK_RETCODE_PARAM_ERROR, a, u, erange)
                 else Inr (Next, a, u, erange)
               else Inr (Break CALLBACK_RETCODE_PARAM_ERROR, a, u, erange))
            else if n = ''from'' \<or> n = ''to'' \<or> n = ''on'' then
              cbind (normalize_date clk erange v True) (\<lambda>(temp, rdtn_performed, er).
                if temp = 0 \<or> temp = - 1 then Inr (Break CALLBACK_RETCODE_PARAM_ERROR, a, u, er)
                else if n = ''from'' then
                  Inr (Next, a\<lparr>fa_from := (if rdtn_performed then DAY_START temp else temp)\<rparr>, u, er)
                else if n = ''to'' then
                  cbind (if rdtn_performed then DAY_END temp else Inr temp) (\<lambda>t.
                    Inr (Next, a\<lparr>fa_to := t\<rparr>, u, er))
                else Inr (Next, a\<lparr>fa_on := temp\<rparr>, u, er))
            else if n = ''select'' then
              (case strtol v of (x, er) \<Rightarrow>
                 let a' = a\<lparr>fa_select := x\<rparr> in
                 if erange \<or> er \<or> x < 0 then Inr (Return CALLBACK_RETCODE_PARAM_ERROR, a', u, erange \<or> er)
                 else Inr (Next, a', u, erange \<or> er))
            else Inr (Break CALLBACK_RETCODE_UNKNOWN_PARAM, a, u, erange)))"

fun fetch_params ::
  "'tm clock \<Rightarrow> http_cmd_param list \<Rightarrow> fetch_args \<Rightarrow> string \<Rightarrow> bool \<Rightarrow> (loop_exit \<times> fetch_args \<times> string \<times> bool) c" where
  "fetch_params clk [] a u erange = Inr (Next, a, u, erange)"
| "fetch_params clk (p # ps) a u erange =
     cbind (fetch_param clk p a u erange) (\<lambda>(ex, a', u', er).
       case ex of Next \<Rightarrow> fetch_params clk ps a' u' er | _ \<Rightarrow> Inr (ex, a', u', er))"

text \<open>The pair of queries for the arguments given, if that combination is supported.\<close>

definition fetch_queries :: "fetch_args \<Rightarrow> (string \<times> string) option c" where
  "fetch_queries a =
     (let f = fa_from a; t = fa_to a; on = fa_on a; sel = fa_select a in
      if f \<noteq> 0 \<and> t = 0 \<and> on = 0 \<and> sel = 0 then
        Inr (Some (SQLCMD_COUNT_BY_DATE (CHR ''>'') f, SQLCMD_READ_BY_DATE (CHR ''>'') f))
      else if f \<noteq> 0 \<and> t \<noteq> 0 \<and> sel = 0 \<and> on = 0 then
        Inr (Some (SQLCMD_COUNT_BY_DATE_RANGE f t, SQLCMD_READ_BY_DATE_RANGE f t))
      else if f = 0 \<and> t \<noteq> 0 \<and> sel = 0 \<and> on = 0 then
        Inr (Some (SQLCMD_COUNT_BY_DATE (CHR ''<'') t, SQLCMD_READ_BY_DATE (CHR ''<'') t))
      else if f = 0 \<and> t = 0 \<and> sel = 0 \<and> on \<noteq> 0 then
        cbind (DAY_END on) (\<lambda>e.
          Inr (Some (SQLCMD_COUNT_BY_DATE_RANGE (DAY_START on) e, SQLCMD_READ_BY_DATE_RANGE (DAY_START on) e)))
      else if f = 0 \<and> t = 0 \<and> on = 0 \<and> sel > 0 then
        Inr (Some (SQLCMD_COUNT_SELECT_N sel, SQLCMD_SELECT_N sel))
      else Inr None)"

definition fetch_command_callback ::
  "('tm, 'db) listener_env \<Rightarrow> http_cmd \<Rightarrow> rpiwd_mqmsg \<Rightarrow> bool \<Rightarrow> callback_result" where
  "fetch_command_callback env cmd msgbuff erange =
     (if params cmd = [] then Inr (CALLBACK_RETCODE_PARAMS_MISSING, msgbuff, erange)
      else cbind (fetch_params (le_clock env) (take (cmd_length cmd) (params cmd))
                    \<lparr>fa_from = 0, fa_to = 0, fa_on = 0, fa_select = 0\<rparr> (unitstr msgbuff) erange) (\<lambda>(ex, a, u, er).
        let msg1 = msgbuff\<lparr>unitstr := u\<rparr> in
        case ex of
          Return r \<Rightarrow> Inr (r, msg1, er)
        | _ \<Rightarrow>
            let retflag = (case ex of Break r \<Rightarrow> r | _ \<Rightarrow> 0) in
            if retflag > 0 then Inr (retflag, msg1, er)
            else let msg2 = msg1\<lparr>mtype := Some DB_MSGTYPE_FETCH\<rparr> in
                 cbind (fetch_queries a) (\<lambda>qs.
                   case qs of
                     None \<Rightarrow> Inr (CALLBACK_RETCODE_PARAM_ERROR, msg2, er)
                   | Some (countq, selectq) \<Rightarrow>
                       Inr (retflag, msg2\<lparr>fcountq := format_query (le_oom_query env) countq,
                                          fselectq := format_query (le_oom_query env) selectq\<rparr>, er))))"

section \<open>The current command\<close>

definition cell :: "measurements \<Rightarrow> nat \<Rightarrow> fp c" where
  "cell temp i = (if i < length temp then read_init (temp ! i) else Inl OutOfBounds)"

text \<open>The \<open>do\<close>/\<open>while\<close> loop: at most 64 queries.\<close>

function query_attempts ::
  "device_state \<Rightarrow> (nat \<Rightarrow> gpio) \<Rightarrow> bool \<Rightarrow> measurements \<Rightarrow> nat \<Rightarrow> (int \<times> measurements) c" where
  "query_attempts dev gpios keep_native_unit temp qattempts =
     cbind (device_query_current dev (gpios qattempts) (Some temp)) (\<lambda>(qflag, arr).
     cbind (deref arr) (\<lambda>temp1.
     cbind (if qflag = RPIWD_DEVRETCODE_SUCCESS \<and> \<not> keep_native_unit
            then cbind (cell temp1 0) (\<lambda>t. set_cell temp1 0 (RPIWD_CELSIUS_TO_FARENHEIT t))
            else Inr temp1) (\<lambda>temp2.
       if qflag \<noteq> RPIWD_DEVRETCODE_SUCCESS \<and> int (qattempts + 1) < CONFIG_MAX_QUERY_ATTEMPTS
       then query_attempts dev gpios keep_native_unit temp2 (qattempts + 1)
       else Inr (qflag, temp2))))"
  by pat_completeness auto
termination
  by (relation "measure (\<lambda>(dev, gpios, k, temp, n). nat (CONFIG_MAX_QUERY_ATTEMPTS - int n))") auto

declare query_attempts.simps [simp del]

text \<open>The parameter check: an early return, or the unit string to go on with.\<close>

definition current_unit :: "http_cmd \<Rightarrow> string \<Rightarrow> (int + string) c" where
  "current_unit cmd u =
     (if cmd_length cmd = 1 then
       (case params cmd of [] \<Rightarrow> Inl NullDeref | param # _ \<Rightarrow>
        cbind (deref (p_value param)) (\<lambda>v.
          if length v = 1 then
            let c = tolower (hd v) in
            cbind (deref (p_name param)) (\<lambda>n.
              if n = ''tempunit'' then
                (if c = RPIWD_TEMPERATURE_FARENHEIT then
                   Inr (Inr (u[RPIWD_MEASURE_TEMPERATURE := RPIWD_TEMPERATURE_FARENHEIT]))
                 else if c = RPIWD_TEMPERATURE_CELSIUS then
                   Inr (Inr (u[RPIWD_MEASURE_TEMPERATURE := RPIWD_TEMPERATURE_CELSIUS]))
                 else Inr (Inl CALLBACK_RETCODE_PARAM_ERROR))
              else Inr (Inl CALLBACK_RETCODE_UNKNOWN_PARAM))
          else Inr (Inl CALLBACK_RETCODE_PARAM_ERROR)))
      else if cmd_length cmd > 1 then Inr (Inl CALLBACK_RETCODE_TOO_MANY_PARAMS)
      else Inr (Inr u))"

definition current_command_callback ::
  "('tm, 'db) listener_env \<Rightarrow> http_cmd \<Rightarrow> rpiwd_mqmsg \<Rightarrow> bool \<Rightarrow> callback_result" where
  "current_command_callback env cmd msgbuff erange =
     cbind (current_unit cmd (unitstr msgbuff)) (\<lambda>ru.
       case ru of
         Inl r \<Rightarrow> Inr (r, msgbuff, erange)
       | Inr u \<Rightarrow>
           cbind (query_attempts (le_device env) (le_gpio env)
                    (u ! RPIWD_MEASURE_TEMPERATURE = RPIWD_TEMPERATURE_CELSIUS) [None, None] 0) (\<lambda>(qflag, temp).
             let msg1 = msgbuff\<lparr>unitstr := u\<rparr> in
             if qflag \<noteq> RPIWD_DEVRETCODE_SUCCESS then Inr (CALLBACK_RETCODE_DEVICE_ERROR, msg1, erange)
             else case entry_alloc (le_oom_entry env) (le_junk env) of
                    None \<Rightarrow> Inr (CALLBACK_RETCODE_DEVICE_ERROR, msg1\<lparr>data := EntryData None\<rparr>, erange)
                  | Some e \<Rightarrow>
                      cbind (cell temp 0) (\<lambda>t.
                      cbind (cell temp 1) (\<lambda>h.
                      cbind (load (measure_location (get_current_config (le_config env)))) (\<lambda>loc.
                      cbind (load (cfg_device_name (get_current_config (le_config env)))) (\<lambda>dev.
                        Inr (CALLBACK_RETCODE_SUCCESS,
                             msg1\<lparr>mtype := Some DB_MSGTYPE_CURRENT, is_completed := Some 1,
                                  data := EntryData (Some (e\<lparr>entry_id := - 1, record_date := None, temperature := t,
                                    humidity := h, location := Some loc, device_name := Some dev\<rparr>))\<rparr>, erange)))))))"

section \<open>The statistics and config commands\<close>

text \<open>Printing into the buffer, then adding the copy under a key.\<close>

definition emplace_buffer :: "nat \<Rightarrow> key_value_list \<Rightarrow> string \<Rightarrow> string \<Rightarrow> key_value_list c" where
  "emplace_buffer bufsize l key str =
     cbind (strcpy bufsize str) (\<lambda>buffer. Inr (snd (key_value_list_emplace l (Some key) (Some buffer))))"

text \<open>\<open>gethostname\<close> leaves a name of 64 characters without its terminator.\<close>

definition gethostname :: "string \<Rightarrow> string c" where
  "gethostname host = (if length host < HOST_NAME_MAX then Inr host else Inl OutOfBounds)"

definition statistics_command_callback ::
  "('tm, 'db) listener_env \<Rightarrow> http_cmd \<Rightarrow> rpiwd_mqmsg \<Rightarrow> bool \<Rightarrow> callback_result" where
  "statistics_command_callback env cmd msgbuff erange =
     (let stats_count = exec_formatted_count_query (le_sql env) (le_db env) (Some SQLCMD_COUNT_INITIAL_STATS) in
      if cmd_length cmd > 0 then Inr (CALLBACK_RETCODE_NO_PARAMS_NEEDED, msgbuff, erange)
      else cbind (deref (key_value_list_alloc (le_oom_list env) (le_oom_array env)
                           ((stats_count + STATS_EXTRA_STATS_COUNT) mod 2 ^ 32))) (\<lambda>l0.
           cbind (gethostname (le_hostname env)) (\<lambda>host.
           cbind (emplace_buffer STATS_COMMAND_BUFFER_LENGTH l0 ''hostname'' host) (\<lambda>l1.
           cbind (emplace_buffer STATS_COMMAND_BUFFER_LENGTH l1 ''version'' (le_version env)) (\<lambda>l2.
           cbind (emplace_buffer STATS_COMMAND_BUFFER_LENGTH l2 ''uptime'' (show_int (le_uptime env))) (\<lambda>l3.
           cbind (emplace_buffer STATS_COMMAND_BUFFER_LENGTH l3 ''freeram'' (show_nat (unat (le_freeram env)))) (\<lambda>l4.
           cbind (emplace_buffer STATS_COMMAND_BUFFER_LENGTH l4 ''freedisk'' (show_nat (unat (le_f_bsize env * le_f_bfree env)))) (\<lambda>l5.
             Inr (CALLBACK_RETCODE_SUCCESS,
                  msgbuff\<lparr>data := KvData (Some l5), mtype := Some DB_MSGTYPE_STATS,
                          fselectq := Some SQLCMD_SELECT_STATS, fcountq := Some SQLCMD_COUNT_INITIAL_STATS\<rparr>, erange)))))))))"

text \<open>A value copied from a configuration string that may be NULL.\<close>

fun copy_ptr :: "string ptr \<Rightarrow> string option c" where
  "copy_ptr Null = Inr None"
| "copy_ptr (Ptr s) = Inr (Some s)"
| "copy_ptr Dangling = Inl UseAfterFree"

definition emplace_ptr :: "key_value_list \<Rightarrow> string \<Rightarrow> string ptr \<Rightarrow> key_value_list c" where
  "emplace_ptr l key p =
     (if kl_length l + 1 > kl_capacity l then Inr l
      else cbind (copy_ptr p) (\<lambda>v. Inr (snd (key_value_list_emplace l (Some key) v))))"

definition config_command_callback ::
  "('tm, 'db) listener_env \<Rightarrow> http_cmd \<Rightarrow> rpiwd_mqmsg \<Rightarrow> bool \<Rightarrow> callback_result" where
  "config_command_callback env cmd msgbuff erange =
     (let config_ptr = get_current_config (le_config env) in
      case key_value_list_alloc (le_oom_list env) (le_oom_array env) (config_count config_ptr) of
        None \<Rightarrow> Inr (CALLBACK_RETCODE_MEMORY_ERROR, msgbuff\<lparr>data := KvData None\<rparr>, erange)
      | Some l0 \<Rightarrow>
          cbind (emplace_ptr l0 CONFIG_LOCATION (measure_location config_ptr)) (\<lambda>l1.
          cbind (emplace_ptr l1 CONFIG_QUERY_INTERVAL (query_interval config_ptr)) (\<lambda>l2.
          cbind (emplace_ptr l2 CONFIG_DEVICE_NAME (cfg_device_name config_ptr)) (\<lambda>l3.
          cbind (emplace_buffer JSON_SERIALIZER_TEMP_ID_BUFFER_SIZE l3 CONFIG_DEVICE_CONFIG
                   (show_int (device_config config_ptr))) (\<lambda>l4.
          cbind (emplace_buffer JSON_SERIALIZER_TEMP_ID_BUFFER_SIZE l4 CONFIG_COMM_PORT
                   (show_int (comm_port config_ptr))) (\<lambda>l5.
          cbind (emplace_buffer JSON_SERIALIZER_TEMP_ID_BUFFER_SIZE l5 CONFIG_NUM_WORKER_THREADS
                   (show_int (num_worker_threads config_ptr))) (\<lambda>l6.
            Inr (CALLBACK_RETCODE_SUCCESS,
                 msgbuff\<lparr>data := KvData (Some l6), mtype := Some DB_MSGTYPE_CONFIG, is_completed := Some 1\<rparr>, erange))))))))"

section \<open>Dispatch\<close>

datatype cmd_callback = FetchCallback | CurrentCallback | StatisticsCallback | ConfigCallback

definition CMD_CALLBACK_TABLE :: "(string \<times> cmd_callback) list" where
  "CMD_CALLBACK_TABLE = [(''fetch'', FetchCallback), (''current'', CurrentCallback),
                         (''statistics'', StatisticsCallback), (''config'', ConfigCallback)]"

fun run_callback ::
  "cmd_callback \<Rightarrow> ('tm, 'db) listener_env \<Rightarrow> http_cmd \<Rightarrow> rpiwd_mqmsg \<Rightarrow> bool \<Rightarrow> callback_result" where
  "run_callback FetchCallback = fetch_command_callback"
| "run_callback CurrentCallback = current_command_callback"
| "run_callback StatisticsCallback = statistics_command_callback"
| "run_callback ConfigCallback = config_command_callback"

definition dispatch_command ::
  "('tm, 'db) listener_env \<Rightarrow> http_cmd \<Rightarrow> rpiwd_mqmsg \<Rightarrow> bool \<Rightarrow> callback_result" where
  "dispatch_command env cmd msgbuff erange =
     (case map_of CMD_CALLBACK_TABLE (cmdname cmd) of
        Some cb \<Rightarrow> run_callback cb env cmd msgbuff erange
      | None \<Rightarrow> Inr (CALLBACK_RETCODE_UNKNOWN_COMMAND, msgbuff, erange))"

section \<open>The worker\<close>

text \<open>The variables a worker keeps between messages, and what its turn does to the outside.\<close>

record worker =
  w_response :: int
  w_is_eof :: bool
  w_jval :: "json ptr"
  w_erange :: bool

definition worker_init :: worker where
  "worker_init = \<lparr>w_response = HTTP_PARSER_ERROR_SUCCESS, w_is_eof = False, w_jval = Null, w_erange = False\<rparr>"

datatype effect = SockWrite int string | SockClose int | MqSend mq rpiwd_mqmsg

text \<open>
  The bytes written and the closing of the socket. A call that failed has replaced \<open>errno\<close>.
\<close>

definition reply_and_close :: "int \<Rightarrow> worker \<Rightarrow> (int \<times> string option) c \<Rightarrow> (worker \<times> effect list) c" where
  "reply_and_close fd w sent =
     cbind sent (\<lambda>(flag, text).
       Inr (w\<lparr>w_erange := w_erange w \<and> 0 \<le> flag\<rparr>,
            (case text of None \<Rightarrow> [] | Some t \<Rightarrow> [SockWrite fd t]) @ [SockClose fd]))"

text \<open>What comes from outside during a turn: the bytes of the socket and failing allocations.\<close>

record turn_input =
  ti_read :: read_result
  ti_junk :: string
  ti_oom :: "http_alloc \<Rightarrow> bool"

text \<open>The branch for a message that is not complete: read, parse, dispatch, pass on.\<close>

definition worker_request ::
  "('tm, 'db) listener_env \<Rightarrow> http_env \<Rightarrow> turn_input \<Rightarrow> worker \<Rightarrow> int \<Rightarrow> rpiwd_mqmsg \<Rightarrow> (worker \<times> effect list) c" where
  "worker_request env henv inp w fd msgbuff =
     cbind (read_and_parse_response (ti_oom inp) (ti_read inp) (ti_junk inp) (w_response w) (w_is_eof w))
       (\<lambda>(cmd, response, is_eof).
       let w1 = w\<lparr>w_response := response, w_is_eof := is_eof, w_erange := w_erange w \<and> ti_read inp \<noteq> ReadError\<rparr> in
       case cmd of
         None \<Rightarrow>
           if \<not> is_eof then
             reply_and_close fd w1 (send_http_error_response henv HTTP_CODE_REQUEST_BAD_REQUEST
               HTTP_CODE_REQUEST_BAD_REQUEST (Some (http_parser_strerror response)))
           else Inr (w1, [SockClose fd])
       | Some c \<Rightarrow>
           if cmdname c = ''favicon.ico'' \<or> cmdname c = ''text-html'' then
             reply_and_close fd w1 (send_response henv HTTP_CODE_NO_CONTENT None)
           else
             cbind (dispatch_command env c msgbuff (w_erange w1)) (\<lambda>(cmd_status, msg, er).
               let w2 = w1\<lparr>w_erange := er\<rparr> in
               if cmd_status \<noteq> CALLBACK_RETCODE_SUCCESS then
                 reply_and_close fd w2 (send_http_error_response henv HTTP_CODE_REQUEST_BAD_REQUEST cmd_status
                   (Some (command_callback_strerror cmd_status)))
               else cbind (read_init (mtype msg)) (\<lambda>ty.
                 Inr (w2, [MqSend (if ty = DB_MSGTYPE_FETCH \<or> ty = DB_MSGTYPE_STATS then DbMq else WorkerMq) msg]))))"

definition to_ptr :: "'a option \<Rightarrow> 'a ptr" where
  "to_ptr x = (case x of None \<Rightarrow> Null | Some y \<Rightarrow> Ptr y)"

text \<open>The value made of a complete message; another type leaves the variable as it was.\<close>

definition message_json :: "bool \<Rightarrow> json ptr \<Rightarrow> rpiwd_mqmsg \<Rightarrow> json ptr c" where
  "message_json mem old msgbuff =
     cbind (read_init (mtype msgbuff)) (\<lambda>ty.
       if ty = DB_MSGTYPE_FETCH then
         cbind (list_data (data msgbuff)) (\<lambda>l.
         cbind (entrylist_to_json_value mem l (unitstr msgbuff)) (\<lambda>j. Inr (to_ptr j)))
       else if ty = DB_MSGTYPE_CURRENT then
         cbind (entry_data (data msgbuff)) (\<lambda>e.
         cbind (entry_to_json_value mem e (unitstr msgbuff)) (\<lambda>j. Inr (to_ptr j)))
       else if ty = DB_MSGTYPE_STATS \<or> ty = DB_MSGTYPE_CONFIG then
         cbind (kv_data (data msgbuff)) (\<lambda>l.
         cbind (key_value_list_to_json_value mem l) (\<lambda>j. Inr (to_ptr j)))
       else Inr old)"

text \<open>The branch for a complete message. The value is freed after it was sent.\<close>

definition worker_reply ::
  "http_env \<Rightarrow> worker \<Rightarrow> int \<Rightarrow> rpiwd_mqmsg \<Rightarrow> (worker \<times> effect list) c" where
  "worker_reply henv w fd msgbuff =
     cbind (message_json (json_mem henv) (w_jval w) msgbuff) (\<lambda>jval.
       case jval of
         Null \<Rightarrow>
           cbind (read_init (retcode msgbuff)) (\<lambda>rc.
             reply_and_close fd (w\<lparr>w_jval := Null\<rparr>) (send_http_error_response henv HTTP_CODE_REQUEST_BAD_REQUEST rc
               (Some (dbhandler_strerror rc))))
       | Ptr j \<Rightarrow>
           cbind (json_serialize_to_string (json_mem henv) j) (\<lambda>serialized.
             reply_and_close fd (w\<lparr>w_jval := Dangling\<rparr>) (send_response henv HTTP_CODE_OK serialized))
       | Dangling \<Rightarrow> Inl UseAfterFree)"

text \<open>One turn of \<open>worker_listener_loop\<close> on a received message.\<close>

definition worker_turn ::
  "('tm, 'db) listener_env \<Rightarrow> http_env \<Rightarrow> turn_input \<Rightarrow> worker \<Rightarrow> rpiwd_mqmsg \<Rightarrow> (worker \<times> effect list) c" where
  "worker_turn env henv inp w msgbuff =
     cbind (read_init (is_completed msgbuff)) (\<lambda>completed.
     cbind (read_init (sockfd msgbuff)) (\<lambda>fd.
       if completed = 0 then worker_request env henv inp w fd msgbuff else worker_reply henv w fd msgbuff))"

section \<open>Start of the listener\<close>

definition init_listener_loop :: "bool \<Rightarrow> int \<Rightarrow> int option" where
  "init_listener_loop created num_threads =
     (if \<not> created then None
      else Some (if num_threads > MAX_WORKER_THREADS then MAX_WORKER_THREADS else num_threads))"

text \<open>An address of \<open>getaddrinfo\<close>: the results of \<open>socket\<close>, \<open>setsockopt\<close> and \<open>bind\<close> on it.\<close>

record addrinfo =
  ai_socket :: int
  ai_setsockopt :: bool
  ai_bind :: bool

fun try_addresses :: "addrinfo list \<Rightarrow> int" where
  "try_addresses [] = - 1"
| "try_addresses (rp # rps) =
     (if ai_socket rp = - 1 then try_addresses rps
      else if \<not> ai_setsockopt rp then - 1
      else if ai_bind rp then ai_socket rp
      else - 1)"

definition get_bound_socket :: "(string \<Rightarrow> addrinfo list option) \<Rightarrow> int \<Rightarrow> int c" where
  "get_bound_socket getaddrinfo port =
     cbind (strcpy STR_PORT_BUFFER_SIZE (show_int port)) (\<lambda>str_port.
       case getaddrinfo str_port of None \<Rightarrow> Inr (- 1) | Some result \<Rightarrow> Inr (try_addresses result))"

text \<open>The message built for an accepted connection.\<close>

definition accept_message :: "config_state \<Rightarrow> int \<Rightarrow> rpiwd_mqmsg \<Rightarrow> rpiwd_mqmsg" where
  "accept_message st clientsock msgbuff =
     (rpiwd_mqmsg_init st msgbuff)\<lparr>sockfd := Some clientsock, receiver_mq := Some WorkerMq\<rparr>"

section \<open>Lemmas: what the callbacks leave in a message\<close>

text \<open>
  A message ready to be passed on: a fetch request with its queries or a statistics request
  with its list for the database thread, or a finished reading or configuration for a worker.
\<close>

definition routed :: "rpiwd_mqmsg \<Rightarrow> bool" where
  "routed m \<longleftrightarrow>
     mtype m = Some DB_MSGTYPE_FETCH \<or>
     (mtype m = Some DB_MSGTYPE_STATS \<and> (\<exists>l. data m = KvData (Some l) \<and> wf_kvlist l)) \<or>
     (mtype m = Some DB_MSGTYPE_CURRENT \<and> is_completed m = Some 1 \<and> (\<exists>e. data m = EntryData (Some e))) \<or>
     (mtype m = Some DB_MSGTYPE_CONFIG \<and> is_completed m = Some 1 \<and> (\<exists>l. data m = KvData (Some l) \<and> wf_kvlist l))"

abbreviation no_args :: fetch_args where
  "no_args \<equiv> \<lparr>fa_from = 0, fa_to = 0, fa_on = 0, fa_select = 0\<rparr>"

lemma fetch_params_return: "fetch_params clk ps a u e = Inr (Return r, x) \<Longrightarrow> r = CALLBACK_RETCODE_PARAM_ERROR"
  by (induction ps arbitrary: a u e)
     (auto simp: cbind_eq_Inr fetch_param_def Let_def split: option.splits if_splits prod.splits loop_exit.splits)

lemma fetch_params_break:
  "fetch_params clk ps a u e = Inr (Break r, x) \<Longrightarrow> r = CALLBACK_RETCODE_PARAM_ERROR \<or> r = CALLBACK_RETCODE_UNKNOWN_PARAM"
  by (induction ps arbitrary: a u e)
     (auto simp: cbind_eq_Inr fetch_param_def Let_def split: option.splits if_splits prod.splits loop_exit.splits)

text \<open>The callback after its parameter loop; the test for a positive flag never fires.\<close>

lemma fetch_callback_eq:
  assumes "params cmd \<noteq> []"
    and "fetch_params (le_clock env) (take (cmd_length cmd) (params cmd)) no_args (unitstr msg) er = Inr (ex, a, u, er')"
  shows "fetch_command_callback env cmd msg er =
    (case ex of
       Return r \<Rightarrow> Inr (CALLBACK_RETCODE_PARAM_ERROR, msg\<lparr>unitstr := u\<rparr>, er')
     | _ \<Rightarrow> cbind (fetch_queries a) (\<lambda>qs. case qs of
         None \<Rightarrow> Inr (CALLBACK_RETCODE_PARAM_ERROR, msg\<lparr>unitstr := u, mtype := Some DB_MSGTYPE_FETCH\<rparr>, er')
       | Some (countq, selectq) \<Rightarrow> Inr (case ex of Break r \<Rightarrow> r | _ \<Rightarrow> 0,
           msg\<lparr>unitstr := u, mtype := Some DB_MSGTYPE_FETCH, fcountq := format_query (le_oom_query env) countq,
               fselectq := format_query (le_oom_query env) selectq\<rparr>, er')))"
proof -
  have pos: "\<not> CALLBACK_RETCODE_PARAM_ERROR > 0" "\<not> CALLBACK_RETCODE_UNKNOWN_PARAM > 0" by (simp_all add: retcode_defs)
  show ?thesis
    using assms pos
    by (cases ex) (auto simp: fetch_command_callback_def Let_def dest!: fetch_params_return fetch_params_break)
qed

lemma fetch_callback_routed:
  assumes "fetch_command_callback env cmd msg er = Inr (r, m, er')"
  shows "sockfd m = sockfd msg \<and> is_completed m = is_completed msg \<and> retcode m = retcode msg \<and>
    (r = CALLBACK_RETCODE_SUCCESS \<longrightarrow> mtype m = Some DB_MSGTYPE_FETCH)"
proof (cases "params cmd = []")
  case True
  then show ?thesis using assms by (auto simp: fetch_command_callback_def retcode_defs)
next
  case False
  with assms obtain ex a u e where
    f: "fetch_params (le_clock env) (take (cmd_length cmd) (params cmd)) no_args (unitstr msg) er = Inr (ex, a, u, e)"
    by (auto simp: fetch_command_callback_def cbind_eq_Inr)
  have "CALLBACK_RETCODE_PARAM_ERROR \<noteq> CALLBACK_RETCODE_SUCCESS" by (simp add: retcode_defs)
  with assms fetch_callback_eq [OF False f] show ?thesis
    by (cases ex) (auto simp: cbind_eq_Inr split: option.split_asm)
qed

lemma current_callback_routed:
  assumes "current_command_callback env cmd msg er = Inr (r, m, er')"
  shows "sockfd m = sockfd msg \<and> retcode m = retcode msg \<and>
    (r = CALLBACK_RETCODE_SUCCESS \<longrightarrow> mtype m = Some DB_MSGTYPE_CURRENT \<and> is_completed m = Some 1 \<and>
       (\<exists>e. data m = EntryData (Some e)))"
proof -
  have "r' \<noteq> CALLBACK_RETCODE_SUCCESS" if "current_unit cmd u = Inr (Inl r')" for u r'
    using that by (auto simp: current_unit_def cbind_eq_Inr Let_def retcode_defs split: if_splits list.splits)
  moreover have dev: "CALLBACK_RETCODE_DEVICE_ERROR \<noteq> CALLBACK_RETCODE_SUCCESS" by (simp add: retcode_defs)
  moreover from assms obtain ru where ru: "current_unit cmd (unitstr msg) = Inr ru"
    by (auto simp: current_command_callback_def cbind_eq_Inr)
  ultimately show ?thesis
  proof (cases ru)
    case (Inr u)
    with assms ru obtain q t where "query_attempts (le_device env) (le_gpio env)
        (u ! RPIWD_MEASURE_TEMPERATURE = RPIWD_TEMPERATURE_CELSIUS) [None, None] 0 = Inr (q, t)"
      by (auto simp: current_command_callback_def cbind_eq_Inr)
    with assms ru Inr dev show ?thesis
      by (cases "q = RPIWD_DEVRETCODE_SUCCESS"; cases "entry_alloc (le_oom_entry env) (le_junk env)")
         (auto simp: current_command_callback_def cbind_eq_Inr)
  qed (use assms in \<open>auto simp: current_command_callback_def\<close>)
qed

lemma emplace_buffer_wf: "emplace_buffer n l k s = Inr l' \<Longrightarrow> wf_kvlist l \<Longrightarrow> wf_kvlist l'"
  by (auto simp: emplace_buffer_def intro: wf_kvlist_emplace)

lemma emplace_ptr_wf: "emplace_ptr l k p = Inr l' \<Longrightarrow> wf_kvlist l \<Longrightarrow> wf_kvlist l'"
  by (auto simp: emplace_ptr_def cbind_eq_Inr intro: wf_kvlist_emplace split: if_splits)

lemma stats_callback_routed:
  assumes "statistics_command_callback env cmd msg er = Inr (r, m, er')"
  shows "sockfd m = sockfd msg \<and> retcode m = retcode msg \<and>
    (r = CALLBACK_RETCODE_SUCCESS \<longrightarrow> mtype m = Some DB_MSGTYPE_STATS \<and> (\<exists>l. data m = KvData (Some l) \<and> wf_kvlist l))"
proof (cases "cmd_length cmd > 0")
  case True
  then show ?thesis using assms by (auto simp: statistics_command_callback_def retcode_defs)
next
  case False
  with assms show ?thesis
    by (simp add: statistics_command_callback_def Let_def cbind_eq_Inr)
       (use emplace_buffer_wf wf_kvlist_alloc in \<open>elim exE conjE; fastforce\<close>)
qed

lemma config_callback_routed:
  assumes "config_command_callback env cmd msg er = Inr (r, m, er')"
  shows "sockfd m = sockfd msg \<and> retcode m = retcode msg \<and>
    (r = CALLBACK_RETCODE_SUCCESS \<longrightarrow> mtype m = Some DB_MSGTYPE_CONFIG \<and> is_completed m = Some 1 \<and>
       (\<exists>l. data m = KvData (Some l) \<and> wf_kvlist l))"
proof (cases "key_value_list_alloc (le_oom_list env) (le_oom_array env) (config_count (get_current_config (le_config env)))")
  case None
  then show ?thesis using assms by (auto simp: config_command_callback_def Let_def retcode_defs)
next
  case (Some l0)
  with assms show ?thesis
    by (simp add: config_command_callback_def Let_def cbind_eq_Inr)
       (use emplace_buffer_wf emplace_ptr_wf wf_kvlist_alloc [OF Some] in \<open>elim exE conjE; fastforce\<close>)
qed

lemma dispatch_routed:
  assumes "dispatch_command env cmd msg er = Inr (r, m, er')"
  shows "sockfd m = sockfd msg \<and> (r = CALLBACK_RETCODE_SUCCESS \<longrightarrow> routed m)"
proof (cases "map_of CMD_CALLBACK_TABLE (cmdname cmd)")
  case None
  then show ?thesis using assms by (auto simp: dispatch_command_def retcode_defs)
next
  case (Some cb)
  then show ?thesis
    using assms fetch_callback_routed [of env cmd msg er r m er'] current_callback_routed [of env cmd msg er r m er']
      stats_callback_routed [of env cmd msg er r m er'] config_callback_routed [of env cmd msg er r m er']
    by (cases cb) (auto simp: dispatch_command_def routed_def)
qed

section \<open>Lemmas: one turn of a worker\<close>

text \<open>
  A turn either ends the request (at most one write to its socket, then one close) or
  passes the message on to the queue its type belongs to.
\<close>

definition ends_request :: "int \<Rightarrow> effect list \<Rightarrow> bool" where
  "ends_request fd es \<longleftrightarrow> es = [SockClose fd] \<or> (\<exists>t. es = [SockWrite fd t, SockClose fd])"

definition passes_on :: "int \<Rightarrow> effect list \<Rightarrow> bool" where
  "passes_on fd es \<longleftrightarrow>
     (\<exists>m. routed m \<and> sockfd m = Some fd \<and>
        es = [MqSend (if mtype m \<in> {Some DB_MSGTYPE_FETCH, Some DB_MSGTYPE_STATS} then DbMq else WorkerMq) m])"

lemma reply_and_close_ends: "reply_and_close fd w sent = Inr (w', es) \<Longrightarrow> ends_request fd es"
  by (auto simp: reply_and_close_def cbind_eq_Inr ends_request_def split: option.splits)

lemma read_init_eq_Inr [simp]: "read_init v = Inr x \<longleftrightarrow> v = Some x"
  by (cases v) auto

lemma passed_on:
  assumes "dispatch_command env c msg er = Inr (CALLBACK_RETCODE_SUCCESS, m, er')" "sockfd msg = Some fd" "mtype m = Some ty"
  shows "passes_on fd [MqSend (if ty = DB_MSGTYPE_FETCH \<or> ty = DB_MSGTYPE_STATS then DbMq else WorkerMq) m]"
  using dispatch_routed [OF assms(1)] assms(2,3) unfolding passes_on_def
  by (intro exI [where x = m]) auto

lemma worker_request_effects:
  assumes "worker_request env henv inp w fd msg = Inr (w', es)" "sockfd msg = Some fd"
  shows "ends_request fd es \<or> passes_on fd es"
proof -
  from assms(1) obtain cmd response eof where
    r: "read_and_parse_response (ti_oom inp) (ti_read inp) (ti_junk inp) (w_response w) (w_is_eof w) = Inr (cmd, response, eof)"
    by (auto simp: worker_request_def cbind_eq_Inr)
  have close: "ends_request fd [SockClose fd]" by (simp add: ends_request_def)
  show ?thesis
  proof (cases cmd)
    case None
    with assms(1) r close show ?thesis
      by (auto simp: worker_request_def Let_def dest: reply_and_close_ends split: if_splits)
  next
    case (Some c)
    with assms r show ?thesis
      unfolding worker_request_def Let_def
      by (cases "cmdname c = ''favicon.ico'' \<or> cmdname c = ''text-html''")
         (auto simp: cbind_eq_Inr dest: reply_and_close_ends passed_on split: if_split_asm)
  qed
qed

lemma worker_reply_effects:
  assumes "worker_reply henv w fd msg = Inr (w', es)"
  shows "ends_request fd es"
proof -
  from assms obtain j where "message_json (json_mem henv) (w_jval w) msg = Inr j"
    by (auto simp: worker_reply_def cbind_eq_Inr)
  with assms show ?thesis
    by (cases j) (auto simp: worker_reply_def cbind_eq_Inr dest: reply_and_close_ends)
qed

lemma worker_turn_effects:
  assumes "worker_turn env henv inp w msg = Inr (w', es)"
  shows "\<exists>fd. sockfd msg = Some fd \<and> (ends_request fd es \<or> (is_completed msg = Some 0 \<and> passes_on fd es))"
  using assms
  by (auto simp: worker_turn_def cbind_eq_Inr dest: worker_request_effects worker_reply_effects split: if_splits)

end
