(* ===== verification/Commands.thy ===== *)
theory Commands
  imports Listener
begin

text \<open>
  What the command callbacks of \<^verbatim>\<open>src/src/listener.c\<close> answer: the queries of a fetch, the reading of
  a current command, and the lists of the statistics and config commands.
\<close>

section \<open>Lemmas: the queries of a fetch\<close>

lemma show_fixed_seconds:
  assumes "is_i32 t"
  shows "show_fixed 6 (f64 (of_int t)) = show_int t @ ''.000000''"
proof -
  have "\<bar>t\<bar> < 2 ^ 53" using assms by (auto simp: INT_MIN_def INT_MAX_def)
  then have f: "f64 (of_int t) = Fin (of_int t)" by (rule f64.rnd_int)
  have "round_half_even (\<bar>of_int t :: rat\<bar> * 10 ^ 6) = \<bar>t\<bar> * 10 ^ 6"
    using round_half_even_int [of "\<bar>t\<bar> * 10 ^ 6"] by simp
  moreover have "nat (\<bar>t\<bar> * 10 ^ 6) = nat \<bar>t\<bar> * 10 ^ 6" by (simp add: nat_mult_distrib)
  moreover have "pad_left 6 (show_nat 0) = ''000000''"
    by (simp add: pad_left_def show_nat.simps digit_char_def eval_nat_numeral)
  moreover have "nat \<bar>t\<bar> = (if t < 0 then nat (- t) else nat t)" by simp
  ultimately show ?thesis by (simp add: f Let_def show_int_def del: power_numeral)
qed

lemma sql_datetime_length: "is_i32 t \<Longrightarrow> length (sql_datetime t) \<le> 70"
  using length_show_int [of t] by (simp add: sql_datetime_def show_fixed_seconds)

definition args_ok :: "fetch_args \<Rightarrow> bool" where
  "args_ok a \<longleftrightarrow> is_i32 (fa_from a) \<and> is_i32 (fa_to a) \<and> is_i32 (fa_on a) \<and> is_i32 (fa_select a)"

lemma DAY_START_i32: "is_i32 t \<Longrightarrow> is_i32 (DAY_START t)"
proof -
  assume t: "is_i32 t"
  have "DAY_START t = 86400 * tdiv t 86400" by (simp add: DAY_START_def tmod_def)
  moreover have "\<bar>86400 * tdiv t 86400\<bar> \<le> \<bar>t\<bar> \<and> (t < 0 \<longrightarrow> tdiv t 86400 \<le> 0) \<and> (0 \<le> t \<longrightarrow> 0 \<le> tdiv t 86400)"
    by (auto simp: tdiv_def abs_mult sgn_if)
  ultimately show ?thesis using t by (auto simp: INT_MIN_def INT_MAX_def)
qed

lemma fetch_queries_length:
  assumes "args_ok a" "fetch_queries a = Inr (Some (countq, selectq))"
  shows "length countq < 512" "length selectq < 512"
proof -
  have l: "length (sql_datetime (fa_from a)) \<le> 70" "length (sql_datetime (fa_to a)) \<le> 70"
    "length (sql_datetime (DAY_START (fa_on a))) \<le> 70" "length (show_int (fa_select a)) \<le> 11"
    using assms(1) by (auto simp: args_ok_def sql_datetime_length DAY_START_i32 length_show_int)
  have e: "DAY_END (fa_on a) = Inr e \<Longrightarrow> length (sql_datetime e) \<le> 70" for e
    by (intro sql_datetime_length) (auto simp: DAY_END_def cbind_eq_Inr)
  show "length countq < 512" "length selectq < 512"
    using assms(2) l
    by (auto simp: fetch_queries_def Let_def cbind_eq_Inr SQLCMD_COUNT_BY_DATE_def SQLCMD_READ_BY_DATE_def
        SQLCMD_READ_BY_DATE_RANGE_def SQLCMD_COUNT_BY_DATE_RANGE_def SQLCMD_SELECT_N_def SQLCMD_COUNT_SELECT_N_def
        split: if_splits dest!: e)
qed

text \<open>A calendar with the 32-bit \<open>time_t\<close> of the target.\<close>

definition clock_ok :: "'tm clock \<Rightarrow> bool" where
  "clock_ok clk \<longleftrightarrow> is_i32 (time_now clk) \<and> (\<forall>tm. is_i32 (mktime clk tm))"

lemma try_formats_i32: "clock_ok clk \<Longrightarrow> try_formats clk fs v tm = Some t \<Longrightarrow> is_i32 t"
  by (induction fs arbitrary: tm) (auto simp: clock_ok_def split: prod.splits bool.splits)

lemma normalize_date_i32:
  assumes "clock_ok clk" "normalize_date clk er v r = Inr (t, r', er')"
  shows "is_i32 t"
proof (cases "v = ''now''")
  case True
  then show ?thesis using assms by (simp add: normalize_date_def clock_ok_def)
next
  case False
  have rel: "is_i32 t'" if r: "rpiwd_units_to_time_t clk er v (CHR ''-'') = Inr (t', e)" for t' e
  proof -
    obtain millis er1 where "rpiwd_units_to_milliseconds er v = Inr (millis, er1)"
      using r by (auto simp: rpiwd_units_to_time_t_def cbind_eq_Inr)
    with r show ?thesis
      by (cases "millis = 0") (auto simp: rpiwd_units_to_time_t_def cbind_eq_Inr INT_MIN_def INT_MAX_def)
  qed
  show ?thesis
  proof (cases "try_formats clk SUPPORTED_DATETIME_FORMATS v (tm_zero clk)")
    case None
    with assms(2) False rel show ?thesis by (cases r) (auto simp: normalize_date_def cbind_eq_Inr)
  next
    case (Some t')
    with assms(2) False try_formats_i32 [OF assms(1) Some] show ?thesis by (simp add: normalize_date_def)
  qed
qed

lemma fetch_param_args:
  assumes "clock_ok clk" "fetch_param clk p a u er = Inr (ex, a', u', er')" "args_ok a"
  shows "args_ok a'"
proof -
  have day: "is_i32 s" if "DAY_END t = Inr s" for t s
    using that by (auto simp: DAY_END_def cbind_eq_Inr)
  show ?thesis
  proof (cases "p_value p")
    case None
    then show ?thesis using assms(2,3) by (simp add: fetch_param_def)
  next
    case (Some v)
    with assms(2) obtain n where n: "p_name p = Some n" by (auto simp: fetch_param_def cbind_eq_Inr)
    consider "n = ''tempunit''" | "n \<in> {''from'', ''to'', ''on''}" | "n = ''select''"
      | "n \<notin> {''tempunit'', ''from'', ''to'', ''on'', ''select''}" by blast
    then show ?thesis
    proof cases
      case 2
      with assms(2) Some n obtain t r e where t: "normalize_date clk er v True = Inr (t, r, e)"
        by (auto simp: fetch_param_def cbind_eq_Inr)
      have "is_i32 t" "is_i32 (DAY_START t)"
        using normalize_date_i32 [OF assms(1) t] DAY_START_i32 by blast+
      with 2 assms(2,3) Some n t day show ?thesis
        by (cases "t = 0 \<or> t = - 1") (auto simp: fetch_param_def cbind_eq_Inr args_ok_def split: if_splits)
    next
      case 3
      have "is_i32 (fst (strtol v))" by (rule strtol_range)
      with 3 assms(2,3) Some n show ?thesis
        by (cases "strtol v") (auto simp: fetch_param_def args_ok_def Let_def split: if_splits)
    qed (use assms(2,3) Some n in \<open>auto simp: fetch_param_def Let_def split: if_splits\<close>)
  qed
qed

lemma fetch_params_args:
  "clock_ok clk \<Longrightarrow> fetch_params clk ps a u er = Inr (ex, a', u', er') \<Longrightarrow> args_ok a \<Longrightarrow> args_ok a'"
proof (induction ps arbitrary: a u er)
  case (Cons p ps)
  from Cons.prems(2) obtain ex1 a1 u1 er1 where p: "fetch_param clk p a u er = Inr (ex1, a1, u1, er1)"
    by (auto simp: cbind_eq_Inr)
  have "args_ok a1" using fetch_param_args [OF Cons.prems(1) p Cons.prems(3)] .
  with Cons p show ?case by (auto split: loop_exit.splits)
qed simp

lemma no_args_ok: "args_ok no_args"
  by (simp add: args_ok_def INT_MIN_def INT_MAX_def)

section \<open>Lemmas: readings on demand\<close>

text \<open>The sensor of the table is selected, so a query of the current device is one of that sensor.\<close>

definition uses_dht11 :: "device_state \<Rightarrow> int \<Rightarrow> bool" where
  "uses_dht11 dev pin \<longleftrightarrow> device_init_by_name device_state_init (Some ''dht11'') pin = Inr (RETCODE_DEVICE_INIT_OK, dev)"

lemma attempts_step_fail:
  assumes "uses_dht11 dev pin" "2 \<le> length cells" "n < 63"
    and "dht11_query_callback (gpios n) pin (Some cells) = Inr (RPIWD_DEVRETCODE_DATA_FAILURE, out)"
  shows "query_attempts dev gpios keep cells n = query_attempts dev gpios keep cells (n + 1)"
  using assms(1,3,4) dht11.failure [OF assms(2,4)] query_dht11
  by (subst query_attempts.simps) (auto simp: uses_dht11_def devretcode_defs CONFIG_MAX_QUERY_ATTEMPTS_def)

lemma attempts_skip_failures:
  assumes "uses_dht11 dev pin" "2 \<le> length cells" "k < 64"
    and "\<And>i. i < k \<Longrightarrow> \<exists>out. dht11_query_callback (gpios i) pin (Some cells) = Inr (RPIWD_DEVRETCODE_DATA_FAILURE, out)"
  shows "query_attempts dev gpios keep cells 0 = query_attempts dev gpios keep cells k"
  using assms(3,4)
proof (induction k)
  case (Suc k)
  then obtain out where "dht11_query_callback (gpios k) pin (Some cells) = Inr (RPIWD_DEVRETCODE_DATA_FAILURE, out)"
    by blast
  with Suc attempts_step_fail [OF assms(1,2), of k gpios out keep] show ?case by simp
qed simp

lemma attempts_success:
  assumes "uses_dht11 dev pin"
    and "dht11_query_callback (gpios k) pin (Some [None, None]) = Inr (RPIWD_DEVRETCODE_SUCCESS, Some [Some t, Some h])"
  shows "query_attempts dev gpios keep [None, None] k =
    Inr (RPIWD_DEVRETCODE_SUCCESS, [Some (if keep then t else RPIWD_CELSIUS_TO_FARENHEIT t), Some h])"
  using assms query_dht11
  by (subst query_attempts.simps) (auto simp: uses_dht11_def cell_def set_cell_def)

lemma attempts_last_failure:
  assumes "uses_dht11 dev pin" "2 \<le> length cells"
    and "dht11_query_callback (gpios 63) pin (Some cells) = Inr (RPIWD_DEVRETCODE_DATA_FAILURE, out)"
  shows "query_attempts dev gpios keep cells 63 = Inr (RPIWD_DEVRETCODE_DATA_FAILURE, cells)"
  using assms(1,3) dht11.failure [OF assms(2,3)] query_dht11
  by (subst query_attempts.simps) (auto simp: uses_dht11_def devretcode_defs CONFIG_MAX_QUERY_ATTEMPTS_def)

section \<open>Lemmas: lists of values\<close>

lemma emplace_buffer_add:
  "length s < n \<Longrightarrow> emplace_buffer n l k s = Inr (snd (kv_add l \<lparr>kv_key = Some k, kv_value = Some s\<rparr>))"
  by (simp add: emplace_buffer_def emplace_snd)

lemma emplace_ptr_add: "emplace_ptr l k (Ptr s) = Inr (snd (kv_add l \<lparr>kv_key = Some k, kv_value = Some s\<rparr>))"
  by (auto simp: emplace_ptr_def emplace_snd [symmetric] key_value_list_emplace_def)

text \<open>The pairs the config command means to show.\<close>

definition config_pairs :: "rpiwd_config \<Rightarrow> string \<Rightarrow> string \<Rightarrow> string \<Rightarrow> key_value_pair list" where
  "config_pairs conf loc iv dev = map (\<lambda>(k, v). \<lparr>kv_key = Some k, kv_value = Some v\<rparr>)
     [(CONFIG_LOCATION, loc), (CONFIG_QUERY_INTERVAL, iv), (CONFIG_DEVICE_NAME, dev),
      (CONFIG_DEVICE_CONFIG, show_int (device_config conf)), (CONFIG_COMM_PORT, show_int (comm_port conf)),
      (CONFIG_NUM_WORKER_THREADS, show_int (num_worker_threads conf))]"

lemma config_callback_list:
  assumes "conf = get_current_config (le_config env)" "\<not> le_oom_list env" "\<not> le_oom_array env"
    and "measure_location conf = Ptr loc" "query_interval conf = Ptr iv" "cfg_device_name conf = Ptr dev"
    and "is_i32 (device_config conf)" "is_i32 (comm_port conf)" "is_i32 (num_worker_threads conf)"
  shows "config_command_callback env cmd msg er = Inr (CALLBACK_RETCODE_SUCCESS,
    msg\<lparr>data := KvData (Some (kl.add_all \<lparr>kl_length = 0, kl_capacity = config_count conf, kl_pairs = []\<rparr> (config_pairs conf loc iv dev))),
        mtype := Some DB_MSGTYPE_CONFIG, is_completed := Some 1\<rparr>, er)"
proof -
  have "length (show_int (device_config conf)) < 32" "length (show_int (comm_port conf)) < 32"
    "length (show_int (num_worker_threads conf)) < 32"
    using length_show_int [OF assms(7)] length_show_int [OF assms(8)] length_show_int [OF assms(9)] by linarith+
  then show ?thesis
    using assms(1-6)
    by (simp add: config_command_callback_def Let_def key_value_list_alloc_def emplace_buffer_add emplace_ptr_add
        JSON_SERIALIZER_TEMP_ID_BUFFER_SIZE_def config_pairs_def)
qed

definition stats_pairs :: "('tm, 'db) listener_env \<Rightarrow> key_value_pair list" where
  "stats_pairs env = map (\<lambda>(k, v). \<lparr>kv_key = Some k, kv_value = Some v\<rparr>)
     [(''hostname'', le_hostname env), (''version'', le_version env), (''uptime'', show_int (le_uptime env)),
      (''freeram'', show_nat (unat (le_freeram env))), (''freedisk'', show_nat (unat (le_f_bsize env) * unat (le_f_bfree env) mod 2 ^ 32))]"

lemma show_word_length: "length (show_nat (unat (x :: 32 word))) \<le> 10"
  using unsigned_less [of x, where 'a = nat] by (intro length_show_nat) auto

lemma unat_mult_32: "unat (a * b :: 32 word) = unat a * unat b mod 2 ^ 32"
  by (simp add: unat_word_ariths)

lemma stats_callback_list:
  assumes "cmd_length cmd = 0" "\<not> le_oom_list env" "\<not> le_oom_array env" "length (le_hostname env) < 64"
    and "length (le_version env) < 64" "is_i32 (le_uptime env)"
    and "exec_formatted_count_query (le_sql env) (le_db env) (Some SQLCMD_COUNT_INITIAL_STATS) = n" "n \<le> 2048"
  shows "statistics_command_callback env cmd msg er = Inr (CALLBACK_RETCODE_SUCCESS,
    msg\<lparr>data := KvData (Some (kl.add_all \<lparr>kl_length = 0, kl_capacity = n + 5, kl_pairs = []\<rparr> (stats_pairs env))),
        mtype := Some DB_MSGTYPE_STATS, fselectq := Some SQLCMD_SELECT_STATS,
        fcountq := Some SQLCMD_COUNT_INITIAL_STATS\<rparr>, er)"
proof -
  have "length (show_int (le_uptime env)) < 64" "length (show_nat (unat (le_freeram env))) < 64"
    "length (show_nat (unat (le_f_bsize env * le_f_bfree env))) < 64"
    using length_show_int [OF assms(6)] show_word_length [of "le_freeram env"]
      show_word_length [of "le_f_bsize env * le_f_bfree env"] by linarith+
  note len = this [unfolded unat_mult_32]
  show ?thesis
    using assms len
    by (simp add: statistics_command_callback_def Let_def key_value_list_alloc_def emplace_buffer_add gethostname_def
        STATS_COMMAND_BUFFER_LENGTH_def HOST_NAME_MAX_def STATS_EXTRA_STATS_COUNT_def stats_pairs_def unat_mult_32)
qed

section \<open>Properties\<close>

text \<open>C29. A fetch command that succeeds hands the database thread a fetch message with exactly the
  pair of queries its date arguments select; with a 32-bit clock none of them is cut off by the
  512-byte query buffer.\<close>
theorem fetch_success_queries:
  assumes "fetch_command_callback env cmd msg er = Inr (CALLBACK_RETCODE_SUCCESS, m, er')"
    and "\<not> le_oom_query env" "clock_ok (le_clock env)"
  shows "\<exists>a countq selectq.
    fetch_params (le_clock env) (take (cmd_length cmd) (params cmd)) no_args (unitstr msg) er = Inr (Next, a, unitstr m, er') \<and>
    fetch_queries a = Inr (Some (countq, selectq)) \<and>
    fcountq m = Some countq \<and> fselectq m = Some selectq \<and> mtype m = Some DB_MSGTYPE_FETCH"
proof -
  have ne: "params cmd \<noteq> []" using assms(1) by (auto simp: fetch_command_callback_def retcode_defs)
  with assms(1) obtain ex a u e where
    f: "fetch_params (le_clock env) (take (cmd_length cmd) (params cmd)) no_args (unitstr msg) er = Inr (ex, a, u, e)"
    by (auto simp: fetch_command_callback_def cbind_eq_Inr)
  have codes: "CALLBACK_RETCODE_PARAM_ERROR \<noteq> CALLBACK_RETCODE_SUCCESS" "CALLBACK_RETCODE_UNKNOWN_PARAM \<noteq> CALLBACK_RETCODE_SUCCESS"
    by (simp_all add: retcode_defs)
  have ex: "ex = Next"
    using assms(1) fetch_callback_eq [OF ne f] codes f
    by (cases ex) (auto simp: cbind_eq_Inr split: option.split_asm dest!: fetch_params_break)
  with assms(1) fetch_callback_eq [OF ne f] codes obtain countq selectq where
    q: "fetch_queries a = Inr (Some (countq, selectq))"
      "m = msg\<lparr>unitstr := u, mtype := Some DB_MSGTYPE_FETCH, fcountq := format_query (le_oom_query env) countq,
               fselectq := format_query (le_oom_query env) selectq\<rparr>" "e = er'"
    by (auto simp: cbind_eq_Inr split: option.split_asm)
  have "args_ok a" using fetch_params_args [OF assms(3) f no_args_ok] .
  from fetch_queries_length [OF this q(1)] q f ex assms(2) show ?thesis
    by (simp add: format_query_def SQL_COMMAND_BUFFER_SIZE_def)
qed

definition sample_lenv :: "(unit, sql_bind list list) listener_env" where
  "sample_lenv =
     \<lparr>le_clock = sample_clock, le_sql = sample_sql 0 [], le_db = [],
      le_config = \<lparr>current_config = zero_config\<lparr>config_count := 6, measure_location := Ptr ''attic'', cfg_device_name := Ptr ''dht11'',
                     query_interval := Ptr ''1h''\<rparr>, unitstring = default_unitstring\<rparr>,
      le_device = \<lparr>supported = supported_devices[0 := (supported_devices ! 0)\<lparr>pin_data := 4\<rparr>], selected_device = Some 0\<rparr>,
      le_gpio = (\<lambda>n. if n < 3 then (\<lambda>_ _. True) else (\<lambda>_. zero_line)),
      le_hostname = ''pi'', le_version = ''1.0'', le_uptime = 60, le_freeram = 1024, le_f_bsize = 4096, le_f_bfree = 2097152,
      le_oom_query = False, le_oom_entry = False, le_oom_list = False, le_oom_array = False, le_junk = sample_entry 0\<rparr>"

definition sample_fetch :: http_cmd where
  "sample_fetch = \<lparr>cmdname = ''fetch'', cmd_length = 1, params = [\<lparr>p_name = Some ''select'', p_value = Some ''5''\<rparr>]\<rparr>"

lemma strtol_5: "strtol ''5'' = (5, False)"
  using strtol_show_int [of 5] by (simp add: show_int_def show_nat.simps digit_char_def INT_MIN_def INT_MAX_def)

lemma sample_fetch_params:
  "fetch_params sample_clock (take (cmd_length sample_fetch) (params sample_fetch)) no_args u False =
   Inr (Next, no_args\<lparr>fa_select := 5\<rparr>, u, False)"
  by (simp add: sample_fetch_def fetch_param_def strtol_5)

lemma sample_clock_ok: "clock_ok sample_clock"
  by (simp add: clock_ok_def sample_clock_def INT_MIN_def INT_MAX_def)

theorem fetch_success_queries_witness:
  "\<exists>a countq selectq.
    fetch_params (le_clock sample_lenv) (take (cmd_length sample_fetch) (params sample_fetch)) no_args
      (unitstr (sample_msg DB_MSGTYPE_FETCH NoData)) False =
      Inr (Next, a, unitstr (sample_msg DB_MSGTYPE_FETCH NoData\<lparr>fcountq := Some (SQLCMD_COUNT_SELECT_N 5), fselectq := Some (SQLCMD_SELECT_N 5)\<rparr>), False) \<and>
    fetch_queries a = Inr (Some (countq, selectq)) \<and>
    fcountq (sample_msg DB_MSGTYPE_FETCH NoData\<lparr>fcountq := Some (SQLCMD_COUNT_SELECT_N 5), fselectq := Some (SQLCMD_SELECT_N 5)\<rparr>) = Some countq \<and>
    fselectq (sample_msg DB_MSGTYPE_FETCH NoData\<lparr>fcountq := Some (SQLCMD_COUNT_SELECT_N 5), fselectq := Some (SQLCMD_SELECT_N 5)\<rparr>) = Some selectq \<and>
    mtype (sample_msg DB_MSGTYPE_FETCH NoData\<lparr>fcountq := Some (SQLCMD_COUNT_SELECT_N 5), fselectq := Some (SQLCMD_SELECT_N 5)\<rparr>) = Some DB_MSGTYPE_FETCH"
proof (rule fetch_success_queries)
  have c: "le_clock sample_lenv = sample_clock" "le_oom_query sample_lenv = False" by (simp_all add: sample_lenv_def)
  have "params sample_fetch \<noteq> []" by (simp add: sample_fetch_def)
  note eq = fetch_callback_eq [OF this, of sample_lenv "sample_msg DB_MSGTYPE_FETCH NoData" False, unfolded c, OF sample_fetch_params]
  have q: "fetch_queries (no_args\<lparr>fa_select := 5\<rparr>) = Inr (Some (SQLCMD_COUNT_SELECT_N 5, SQLCMD_SELECT_N 5))"
    by (simp add: fetch_queries_def)
  have "length (show_int 5) \<le> 11" by (rule length_show_int) (simp add: INT_MIN_def INT_MAX_def)
  then have f: "format_query False (SQLCMD_COUNT_SELECT_N 5) = Some (SQLCMD_COUNT_SELECT_N 5)"
    "format_query False (SQLCMD_SELECT_N 5) = Some (SQLCMD_SELECT_N 5)"
    by (simp_all add: format_query_def SQL_COMMAND_BUFFER_SIZE_def SQLCMD_COUNT_SELECT_N_def SQLCMD_SELECT_N_def)
  show "fetch_command_callback sample_lenv sample_fetch (sample_msg DB_MSGTYPE_FETCH NoData) False =
      Inr (CALLBACK_RETCODE_SUCCESS, sample_msg DB_MSGTYPE_FETCH NoData\<lparr>fcountq := Some (SQLCMD_COUNT_SELECT_N 5),
        fselectq := Some (SQLCMD_SELECT_N 5)\<rparr>, False)"
    unfolding eq q by (simp add: f retcode_defs sample_msg_def uninit_mqmsg_def)
qed (simp_all add: sample_lenv_def sample_clock_ok)

text \<open>A fetch command whose only parameter is unknown is answered with the code for a wrong
  value, not with the one for an unknown parameter: the test that should return the code of the loop
  asks for a positive value and the codes are negative.\<close>
theorem fetch_unknown_param_masked:
  assumes "n \<notin> {''tempunit'', ''from'', ''to'', ''on'', ''select''}"
  shows "fetch_command_callback env \<lparr>cmdname = ''fetch'', cmd_length = 1, params = [\<lparr>p_name = Some n, p_value = Some v\<rparr>]\<rparr> msg er
    = Inr (CALLBACK_RETCODE_PARAM_ERROR, msg\<lparr>mtype := Some DB_MSGTYPE_FETCH\<rparr>, er)"
  using assms
  by (simp add: fetch_command_callback_def fetch_param_def fetch_queries_def retcode_defs Let_def)

theorem fetch_unknown_param_masked_witness:
  "fetch_command_callback sample_lenv \<lparr>cmdname = ''fetch'', cmd_length = 1, params = [\<lparr>p_name = Some ''limit'', p_value = Some ''9''\<rparr>]\<rparr>
     uninit_mqmsg False = Inr (CALLBACK_RETCODE_PARAM_ERROR, uninit_mqmsg\<lparr>mtype := Some DB_MSGTYPE_FETCH\<rparr>, False)"
  by (rule fetch_unknown_param_masked) simp

text \<open>The unit a request for the current reading asks for: the one of its parameter \<open>tempunit\<close>, in either case, or without
  parameters the one of the message.\<close>

definition asked_unit :: "http_cmd \<Rightarrow> string \<Rightarrow> char \<Rightarrow> bool" where
  "asked_unit cmd dflt u \<longleftrightarrow>
     cmd_length cmd = 0 \<and> u = dflt ! 0 \<or>
     cmd_length cmd = 1 \<and> (\<exists>c ps. params cmd = \<lparr>p_name = Some ''tempunit'', p_value = Some [c]\<rparr> # ps \<and>
       (u = CHR ''c'' \<and> c \<in> {CHR ''c'', CHR ''C''} \<or> u = CHR ''f'' \<and> c \<in> {CHR ''f'', CHR ''F''}))"

lemma lower_units:
  "tolower (CHR ''C'') = CHR ''c''" "tolower (CHR ''F'') = CHR ''f''" "tolower (CHR ''c'') = CHR ''c''" "tolower (CHR ''f'') = CHR ''f''"
  by code_simp+

lemma current_unit_asked:
  assumes "asked_unit cmd us u"
  shows "current_unit cmd us = Inr (Inr (us[0 := u]))"
  using assms
  by (auto simp: asked_unit_def current_unit_def lower_units Let_def RPIWD_TEMPERATURE_FARENHEIT_def
      RPIWD_TEMPERATURE_CELSIUS_def RPIWD_MEASURE_TEMPERATURE_def)

text \<open>C31. The current command answers with the first successful reading among its at most 64
  queries, in the unit asked for: the temperature is converted unless that is Celsius. The entry has the id -1 and the configured
  location and device, the message carries the unit, is complete and needs no database.\<close>
theorem current_serves_first_success:
  assumes "uses_dht11 (le_device env) pin" "k < 64" "asked_unit cmd (unitstr msg) u" "unitstr msg \<noteq> []"
    and "\<And>i. i < k \<Longrightarrow> \<exists>out. dht11_query_callback (le_gpio env i) pin (Some [None, None]) = Inr (RPIWD_DEVRETCODE_DATA_FAILURE, out)"
    and "dht11_query_callback (le_gpio env k) pin (Some [None, None]) = Inr (RPIWD_DEVRETCODE_SUCCESS, Some [Some t, Some h])"
    and "measure_location (current_config (le_config env)) = Ptr loc" "cfg_device_name (current_config (le_config env)) = Ptr dev"
    and "\<not> le_oom_entry env"
  shows "current_command_callback env cmd msg er = Inr (CALLBACK_RETCODE_SUCCESS,
    msg\<lparr>unitstr := (unitstr msg)[0 := u], mtype := Some DB_MSGTYPE_CURRENT, is_completed := Some 1,
        data := EntryData (Some \<lparr>entry_id = - 1, record_date = None,
          temperature = (if u = CHR ''c'' then t else RPIWD_CELSIUS_TO_FARENHEIT t),
          humidity = h, location = Some loc, device_name = Some dev\<rparr>)\<rparr>, er)"
proof -
  have "query_attempts (le_device env) (le_gpio env) (u = RPIWD_TEMPERATURE_CELSIUS) [None, None] 0 =
      Inr (RPIWD_DEVRETCODE_SUCCESS, [Some (if u = RPIWD_TEMPERATURE_CELSIUS then t else RPIWD_CELSIUS_TO_FARENHEIT t), Some h])"
    using attempts_skip_failures [OF assms(1) _ assms(2), of "[None, None]" "le_gpio env", OF _ assms(5)]
      attempts_success [where gpios = "le_gpio env", OF assms(1,6)] by simp
  then show ?thesis
    using assms(4,7-9) current_unit_asked [OF assms(3)]
    by (simp add: current_command_callback_def RPIWD_MEASURE_TEMPERATURE_def entry_alloc_def cell_def get_current_config_def
        RPIWD_TEMPERATURE_CELSIUS_def)
qed

lemma sample_uses_dht11: "uses_dht11 (le_device sample_lenv) 4"
  by (simp add: uses_dht11_def init_dht11 sample_lenv_def)

lemma stuck_line_fails:
  "2 \<le> length cells \<Longrightarrow> dht11_query_callback (\<lambda>_ _. True) pin (Some cells) = Inr (RPIWD_DEVRETCODE_DATA_FAILURE, Some cells)"
  by (simp add: dht11_query_eq dht11_bits_stuck checksum_ok_def)

theorem current_serves_first_success_witness:
  "current_command_callback sample_lenv \<lparr>cmdname = ''current'', cmd_length = 1, params = [\<lparr>p_name = Some ''tempunit'', p_value = Some ''F''\<rparr>]\<rparr>
     (sample_msg 0 NoData) False = Inr (CALLBACK_RETCODE_SUCCESS,
    sample_msg 0 NoData\<lparr>unitstr := (unitstr (sample_msg 0 NoData))[0 := CHR ''f''], mtype := Some DB_MSGTYPE_CURRENT, is_completed := Some 1,
        data := EntryData (Some \<lparr>entry_id = - 1, record_date = None,
          temperature = (if CHR ''f'' = CHR ''c'' then reading (replicate 40 False) 2 else RPIWD_CELSIUS_TO_FARENHEIT (reading (replicate 40 False) 2)),
          humidity = reading (replicate 40 False) 0, location = Some ''attic'', device_name = Some ''dht11''\<rparr>)\<rparr>, False)"
  by (rule current_serves_first_success [where k = 3, OF sample_uses_dht11])
     (auto simp: sample_lenv_def zero_line_reading stuck_line_fails zero_config_def asked_unit_def sample_msg_def)

text \<open>When all 64 queries fail the current command gives up with the device error; it never
  runs on.\<close>
theorem current_gives_up:
  assumes "uses_dht11 (le_device env) pin" "cmd_length cmd = 0"
    and "\<And>i. i < 64 \<Longrightarrow> \<exists>out. dht11_query_callback (le_gpio env i) pin (Some [None, None]) = Inr (RPIWD_DEVRETCODE_DATA_FAILURE, out)"
  shows "current_command_callback env cmd msg er = Inr (CALLBACK_RETCODE_DEVICE_ERROR, msg, er)"
proof -
  obtain out where "dht11_query_callback (le_gpio env 63) pin (Some [None, None]) = Inr (RPIWD_DEVRETCODE_DATA_FAILURE, out)"
    using assms(3) [of 63] by auto
  then have "query_attempts (le_device env) (le_gpio env) keep [None, None] 0 = Inr (RPIWD_DEVRETCODE_DATA_FAILURE, [None, None])" for keep
    using attempts_skip_failures [OF assms(1), of "[None, None]" 63 "le_gpio env" keep] assms(3)
      attempts_last_failure [OF assms(1), of "[None, None]" "le_gpio env" out keep] by simp
  then show ?thesis
    using assms(2) by (simp add: current_command_callback_def current_unit_def devretcode_defs)
qed

theorem current_gives_up_witness:
  "current_command_callback (sample_lenv\<lparr>le_gpio := \<lambda>_ _ _. True\<rparr>) \<lparr>cmdname = ''current'', cmd_length = 0, params = [\<lparr>p_name = None, p_value = None\<rparr>]\<rparr>
     uninit_mqmsg False = Inr (CALLBACK_RETCODE_DEVICE_ERROR, uninit_mqmsg, False)"
  by (rule current_gives_up [where pin = 4]) (use sample_uses_dht11 in \<open>simp_all add: stuck_line_fails\<close>)

text \<open>A parameter of the current command without a value, as in \<open>/current?tempunit\<close>, makes
  the callback take the length of a NULL string.\<close>
theorem current_missing_value_crashes:
  assumes "cmd_length cmd = 1" "params cmd = p # ps" "p_value p = None"
  shows "current_command_callback env cmd msg er = Inl NullDeref"
  using assms by (simp add: current_command_callback_def current_unit_def)

theorem current_missing_value_crashes_witness:
  "current_command_callback sample_lenv \<lparr>cmdname = ''current'', cmd_length = 1, params = [\<lparr>p_name = Some ''tempunit'', p_value = None\<rparr>]\<rparr>
     uninit_mqmsg False = Inl NullDeref"
  by (rule current_missing_value_crashes [where p = "\<lparr>p_name = Some ''tempunit'', p_value = None\<rparr>" and ps = "[]"]) simp_all

end
