(* ===== verification/Transition_System.thy ===== *)
theory Transition_System
  imports Prelude
begin

text \<open>
  The contract of a program with several threads: start states and labelled steps. Reachable states
  and runs are defined once; a client shows that a predicate holds at the start and is kept by every
  step, and gets it for every reachable state.
\<close>

locale transition_system =
  fixes start :: "'s \<Rightarrow> bool"
    and step :: "'s \<Rightarrow> 'l \<Rightarrow> 's \<Rightarrow> bool"
begin

inductive reach :: "'s \<Rightarrow> bool" where
  reach_start: "start s \<Longrightarrow> reach s"
| reach_step: "reach s \<Longrightarrow> step s l t \<Longrightarrow> reach t"

inductive run :: "'s \<Rightarrow> 'l list \<Rightarrow> 's \<Rightarrow> bool" where
  run_none: "run s [] s"
| run_more: "step s l t \<Longrightarrow> run t ls u \<Longrightarrow> run s (l # ls) u"

lemma reach_run: "run s ls t \<Longrightarrow> reach s \<Longrightarrow> reach t"
  by (induction rule: run.induct) (auto intro: reach_step)

text \<open>What every step keeps, every run keeps; what no step shows, no run shows.\<close>

lemma run_keeps:
  assumes "\<And>s l t. P s \<Longrightarrow> step s l t \<Longrightarrow> P t \<and> Q l"
  shows "run s ls t \<Longrightarrow> P s \<Longrightarrow> P t \<and> list_all Q ls"
  by (induction rule: run.induct) (use assms in auto)

end

locale invariant_system = transition_system start step
  for start :: "'s \<Rightarrow> bool" and step :: "'s \<Rightarrow> 'l \<Rightarrow> 's \<Rightarrow> bool" +
  fixes inv :: "'s \<Rightarrow> bool"
  assumes inv_start: "start s \<Longrightarrow> inv s"
    and inv_step: "inv s \<Longrightarrow> step s l t \<Longrightarrow> inv t"
begin

lemma reach_inv: "reach s \<Longrightarrow> inv s"
  by (induction rule: reach.induct) (auto intro: inv_start inv_step)

end

end
