(* ===== verification/Server.thy ===== *)
theory Server
  imports Commands Transition_System "HOL-Library.Multiset"
begin

text \<open>
  The threads of the server and their two queues: the listener of \<^verbatim>\<open>src/src/listener.c\<close> that accepts
  connections, its workers, the database thread of \<^verbatim>\<open>src/src/dbhandler.c\<close>, and the query loop that
  sends measurements to the latter. \<open>mq_send\<close> blocks while a queue is full, so a thread that sends is
  in a state of its own until there is room. The steps use the threads' own definitions
  (\<open>worker_turn\<close>, \<open>db_handle\<close>); what the outside does (the clock, the sockets, failing allocations) is
  chosen anew in each step.
\<close>

section \<open>States\<close>

datatype thread_state = Idle | Sending mq rpiwd_mqmsg

record 'db server =
  wq :: "rpiwd_mqmsg list"
  dbq :: "rpiwd_mqmsg list"
  listener :: thread_state
  workers :: "(worker \<times> thread_state) list"
  db_worker :: thread_state
  query_thread :: thread_state
  open_socks :: "int list"
  database :: 'db

definition server_start :: "nat \<Rightarrow> 'db \<Rightarrow> 'db server \<Rightarrow> bool" where
  "server_start n db s \<longleftrightarrow>
     s = \<lparr>wq = [], dbq = [], listener = Idle, workers = replicate n (worker_init, Idle), db_worker = Idle,
          query_thread = Idle, open_socks = [], database = db\<rparr>"

text \<open>Room in a queue, and putting a message at its end.\<close>

definition has_room :: "'db server \<Rightarrow> mq \<Rightarrow> bool" where
  "has_room s q \<longleftrightarrow> (case q of WorkerMq \<Rightarrow> length (wq s) < LISTENER_MQUEUE_MAX_MESSAGES
                            | DbMq \<Rightarrow> length (dbq s) < MQ_MAXMESSAGES)"

definition enqueue :: "mq \<Rightarrow> rpiwd_mqmsg \<Rightarrow> 'db server \<Rightarrow> 'db server" where
  "enqueue q m s = (case q of WorkerMq \<Rightarrow> s\<lparr>wq := wq s @ [m]\<rparr> | DbMq \<Rightarrow> s\<lparr>dbq := dbq s @ [m]\<rparr>)"

text \<open>The effects of a worker's turn: sockets it closes, and the message it goes on to send.\<close>

fun closes :: "effect list \<Rightarrow> int list" where
  "closes [] = []"
| "closes (SockClose fd # es) = fd # closes es"
| "closes (_ # es) = closes es"

fun pending :: "effect list \<Rightarrow> thread_state" where
  "pending [] = Idle"
| "pending (MqSend q m # es) = Sending q m"
| "pending (_ # es) = pending es"

section \<open>Steps\<close>

text \<open>
  The label of a step lists what it does to sockets. \<open>accept\<close> returns a descriptor that is not in use,
  or -1, after which the loop goes on. A turn whose behaviour is undefined is no step.
\<close>

inductive server_step :: "'tm clock \<Rightarrow> 'db sqlite \<Rightarrow> 'db server \<Rightarrow> effect list \<Rightarrow> 'db server \<Rightarrow> bool"
  for clk :: "'tm clock" and sq :: "'db sqlite" where
  accept: "listener s = Idle \<Longrightarrow> 0 \<le> fd \<Longrightarrow> fd \<notin> set (open_socks s) \<Longrightarrow>
    server_step clk sq s []
      (s\<lparr>listener := Sending WorkerMq (accept_message conf fd uninit_mqmsg), open_socks := fd # open_socks s\<rparr>)"
| listener_send: "listener s = Sending q m \<Longrightarrow> has_room s q \<Longrightarrow>
    server_step clk sq s [] (enqueue q m (s\<lparr>listener := Idle\<rparr>))"
| measure: "query_thread s = Idle \<Longrightarrow> request_write_entry False junk t h loc dev = Inr m \<Longrightarrow>
    server_step clk sq s [] (s\<lparr>query_thread := Sending DbMq m\<rparr>)"
| measure_send: "query_thread s = Sending q m \<Longrightarrow> has_room s q \<Longrightarrow>
    server_step clk sq s [] (enqueue q m (s\<lparr>query_thread := Idle\<rparr>))"
| worker_take: "i < length (workers s) \<Longrightarrow> workers s ! i = (w, Idle) \<Longrightarrow> wq s = m # rest \<Longrightarrow>
    le_clock env = clk\<lparr>time_now := now\<rparr> \<Longrightarrow> le_sql env = sq \<Longrightarrow> le_db env = database s \<Longrightarrow>
    worker_turn env henv inp w m = Inr (w', es) \<Longrightarrow>
    server_step clk sq s es
      (s\<lparr>wq := rest, workers := (workers s)[i := (w', pending es)],
         open_socks := filter (\<lambda>fd. fd \<notin> set (closes es)) (open_socks s)\<rparr>)"
| worker_send: "i < length (workers s) \<Longrightarrow> workers s ! i = (w, Sending q m) \<Longrightarrow> has_room s q \<Longrightarrow>
    server_step clk sq s [] (enqueue q m (s\<lparr>workers := (workers s)[i := (w, Idle)]\<rparr>))"
| db_take: "db_worker s = Idle \<Longrightarrow> dbq s = m # rest \<Longrightarrow> db_handle sq oom (database s) m = Inr (db', None) \<Longrightarrow>
    server_step clk sq s [] (s\<lparr>dbq := rest, database := db'\<rparr>)"
| db_answer: "db_worker s = Idle \<Longrightarrow> dbq s = m # rest \<Longrightarrow> db_handle sq oom (database s) m = Inr (db', Some m') \<Longrightarrow>
    receiver_mq m' = Some q \<Longrightarrow>
    server_step clk sq s [] (s\<lparr>dbq := rest, database := db', db_worker := Sending q m'\<rparr>)"
| db_send: "db_worker s = Sending q m \<Longrightarrow> has_room s q \<Longrightarrow>
    server_step clk sq s [] (enqueue q m (s\<lparr>db_worker := Idle\<rparr>))"

section \<open>Requests in flight\<close>

definition is_write :: "rpiwd_mqmsg \<Rightarrow> bool" where
  "is_write m \<longleftrightarrow> mtype m = Some DB_MSGTYPE_WRITEENTRY"

text \<open>The sockets a message, a list of messages and a sending thread stand for.\<close>

definition msg_socks :: "rpiwd_mqmsg \<Rightarrow> int multiset" where
  "msg_socks m = (if is_write m then {#} else case sockfd m of None \<Rightarrow> {#} | Some fd \<Rightarrow> {#fd#})"

definition socks_of :: "rpiwd_mqmsg list \<Rightarrow> int multiset" where
  "socks_of ms = (\<Sum>m\<leftarrow>ms. msg_socks m)"

fun thread_socks :: "thread_state \<Rightarrow> int multiset" where
  "thread_socks Idle = {#}"
| "thread_socks (Sending q m) = msg_socks m"

definition worker_socks :: "(worker \<times> thread_state) list \<Rightarrow> int multiset" where
  "worker_socks ws = (\<Sum>w\<leftarrow>ws. thread_socks (snd w))"

definition in_flight :: "'db server \<Rightarrow> int multiset" where
  "in_flight s = socks_of (wq s) + socks_of (dbq s) + thread_socks (listener s) + worker_socks (workers s)
     + thread_socks (db_worker s) + thread_socks (query_thread s)"

text \<open>A measurement goes to the database only.\<close>

fun no_stray_write :: "thread_state \<Rightarrow> bool" where
  "no_stray_write (Sending q m) = (is_write m \<longrightarrow> q = DbMq)"
| "no_stray_write Idle = True"

definition server_inv :: "'db server \<Rightarrow> bool" where
  "server_inv s \<longleftrightarrow> distinct (open_socks s) \<and> mset (open_socks s) = in_flight s \<and>
     (\<forall>m \<in> set (wq s). \<not> is_write m) \<and> no_stray_write (listener s) \<and> no_stray_write (db_worker s) \<and>
     no_stray_write (query_thread s) \<and> (\<forall>w \<in> set (workers s). no_stray_write (snd w))"

section \<open>Lemmas: moving messages\<close>

lemma socks_of_simps [simp]:
  "socks_of [] = {#}" "socks_of (m # ms) = msg_socks m + socks_of ms" "socks_of (ms @ ns) = socks_of ms + socks_of ns"
  by (simp_all add: socks_of_def)

lemma worker_socks_simps [simp]:
  "worker_socks [] = {#}" "worker_socks (w # ws) = thread_socks (snd w) + worker_socks ws"
  by (simp_all add: worker_socks_def)

lemma worker_socks_update:
  "i < length ws \<Longrightarrow> worker_socks (ws[i := x]) + thread_socks (snd (ws ! i)) = worker_socks ws + thread_socks (snd x)"
proof (induction ws arbitrary: i)
  case (Cons w ws)
  then show ?case by (cases i) (simp_all add: add.assoc)
qed simp

lemma in_flight_enqueue [simp]: "in_flight (enqueue q m s) = in_flight s + msg_socks m"
  by (cases q) (simp_all add: enqueue_def in_flight_def ac_simps)

lemma enqueue_frame [simp]:
  "open_socks (enqueue q m s) = open_socks s" "listener (enqueue q m s) = listener s"
  "workers (enqueue q m s) = workers s" "db_worker (enqueue q m s) = db_worker s"
  "query_thread (enqueue q m s) = query_thread s" "database (enqueue q m s) = database s"
  by (cases q; simp add: enqueue_def)+

lemma wq_enqueue: "set (wq (enqueue q m s)) = set (wq s) \<union> (if q = WorkerMq then {m} else {})"
  by (cases q) (auto simp: enqueue_def)

lemma accept_message_socks:
  "msg_socks (accept_message conf fd uninit_mqmsg) = {#fd#}" "\<not> is_write (accept_message conf fd uninit_mqmsg)"
  by (simp_all add: msg_socks_def is_write_def accept_message_def rpiwd_mqmsg_init_def uninit_mqmsg_def)

lemma write_message_socks: "request_write_entry oom junk t h loc dev = Inr m \<Longrightarrow> is_write m"
  by (auto simp: request_write_entry_def cbind_eq_Inr is_write_def)

lemma db_handle_keeps:
  assumes "db_handle sq oom db m = Inr (db', out)"
  shows "case out of None \<Rightarrow> is_write m | Some m' \<Rightarrow> \<not> is_write m \<and> mtype m' = mtype m \<and> sockfd m' = sockfd m"
proof -
  from assms obtain ty where "mtype m = Some ty" by (auto simp: db_handle_def cbind_eq_Inr)
  with assms show ?thesis
    by (cases "ty = DB_MSGTYPE_WRITEENTRY"; cases "ty = DB_MSGTYPE_FETCH"; cases "ty = DB_MSGTYPE_STATS")
       (auto simp: db_handle_def cbind_eq_Inr is_write_def msgtype_defs Let_def split: prod.splits)
qed

text \<open>What a worker's turn means for the request it took.\<close>

lemma turn_outcome:
  assumes "worker_turn env henv inp w m = Inr (w', es)"
  obtains (ends) fd where "sockfd m = Some fd" "closes es = [fd]" "pending es = Idle"
      "set es \<subseteq> {SockClose fd} \<union> range (SockWrite fd)"
  | (passes) fd q m' where "sockfd m = Some fd" "closes es = []" "pending es = Sending q m'" "sockfd m' = Some fd"
      "\<not> is_write m'" "es = [MqSend q m']"
proof -
  obtain fd where fd: "sockfd m = Some fd" "ends_request fd es \<or> passes_on fd es"
    using worker_turn_effects [OF assms] by blast
  from fd(2) show thesis
  proof
    assume "ends_request fd es"
    then show thesis using ends [OF fd(1)] by (auto simp: ends_request_def)
  next
    assume "passes_on fd es"
    then obtain q m' where "routed m'" "sockfd m' = Some fd" "es = [MqSend q m']" by (auto simp: passes_on_def)
    then show thesis using passes [OF fd(1), of q m'] by (auto simp: routed_def is_write_def msgtype_defs)
  qed
qed

lemma mset_filter_distinct: "distinct xs \<Longrightarrow> mset (filter (\<lambda>x. x \<notin> set [a]) xs) = mset xs - {#a#}"
  by (metis (mono_tags, lifting) distinct_remove1_removeAll filter_cong list.set_intros(1) mset_remove1 removeAll_filter_not_eq
      set_ConsD empty_iff empty_set)

section \<open>Lemmas: the invariant\<close>

lemma server_inv_start: "server_start n db s \<Longrightarrow> server_inv s"
proof -
  have "worker_socks (replicate n (worker_init, Idle)) = {#}" by (induction n) auto
  then show "server_start n db s \<Longrightarrow> server_inv s"
    by (auto simp: server_start_def server_inv_def in_flight_def)
qed

lemma set_update_workers: "(\<forall>w \<in> set ws. P w) \<Longrightarrow> P x \<Longrightarrow> \<forall>w \<in> set (ws[i := x]). P w"
  using set_update_subset_insert [of ws i x] by auto

lemma worker_take_inv:
  assumes inv: "server_inv s" and i: "i < length (workers s)" "workers s ! i = (w, Idle)" and q: "wq s = m # rest"
    and turn: "worker_turn env henv inp w m = Inr (w', es)"
  shows "server_inv (s\<lparr>wq := rest, workers := (workers s)[i := (w', pending es)],
    open_socks := filter (\<lambda>fd. fd \<notin> set (closes es)) (open_socks s)\<rparr>)"
proof -
  have m: "\<not> is_write m" using inv q by (simp add: server_inv_def)
  have ws: "worker_socks ((workers s)[i := (w', pending es)]) = worker_socks (workers s) + thread_socks (pending es)"
    using worker_socks_update [OF i(1), of "(w', pending es)"] i(2) by simp
  have others: "\<forall>w \<in> set (workers s). no_stray_write (snd w)" using inv by (simp add: server_inv_def)
  from turn show ?thesis
  proof (cases rule: turn_outcome)
    case (ends fd)
    have "\<forall>w \<in> set ((workers s)[i := (w', Idle)]). no_stray_write (snd w)"
      by (rule set_update_workers [OF others]) simp
    then show ?thesis
      using ends inv q m ws mset_filter_distinct [of "open_socks s" fd]
      by (simp add: server_inv_def in_flight_def msg_socks_def)
  next
    case (passes fd q' m')
    then have "\<forall>w \<in> set ((workers s)[i := (w', pending es)]). no_stray_write (snd w)"
      by (intro set_update_workers [OF others]) simp
    then show ?thesis
      using passes inv q m ws by (simp add: server_inv_def in_flight_def msg_socks_def)
  qed
qed

lemma enqueue_inv:
  assumes "distinct (open_socks s)" "mset (open_socks s) = in_flight s + msg_socks m"
    and "\<forall>m \<in> set (wq s). \<not> is_write m" "no_stray_write (listener s)" "no_stray_write (db_worker s)"
    and "no_stray_write (query_thread s)" "\<forall>w \<in> set (workers s). no_stray_write (snd w)" "no_stray_write (Sending q m)"
  shows "server_inv (enqueue q m s)"
  using assms by (cases q) (auto simp: server_inv_def wq_enqueue)

lemma worker_send_inv:
  assumes inv: "server_inv s" and i: "i < length (workers s)" "workers s ! i = (w, Sending q m)"
  shows "server_inv (enqueue q m (s\<lparr>workers := (workers s)[i := (w, Idle)]\<rparr>))"
proof -
  have ws: "worker_socks ((workers s)[i := (w, Idle)]) + msg_socks m = worker_socks (workers s)"
    using worker_socks_update [of i "workers s" "(w, Idle)"] i by simp
  have mem: "(w, Sending q m) \<in> set (workers s)" using i nth_mem by metis
  have others: "\<forall>w \<in> set (workers s). no_stray_write (snd w)" using inv by (simp add: server_inv_def)
  have "mset (open_socks s) = in_flight (s\<lparr>workers := (workers s)[i := (w, Idle)]\<rparr>) + msg_socks m"
    using inv unfolding server_inv_def in_flight_def ws [symmetric] by (simp add: ac_simps)
  moreover have "\<forall>w \<in> set ((workers s)[i := (w, Idle)]). no_stray_write (snd w)"
    by (rule set_update_workers [OF others]) simp
  moreover have "no_stray_write (Sending q m)" using others mem by fastforce
  ultimately show ?thesis by (intro enqueue_inv) (use inv in \<open>simp_all add: server_inv_def\<close>)
qed

lemma server_step_inv:
  assumes inv: "server_inv s" and step: "server_step clk sq s l t"
  shows "server_inv t"
  using step
proof cases
  case (accept fd conf)
  then show ?thesis using inv by (auto simp: server_inv_def in_flight_def accept_message_socks)
next
  case (listener_send q m)
  show ?thesis
    unfolding listener_send(2)
    by (rule enqueue_inv) (use inv listener_send(3) in \<open>auto simp: server_inv_def in_flight_def ac_simps\<close>)
next
  case (measure junk t' h loc dev m)
  then show ?thesis
    using inv write_message_socks [of False junk t' h loc dev m] by (auto simp: server_inv_def in_flight_def msg_socks_def)
next
  case (measure_send q m)
  show ?thesis
    unfolding measure_send(2)
    by (rule enqueue_inv) (use inv measure_send(3) in \<open>auto simp: server_inv_def in_flight_def ac_simps\<close>)
next
  case (worker_take i w m rest env now henv inp w')
  show ?thesis
    unfolding worker_take(1) by (rule worker_take_inv [OF inv worker_take(2-4) worker_take(8)])
next
  case (worker_send i w q m)
  show ?thesis
    unfolding worker_send(2) by (rule worker_send_inv [OF inv worker_send(3,4)])
next
  case (db_take m rest oom db')
  then show ?thesis
    using inv db_handle_keeps [OF db_take(5)] by (auto simp: server_inv_def in_flight_def msg_socks_def)
next
  case (db_answer m rest oom db' m' q)
  then show ?thesis
    using inv db_handle_keeps [OF db_answer(5)]
    by (auto simp: server_inv_def in_flight_def msg_socks_def is_write_def)
next
  case (db_send q m)
  show ?thesis
    unfolding db_send(2)
    by (rule enqueue_inv) (use inv db_send(3) in \<open>auto simp: server_inv_def in_flight_def ac_simps\<close>)
qed

interpretation srv: invariant_system "server_start n db" "server_step clk sq" server_inv
  for n :: nat and db :: 'db and clk :: "'tm clock" and sq :: "'db sqlite"
  by unfold_locales (auto intro: server_inv_start server_step_inv)

abbreviation server_reach :: "'tm clock \<Rightarrow> 'db sqlite \<Rightarrow> nat \<Rightarrow> 'db \<Rightarrow> 'db server \<Rightarrow> bool" where
  "server_reach clk sq n db \<equiv> transition_system.reach (server_start n db) (server_step clk sq)"

abbreviation server_run :: "'tm clock \<Rightarrow> 'db sqlite \<Rightarrow> 'db server \<Rightarrow> effect list list \<Rightarrow> 'db server \<Rightarrow> bool" where
  "server_run clk sq \<equiv> transition_system.run (server_step clk sq)"


section \<open>Lemmas: a full queue of requests\<close>

text \<open>
  Workers that all wait for room in the queue only they take from: nothing can move them any more.
\<close>

definition stuck :: "'db server \<Rightarrow> bool" where
  "stuck s \<longleftrightarrow> LISTENER_MQUEUE_MAX_MESSAGES \<le> length (wq s) \<and>
     (\<forall>i < length (workers s). \<exists>w m. workers s ! i = (w, Sending WorkerMq m))"

lemma stuck_worker: "stuck s \<Longrightarrow> i < length (workers s) \<Longrightarrow> \<exists>w m. workers s ! i = (w, Sending WorkerMq m)"
  by (simp add: stuck_def)

lemma stuck_frame:
  "stuck s \<Longrightarrow> workers t = workers s \<Longrightarrow> length (wq s) \<le> length (wq t) \<Longrightarrow> stuck t"
  by (simp add: stuck_def)

lemma length_wq_enqueue: "length (wq s) \<le> length (wq (enqueue q m s))"
  by (cases q) (simp_all add: enqueue_def)

lemma stuck_step:
  assumes st: "stuck s" and step: "server_step clk sq s l t"
  shows "stuck t \<and> l = [] \<and> set (open_socks s) \<subseteq> set (open_socks t)"
  using step
proof cases
  case (worker_take i w m rest env now henv inp w')
  then show ?thesis using stuck_worker [OF st, of i] by auto
next
  case (worker_send i w q m)
  then have "q = WorkerMq" using stuck_worker [OF st, of i] by auto
  then show ?thesis using worker_send(5) st by (simp add: has_room_def stuck_def)
qed (use st in \<open>auto intro!: stuck_frame [OF st] intro: order_trans [OF _ length_wq_enqueue]\<close>)

text \<open>A request for the configuration, and what it needs of the surroundings.\<close>

definition config_env :: "'tm clock \<Rightarrow> 'db sqlite \<Rightarrow> 'db \<Rightarrow> ('tm, 'db) listener_env" where
  "config_env clk sq db =
     \<lparr>le_clock = clk, le_sql = sq, le_db = db, le_config = le_config sample_lenv, le_device = le_device sample_lenv,
      le_gpio = le_gpio sample_lenv, le_hostname = [], le_version = [], le_uptime = 0, le_freeram = 0, le_f_bsize = 0,
      le_f_bfree = 0, le_oom_query = False, le_oom_entry = False, le_oom_list = False, le_oom_array = False,
      le_junk = sample_entry 0\<rparr>"

definition config_request :: turn_input where
  "config_request = \<lparr>ti_read = ReadBytes (show_request ''config'' [] @ crlf), ti_junk = [], ti_oom = (\<lambda>_. False)\<rparr>"

lemma parse_config_request:
  "read_and_parse_response (ti_oom config_request) (ti_read config_request) (ti_junk config_request) r e =
   Inr (Some (request_cmd ''config'' []), r, e)"
proof -
  have "buffer_string (show_request ''config'' [] @ crlf) [] = show_request ''config'' [] @ crlf @ []"
    by (simp add: buffer_string_def show_request_def RESPONSE_BUFFER_SIZE_def)
  then show ?thesis
    using parse_show_request [of "''config''" "[]" "[]" r]
    by (simp add: read_and_parse_response_def config_request_def url_safe_def show_request_def)
qed

lemma config_dispatch:
  "\<exists>m'. dispatch_command (config_env clk sq db) (request_cmd ''config'' []) m er = Inr (CALLBACK_RETCODE_SUCCESS, m', er)
     \<and> mtype m' = Some DB_MSGTYPE_CONFIG"
proof -
  have "dispatch_command (config_env clk sq db) (request_cmd ''config'' []) m er =
      config_command_callback (config_env clk sq db) (request_cmd ''config'' []) m er"
    by (simp add: dispatch_command_def CMD_CALLBACK_TABLE_def request_cmd_def)
  then show ?thesis
    using config_callback_list [OF refl, of "config_env clk sq db" "''attic''" "''1h''" "''dht11''"]
    by (simp add: config_env_def sample_lenv_def get_current_config_def zero_config_def INT_MIN_def INT_MAX_def)
qed

lemma config_turn:
  assumes "is_completed m = Some 0" "sockfd m = Some fd"
  shows "\<exists>w' m'. worker_turn (config_env clk sq db) henv config_request w m = Inr (w', [MqSend WorkerMq m'])"
proof -
  have "cmdname (request_cmd ''config'' []) = ''config''" "ti_read config_request \<noteq> ReadError"
    by (simp_all add: request_cmd_def config_request_def)
  with assms show ?thesis
    using config_dispatch [of clk sq db m "w_erange w"]
    by (auto simp: worker_turn_def worker_request_def parse_config_request Let_def msgtype_defs)
qed

text \<open>The states on the way there: \<open>k\<close> workers wait, the others and the listener are idle.\<close>

definition waiting :: "nat \<Rightarrow> nat \<Rightarrow> nat \<Rightarrow> 'db server \<Rightarrow> bool" where
  "waiting k n q s \<longleftrightarrow> listener s = Idle \<and> length (workers s) = n \<and> length (wq s) = q \<and> 
     (\<forall>i < k. \<exists>w m. workers s ! i = (w, Sending WorkerMq m)) \<and> (\<forall>i. k \<le> i \<longrightarrow> i < n \<longrightarrow> workers s ! i = (worker_init, Idle))"

lemma accept_and_send:
  assumes "server_reach clk sq n db s" "listener s = Idle" "length (wq s) < LISTENER_MQUEUE_MAX_MESSAGES"
  shows "\<exists>t fd. server_reach clk sq n db t \<and> workers t = workers s \<and> listener t = Idle \<and>
    wq t = wq s @ [accept_message conf fd uninit_mqmsg]"
proof -
  have "finite (int -` set (open_socks s))" by (rule finite_vimageI) (simp_all add: inj_def)
  then obtain k where "int k \<notin> set (open_socks s)" using ex_new_if_finite [OF infinite_UNIV_nat] by blast
  then obtain fd where fd: "0 \<le> fd" "fd \<notin> set (open_socks s)" by (metis of_nat_0_le_iff)
  let ?m = "accept_message conf fd uninit_mqmsg"
  let ?s1 = "s\<lparr>listener := Sending WorkerMq ?m, open_socks := fd # open_socks s\<rparr>"
  have "server_reach clk sq n db ?s1"
    using assms(1) server_step.accept [OF assms(2) fd, of clk sq conf] by (rule srv.reach_step)
  moreover have "server_step clk sq ?s1 [] (enqueue WorkerMq ?m (?s1\<lparr>listener := Idle\<rparr>))"
    by (rule server_step.listener_send) (use assms(3) in \<open>simp_all add: has_room_def\<close>)
  ultimately have "server_reach clk sq n db (enqueue WorkerMq ?m (?s1\<lparr>listener := Idle\<rparr>))" by (rule srv.reach_step)
  then show ?thesis
    by (intro exI [where x = "enqueue WorkerMq ?m (?s1\<lparr>listener := Idle\<rparr>)"] exI [where x = fd]) (simp add: enqueue_def)
qed

lemma worker_waits:
  assumes "server_reach clk sq n db s" "waiting k n 0 s" "k < n"
  shows "\<exists>t. server_reach clk sq n db t \<and> waiting (Suc k) n 0 t"
proof -
  obtain t fd where t: "server_reach clk sq n db t" "workers t = workers s" "listener t = Idle"
      "wq t = [accept_message (le_config sample_lenv) fd uninit_mqmsg]"
    using accept_and_send [OF assms(1), of "le_config sample_lenv"] assms(2)
    by (auto simp: waiting_def LISTENER_MQUEUE_MAX_MESSAGES_def)
  let ?m = "accept_message (le_config sample_lenv) fd uninit_mqmsg"
  obtain w' m' where turn: "worker_turn (config_env clk sq (database t)) sample_env config_request worker_init ?m = Inr (w', [MqSend WorkerMq m'])"
    using config_turn [of ?m fd clk sq "database t" sample_env worker_init] by (auto simp: accept_message_def rpiwd_mqmsg_init_def)
  let ?u = "t\<lparr>wq := [], workers := (workers t)[k := (w', pending [MqSend WorkerMq m'])],
    open_socks := filter (\<lambda>fd. fd \<notin> set (closes [MqSend WorkerMq m'])) (open_socks t)\<rparr>"
  have "server_step clk sq t [MqSend WorkerMq m'] ?u"
    by (rule server_step.worker_take [where now = "time_now clk", OF _ _ t(4) _ _ _ turn])
       (use assms(2,3) t(2) in \<open>simp_all add: waiting_def config_env_def\<close>)
  then have "server_reach clk sq n db ?u" by (rule srv.reach_step [OF t(1)])
  moreover have "waiting (Suc k) n 0 ?u"
    using assms(2,3) t(2,3) by (simp add: waiting_def nth_list_update less_Suc_eq)
  ultimately show ?thesis by blast
qed

lemma all_wait: "k \<le> n \<Longrightarrow> \<exists>s. server_reach clk sq n db s \<and> waiting k n 0 s"
proof (induction k)
  case 0
  let ?s = "\<lparr>wq = [], dbq = [], listener = Idle, workers = replicate n (worker_init, Idle), db_worker = Idle,
    query_thread = Idle, open_socks = [], database = db\<rparr>"
  have "server_reach clk sq n db ?s" by (rule srv.reach_start) (simp add: server_start_def)
  then show ?case by (intro exI [where x = ?s]) (simp add: waiting_def)
next
  case (Suc k)
  then obtain s where "server_reach clk sq n db s" "waiting k n 0 s" by auto
  then show ?case by (rule worker_waits) (use Suc.prems in simp)
qed

lemma queue_fills:
  fixes clk :: "'tm clock" and sq :: "'db sqlite"
  shows
  "q \<le> LISTENER_MQUEUE_MAX_MESSAGES \<Longrightarrow> \<exists>s. server_reach clk sq n db s \<and> waiting n n q s"
proof (induction q)
  case 0
  show ?case by (rule all_wait) simp
next
  case (Suc q)
  then obtain s where s: "server_reach clk sq n db s" "waiting n n q s" by auto
  then obtain t fd where "server_reach clk sq n db t" "workers t = workers s" "listener t = Idle"
      "wq t = wq s @ [accept_message (le_config sample_lenv) fd uninit_mqmsg]"
    using accept_and_send [OF s(1), of "le_config sample_lenv"] Suc.prems by (auto simp: waiting_def)
  with s(2) show ?case by (intro exI [where x = t]) (simp add: waiting_def)
qed

section \<open>Properties\<close>

text \<open>A server with two workers that has accepted connection 7, and a blocked server.\<close>

definition sample_server :: "sql_bind list list server" where
  "sample_server = \<lparr>wq = [], dbq = [], listener = Idle, workers = replicate 2 (worker_init, Idle), db_worker = Idle,
     query_thread = Idle, open_socks = [], database = []\<rparr>"

definition sample_accepted :: "sql_bind list list server" where
  "sample_accepted = sample_server\<lparr>
     listener := Sending WorkerMq (accept_message (le_config sample_lenv) 7 uninit_mqmsg), open_socks := [7]\<rparr>"

lemma sample_accept: "server_step sample_clock (sample_sql 0 []) sample_server [] sample_accepted"
  using server_step.accept [of sample_server 7 sample_clock "sample_sql 0 []" "le_config sample_lenv"]
  by (simp add: sample_server_def sample_accepted_def)

lemma sample_server_reach: "server_reach sample_clock (sample_sql 0 []) 2 [] sample_server"
  by (rule srv.reach_start) (simp add: server_start_def sample_server_def)

definition sample_queued :: "sql_bind list list server" where
  "sample_queued = enqueue WorkerMq (accept_message (le_config sample_lenv) 7 uninit_mqmsg) (sample_accepted\<lparr>listener := Idle\<rparr>)"

lemma sample_queued_reach: "server_reach sample_clock (sample_sql 0 []) 2 [] sample_queued"
proof -
  have "server_step sample_clock (sample_sql 0 []) sample_accepted [] sample_queued"
    unfolding sample_queued_def
    by (rule server_step.listener_send) (simp_all add: sample_accepted_def sample_server_def has_room_def LISTENER_MQUEUE_MAX_MESSAGES_def)
  then show ?thesis by (rule srv.reach_step [OF srv.reach_step [OF sample_server_reach sample_accept]])
qed

text \<open>The client hangs up before it has sent a request.\<close>

lemma sample_hangup: "server_step sample_clock (sample_sql 0 []) sample_queued [SockClose 7]
  (sample_queued\<lparr>wq := [], workers := (workers sample_queued)[0 := (worker_init\<lparr>w_is_eof := True\<rparr>, pending [SockClose 7])],
     open_socks := filter (\<lambda>fd. fd \<notin> set (closes [SockClose 7])) (open_socks sample_queued)\<rparr>)"
proof (rule server_step.worker_take [where now = "time_now sample_clock"])
  show "worker_turn (config_env sample_clock (sample_sql 0 []) []) sample_env \<lparr>ti_read = ReadBytes [], ti_junk = [], ti_oom = \<lambda>_. False\<rparr>
      worker_init (accept_message (le_config sample_lenv) 7 uninit_mqmsg) = Inr (worker_init\<lparr>w_is_eof := True\<rparr>, [SockClose 7])"
    by (simp add: worker_turn_def worker_request_def read_and_parse_response_def accept_message_def rpiwd_mqmsg_init_def
        worker_init_def)
qed (simp_all add: sample_queued_def sample_accepted_def sample_server_def enqueue_def config_env_def)

definition sample_blocked :: "sql_bind list list server" where
  "sample_blocked = sample_server\<lparr>wq := replicate 512 uninit_mqmsg, workers := [(worker_init, Sending WorkerMq uninit_mqmsg)]\<rparr>"

text \<open>C1. No request is lost and none is answered twice: in every reachable state the open client
  sockets are pairwise distinct, and each of them stands for exactly one request, which is in one of
  the queues or with one of the threads.\<close>
theorem server_requests_conserved:
  assumes "server_reach clk sq n db s"
  shows "distinct (open_socks s) \<and> mset (open_socks s) = in_flight s"
  using srv.reach_inv [OF assms] by (simp add: server_inv_def)

theorem server_requests_conserved_witness:
  "distinct (open_socks sample_accepted) \<and> mset (open_socks sample_accepted) = in_flight sample_accepted"
  by (rule server_requests_conserved) (rule srv.reach_step [OF sample_server_reach sample_accept])

text \<open>C26. In a reachable state a step writes to and closes only sockets that are open, and it writes
  before it closes.\<close>
theorem server_touches_open_sockets:
  assumes "server_reach clk sq n db s" "server_step clk sq s es t"
  shows "es = [] \<or> (\<exists>q m. es = [MqSend q m]) \<or>
    (\<exists>fd. fd \<in> set (open_socks s) \<and> (es = [SockClose fd] \<or> (\<exists>txt. es = [SockWrite fd txt, SockClose fd])))"
  using assms(2)
proof cases
  case (worker_take i w m rest env now henv inp w')
  have inv: "server_inv s" by (rule srv.reach_inv [OF assms(1)])
  obtain fd where fd: "sockfd m = Some fd" "ends_request fd es \<or> passes_on fd es"
    using worker_turn_effects [OF worker_take(8)] by blast
  have "fd \<in># in_flight s" using inv worker_take(4) fd(1) by (simp add: server_inv_def in_flight_def msg_socks_def)
  then have "fd \<in> set (open_socks s)" using inv by (metis server_inv_def set_mset_mset)
  then show ?thesis using fd(2) by (auto simp: ends_request_def passes_on_def)
qed auto

theorem server_touches_open_sockets_witness:
  "[SockClose 7] = [] \<or> (\<exists>q m. [SockClose 7] = [MqSend q m]) \<or>
    (\<exists>fd. fd \<in> set (open_socks sample_queued) \<and> ([SockClose 7] = [SockClose fd] \<or> (\<exists>txt. [SockClose 7] = [SockWrite fd txt, SockClose fd])))"
  by (rule server_touches_open_sockets [OF sample_queued_reach sample_hangup])

text \<open>C38. Once every worker waits for room in the full worker queue, nothing is ever answered again: in
  every continuation no step touches a socket, and every request stays open.\<close>
theorem server_deadlock_permanent:
  assumes "stuck s" "server_run clk sq s ls t"
  shows "stuck t \<and> concat ls = [] \<and> set (open_socks s) \<subseteq> set (open_socks t)"
proof -
  have "stuck t \<and> set (open_socks s) \<subseteq> set (open_socks t) \<and> list_all (\<lambda>l. l = []) ls"
    using srv.run_keeps [where P = "\<lambda>u. stuck u \<and> set (open_socks s) \<subseteq> set (open_socks u)" and Q = "\<lambda>l. l = []",
        OF _ assms(2)] assms(1) stuck_step by fastforce
  then show ?thesis by (auto simp: list_all_iff)
qed

theorem server_deadlock_permanent_witness:
  "stuck (sample_blocked\<lparr>listener := Sending WorkerMq (accept_message (le_config sample_lenv) 7 uninit_mqmsg), open_socks := [7]\<rparr>)
   \<and> concat [[]] = ([] :: effect list) \<and> set (open_socks sample_blocked) \<subseteq> {7}"
proof -
  let ?t = "sample_blocked\<lparr>listener := Sending WorkerMq (accept_message (le_config sample_lenv) 7 uninit_mqmsg), open_socks := [7]\<rparr>"
  have "server_step sample_clock (sample_sql 0 []) sample_blocked [] ?t"
    using server_step.accept [of sample_blocked 7 sample_clock "sample_sql 0 []" "le_config sample_lenv"]
    by (simp add: sample_blocked_def sample_server_def)
  then have "server_run sample_clock (sample_sql 0 []) sample_blocked [[]] ?t"
    by (rule srv.run_more) (rule srv.run_none)
  moreover have "stuck sample_blocked"
    by (simp add: stuck_def sample_blocked_def LISTENER_MQUEUE_MAX_MESSAGES_def)
  ultimately show ?thesis using server_deadlock_permanent by fastforce
qed

text \<open>C37. That state can come about with any number of workers: each takes a request for the
  configuration, and the queue fills before they put their answers into it.\<close>
theorem server_deadlock_reachable:
  "\<exists>s. server_reach clk sq n db s \<and> length (workers s) = n \<and> stuck s"
proof -
  obtain s where "server_reach clk sq n db s" "waiting n n LISTENER_MQUEUE_MAX_MESSAGES s"
    using queue_fills [OF order_refl, where clk = clk and sq = sq and n = n and db = db] by auto
  then show ?thesis by (intro exI [where x = s]) (simp add: waiting_def stuck_def)
qed

end
