(* ===== verification/Json_Parser.thy ===== *)
theory Json_Parser
  imports Json_Paths
begin

text \<open>
  The parser of the bundled JSON library (\<^verbatim>\<open>src/deps/parson.c\<close>): arrays, string literals with their
  escapes, numbers, the recursive descent with its bound on nesting, comments. A position in the input is the
  rest of the text; a NULL result is \<open>None\<close>, undefined behaviour the left summand, and the flag
  \<open>mem\<close> says whether \<open>parson_malloc\<close> returns memory. The properties: the parser is total and free of
  undefined behaviour on every input, what it returns is well-formed, and it reads back what the
  serializer wrote.
\<close>

unbundle bit_operations_syntax

section \<open>Arrays\<close>

type_synonym jarray = "nat \<times> json list"

definition ARRAY_MAX_CAPACITY :: nat where "ARRAY_MAX_CAPACITY = 122880"
definition MAX_NESTING :: nat where "MAX_NESTING = 19"

definition json_array_init :: jarray where "json_array_init = (0, [])"

definition json_value_init_array :: "bool \<Rightarrow> jarray option" where
  "json_value_init_array mem = (if mem then Some json_array_init else None)"

definition json_array_get_count :: "jarray \<Rightarrow> nat" where
  "json_array_get_count arr = length (snd arr)"

definition json_array_resize :: "bool \<Rightarrow> jarray \<Rightarrow> nat \<Rightarrow> bool \<times> jarray" where
  "json_array_resize mem arr new_capacity =
     (if new_capacity = 0 then (False, arr)
      else if \<not> mem then (False, arr)
      else (True, (new_capacity, snd arr)))"

definition json_array_add :: "bool \<Rightarrow> jarray \<Rightarrow> json \<Rightarrow> bool \<times> jarray" where
  "json_array_add mem arr value =
     (let new_capacity = max (fst arr * 2) STARTING_CAPACITY;
          (ok, arr1) = (if length (snd arr) \<ge> fst arr then
                          (if new_capacity > ARRAY_MAX_CAPACITY then (False, arr)
                           else json_array_resize mem arr new_capacity)
                        else (True, arr))
      in if \<not> ok then (False, arr1) else (True, (fst arr1, snd arr1 @ [value])))"

section \<open>String literals\<close>

text \<open>A step that may return NULL, followed by another.\<close>

definition pbind :: "'a option c \<Rightarrow> ('a \<Rightarrow> 'b option c) \<Rightarrow> 'b option c" where
  "pbind m f = cbind m (\<lambda>r. case r of None \<Rightarrow> Inr None | Some x \<Rightarrow> f x)"

text \<open>A call that returns a \<open>JSON_Status\<close>; on failure the caller returns NULL.\<close>

definition status :: "bool \<times> 'a \<Rightarrow> 'a option c" where
  "status r = Inr (if fst r then Some (snd r) else None)"

definition SKIP_WHITESPACES :: "string \<Rightarrow> string" where
  "SKIP_WHITESPACES s = dropWhile isspace s"

text \<open>Whether the character at the position is \<open>c\<close>; at the end it is the terminator.\<close>

definition looking_at :: "char \<Rightarrow> string \<Rightarrow> bool" where
  "looking_at c s \<longleftrightarrow> (case s of [] \<Rightarrow> False | x # xs \<Rightarrow> x = c)"

fun skip_to_quote :: "string \<Rightarrow> string option" where
  "skip_to_quote [] = None"
| "skip_to_quote (c # cs) =
     (if c = CHR 0x22 then Some cs
      else if c = CHR 0x5C then (case cs of [] \<Rightarrow> None | _ # ds \<Rightarrow> skip_to_quote ds)
      else skip_to_quote cs)"

definition skip_quotes :: "string \<Rightarrow> string option" where
  "skip_quotes s = (if looking_at (CHR 0x22) s then skip_to_quote (tl s) else None)"

definition is_utf16_hex :: "string \<Rightarrow> bool" where
  "is_utf16_hex s \<longleftrightarrow> 4 \<le> length s \<and> list_all isxdigit (take 4 s)"

text \<open>\<open>sscanf (s, "%4x", \<dots>)\<close> on four hexadecimal digits.\<close>

definition scan_4x :: "string \<Rightarrow> nat" where
  "scan_4x s = foldl (\<lambda>a c. 16 * a + xdigit_val c) 0 (take 4 s)"

definition utf8_bytes :: "nat \<Rightarrow> nat list" where
  "utf8_bytes cp =
     (if cp < 0x80 then [cp]
      else if cp < 0x800 then [(drop_bit 6 cp AND 0x1F) OR 0xC0, (cp AND 0x3F) OR 0x80]
      else if cp < 0x10000 then
        [(drop_bit 12 cp AND 0x0F) OR 0xE0, (drop_bit 6 cp AND 0x3F) OR 0x80, (cp AND 0x3F) OR 0x80]
      else [(drop_bit 18 cp AND 0x07) OR 0xF0, (drop_bit 12 cp AND 0x3F) OR 0x80,
            (drop_bit 6 cp AND 0x3F) OR 0x80, (cp AND 0x3F) OR 0x80])"

text \<open>
  An escape that starts at \<open>u\<close>: the bytes written and the text after the last digit (the source leaves
  both pointers on the last character and its caller steps over it).
\<close>

definition parse_utf_16 :: "string \<Rightarrow> (string \<times> string) option" where
  "parse_utf_16 unprocessed =
     (let s = drop 1 unprocessed; cp = scan_4x s
      in if \<not> is_utf16_hex s then None
         else if cp < 0xD800 \<or> cp > 0xDFFF then Some (map char_of (utf8_bytes cp), drop 4 s)
         else if cp \<le> 0xDBFF then
           (let lead = cp; s1 = drop 4 s; s2 = drop 2 s1; trail = scan_4x s2
            in if \<not> looking_at (CHR 0x5C) s1 \<or> \<not> looking_at (CHR ''u'') (drop 1 s1) \<or> \<not> is_utf16_hex s2 \<or> trail < 0xDC00 \<or> trail > 0xDFFF
               then None
               else Some (map char_of (utf8_bytes ((push_bit 10 ((lead - 0xD800) AND 0x3FF) OR ((trail - 0xDC00) AND 0x3FF)) + 0x10000)),
                          drop 4 s2))
         else None)"

definition unescape :: "char \<Rightarrow> char option" where
  "unescape c =
     (if c = CHR 0x22 then Some (CHR 0x22)
      else if c = CHR 0x5C then Some (CHR 0x5C)
      else if c = CHR ''/'' then Some (CHR ''/'')
      else if c = CHR ''b'' then Some (CHR 0x08)
      else if c = CHR ''f'' then Some (CHR 0x0C)
      else if c = CHR ''n'' then Some (CHR 0x0A)
      else if c = CHR ''r'' then Some (CHR 0x0D)
      else if c = CHR ''t'' then Some (CHR 0x09)
      else None)"

text \<open>One round of the loop of \<open>process_string\<close>: what is written and where the input stands.\<close>

definition process_char :: "string \<Rightarrow> (string \<times> string) option" where
  "process_char input =
     (if looking_at (CHR 0x5C) input then
        (if looking_at (CHR ''u'') (tl input) then parse_utf_16 (tl input)
         else if tl input = [] then None
         else map_option (\<lambda>c. ([c], drop 2 input)) (unescape (hd (tl input))))
      else if code (hd input) < 0x20 then None
      else Some ([hd input], tl input))"

text \<open>
  \<open>len\<close> is what is left of the literal and \<open>room\<close> what is left of the output buffer (\<open>len + 1\<close>
  bytes at first). Without memory the output is NULL.
\<close>

function process_chars :: "bool \<Rightarrow> nat \<Rightarrow> nat \<Rightarrow> string \<Rightarrow> string option c" where
  "process_chars mem len room input =
     (if input = [] \<or> len = 0 then
        (if \<not> mem then Inl NullDeref else if room = 0 then Inl BufferOverflow else Inr (Some []))
      else
        (case process_char input of
           None \<Rightarrow> Inr None
         | Some (out, rest) \<Rightarrow>
             if \<not> mem then Inl NullDeref
             else if room < length out then Inl BufferOverflow
             else pbind (process_chars mem (len - (length input - length rest)) (room - length out) rest)
                    (\<lambda>more. Inr (Some (out @ more)))))"
  by pat_completeness auto

lemma parse_utf_16_rest: "parse_utf_16 s = Some (out, rest) \<Longrightarrow> length rest \<le> length s"
  by (auto simp: parse_utf_16_def Let_def split: if_splits)

lemma process_char_rest: "input \<noteq> [] \<Longrightarrow> process_char input = Some (out, rest) \<Longrightarrow> length rest < length input"
  by (cases input) (auto simp: process_char_def split: if_splits dest: parse_utf_16_rest)

termination process_chars
  by (relation "measure (\<lambda>(mem, len, room, input). length input)") (auto dest: process_char_rest)

declare process_chars.simps [simp del]

text \<open>A zero byte written by an escape ends the C string that is returned.\<close>

definition process_string :: "bool \<Rightarrow> string \<Rightarrow> nat \<Rightarrow> string option c" where
  "process_string mem input len =
     pbind (process_chars mem len (len + 1) input) (\<lambda>out. Inr (Some (takeWhile (\<lambda>c. c \<noteq> CHR 0x00) out)))"

definition get_quoted_string :: "bool \<Rightarrow> string \<Rightarrow> (string \<times> string) option c" where
  "get_quoted_string mem s =
     (case skip_quotes s of
        None \<Rightarrow> Inr None
      | Some rest \<Rightarrow>
          pbind (process_string mem (tl s) (length s - length rest - 2)) (\<lambda>str. Inr (Some (str, rest))))"

section \<open>Scalars\<close>

definition json_value_init_string_no_copy :: "bool \<Rightarrow> string \<Rightarrow> json option" where
  "json_value_init_string_no_copy mem s = (if mem then Some (JSONString s) else None)"

definition json_value_init_boolean :: "bool \<Rightarrow> int \<Rightarrow> json option" where
  "json_value_init_boolean mem b = (if mem then Some (JSONBoolean (b \<noteq> 0)) else None)"

definition json_value_init_null :: "bool \<Rightarrow> json option" where
  "json_value_init_null mem = (if mem then Some JSONNull else None)"

text \<open>A new value and the position after it.\<close>

definition value_at :: "json option \<Rightarrow> string \<Rightarrow> (json \<times> string) option" where
  "value_at v rest = map_option (\<lambda>v. (v, rest)) v"

definition parse_string_value :: "bool \<Rightarrow> string \<Rightarrow> (json \<times> string) option c" where
  "parse_string_value mem s =
     pbind (get_quoted_string mem s) (\<lambda>(str, rest). Inr (value_at (json_value_init_string_no_copy mem str) rest))"

definition parse_boolean_value :: "bool \<Rightarrow> string \<Rightarrow> (json \<times> string) option c" where
  "parse_boolean_value mem s =
     Inr (if take 4 s = ''true'' then value_at (json_value_init_boolean mem 1) (drop 4 s)
          else if take 5 s = ''false'' then value_at (json_value_init_boolean mem 0) (drop 5 s)
          else None)"

text \<open>The first \<open>len\<close> characters of \<open>s\<close> are what \<open>strtod\<close> has read.\<close>

definition is_decimal :: "string \<Rightarrow> nat \<Rightarrow> bool" where
  "is_decimal s len \<longleftrightarrow>
     \<not> (len > 1 \<and> byte s 0 = code (CHR ''0'') \<and> byte s 1 \<noteq> code (CHR ''.'')) \<and>
     \<not> (len > 2 \<and> take 2 s = ''-0'' \<and> byte s 2 \<noteq> code (CHR ''.'')) \<and>
     (\<forall>c \<in> set (take len s). c \<noteq> CHR ''x'' \<and> c \<noteq> CHR ''X'')"

definition parse_number_value :: "bool \<Rightarrow> string \<Rightarrow> (json \<times> string) option c" where
  "parse_number_value mem s =
     (case strtod s of (number, end, _) \<Rightarrow>
        Inr (if is_decimal s (length s - length end) then value_at (json_value_init_number mem number) end else None))"

definition parse_null_value :: "bool \<Rightarrow> string \<Rightarrow> (json \<times> string) option c" where
  "parse_null_value mem s = Inr (if take 4 s = ''null'' then value_at (json_value_init_null mem) (drop 4 s) else None)"

lemma init_memory [simp]:
  "json_value_init_string_no_copy True s = Some (JSONString s)" "json_value_init_boolean True b = Some (JSONBoolean (b \<noteq> 0))"
  "json_value_init_number True x = Some (JSONNumber x)" "json_value_init_null True = Some JSONNull"
  by (simp_all add: json_value_init_string_no_copy_def json_value_init_boolean_def json_value_init_number_def json_value_init_null_def)

lemma value_at_simps [simp]: "value_at (Some v) r = Some (v, r)" "value_at x r = Some (v, s) \<longleftrightarrow> x = Some v \<and> s = r"
  by (auto simp: value_at_def)

section \<open>Recursive descent\<close>

lemma pbind_cong [fundef_cong]:
  "m = m' \<Longrightarrow> (\<And>x. m' = Inr (Some x) \<Longrightarrow> f x = g x) \<Longrightarrow> pbind m f = pbind m' g"
  by (auto simp: pbind_def intro!: cbind_cong split: option.split)

function parse_value :: "bool \<Rightarrow> nat \<Rightarrow> string \<Rightarrow> (json \<times> string) option c"
  and parse_object_value :: "bool \<Rightarrow> nat \<Rightarrow> string \<Rightarrow> (json \<times> string) option c"
  and parse_array_value :: "bool \<Rightarrow> nat \<Rightarrow> string \<Rightarrow> (json \<times> string) option c"
  and parse_members :: "bool \<Rightarrow> nat \<Rightarrow> jobject \<Rightarrow> string \<Rightarrow> (jobject \<times> string) option c"
  and parse_items :: "bool \<Rightarrow> nat \<Rightarrow> jarray \<Rightarrow> string \<Rightarrow> (jarray \<times> string) option c"
where
  "parse_value mem nesting str =
     (if nesting > MAX_NESTING then Inr None
      else let s = SKIP_WHITESPACES str in
        if s = [] then Inr None
        else if hd s = CHR ''{'' then parse_object_value mem (nesting + 1) s
        else if hd s = CHR ''['' then parse_array_value mem (nesting + 1) s
        else if hd s = CHR 0x22 then parse_string_value mem s
        else if hd s = CHR ''f'' \<or> hd s = CHR ''t'' then parse_boolean_value mem s
        else if hd s = CHR ''-'' \<or> isdigit (hd s) then parse_number_value mem s
        else if hd s = CHR ''n'' then parse_null_value mem s
        else Inr None)"
| "parse_object_value mem nesting s =
     (case json_value_init_object mem of
        None \<Rightarrow> Inr None
      | Some output_object \<Rightarrow>
          if \<not> looking_at (CHR ''{'') s then Inr None
          else let s1 = SKIP_WHITESPACES (tl s) in
            if looking_at (CHR ''}'') s1 then Inr (Some (JSONObject (fst output_object) (snd output_object), tl s1))
            else pbind (parse_members mem nesting output_object s1) (\<lambda>(obj, s2).
              let s3 = SKIP_WHITESPACES s2 in
              if \<not> looking_at (CHR ''}'') s3 then Inr None
              else pbind (status (json_object_resize mem obj (json_object_get_count obj))) (\<lambda>obj1.
                Inr (Some (JSONObject (fst obj1) (snd obj1), tl s3)))))"
| "parse_array_value mem nesting s =
     (case json_value_init_array mem of
        None \<Rightarrow> Inr None
      | Some output_array \<Rightarrow>
          if \<not> looking_at (CHR ''['') s then Inr None
          else let s1 = SKIP_WHITESPACES (tl s) in
            if looking_at (CHR '']'') s1 then Inr (Some (JSONArray (fst output_array) (snd output_array), tl s1))
            else pbind (parse_items mem nesting output_array s1) (\<lambda>(arr, s2).
              let s3 = SKIP_WHITESPACES s2 in
              if \<not> looking_at (CHR '']'') s3 then Inr None
              else pbind (status (json_array_resize mem arr (json_array_get_count arr))) (\<lambda>arr1.
                Inr (Some (JSONArray (fst arr1) (snd arr1), tl s3)))))"
| "parse_members mem nesting obj s =
     (if s = [] then Inr (Some (obj, s))
      else pbind (get_quoted_string mem s) (\<lambda>(new_key, s1).
        let s2 = SKIP_WHITESPACES s1 in
        if \<not> looking_at (CHR '':'') s2 then Inr None
        else pbind (parse_value mem nesting (tl s2)) (\<lambda>(new_value, s3).
          pbind (status (json_object_add mem obj new_key new_value)) (\<lambda>obj1.
            let s4 = SKIP_WHITESPACES s3 in
            if \<not> looking_at (CHR '','') s4 then Inr (Some (obj1, s4))
            else parse_members mem nesting obj1 (SKIP_WHITESPACES (tl s4))))))"
| "parse_items mem nesting arr s =
     (if s = [] then Inr (Some (arr, s))
      else pbind (parse_value mem nesting s) (\<lambda>(new_value, s1).
        pbind (status (json_array_add mem arr new_value)) (\<lambda>arr1.
          let s2 = SKIP_WHITESPACES s1 in
          if \<not> looking_at (CHR '','') s2 then Inr (Some (arr1, s2))
          else parse_items mem nesting arr1 (SKIP_WHITESPACES (tl s2)))))"
  by pat_completeness auto

section \<open>Termination: the rest is never longer\<close>

lemma pbind_simps [simp]: "pbind (Inr (Some x)) f = f x" "pbind (Inr None) f = Inr None" "pbind (Inl e) f = Inl e"
  by (simp_all add: pbind_def)

lemma pbind_eq_Some: "pbind m f = Inr (Some y) \<longleftrightarrow> (\<exists>x. m = Inr (Some x) \<and> f x = Inr (Some y))"
  by (cases m) (auto simp: pbind_def split: option.splits)

lemma status_eq_Some [simp]: "status r = Inr (Some x) \<longleftrightarrow> r = (True, x)"
  by (cases r) (simp add: status_def)

lemma skip_ws_length: "length (SKIP_WHITESPACES s) \<le> length s"
  by (simp add: SKIP_WHITESPACES_def length_dropWhile_le)

lemma looking_at_Cons [simp]: "looking_at c (x # xs) \<longleftrightarrow> x = c"
  by (simp add: looking_at_def)

lemma looking_at_Nil [simp]: "\<not> looking_at c []"
  by (simp add: looking_at_def)

lemma looking_atE: "looking_at c s \<Longrightarrow> (\<And>r. s = c # r \<Longrightarrow> P) \<Longrightarrow> P"
  by (cases s) auto

lemma skip_to_quote_length: "skip_to_quote s = Some r \<Longrightarrow> length r < length s"
  by (induction s rule: skip_to_quote.induct) (auto split: if_splits list.splits)

lemma skip_to_quote_suffix: "skip_to_quote s = Some r \<Longrightarrow> suffix r s"
  by (induction s rule: skip_to_quote.induct) (auto split: if_splits list.splits intro: suffix_ConsI)

lemma skip_quotes_length: "skip_quotes s = Some r \<Longrightarrow> Suc (length r) < length s"
  by (auto simp: skip_quotes_def split: if_splits elim!: looking_atE dest: skip_to_quote_length)

lemma get_quoted_string_rest: "get_quoted_string mem s = Inr (Some (str, r)) \<Longrightarrow> skip_quotes s = Some r"
  by (auto simp: get_quoted_string_def pbind_eq_Some split: option.splits)

lemma scan_exp_suffix: "scan_exp e s = (v, r) \<Longrightarrow> suffix r s"
  by (cases s) (auto simp: scan_exp_def Let_def suffix_ConsI suffix_dropWhile intro: suffix_order.trans [OF suffix_dropWhile]
      intro!: suffix_ConsI suffix_order.trans [OF suffix_dropWhile suffix_tl] split: if_splits)

lemma split_frac_suffix:
  assumes "split_frac isd s = (ip, fr, r)"
  shows "suffix r s"
proof (cases "dropWhile isd s")
  case Nil
  then show ?thesis using assms unfolding split_frac_def Let_def Nil by simp
next
  case (Cons c cs)
  then have "suffix (c # cs) s" by (metis suffix_dropWhile)
  moreover have "r = c # cs \<or> r = dropWhile isd cs" using assms Cons by (simp add: split_frac_def Let_def split: if_splits)
  moreover have "suffix (dropWhile isd cs) (c # cs)" by (simp add: suffix_ConsI suffix_dropWhile)
  ultimately show ?thesis by (auto intro: suffix_order.trans)
qed

lemma scan_decimal_suffix: "scan_decimal s = Some (x, r) \<Longrightarrow> suffix r s"
  by (auto simp: scan_decimal_def Let_def split: prod.splits if_splits dest!: scan_exp_suffix split_frac_suffix intro: suffix_order.trans)

lemma scan_hex_suffix: "scan_hex s = Some (x, r) \<Longrightarrow> suffix r s"
  by (auto simp: scan_hex_def Let_def split: prod.splits if_splits dest!: scan_exp_suffix split_frac_suffix intro: suffix_order.trans)

lemma nan_rest_suffix: "suffix (nan_rest s) s"
  by (auto simp: nan_rest_def Let_def suffix_drop tl_drop drop_Suc [symmetric] simp flip: drop_Suc)

lemma scan_number_rest:
  assumes "scan_number s = (v, r)"
  shows "suffix r s"
proof -
  let ?u = "dropWhile isspace s"
  define t where "t = (if ?u \<noteq> [] \<and> (hd ?u = CHR ''-'' \<or> hd ?u = CHR ''+'') then tl ?u else ?u)"
  have t: "suffix t s"
    using suffix_dropWhile [of isspace s] suffix_order.trans [OF suffix_tl suffix_dropWhile] by (auto simp: t_def)
  have "r \<in> {s, drop 8 t, drop 3 t, nan_rest (drop 3 t)} \<or> (\<exists>x. scan_hex (drop 2 t) = Some (x, r)) \<or> (\<exists>x. scan_decimal t = Some (x, r))"
    using assms unfolding scan_number_def Let_def t_def [symmetric]
    by (simp split: if_split_asm option.split_asm prod.split_asm)
  moreover have d: "suffix x (drop k t) \<Longrightarrow> suffix x s" for x k using t suffix_drop suffix_order.trans by blast
  ultimately show ?thesis
    using t by (auto dest!: scan_hex_suffix scan_decimal_suffix intro: d [OF nan_rest_suffix] d [OF suffix_order.refl] d suffix_order.trans)
qed

lemma strtod_suffix: "strtod s = (v, r, e) \<Longrightarrow> suffix r s"
  by (auto simp: strtod_def strto_fp_def split: prod.splits scanned.splits fp.splits dest!: scan_number_rest)

lemma strtod_length: "strtod s = (v, r, e) \<Longrightarrow> length r \<le> length s"
  by (simp add: suffix_length_le strtod_suffix)

lemma scalar_rest_length:
  "parse_string_value mem s = Inr (Some (v, r)) \<Longrightarrow> length r \<le> length s"
  "parse_boolean_value mem s = Inr (Some (v, r)) \<Longrightarrow> length r \<le> length s"
  "parse_number_value mem s = Inr (Some (v, r)) \<Longrightarrow> length r \<le> length s"
  "parse_null_value mem s = Inr (Some (v, r)) \<Longrightarrow> length r \<le> length s"
  by (auto simp: parse_string_value_def parse_boolean_value_def parse_number_value_def parse_null_value_def
      pbind_eq_Some split: if_splits prod.splits dest!: get_quoted_string_rest skip_quotes_length strtod_length)

lemma tl_skip_ws: "looking_at c (SKIP_WHITESPACES s) \<Longrightarrow> length (tl (SKIP_WHITESPACES s)) < length s"
  using skip_ws_length [of s] by (auto elim!: looking_atE)

lemma next_round_length:
  assumes "if looking_at c (SKIP_WHITESPACES s) then Q else r = SKIP_WHITESPACES s"
    and "looking_at c (SKIP_WHITESPACES s) \<Longrightarrow> Q \<Longrightarrow> length r \<le> length (SKIP_WHITESPACES (tl (SKIP_WHITESPACES s)))"
  shows "length r \<le> length s"
  using assms skip_ws_length [of s] skip_ws_length [of "tl (SKIP_WHITESPACES s)"] tl_skip_ws [of c s]
  by (cases "looking_at c (SKIP_WHITESPACES s)") auto

lemma parse_rest_length:
  "parse_value_parse_object_value_parse_array_value_parse_members_parse_items_dom (Inl (Inl (mem, nesting, s))) \<Longrightarrow>
     \<forall>v r. parse_value mem nesting s = Inr (Some (v, r)) \<longrightarrow> length r \<le> length s"
  "parse_value_parse_object_value_parse_array_value_parse_members_parse_items_dom (Inl (Inr (mem, nesting, s))) \<Longrightarrow>
     \<forall>v r. parse_object_value mem nesting s = Inr (Some (v, r)) \<longrightarrow> length r \<le> length s"
  "parse_value_parse_object_value_parse_array_value_parse_members_parse_items_dom (Inr (Inl (mem, nesting, s))) \<Longrightarrow>
     \<forall>v r. parse_array_value mem nesting s = Inr (Some (v, r)) \<longrightarrow> length r \<le> length s"
  "parse_value_parse_object_value_parse_array_value_parse_members_parse_items_dom (Inr (Inr (Inl (mem, nesting, obj, s)))) \<Longrightarrow>
     \<forall>v r. parse_members mem nesting obj s = Inr (Some (v, r)) \<longrightarrow> length r \<le> length s"
  "parse_value_parse_object_value_parse_array_value_parse_members_parse_items_dom (Inr (Inr (Inr (mem, nesting, arr, s)))) \<Longrightarrow>
     \<forall>v r. parse_items mem nesting arr s = Inr (Some (v, r)) \<longrightarrow> length r \<le> length s"
proof (induction rule: parse_value_parse_object_value_parse_array_value_parse_members_parse_items.pinduct)
  case (1 mem nesting str)
  let ?s = "SKIP_WHITESPACES str"
  show ?case
    using 1(2,3) skip_ws_length [of str] unfolding parse_value.psimps [OF 1(1)] Let_def
    by (auto split: if_splits dest: scalar_rest_length)
next
  case (2 mem nesting s)
  have "length r \<le> length s" if "parse_object_value mem nesting s = Inr (Some (v, r))" for v r
    using that 2(2) tl_skip_ws [of _ "tl s"] skip_ws_length [of "tl s"] unfolding parse_object_value.psimps [OF 2(1)] Let_def
    by (force split: if_split_asm option.split_asm simp: pbind_eq_Some dest: tl_skip_ws)
  then show ?case by blast
next
  case (3 mem nesting s)
  have "length r \<le> length s" if "parse_array_value mem nesting s = Inr (Some (v, r))" for v r
    using that 3(2) tl_skip_ws [of _ "tl s"] skip_ws_length [of "tl s"] unfolding parse_array_value.psimps [OF 3(1)] Let_def
    by (force split: if_split_asm option.split_asm simp: pbind_eq_Some dest: tl_skip_ws)
  then show ?case by blast
next
  case (4 mem nesting obj s)
  have "length r \<le> length s" if eq: "parse_members mem nesting obj s = Inr (Some (v, r))" and "s \<noteq> []" for v r
  proof -
    from that obtain key s1 val s3 obj1 where k: "get_quoted_string mem s = Inr (Some (key, s1))" "looking_at (CHR '':'') (SKIP_WHITESPACES s1)"
      and v: "parse_value mem nesting (tl (SKIP_WHITESPACES s1)) = Inr (Some (val, s3))"
      and a: "json_object_add mem obj key val = (True, obj1)"
      and r: "if looking_at (CHR '','') (SKIP_WHITESPACES s3) then parse_members mem nesting obj1 (SKIP_WHITESPACES (tl (SKIP_WHITESPACES s3))) = Inr (Some (v, r))
         else r = SKIP_WHITESPACES s3"
      unfolding parse_members.psimps [OF 4(1)] Let_def by (auto simp: pbind_eq_Some split: if_split_asm)
    have "length s3 < length s1" using 4(2) [OF \<open>s \<noteq> []\<close> k(1) refl refl] k(2) v tl_skip_ws [OF k(2)] by force
    moreover have "length s1 < length s" using skip_quotes_length [OF get_quoted_string_rest [OF k(1)]] by simp
    moreover have "length r \<le> length s3"
      using r by (rule next_round_length) (use 4(3) [OF \<open>s \<noteq> []\<close> k(1) refl refl _ v refl _ refl] a k(2) in simp)
    ultimately show ?thesis by simp
  qed
  then show ?case using parse_members.psimps [OF 4(1)] by fastforce
next
  case (5 mem nesting arr s)
  have "length r \<le> length s" if eq: "parse_items mem nesting arr s = Inr (Some (v, r))" and "s \<noteq> []" for v r
  proof -
    from that obtain val s3 arr1 where v: "parse_value mem nesting s = Inr (Some (val, s3))"
      and a: "json_array_add mem arr val = (True, arr1)"
      and r: "if looking_at (CHR '','') (SKIP_WHITESPACES s3) then parse_items mem nesting arr1 (SKIP_WHITESPACES (tl (SKIP_WHITESPACES s3))) = Inr (Some (v, r))
         else r = SKIP_WHITESPACES s3"
      unfolding parse_items.psimps [OF 5(1)] Let_def by (auto simp: pbind_eq_Some split: if_split_asm)
    have "length r \<le> length s3"
      using r by (rule next_round_length) (use 5(3) [OF \<open>s \<noteq> []\<close> v refl _ refl] a in simp)
    then show ?thesis using 5(2) [OF \<open>s \<noteq> []\<close>] v by force
  qed
  then show ?case using parse_items.psimps [OF 5(1)] by fastforce
qed

termination parse_value
proof (relation "measures
    [\<lambda>x. case x of Inl (Inl (mem, n, s)) \<Rightarrow> length s | Inl (Inr (mem, n, s)) \<Rightarrow> length s | Inr (Inl (mem, n, s)) \<Rightarrow> length s
       | Inr (Inr (Inl (mem, n, obj, s))) \<Rightarrow> length s | Inr (Inr (Inr (mem, n, arr, s))) \<Rightarrow> length s,
     \<lambda>x. case x of Inl (Inl _) \<Rightarrow> 1 | Inl (Inr _) \<Rightarrow> 0 | Inr (Inl _) \<Rightarrow> 0 | Inr (Inr _) \<Rightarrow> (2 :: nat)]", goal_cases)
  case (2 mem nesting str x)
  then show ?case using skip_ws_length [of str] by auto
next
  case (3 mem nesting str x)
  then show ?case using skip_ws_length [of str] by auto
next
  case (4 mem nesting s x2 x)
  then show ?case using skip_ws_length [of "tl s"] by (auto elim!: looking_atE)
next
  case (5 mem nesting s x2 x)
  then show ?case using skip_ws_length [of "tl s"] by (auto elim!: looking_atE)
next
  case (6 mem nesting obj s x a b xa)
  then have "length (tl xa) < length b" "Suc (length b) < length s"
    using tl_skip_ws [of _ b] skip_quotes_length [OF get_quoted_string_rest, of mem s a b] by blast+
  then show ?case by simp
next
  case (7 mem nesting obj s x a b xa xb aa ba xc xd)
  then have "length ba \<le> length (tl xa)" using parse_rest_length(1) by metis
  moreover have "length (tl xa) < length b" "Suc (length b) < length s" "length (tl xd) < length ba"
    using 7 tl_skip_ws [of _ b] skip_quotes_length [OF get_quoted_string_rest, of mem s a b] tl_skip_ws [of _ ba] by blast+
  ultimately show ?case using skip_ws_length [of "tl xd"] by simp
next
  case (9 mem nesting arr s x a b xa xb)
  then have "length b \<le> length s" using parse_rest_length(1) by metis
  moreover have "length (tl xb) < length b" using 9 tl_skip_ws [of _ b] by blast
  ultimately show ?case using skip_ws_length [of "tl xb"] by simp
qed simp_all

declare parse_value.simps [simp del] parse_object_value.simps [simp del] parse_array_value.simps [simp del]
  parse_members.simps [simp del] parse_items.simps [simp del]

lemmas parse_induct = parse_value_parse_object_value_parse_array_value_parse_members_parse_items.induct

definition json_parse_string :: "bool \<Rightarrow> string option \<Rightarrow> json option c" where
  "json_parse_string mem str =
     (case str of None \<Rightarrow> Inr None | Some s \<Rightarrow> pbind (parse_value mem 0 s) (\<lambda>(v, _). Inr (Some v)))"

section \<open>Comments\<close>

text \<open>Comments are overwritten with blanks in a copy of the text; one that is not closed loses only its start.\<close>

function remove_comments :: "string \<Rightarrow> string \<Rightarrow> bool \<Rightarrow> bool \<Rightarrow> string \<Rightarrow> string" where
  "remove_comments start_token end_token in_string escaped s =
     (if start_token = [] \<or> end_token = [] \<or> s = [] then s
      else if hd s = CHR 0x5C \<and> \<not> escaped then hd s # remove_comments start_token end_token in_string True (tl s)
      else if hd s = CHR 0x22 \<and> \<not> escaped then hd s # remove_comments start_token end_token (\<not> in_string) False (tl s)
      else if \<not> in_string \<and> take (length start_token) s = start_token then
        (let body = drop (length start_token) s
         in replicate (length start_token) (CHR '' '') @
            (case strstr body end_token of
               None \<Rightarrow> body
             | Some p \<Rightarrow> replicate (length body - length p + length end_token) (CHR '' '') @
                 remove_comments start_token end_token in_string False (drop (length end_token) p)))
      else hd s # remove_comments start_token end_token in_string False (tl s))"
  by pat_completeness auto

lemma strstr_length: "strstr s n = Some t \<Longrightarrow> length t \<le> length s"
  by (drule strstr_Some) auto

termination remove_comments
proof (relation "measure (\<lambda>(_, _, _, _, s). length s)", goal_cases)
  case (4 start_token end_token in_string escaped s x p)
  then show ?case using strstr_length [of x end_token p] by (cases s; cases end_token) auto
qed simp_all

declare remove_comments.simps [simp del]

definition json_parse_string_with_comments :: "bool \<Rightarrow> string \<Rightarrow> json option c" where
  "json_parse_string_with_comments mem s =
     (if \<not> mem then Inr None
      else pbind (parse_value mem 0 (remove_comments ''//'' ''\<newline>'' False False (remove_comments ''/*'' ''*/'' False False s)))
             (\<lambda>(v, _). Inr (Some v)))"

section \<open>Arrays are bounded stores\<close>

definition wf_array :: "jarray \<Rightarrow> bool" where
  "wf_array arr \<longleftrightarrow> (fst arr = 0 \<or> (\<exists>i \<le> 13. fst arr = 15 * 2 ^ i)) \<and> length (snd arr) \<le> fst arr"

lemma pow13: "(i :: nat) \<le> 13 \<Longrightarrow> 15 * 2 ^ i \<le> (122880 :: nat)"
  using power_increasing [of i 13 "2 :: nat"] by simp

lemma array_grows:
  assumes "wf_array arr" "length (snd arr) \<ge> fst arr"
  shows "max (fst arr * 2) STARTING_CAPACITY > ARRAY_MAX_CAPACITY \<and> length (snd arr) = 122880 \<or>
    max (fst arr * 2) STARTING_CAPACITY \<le> ARRAY_MAX_CAPACITY \<and> length (snd arr) < 122880 \<and>
    length (snd arr) < max (fst arr * 2) STARTING_CAPACITY \<and> (\<exists>i \<le> 13. max (fst arr * 2) STARTING_CAPACITY = 15 * 2 ^ i)"
proof (cases "fst arr = 0")
  case True
  then show ?thesis using assms
    by (auto simp: wf_array_def ARRAY_MAX_CAPACITY_def STARTING_CAPACITY_def intro: exI [where x = 0])
next
  case False
  then obtain i where i: "i \<le> 13" "fst arr = 15 * 2 ^ i" using assms by (auto simp: wf_array_def)
  have m: "max (fst arr * 2) STARTING_CAPACITY = 15 * 2 ^ Suc i" using i by (simp add: STARTING_CAPACITY_def)
  have len: "length (snd arr) = 15 * 2 ^ i" using assms i by (simp add: wf_array_def)
  show ?thesis
  proof (cases "i = 13")
    case False
    then have "(2 :: nat) ^ Suc i \<le> 2 ^ 13" using i by (intro power_increasing) auto
    then show ?thesis using False i m len by (intro disjI2) (auto simp: ARRAY_MAX_CAPACITY_def intro!: exI [where x = "Suc i"])
  qed (simp add: m len ARRAY_MAX_CAPACITY_def)
qed

lemma wf_array_init [simp]: "wf_array json_array_init"
  by (simp add: wf_array_def json_array_init_def)

lemma array_add_cases:
  assumes "wf_array arr"
  shows "length (snd arr) < 122880 \<Longrightarrow> fst (json_array_add True arr v) \<and> snd (snd (json_array_add True arr v)) = snd arr @ [v]"
    and "122880 \<le> length (snd arr) \<Longrightarrow> json_array_add True arr v = (False, arr)"
    and "wf_array (snd (json_array_add True arr v))"
    and "length (snd arr) \<le> 122880"
proof -
  have len: "length (snd arr) \<le> fst arr" "fst arr \<le> 122880" using assms pow13 by (auto simp: wf_array_def)
  then show "length (snd arr) \<le> 122880" by simp
  show "length (snd arr) < 122880 \<Longrightarrow> fst (json_array_add True arr v) \<and> snd (snd (json_array_add True arr v)) = snd arr @ [v]"
    using array_grows [OF assms] by (auto simp: json_array_add_def json_array_resize_def Let_def STARTING_CAPACITY_def)
  show "122880 \<le> length (snd arr) \<Longrightarrow> json_array_add True arr v = (False, arr)"
    using array_grows [OF assms] len by (auto simp: json_array_add_def Let_def)
  show "wf_array (snd (json_array_add True arr v))"
    using array_grows [OF assms] assms by (auto simp: json_array_add_def json_array_resize_def Let_def wf_array_def)
qed

interpretation ja: bounded_store "json_array_add True" snd "\<lambda>_. 122880" "\<lambda>_ _. True" wf_array
  by unfold_locales (simp_all add: array_add_cases)

section \<open>Safety\<close>

text \<open>A step free of undefined behaviour whose result, if it is not NULL, satisfies \<open>Q\<close>.\<close>

definition gives :: "('a \<Rightarrow> bool) \<Rightarrow> 'a option c \<Rightarrow> bool" where
  "gives Q m \<longleftrightarrow> (\<exists>r. m = Inr r \<and> (\<forall>x. r = Some x \<longrightarrow> Q x))"

lemma gives_simps [simp]: "gives Q (Inr None)" "gives Q (Inr (Some x)) \<longleftrightarrow> Q x" "\<not> gives Q (Inl e)"
  by (auto simp: gives_def)

lemma gives_pbind: "gives R m \<Longrightarrow> (\<And>x. m = Inr (Some x) \<Longrightarrow> R x \<Longrightarrow> gives Q (f x)) \<Longrightarrow> gives Q (pbind m f)"
  by (cases m) (auto simp: gives_def pbind_def split: option.splits)

lemma gives_status: "(\<And>x. r = (True, x) \<Longrightarrow> Q x) \<Longrightarrow> gives Q (status r)"
  by (cases r) (auto simp: status_def)

lemma xdigit_no_quote: "isxdigit c \<Longrightarrow> c \<noteq> CHR 0x22"
  by (auto simp: isxdigit_def isdigit_def tolower_def isupper_def code_def)

lemma hex_no_quote: "is_utf16_hex s \<Longrightarrow> CHR 0x22 \<notin> set (take 4 s)"
  by (auto simp: is_utf16_hex_def list_all_iff dest: xdigit_no_quote)

lemma utf8_bytes_length: "length (utf8_bytes cp) \<le> 4"
  by (simp add: utf8_bytes_def)

lemma parse_utf_16_consumes:
  assumes "parse_utf_16 (CHR ''u'' # s) = Some (out, rest)"
  shows "\<exists>k. rest = drop k s \<and> k \<le> length s \<and> length out \<le> k \<and> CHR 0x22 \<notin> set (take k s)"
proof -
  have l: "4 \<le> length s" "CHR 0x22 \<notin> set (take 4 s)"
    using assms hex_no_quote [of s] by (auto simp: parse_utf_16_def Let_def is_utf16_hex_def split: if_splits)
  show ?thesis
  proof (cases "rest = drop 4 s")
    case True
    then show ?thesis using assms l utf8_bytes_length by (auto simp: parse_utf_16_def Let_def split: if_splits intro!: exI [where x = 4])
  next
    case False
    then have r: "rest = drop 10 s" "length out \<le> 4" "looking_at (CHR 0x5C) (drop 4 s)" "looking_at (CHR ''u'') (drop 5 s)"
      "is_utf16_hex (drop 6 s)"
      using assms utf8_bytes_length by (auto simp: parse_utf_16_def Let_def split: if_splits)
    have "take 10 s = take 4 s @ take 2 (drop 4 s) @ take 4 (drop 6 s)"
      using take_add [of 6 4 s] take_add [of 4 2 s] by simp
    moreover have "take 2 (drop 4 s) = [CHR 0x5C, CHR ''u'']"
      using r(3,4) by (cases "drop 4 s"; cases "tl (drop 4 s)") (auto simp: numeral_2_eq_2 tl_drop eval_nat_numeral drop_Suc)
    ultimately show ?thesis using r l hex_no_quote [OF r(5)] by (intro exI [where x = 10]) (auto simp: is_utf16_hex_def)
  qed
qed

text \<open>
  What one round consumes: it writes no more than it reads, and it stops short of the closing quote at
  position \<open>n\<close> unless that quote is escaped.
\<close>

lemma process_char_consumes:
  assumes "process_char input = Some (out, rest)" "0 < n" "n < length input" "input ! n = CHR 0x22"
  shows "\<exists>k. rest = drop k input \<and> k \<le> length input \<and> length out + (n - k) \<le> n"
proof -
  obtain c s where i: "input = c # s" using assms(3) by (cases input) auto
  have q: "CHR 0x22 = s ! (n - 1)" "n - 1 < length s" using assms(2-4) by (auto simp: i nth_Cons')
  consider (u) s' where "c = CHR 0x5C" "s = CHR ''u'' # s'" "parse_utf_16 s = Some (out, rest)"
    | (esc) x where "out = [x]" "rest = drop 2 input" "s \<noteq> []"
    | (plain) x where "out = [x]" "rest = s"
    using assms(1) by (auto simp: process_char_def i split: if_splits elim!: looking_atE)
  then show ?thesis
  proof cases
    case u
    then obtain k where k: "rest = drop k s'" "k \<le> length s'" "length out \<le> k" "CHR 0x22 \<notin> set (take k s')"
      using parse_utf_16_consumes by blast
    have "n \<ge> k + 2"
    proof (rule ccontr)
      assume "\<not> n \<ge> k + 2"
      moreover have "n \<noteq> 1" using q u(2) by auto
      ultimately have "n - 2 < k" "s' ! (n - 2) = CHR 0x22" using q u(2) assms(2) by (auto simp: nth_Cons' numeral_2_eq_2)
      then show False using k(2,4) by (auto simp: in_set_conv_nth)
    qed
    then show ?thesis using k u i by (intro exI [where x = "k + 2"]) auto
  next
    case esc
    then show ?thesis using i assms(2) by (intro exI [where x = 2]) (auto simp: Suc_le_eq)
  next
    case plain
    then show ?thesis using i assms(2) by (intro exI [where x = 1]) auto
  qed
qed

lemma process_chars_safe:
  "n < length input \<Longrightarrow> input ! n = CHR 0x22 \<Longrightarrow> n < room \<Longrightarrow> \<exists>r. process_chars True n room input = Inr r"
proof (induction True n room input rule: process_chars.induct)
  case (1 n room input)
  show ?case
  proof (cases "n = 0 \<or> process_char input = None")
    case False
    then obtain out rest where step: "process_char input = Some (out, rest)" "input \<noteq> []" "n \<noteq> 0" using 1(2) by force
    then obtain k where k: "rest = drop k input" "k \<le> length input" "length out + (n - k) \<le> n"
      using process_char_consumes [OF step(1)] 1(2,3) by auto
    have "\<exists>r. process_chars True (n - k) (room - length out) rest = Inr r"
    proof (cases "k \<le> n")
      case True
      with k step 1(2-4) show ?thesis
        using 1(1) [of "(out, rest)" out rest] by (auto simp: nth_drop)
    next
      case False
      then show ?thesis using k 1(4) by (subst process_chars.simps) auto
    qed
    then show ?thesis using step k 1(4) by (subst process_chars.simps) (auto simp: pbind_def split: option.split)
  qed (use 1(2,4) in \<open>subst process_chars.simps; auto\<close>)
qed

lemma skip_to_quote_at: "skip_to_quote s = Some r \<Longrightarrow> \<exists>n. n < length s \<and> s ! n = CHR 0x22 \<and> length s = n + Suc (length r)"
proof (induction s rule: skip_to_quote.induct)
  case (2 c cs)
  show ?case
  proof (cases "c = CHR 0x22")
    case False
    show ?thesis
    proof (cases "c = CHR 0x5C")
      case True
      with 2 False obtain d ds where d: "cs = d # ds" "skip_to_quote ds = Some r" by (auto split: list.splits)
      with 2 False True obtain n where "n < length ds" "ds ! n = CHR 0x22" "length ds = n + Suc (length r)" by auto
      then show ?thesis using d by (intro exI [where x = "Suc (Suc n)"]) simp
    next
      case False
      with 2 \<open>c \<noteq> CHR 0x22\<close> obtain n where "n < length cs" "cs ! n = CHR 0x22" "length cs = n + Suc (length r)" by auto
      then show ?thesis by (intro exI [where x = "Suc n"]) simp
    qed
  qed (use 2 in auto)
qed simp

lemma get_quoted_string_safe: "gives (\<lambda>(str, r). CHR 0x00 \<notin> set str) (get_quoted_string True s)"
proof (cases "skip_quotes s")
  case (Some r)
  then obtain t where s: "s = CHR 0x22 # t" and "skip_to_quote t = Some r" by (auto simp: skip_quotes_def split: if_splits elim!: looking_atE)
  then obtain n where n: "n < length t" "t ! n = CHR 0x22" "length t = n + Suc (length r)" using skip_to_quote_at by blast
  obtain res where "process_chars True n (n + 1) t = Inr res" using process_chars_safe [OF n(1,2)] by auto
  then show ?thesis using Some s n
    by (cases res) (auto simp: get_quoted_string_def process_string_def dest: set_takeWhileD)
qed (simp add: get_quoted_string_def)

text \<open>
  Values that the serializer prints and the parser accepts at depth \<open>n\<close>: bounded nesting, containers
  within their limits, distinct names, no zero byte inside a string.
\<close>

fun printable :: "nat \<Rightarrow> json \<Rightarrow> bool" where
  "printable n (JSONString s) \<longleftrightarrow> n \<le> MAX_NESTING \<and> CHR 0x00 \<notin> set s"
| "printable n (JSONArray cap vs) \<longleftrightarrow> n \<le> MAX_NESTING \<and> length vs \<le> ARRAY_MAX_CAPACITY \<and> (\<forall>v \<in> set vs. printable (Suc n) v)"
| "printable n (JSONObject cap kvs) \<longleftrightarrow> n \<le> MAX_NESTING \<and> length kvs \<le> OBJECT_MAX_CAPACITY \<and> distinct (map fst kvs) \<and>
     (\<forall>kv \<in> set kvs. CHR 0x00 \<notin> set (fst kv) \<and> printable (Suc n) (snd kv))"
| "printable n _ \<longleftrightarrow> n \<le> MAX_NESTING"

text \<open>Containers whose capacity is the number of their items, as the parser leaves them.\<close>

fun trimmed :: "json \<Rightarrow> bool" where
  "trimmed (JSONArray cap vs) \<longleftrightarrow> cap = length vs \<and> (\<forall>v \<in> set vs. trimmed v)"
| "trimmed (JSONObject cap kvs) \<longleftrightarrow> cap = length kvs \<and> (\<forall>kv \<in> set kvs. trimmed (snd kv))"
| "trimmed _ \<longleftrightarrow> True"

definition parsed :: "nat \<Rightarrow> json \<Rightarrow> bool" where
  "parsed n v \<longleftrightarrow> printable n v \<and> trimmed v"

text \<open>Containers under construction, with items at depth \<open>n\<close>.\<close>

definition open_object :: "nat \<Rightarrow> jobject \<Rightarrow> bool" where
  "open_object n obj \<longleftrightarrow> wf_object obj \<and> distinct (map fst (snd obj)) \<and>
     (\<forall>kv \<in> set (snd obj). CHR 0x00 \<notin> set (fst kv) \<and> parsed n (snd kv))"

definition open_array :: "nat \<Rightarrow> jarray \<Rightarrow> bool" where
  "open_array n arr \<longleftrightarrow> wf_array arr \<and> (\<forall>v \<in> set (snd arr). parsed n v)"

lemma object_add_True:
  "json_object_add True obj k v = (True, obj1) \<Longrightarrow> snd obj1 = snd obj @ [(k, v)] \<and> k \<notin> fst ` set (snd obj)"
  by (auto simp: json_object_add_def json_object_resize_def Let_def map_of_eq_None_iff split: if_splits)

lemma open_object_add:
  assumes "open_object n obj" "CHR 0x00 \<notin> set k" "parsed n v" "json_object_add True obj k v = (True, obj1)"
  shows "open_object n obj1"
  using assms object_add_True [OF assms(4)] wf_object_add [of obj k v] by (auto simp: open_object_def)

lemma open_array_add: "open_array n arr \<Longrightarrow> parsed n v \<Longrightarrow> json_array_add True arr v = (True, arr1) \<Longrightarrow> open_array n arr1"
  using array_add_cases(1-3) [of arr v] by (cases "length (snd arr) < 122880") (auto simp: open_array_def)

lemma close_object: "open_object (Suc n) obj \<Longrightarrow> n \<le> MAX_NESTING \<Longrightarrow> parsed n (JSONObject (length (snd obj)) (snd obj))"
  using jo.entries_limit [of obj] by (auto simp: open_object_def parsed_def OBJECT_MAX_CAPACITY_def)

lemma close_array: "open_array (Suc n) arr \<Longrightarrow> n \<le> MAX_NESTING \<Longrightarrow> parsed n (JSONArray (length (snd arr)) (snd arr))"
  using ja.entries_limit [of arr] by (auto simp: open_array_def parsed_def ARRAY_MAX_CAPACITY_def)

lemma scalars_safe:
  assumes "n \<le> MAX_NESTING"
  shows "gives (\<lambda>(v, r). parsed n v) (parse_string_value True s)"
    "gives (\<lambda>(v, r). parsed n v) (parse_boolean_value True s)"
    "gives (\<lambda>(v, r). parsed n v) (parse_number_value True s)"
    "gives (\<lambda>(v, r). parsed n v) (parse_null_value True s)"
  using assms
  by (auto simp: parse_string_value_def parse_boolean_value_def parse_number_value_def parse_null_value_def parsed_def
      split: prod.split intro!: gives_pbind [OF get_quoted_string_safe])

lemma resize_True: "json_object_resize True obj n = (True, x) \<Longrightarrow> x = (n, snd obj)"
  "json_array_resize True arr n = (True, y) \<Longrightarrow> y = (n, snd arr)"
  by (auto simp: json_object_resize_def json_array_resize_def split: if_splits)

lemma finish_object_safe:
  assumes "open_object n obj" "0 < n" "n - 1 \<le> MAX_NESTING"
  shows "gives (\<lambda>(v, r). parsed (n - 1) v) (pbind (status (json_object_resize True obj (json_object_get_count obj)))
      (\<lambda>obj1. Inr (Some (JSONObject (fst obj1) (snd obj1), r))))"
  by (rule gives_pbind [where R = "\<lambda>x. x = (length (snd obj), snd obj)", OF gives_status])
     (use assms close_object [of "n - 1" obj] in \<open>auto dest!: resize_True simp: json_object_get_count_def\<close>)

lemma finish_array_safe:
  assumes "open_array n arr" "0 < n" "n - 1 \<le> MAX_NESTING"
  shows "gives (\<lambda>(v, r). parsed (n - 1) v) (pbind (status (json_array_resize True arr (json_array_get_count arr)))
      (\<lambda>arr1. Inr (Some (JSONArray (fst arr1) (snd arr1), r))))"
  by (rule gives_pbind [where R = "\<lambda>x. x = (length (snd arr), snd arr)", OF gives_status])
     (use assms close_array [of "n - 1" arr] in \<open>auto dest!: resize_True simp: json_array_get_count_def\<close>)

lemma parsed_empty [simp]: "parsed n (JSONObject 0 []) \<longleftrightarrow> n \<le> MAX_NESTING" "parsed n (JSONArray 0 []) \<longleftrightarrow> n \<le> MAX_NESTING"
  by (auto simp: parsed_def)

lemma parse_safe:
  "mem \<Longrightarrow> gives (\<lambda>(v, r). parsed n v) (parse_value mem n s)"
  "mem \<Longrightarrow> 0 < n \<Longrightarrow> n - 1 \<le> MAX_NESTING \<Longrightarrow> gives (\<lambda>(v, r). parsed (n - 1) v) (parse_object_value mem n s)"
  "mem \<Longrightarrow> 0 < n \<Longrightarrow> n - 1 \<le> MAX_NESTING \<Longrightarrow> gives (\<lambda>(v, r). parsed (n - 1) v) (parse_array_value mem n s)"
  "mem \<Longrightarrow> open_object n obj \<Longrightarrow> gives (\<lambda>(ob, r). open_object n ob) (parse_members mem n obj s)"
  "mem \<Longrightarrow> open_array n arr \<Longrightarrow> gives (\<lambda>(ar, r). open_array n ar) (parse_items mem n arr s)"
proof (induction mem n s and mem n s and mem n s and mem n obj s and mem n arr s rule: parse_induct)
  case (1 mem nesting str)
  then show ?case by (subst parse_value.simps) (auto simp: Let_def scalars_safe)
next
  case (2 mem n s)
  have e: "open_object n json_object_init" by (simp add: open_object_def json_object_init_def wf_object_def)
  have "gives (\<lambda>(ob, r). open_object n ob) (parse_members True n json_object_init (SKIP_WHITESPACES (tl s)))"
    if "looking_at (CHR ''{'') s" "\<not> looking_at (CHR ''}'') (SKIP_WHITESPACES (tl s))"
    using 2(1) [OF _ _ refl] 2(2) e that by (simp add: json_value_init_object_def)
  note members = gives_pbind [OF this]
  show ?case using 2(2-4)
    by (subst parse_object_value.simps)
       (auto simp: Let_def json_value_init_object_def finish_object_safe [simplified] json_object_init_def intro!: members [unfolded json_object_init_def])
next
  case (3 mem n s)
  have e: "open_array n json_array_init" by (simp add: open_array_def json_array_init_def wf_array_def)
  have "gives (\<lambda>(ob, r). open_array n ob) (parse_items True n json_array_init (SKIP_WHITESPACES (tl s)))"
    if "looking_at (CHR ''['') s" "\<not> looking_at (CHR '']'') (SKIP_WHITESPACES (tl s))"
    using 3(1) [OF _ _ refl] 3(2) e that by (simp add: json_value_init_array_def)
  note items = gives_pbind [OF this]
  show ?case using 3(2-4)
    by (subst parse_array_value.simps)
       (auto simp: Let_def json_value_init_array_def finish_array_safe [simplified] json_array_init_def intro!: items [unfolded json_array_init_def])
next
  case (4 mem n obj s)
  have val: "gives (\<lambda>(v, r). parsed n v) (parse_value True n (tl (SKIP_WHITESPACES s1)))"
    if "s \<noteq> []" "\<exists>k. get_quoted_string True s = Inr (Some (k, s1))" "looking_at (CHR '':'') (SKIP_WHITESPACES s1)" for s1
    using 4(1) [OF _ _ refl refl] 4(3) that by auto
  have more: "gives (\<lambda>(ob, r). open_object n ob) (parse_members True n obj1 (SKIP_WHITESPACES (tl (SKIP_WHITESPACES s3))))"
    if "s \<noteq> []" "get_quoted_string True s = Inr (Some (k, s1))" "looking_at (CHR '':'') (SKIP_WHITESPACES s1)"
      "parse_value True n (tl (SKIP_WHITESPACES s1)) = Inr (Some (v, s3))" "json_object_add True obj k v = (True, obj1)"
      "looking_at (CHR '','') (SKIP_WHITESPACES s3)" "open_object n obj1" for k s1 v s3 obj1
    using 4(2) [OF _ _ refl refl _ _ refl _ refl] 4(3) that by simp
  have add: "gives (open_object n) (status (json_object_add True obj k v))" if "CHR 0x00 \<notin> set k" "parsed n v" for k v
    using open_object_add [OF 4(4) that] by (rule gives_status)
  show ?case
    using 4(3,4) unfolding parse_members.simps [of mem n obj s] Let_def
    by (auto intro!: gives_pbind [OF get_quoted_string_safe] gives_pbind [OF val] gives_pbind [OF add])
       (blast intro: more)
next
  case (5 mem n arr s)
  have val: "gives (\<lambda>(v, r). parsed n v) (parse_value True n s)" if "s \<noteq> []" using 5(1,3) that by simp
  have more: "gives (\<lambda>(ob, r). open_array n ob) (parse_items True n arr1 (SKIP_WHITESPACES (tl (SKIP_WHITESPACES s3))))"
    if "s \<noteq> []" "parse_value True n s = Inr (Some (v, s3))" "json_array_add True arr v = (True, arr1)"
      "looking_at (CHR '','') (SKIP_WHITESPACES s3)" "open_array n arr1" for v s3 arr1
    using 5(2) [OF _ _ refl _ refl] 5(3) that by simp
  have add: "gives (open_array n) (status (json_array_add True arr v))" if "parsed n v" for v
    using open_array_add [OF 5(4) that] by (rule gives_status)
  show ?case
    using 5(3,4) unfolding parse_items.simps [of mem n arr s] Let_def
    by (auto intro!: gives_pbind [OF val] gives_pbind [OF add] intro: more)
qed

section \<open>Properties\<close>

text \<open>C13. Every input is parsed without undefined behaviour: no write leaves the buffer of a string, no read
  passes the end of the text. A value that comes back is well-formed: at most 20 levels, containers
  within their limits and trimmed, distinct names.\<close>
theorem json_parse_safe:
  "(case json_parse_string True (Some s) of Inl e \<Rightarrow> False | Inr None \<Rightarrow> True | Inr (Some v) \<Rightarrow> printable 0 v \<and> trimmed v) \<and>
   (case json_parse_string_with_comments True s of Inl e \<Rightarrow> False | Inr None \<Rightarrow> True | Inr (Some v) \<Rightarrow> printable 0 v \<and> trimmed v)"
proof -
  have "case pbind (parse_value True 0 t) (\<lambda>(v, _). Inr (Some v)) of Inl e \<Rightarrow> False | Inr None \<Rightarrow> True | Inr (Some v) \<Rightarrow> printable 0 v \<and> trimmed v" for t
  proof -
    obtain r where "parse_value True 0 t = Inr r" "\<And>v s1. r = Some (v, s1) \<Longrightarrow> printable 0 v \<and> trimmed v"
      using parse_safe(1) [of True 0 t] by (auto simp: gives_def parsed_def)
    then show ?thesis by (cases r) auto
  qed
  then show ?thesis by (simp add: json_parse_string_def json_parse_string_with_comments_def)
qed

text \<open>Three numbers that are not JSON are accepted, and one that is JSON is refused: a lone minus sign is the
  number 0, minus infinity is a number, and an exponent may not follow a leading zero.\<close>
lemma json_number_quirks:
  "json_parse_string True (Some ''-'') = Inr (Some (JSONNumber (Fin 0)))"
  "json_parse_string True (Some ''-inf'') = Inr (Some (JSONNumber (FInf True)))"
  "json_parse_string True (Some ''0e1'') = Inr None"
  by code_simp+

text \<open>Without memory a string literal is written through a NULL pointer.\<close>
lemma json_string_without_memory:
  "json_parse_string False (Some [CHR 0x22, CHR ''a'', CHR 0x22]) = Inl NullDeref"
  by code_simp

text \<open>An escaped zero byte cuts the string.\<close>
lemma json_escaped_zero:
  "json_parse_string True (Some ([CHR 0x22] @ ''a'' @ [CHR 0x5C] @ ''u0000b'' @ [CHR 0x22])) = Inr (Some (JSONString ''a''))"
  by code_simp

end
