(* ===== verification/Json_Roundtrip.thy ===== *)
theory Json_Roundtrip
  imports Json_Parser
begin

text \<open>
  The parser reads back what the serializer of \<^verbatim>\<open>src/deps/parson.c\<close> writes, compact or pretty: strings with
  their escapes, numbers with the six decimals that are printed, arrays and objects with their capacity
  trimmed to the number of items.
\<close>

section \<open>Strings\<close>

abbreviation escaped :: "string \<Rightarrow> string" where
  "escaped s \<equiv> concat (map escape_char s)"

lemma less_sixteen: "k < 16 \<Longrightarrow> k \<in> {0, 1, 2, 3, 4, 5, 6, 7, 8, 9, 10, 11, 12, 13, 14, 15 :: nat}"
  by (simp only: insert_iff empty_iff) presburger

lemma hex_digit: "k < 16 \<Longrightarrow> isxdigit (''0123456789abcdef'' ! k) \<and> xdigit_val (''0123456789abcdef'' ! k) = k"
  by (drule less_sixteen) (auto simp: isxdigit_def xdigit_val_def digit_val_def isdigit_def tolower_def isupper_def code_def)

lemma hex_lead: "k < 2 \<Longrightarrow> ''01'' ! k = ''0123456789abcdef'' ! k"
  by (auto simp: less_2_cases_iff)

lemma xdigit_plain: "isxdigit c \<Longrightarrow> c \<noteq> CHR 0x22 \<and> c \<noteq> CHR 0x5C"
  by (auto simp: isxdigit_def isdigit_def tolower_def isupper_def code_def)

lemma parse_utf_16_hex4:
  assumes "isxdigit a" "isxdigit b" "16 * xdigit_val a + xdigit_val b < 128"
  shows "parse_utf_16 (''u00'' @ [a, b] @ rest) = Some ([char_of (16 * xdigit_val a + xdigit_val b)], rest)"
proof -
  have z: "isxdigit (CHR ''0'')" "xdigit_val (CHR ''0'') = 0" using hex_digit [of 0] by simp_all
  have "scan_4x (''00'' @ [a, b] @ rest) = 16 * xdigit_val a + xdigit_val b" by (simp add: scan_4x_def z)
  moreover have "is_utf16_hex (''00'' @ [a, b] @ rest)" using assms z by (simp add: is_utf16_hex_def)
  ultimately show ?thesis using assms(3) by (simp add: parse_utf_16_def utf8_bytes_def)
qed

lemma escape_control:
  assumes "code c < 32"
  shows "process_char (hex4 (code c) @ rest) = Some ([c], rest)" "skip_to_quote (hex4 (code c) @ rest) = skip_to_quote rest"
proof -
  let ?a = "''0123456789abcdef'' ! (code c div 16)" and ?b = "''0123456789abcdef'' ! (code c mod 16)"
  have d: "code c div 16 < 2" using assms by simp
  have h: "hex4 (code c) @ rest = CHR 0x5C # ''u00'' @ [?a, ?b] @ rest" using hex_lead [OF d] by (simp add: hex4_def)
  have x: "isxdigit ?a" "xdigit_val ?a = code c div 16" "isxdigit ?b" "xdigit_val ?b = code c mod 16"
    using hex_digit [of "code c div 16"] hex_digit [of "code c mod 16"] d by auto
  then have "16 * xdigit_val ?a + xdigit_val ?b = code c" by simp
  then show "process_char (hex4 (code c) @ rest) = Some ([c], rest)"
    using parse_utf_16_hex4 [OF x(1,3)] assms by (simp add: h process_char_def) (simp add: code_def)
  show "skip_to_quote (hex4 (code c) @ rest) = skip_to_quote rest" using x xdigit_plain by (simp add: h)
qed

lemma escape_step:
  "process_char (escape_char c @ rest) = Some ([c], rest)"
  "skip_to_quote (escape_char c @ rest) = skip_to_quote rest"
proof -
  have "process_char (escape_char c @ rest) = Some ([c], rest) \<and> skip_to_quote (escape_char c @ rest) = skip_to_quote rest"
  proof (cases "code c < 32 \<and> escape_char c = hex4 (code c)")
    case True
    then show ?thesis using escape_control by simp
  next
    case False
    then show ?thesis by (auto simp: escape_char_def process_char_def unescape_def split: if_splits)
  qed
  then show "process_char (escape_char c @ rest) = Some ([c], rest)"
    "skip_to_quote (escape_char c @ rest) = skip_to_quote rest" by simp_all
qed

lemma escape_nonempty [simp]: "escape_char c \<noteq> []"
  by (simp add: escape_char_def hex4_def)

lemma escape_length: "length s \<le> length (escaped s)"
  by (induction s) (auto simp: Suc_le_eq add_strict_increasing)

lemma process_escaped:
  "length (escaped s) < room \<Longrightarrow> process_chars True (length (escaped s)) room (escaped s @ CHR 0x22 # rest) = Inr (Some s)"
proof (induction s arbitrary: room)
  case (Cons c s)
  have "1 \<le> length (escape_char c)" by (simp add: Suc_le_eq)
  then have "length (escaped s) < room - 1" using Cons.prems by simp
  from Cons.IH [OF this] show ?case using Cons.prems
    by (subst process_chars.simps) (simp add: escape_step)
qed (simp add: process_chars.simps)

lemma skip_escaped: "skip_to_quote (escaped s @ CHR 0x22 # rest) = Some rest"
  by (induction s) (simp_all add: escape_step)

lemma no_nul_id: "CHR 0x00 \<notin> set s \<Longrightarrow> takeWhile (\<lambda>c. c \<noteq> CHR 0x00) s = s"
  by (simp add: takeWhile_eq_all_conv) metis

lemma get_quoted_escaped:
  "CHR 0x00 \<notin> set s \<Longrightarrow> get_quoted_string True (CHR 0x22 # escaped s @ CHR 0x22 # rest) = Inr (Some (s, rest))"
  by (simp add: get_quoted_string_def skip_quotes_def skip_escaped process_string_def process_escaped no_nul_id)

section \<open>Numbers\<close>

text \<open>What is left of a number that was printed: at most six decimals, rounded to a \<open>double\<close>.\<close>

fun reread_number :: "fp \<Rightarrow> fp" where
  "reread_number (Fin q) = f64 ((if q < 0 then - 1 else 1) * of_int (round_half_even (\<bar>q\<bar> * 10 ^ 6)) / 10 ^ 6)"
| "reread_number x = x"

declare reread_number.simps [simp del]

text \<open>What may follow a value.\<close>

definition value_ends :: "string \<Rightarrow> bool" where
  "value_ends rest \<longleftrightarrow> rest = [] \<or> isspace (hd rest) \<or> hd rest \<in> {CHR '','', CHR '']'', CHR ''}''}"

lemma value_ends_number:
  assumes "value_ends rest"
  shows "number_ends rest" "scan_exp (CHR ''e'') rest = (0, rest)"
proof -
  have "\<not> isdigit c \<and> c \<noteq> CHR ''.'' \<and> tolower c \<noteq> CHR ''x'' \<and> tolower c \<noteq> CHR ''e''"
    if "isspace c \<or> c \<in> {CHR '','', CHR '']'', CHR ''}''}" for c
    using that by (auto simp: isspace_def isdigit_def tolower_def isupper_def code_def)
  then show "number_ends rest" "scan_exp (CHR ''e'') rest = (0, rest)"
    using assms by (cases rest; auto simp: value_ends_def number_ends_def scan_exp_def Let_def)+
qed

lemma hd_show_nat_zero: "hd (show_nat n) = CHR ''0'' \<Longrightarrow> n = 0"
proof (induction n rule: show_nat.induct)
  case (1 n)
  show ?case
  proof (cases "n < 10")
    case True
    then show ?thesis using 1(2) code_digit_char [of n] by (simp add: show_nat.simps) (simp add: code_def)
  next
    case False
    then show ?thesis using 1 by (subst (asm) (2) show_nat.simps) simp
  qed
qed

lemma code_inj: "code c = code d \<longleftrightarrow> c = d"
  by (simp add: code_def)

lemma show_nat_zero: "show_nat 0 = ''0''"
  by (simp add: show_nat.simps digit_char_def)

text \<open>The digits that \<open>strtod\<close> reads pass the test for a decimal number.\<close>

lemma is_decimal_printed:
  fixes a :: nat
  assumes "list_all isdigit fr"
  defines "t \<equiv> show_nat a @ (if fr = [] then [] else CHR ''.'' # fr)"
  shows "is_decimal (t @ rest) (length t)" "is_decimal (CHR ''-'' # t @ rest) (Suc (length t))"
proof -
  have dig: "c \<noteq> CHR ''x'' \<and> c \<noteq> CHR ''X''" if "isdigit c \<or> c = CHR ''.'' " for c
    using that by (auto simp: isdigit_def code_def)
  then have x: "\<forall>c \<in> set t. c \<noteq> CHR ''x'' \<and> c \<noteq> CHR ''X''"
    using assms(1) by (auto simp: t_def list_all_iff dest: show_nat_isdigit)
  have z: "\<not> (length t > 1 \<and> hd t = CHR ''0'' \<and> t ! 1 \<noteq> CHR ''.'')"
  proof (cases "a = 0")
    case True
    then show ?thesis by (simp add: t_def show_nat_zero)
  next
    case False
    then have "hd t \<noteq> CHR ''0''" using hd_show_nat_zero by (auto simp: t_def)
    then show ?thesis by simp
  qed
  obtain d ds where t: "t = d # ds" by (cases t) (simp add: t_def)
  then have "d = hd (show_nat a)" by (metis t_def hd_append2 list.sel(1) show_nat_nonempty)
  then have "d \<noteq> CHR ''-''" using isdigit_simps(2) [OF hd_show_nat] by simp
  note m = this
  show "is_decimal (t @ rest) (length t)"
    using x z m by (cases ds) (simp_all add: t is_decimal_def byte_def code_inj)
  show "is_decimal (CHR ''-'' # t @ rest) (Suc (length t))"
    using x z m by (cases ds) (simp_all add: t is_decimal_def byte_def code_inj numeral_2_eq_2)
qed

lemma read_nat_append: "read_nat (xs @ ys) = read_nat xs * 10 ^ length ys + read_nat ys"
  by (induction ys rule: rev_induct) (simp_all add: read_nat_def flip: append_assoc)

lemma read_zeros: "read_nat (replicate k (CHR ''0'')) = 0"
  by (induction k) (simp_all add: read_nat_def digit_val_def code_def)

lemma read_pad_left [simp]: "read_nat (pad_left k s) = read_nat s"
  by (simp add: pad_left_def read_nat_append read_zeros)

lemma length_pad_left: "b < 10 ^ k \<Longrightarrow> 0 < k \<Longrightarrow> length (pad_left k (show_nat b)) = k"
  using length_show_nat [of k b] by (simp add: pad_left_def)

lemma pad_left_digits: "list_all isdigit (pad_left k (show_nat b))"
  using show_nat_digits [of b] by (auto simp: pad_left_def list_all_iff isdigit_def code_def)

lemma parse_number_text:
  fixes a :: nat
  assumes "list_all isdigit fr" "value_ends rest"
  defines "t \<equiv> show_nat a @ (if fr = [] then [] else CHR ''.'' # fr)"
  defines "q \<equiv> of_nat (read_nat (show_nat a @ fr)) / 10 ^ length fr"
  shows "parse_number_value True (t @ rest) = Inr (Some (JSONNumber (f64 q), rest))"
    "parse_number_value True (CHR ''-'' # t @ rest) = Inr (Some (JSONNumber (f64 (- q)), rest))"
proof -
  have s: "scan_number (t @ rest) = (SRat q, rest)" "scan_number (CHR ''-'' # t @ rest) = (SRat (- q), rest)"
    using scan_number_decimal [OF show_nat_nonempty show_nat_digits assms(1) value_ends_number [OF assms(2)]]
    by (simp_all add: t_def q_def)
  have "fst (strtod u) = f64 x \<and> fst (snd (strtod u)) = r" if "scan_number u = (SRat x, r)" for u x r
    using that by (simp add: strtod_def strto_fp_def split: fp.split)
  from this [OF s(1)] this [OF s(2)]
  show "parse_number_value True (t @ rest) = Inr (Some (JSONNumber (f64 q), rest))"
    "parse_number_value True (CHR ''-'' # t @ rest) = Inr (Some (JSONNumber (f64 (- q)), rest))"
    using is_decimal_printed [OF assms(1), of a rest, folded t_def] by (auto simp: parse_number_value_def split: prod.split)
qed

lemma reread_int: "reread_number (Fin (of_int i)) = f64 (of_int i)"
proof -
  have "\<bar>of_int i :: rat\<bar> * 10 ^ 6 = of_int (\<bar>i\<bar> * 10 ^ 6)" by simp
  then show ?thesis by (simp only: reread_number.simps round_half_even_int) (simp add: abs_if)
qed

lemma parse_int:
  assumes "value_ends rest"
  shows "parse_number_value True (show_int i @ rest) = Inr (Some (JSONNumber (reread_number (Fin (of_int i))), rest))"
  using parse_number_text [of "[]", OF _ assms, of "nat i"] parse_number_text [of "[]", OF _ assms, of "nat (- i)"]
  by (simp add: show_int_def reread_int)

lemma parse_fixed:
  assumes "value_ends rest"
  shows "parse_number_value True (show_fixed 6 (Fin q) @ rest) = Inr (Some (JSONNumber (reread_number (Fin q)), rest))"
proof -
  define r where "r = round_half_even (\<bar>q\<bar> * 10 ^ 6)"
  define n where "n = nat r"
  define fr where "fr = pad_left 6 (show_nat (n mod 10 ^ 6))"
  have len: "length fr = 6" unfolding fr_def by (rule length_pad_left) simp_all
  then have ne: "fr \<noteq> []" by auto
  have shown: "show_fixed 6 (Fin q) = (if q < 0 then ''-'' else []) @ show_nat (n div 10 ^ 6) @ CHR ''.'' # fr"
    unfolding show_fixed.simps Let_def r_def [symmetric] n_def [symmetric] fr_def by simp
  have "read_nat (show_nat (n div 10 ^ 6) @ fr) = n" using len by (simp add: read_nat_append fr_def)
  moreover have "int n = r" by (simp add: n_def r_def round_half_even_nonneg)
  then have "(of_nat n :: rat) = of_int r" by (metis of_int_of_nat_eq)
  ultimately have q: "of_nat (read_nat (show_nat (n div 10 ^ 6) @ fr)) / 10 ^ length fr = (of_int r / 10 ^ 6 :: rat)" using len by simp
  have "list_all isdigit fr" unfolding fr_def by (rule pad_left_digits)
  note parse_number_text [OF this assms, of "n div 10 ^ 6", unfolded q]
  then show ?thesis unfolding shown reread_number.simps r_def [symmetric] using ne by simp
qed

lemma parse_number_printed:
  assumes "serialize_number x = Inr t" "value_ends rest"
  shows "parse_number_value True (t @ rest) = Inr (Some (JSONNumber (reread_number x), rest))"
    "t \<noteq> []" "hd t = CHR ''-'' \<or> isdigit (hd t)"
proof -
  obtain q where x: "x = Fin q" using assms(1) by (cases x) (auto simp: serialize_number_def)
  consider i where "q = of_int i" "t = show_int i" | u where "q = of_nat u" "t = show_nat u" | "t = show_fixed 6 (Fin q)"
    using assms(1) unfolding x serialize_number_def by (auto split: sum.splits if_split_asm simp del: of_nat_unat show_fixed.simps)
  then have "parse_number_value True (t @ rest) = Inr (Some (JSONNumber (reread_number x), rest)) \<and> t \<noteq> [] \<and> (hd t = CHR ''-'' \<or> isdigit (hd t))"
  proof cases
    case (2 u)
    then have "q = of_int (int u)" "t = show_int (int u)" by (simp_all add: show_int_def)
    then show ?thesis using parse_int [OF assms(2), of "int u"] hd_show_nat x by (auto simp: show_int_def)
  qed (use parse_int [OF assms(2)] parse_fixed [OF assms(2)] hd_show_nat x in \<open>auto simp: show_int_def Let_def\<close>)
  then show "parse_number_value True (t @ rest) = Inr (Some (JSONNumber (reread_number x), rest))"
    "t \<noteq> []" "hd t = CHR ''-'' \<or> isdigit (hd t)" by simp_all
qed

section \<open>Values\<close>

text \<open>What is read back: the value with its numbers as printed and its containers trimmed.\<close>

fun reread :: "json \<Rightarrow> json" where
  "reread (JSONNumber x) = JSONNumber (reread_number x)"
| "reread (JSONArray cap vs) = JSONArray (length vs) (map reread vs)"
| "reread (JSONObject cap kvs) = JSONObject (length kvs) (map (\<lambda>kv. (fst kv, reread (snd kv))) kvs)"
| "reread v = v"

lemma skip_spaces: "list_all isspace ws \<Longrightarrow> SKIP_WHITESPACES (ws @ s) = SKIP_WHITESPACES s"
  by (auto simp: SKIP_WHITESPACES_def list_all_iff)

lemma skip_none: "s \<noteq> [] \<Longrightarrow> \<not> isspace (hd s) \<Longrightarrow> SKIP_WHITESPACES s = s"
  by (cases s) (simp_all add: SKIP_WHITESPACES_def)

lemma isspace_simps [simp]:
  "isspace (CHR '' '')" "isspace (CHR 0x0A)" "\<not> isspace (CHR '','')" "\<not> isspace (CHR '':'')" "\<not> isspace (CHR ''{'')" "\<not> isspace (CHR ''}'')"
  "\<not> isspace (CHR ''['')" "\<not> isspace (CHR '']'')" "\<not> isspace (CHR 0x22)" "\<not> isspace (CHR ''t'')" "\<not> isspace (CHR ''f'')"
  "\<not> isspace (CHR ''n'')" "\<not> isspace (CHR ''-'')"
  by (simp_all add: isspace_def code_def)

lemma parse_value_skips: "list_all isspace ws \<Longrightarrow> parse_value mem n (ws @ s) = parse_value mem n s"
  by (simp add: parse_value.simps skip_spaces)

lemma value_ends_simps [simp]: "value_ends (CHR '','' # s)" "value_ends (CHR ''}'' # s)" "value_ends (CHR '']'' # s)"
  "value_ends (CHR 0x0A # s)" "value_ends []"
  by (simp_all add: value_ends_def)

lemma serialized_start:
  assumes "value_text pretty level v = Inr t"
  shows "t \<noteq> []" "\<not> isspace (hd t)" "hd t \<noteq> CHR '']''" "hd t \<noteq> CHR ''}''"
proof -
  have "t \<noteq> [] \<and> \<not> isspace (hd t) \<and> hd t \<noteq> CHR '']'' \<and> hd t \<noteq> CHR ''}''"
  proof (cases v)
    case (JSONNumber x)
    then have "serialize_number x = Inr t" using assms by simp
    from parse_number_printed(2,3) [OF this, of "[]"] show ?thesis by (auto simp: isspace_def isdigit_def code_def)
  qed (use assms in \<open>auto simp: cbind_eq_Inr split: if_splits\<close>)
  then show "t \<noteq> []" "\<not> isspace (hd t)" "hd t \<noteq> CHR '']''" "hd t \<noteq> CHR ''}''" by simp_all
qed

text \<open>A loop over items ends at the bracket that follows, with the items added.\<close>

definition items_read :: "nat \<Rightarrow> json list \<Rightarrow> string \<Rightarrow> bool" where
  "items_read n vs t \<longleftrightarrow> (\<forall>arr ws rest. wf_array arr \<longrightarrow> length (snd arr) + length vs \<le> ARRAY_MAX_CAPACITY \<longrightarrow> list_all isspace ws \<longrightarrow> vs \<noteq> [] \<longrightarrow>
     (\<exists>arr1. parse_items True n arr (SKIP_WHITESPACES (t @ ws @ CHR '']'' # rest)) = Inr (Some (arr1, CHR '']'' # rest)) \<and>
        snd arr1 = snd arr @ map reread vs))"

definition value_read :: "nat \<Rightarrow> json \<Rightarrow> string \<Rightarrow> bool" where
  "value_read n v t \<longleftrightarrow> (\<forall>rest. value_ends rest \<longrightarrow> parse_value True n (t @ rest) = Inr (Some (reread v, rest)))"

lemma value_ends_spaces: "list_all isspace ws \<Longrightarrow> value_ends s \<Longrightarrow> value_ends (ws @ s)"
  by (cases ws) (auto simp: value_ends_def)

lemma separator_ends:
  assumes "list_all isspace nl" "list_all isspace ws" "b \<in> {CHR '']'', CHR ''}''}" "vs = [] \<Longrightarrow> ms = []"
  shows "value_ends ((if vs \<noteq> [] then '','' else []) @ nl @ ms @ ws @ b # rest)"
  using assms value_ends_spaces [of nl] value_ends_spaces [of ws] by auto

lemma items_read_Cons:
  assumes start: "x \<noteq> []" "\<not> isspace (hd x)"
    and v: "value_read n v x" and vs: "items_read n vs ms" "vs = [] \<Longrightarrow> ms = []"
    and sp: "list_all isspace sp" "list_all isspace nl"
  shows "items_read n (v # vs) (sp @ x @ (if vs \<noteq> [] then '','' else []) @ nl @ ms)"
  unfolding items_read_def
proof (intro allI impI)
  fix arr ws rest
  assume wf: "wf_array arr" and len: "length (snd arr) + length (v # vs) \<le> ARRAY_MAX_CAPACITY" and ws: "list_all isspace ws"
  let ?s = "SKIP_WHITESPACES ((sp @ x @ (if vs \<noteq> [] then '','' else []) @ nl @ ms) @ ws @ CHR '']'' # rest)"
  define tail where "tail = (if vs \<noteq> [] then '','' else []) @ nl @ ms @ ws @ CHR '']'' # rest"
  have s: "?s = x @ tail" using skip_spaces [OF sp(1)] skip_none [of "x @ tail"] start by (simp add: tail_def)
  have val: "parse_value True n (x @ tail) = Inr (Some (reread v, tail))"
    using v separator_ends [OF sp(2) ws _ vs(2), of "CHR '']''" vs rest] by (simp add: value_read_def tail_def)
  obtain arr1 where arr1: "json_array_add True arr (reread v) = (True, arr1)" "snd arr1 = snd arr @ [reread v]" "wf_array arr1"
    using array_add_cases(1,3) [OF wf, of "reread v"] len by (cases "json_array_add True arr (reread v)") (auto simp: ARRAY_MAX_CAPACITY_def)
  have unf: "parse_items True n arr ?s = (if \<not> looking_at (CHR '','') (SKIP_WHITESPACES tail) then Inr (Some (arr1, SKIP_WHITESPACES tail))
      else parse_items True n arr1 (SKIP_WHITESPACES (tl (SKIP_WHITESPACES tail))))"
    unfolding s using start(1) val arr1(1) by (subst parse_items.simps) (simp add: status_def Let_def)
  show "\<exists>arr1. parse_items True n arr ?s = Inr (Some (arr1, CHR '']'' # rest)) \<and> snd arr1 = snd arr @ map reread (v # vs)"
  proof (cases "vs = []")
    case True
    then have "SKIP_WHITESPACES tail = CHR '']'' # rest"
      using vs(2) skip_spaces [OF sp(2)] skip_spaces [OF ws] by (simp add: tail_def skip_none)
    then show ?thesis using unf arr1 True by simp
  next
    case False
    then have "SKIP_WHITESPACES tail = tail" "tl tail = nl @ ms @ ws @ CHR '']'' # rest" "looking_at (CHR '','') tail"
      by (simp_all add: tail_def skip_none)
    then have "parse_items True n arr ?s = parse_items True n arr1 (SKIP_WHITESPACES (ms @ ws @ CHR '']'' # rest))"
      using unf skip_spaces [OF sp(2)] by simp
    moreover obtain arr2 where "parse_items True n arr1 (SKIP_WHITESPACES (ms @ ws @ CHR '']'' # rest)) = Inr (Some (arr2, CHR '']'' # rest))"
        "snd arr2 = snd arr1 @ map reread vs"
      using vs(1) False arr1 len ws unfolding items_read_def by fastforce
    ultimately show ?thesis using arr1(2) by simp
  qed
qed

text \<open>The same for the members named by \<open>keys\<close>, with their values in \<open>kvs\<close>.\<close>

definition members_read :: "nat \<Rightarrow> (string \<times> json) list \<Rightarrow> string list \<Rightarrow> string \<Rightarrow> bool" where
  "members_read n kvs keys t \<longleftrightarrow> (\<forall>obj ws rest. wf_object obj \<longrightarrow> length (snd obj) + length keys \<le> OBJECT_MAX_CAPACITY \<longrightarrow>
     distinct (map fst (snd obj) @ keys) \<longrightarrow> list_all isspace ws \<longrightarrow> keys \<noteq> [] \<longrightarrow>
     (\<exists>obj1. parse_members True n obj (SKIP_WHITESPACES (t @ ws @ CHR ''}'' # rest)) = Inr (Some (obj1, CHR ''}'' # rest)) \<and>
        snd obj1 = snd obj @ map (\<lambda>k. (k, reread (the (map_of kvs k)))) keys))"

lemma members_read_Cons:
  assumes key: "CHR 0x00 \<notin> set key" "map_of kvs key = Some v"
    and v: "value_read n v x" and ms: "members_read n kvs keys ms" "keys = [] \<Longrightarrow> ms = []"
    and sp: "list_all isspace sp" "list_all isspace sp1" "list_all isspace nl"
  shows "members_read n kvs (key # keys)
    (sp @ CHR 0x22 # escaped key @ CHR 0x22 # CHR '':'' # sp1 @ x @ (if keys \<noteq> [] then '','' else []) @ nl @ ms)"
  unfolding members_read_def
proof (intro allI impI)
  fix obj ws rest
  assume wf: "wf_object obj" and len: "length (snd obj) + length (key # keys) \<le> OBJECT_MAX_CAPACITY"
    and dist: "distinct (map fst (snd obj) @ key # keys)" and ws: "list_all isspace ws"
  let ?s = "SKIP_WHITESPACES ((sp @ CHR 0x22 # escaped key @ CHR 0x22 # CHR '':'' # sp1 @ x @ (if keys \<noteq> [] then '','' else []) @ nl @ ms) @ ws @ CHR ''}'' # rest)"
  define tail where "tail = (if keys \<noteq> [] then '','' else []) @ nl @ ms @ ws @ CHR ''}'' # rest"
  have s: "?s = CHR 0x22 # escaped key @ CHR 0x22 # CHR '':'' # sp1 @ x @ tail"
    using skip_spaces [OF sp(1)] by (simp add: tail_def skip_none)
  have val: "parse_value True n (sp1 @ x @ tail) = Inr (Some (reread v, tail))"
    using v separator_ends [OF sp(3) ws _ ms(2), of "CHR ''}''" keys rest] parse_value_skips [OF sp(2)] by (simp add: value_read_def tail_def)
  have "key \<notin> fst ` set (snd obj)" "length (snd obj) < 960" using dist len by (auto simp: OBJECT_MAX_CAPACITY_def)
  then obtain obj1 where obj1: "json_object_add True obj key (reread v) = (True, obj1)" "snd obj1 = snd obj @ [(key, reread v)]" "wf_object obj1"
    using object_add_room [OF wf, of key "reread v"] wf_object_add [OF wf, of key "reread v"] by (cases "json_object_add True obj key (reread v)") auto
  have unf: "parse_members True n obj ?s = (if \<not> looking_at (CHR '','') (SKIP_WHITESPACES tail) then Inr (Some (obj1, SKIP_WHITESPACES tail))
      else parse_members True n obj1 (SKIP_WHITESPACES (tl (SKIP_WHITESPACES tail))))"
    unfolding s using val obj1(1) get_quoted_escaped [OF key(1)]
    by (subst parse_members.simps) (simp add: status_def Let_def skip_none)
  show "\<exists>obj1. parse_members True n obj ?s = Inr (Some (obj1, CHR ''}'' # rest)) \<and>
      snd obj1 = snd obj @ map (\<lambda>k. (k, reread (the (map_of kvs k)))) (key # keys)"
  proof (cases "keys = []")
    case True
    then have "SKIP_WHITESPACES tail = CHR ''}'' # rest"
      using ms(2) skip_spaces [OF sp(3)] skip_spaces [OF ws] by (simp add: tail_def skip_none)
    then show ?thesis using unf obj1 key(2) True by simp
  next
    case False
    then have "SKIP_WHITESPACES tail = tail" "tl tail = nl @ ms @ ws @ CHR ''}'' # rest" "looking_at (CHR '','') tail"
      by (simp_all add: tail_def skip_none)
    then have "parse_members True n obj ?s = parse_members True n obj1 (SKIP_WHITESPACES (ms @ ws @ CHR ''}'' # rest))"
      using unf skip_spaces [OF sp(3)] by simp
    moreover obtain obj2 where "parse_members True n obj1 (SKIP_WHITESPACES (ms @ ws @ CHR ''}'' # rest)) = Inr (Some (obj2, CHR ''}'' # rest))"
        "snd obj2 = snd obj1 @ map (\<lambda>k. (k, reread (the (map_of kvs k)))) keys"
      using ms(1) [unfolded members_read_def, rule_format, OF obj1(3) _ _ ws False, of rest] obj1(2) len dist by auto
    ultimately show ?thesis using obj1(2) key(2) by simp
  qed
qed

lemma indent_spaces [simp]: "list_all isspace (replicate k (CHR '' ''))"
  by (simp add: list_all_iff)

lemma no_item_at_bracket: "parse_items True n arr (CHR '']'' # r) = Inr None" "parse_members True n obj (CHR ''}'' # r) = Inr None"
  by (simp_all add: parse_items.simps parse_members.simps parse_value.simps skip_none get_quoted_string_def skip_quotes_def isdigit_def code_def)

lemma read_array:
  assumes "items_read (Suc n) vs t" "vs = [] \<longrightarrow> t = []" "printable n (JSONArray cap vs)" "list_all isspace nl" "list_all isspace ws"
  shows "value_read n (JSONArray cap vs) (CHR ''['' # nl @ t @ ws @ '']'')"
  unfolding value_read_def
proof (intro allI impI)
  fix rest
  let ?s = "CHR ''['' # nl @ t @ ws @ CHR '']'' # rest"
  have arr: "parse_array_value True (Suc n) ?s = Inr (Some (reread (JSONArray cap vs), rest))"
  proof (cases "vs = []")
    case True
    then show ?thesis using assms skip_spaces [OF assms(4)] skip_spaces [OF assms(5)]
      by (simp add: parse_array_value.simps json_value_init_array_def json_array_init_def skip_none)
  next
    case False
    have s1: "SKIP_WHITESPACES (tl ?s) = SKIP_WHITESPACES (t @ ws @ CHR '']'' # rest)" using skip_spaces [OF assms(4)] by simp
    obtain arr1 where a: "parse_items True (Suc n) json_array_init (SKIP_WHITESPACES (t @ ws @ CHR '']'' # rest)) = Inr (Some (arr1, CHR '']'' # rest))"
        "snd arr1 = map reread vs"
      using assms(1) [unfolded items_read_def, rule_format, OF wf_array_init _ assms(5) False, of rest] assms(3) by (auto simp: json_array_init_def)
    have "\<not> looking_at (CHR '']'') (SKIP_WHITESPACES (t @ ws @ CHR '']'' # rest))"
      using a(1) no_item_at_bracket(1) [of "Suc n" json_array_init] by (auto elim!: looking_atE)
    then show ?thesis using a False s1
      by (subst parse_array_value.simps)
         (simp add: json_value_init_array_def skip_none json_array_resize_def json_array_get_count_def status_def Let_def)
  qed
  show "parse_value True n ((CHR ''['' # nl @ t @ ws @ '']'') @ rest) = Inr (Some (reread (JSONArray cap vs), rest))"
    using arr assms(3) by (subst parse_value.simps) (simp add: skip_none)
qed

lemma read_object:
  assumes "members_read (Suc n) kvs (map fst kvs) t" "kvs = [] \<longrightarrow> t = []" "printable n (JSONObject cap kvs)" "list_all isspace nl" "list_all isspace ws"
  shows "value_read n (JSONObject cap kvs) (CHR ''{'' # nl @ t @ ws @ ''}'')"
  unfolding value_read_def
proof (intro allI impI)
  fix rest
  let ?s = "CHR ''{'' # nl @ t @ ws @ CHR ''}'' # rest"
  have arr: "parse_object_value True (Suc n) ?s = Inr (Some (reread (JSONObject cap kvs), rest))"
  proof (cases "kvs = []")
    case True
    then show ?thesis using assms skip_spaces [OF assms(4)] skip_spaces [OF assms(5)]
      by (simp add: parse_object_value.simps json_value_init_object_def json_object_init_def skip_none)
  next
    case False
    have s1: "SKIP_WHITESPACES (tl ?s) = SKIP_WHITESPACES (t @ ws @ CHR ''}'' # rest)" using skip_spaces [OF assms(4)] by simp
    obtain obj1 where a: "parse_members True (Suc n) json_object_init (SKIP_WHITESPACES (t @ ws @ CHR ''}'' # rest)) = Inr (Some (obj1, CHR ''}'' # rest))"
        "snd obj1 = map (\<lambda>k. (k, reread (the (map_of kvs k)))) (map fst kvs)"
      using assms(1) [unfolded members_read_def, rule_format, OF wf_object_init _ _ assms(5), of rest] assms(3) False by (auto simp: json_object_init_def)
    have "\<not> looking_at (CHR ''}'') (SKIP_WHITESPACES (t @ ws @ CHR ''}'' # rest))"
      using a(1) no_item_at_bracket(2) [of "Suc n" json_object_init] by (auto elim!: looking_atE)
    moreover have "map (\<lambda>k. (k, reread (the (map_of kvs k)))) (map fst kvs) = map (\<lambda>kv. (fst kv, reread (snd kv))) kvs"
      using assms(3) by (auto simp: map_of_is_SomeI)
    ultimately show ?thesis using a False s1
      by (subst parse_object_value.simps)
         (simp add: json_value_init_object_def skip_none json_object_resize_def json_object_get_count_def status_def Let_def)
  qed
  show "parse_value True n ((CHR ''{'' # nl @ t @ ws @ ''}'') @ rest) = Inr (Some (reread (JSONObject cap kvs), rest))"
    using arr assms(3) by (subst parse_value.simps) (simp add: skip_none)
qed

lemma serialized_read:
  "printable n v \<Longrightarrow> value_text pretty level v = Inr t \<Longrightarrow> value_read n v t"
  "\<forall>v \<in> set vs. printable n v \<Longrightarrow> items_text pretty level vs = Inr t \<Longrightarrow> items_read n vs t \<and> (vs = [] \<longrightarrow> t = [])"
  "\<forall>kv \<in> set kvs. CHR 0x00 \<notin> set (fst kv) \<and> printable n (snd kv) \<Longrightarrow> members_text pretty level kvs keys = Inr t \<Longrightarrow>
     members_read n kvs keys t \<and> (keys = [] \<longrightarrow> t = [])"
proof (induction pretty level v and pretty level vs and pretty level kvs keys arbitrary: n t and n t and n t
    rule: value_text_items_text_members_text.induct)
  case (1 pretty level)
  then show ?case by (auto simp: value_read_def parse_value.simps skip_none parse_null_value_def isdigit_def code_def)
next
  case (2 pretty level b)
  then show ?case by (auto simp: value_read_def parse_value.simps skip_none parse_boolean_value_def)
next
  case (3 pretty level num)
  then have "serialize_number num = Inr t" by simp
  note p = parse_number_printed [OF this]
  have "hd t \<notin> {CHR ''{'', CHR ''['', CHR 0x22, CHR ''f'', CHR ''t''}" using p(3) [of "[]"] by (auto simp: isdigit_def code_def)
  moreover have "\<not> isspace (hd t)" using p(3) [of "[]"] isdigit_simps(1) by auto
  ultimately show ?case using p(1) p(2,3) [of "[]"] 3(1) by (auto simp: value_read_def parse_value.simps skip_none)
next
  case (4 pretty level s)
  then show ?case by (auto simp: value_read_def parse_value.simps skip_none parse_string_value_def get_quoted_escaped)
next
  case (5 pretty level cap items)
  then obtain body where t: "items_text pretty level items = Inr body"
      "t = CHR ''['' # (if items \<noteq> [] \<and> pretty then ''\<newline>'' else []) @ body @ indent (items \<noteq> [] \<and> pretty) level @ '']''"
    by (auto simp: cbind_eq_Inr)
  have "items_read (Suc n) items body \<and> (items = [] \<longrightarrow> body = [])" using 5(1) [OF _ t(1)] 5(2) by simp
  then show ?case unfolding t(2) using 5(2) by (intro read_array) auto
next
  case (6 pretty level cap kvs)
  then obtain body where t: "members_text pretty level kvs (map fst kvs) = Inr body"
      "t = CHR ''{'' # (if kvs \<noteq> [] \<and> pretty then ''\<newline>'' else []) @ body @ indent (kvs \<noteq> [] \<and> pretty) level @ ''}''"
    by (auto simp: cbind_eq_Inr)
  have "members_read (Suc n) kvs (map fst kvs) body \<and> (kvs = [] \<longrightarrow> body = [])" using 6(1) [OF _ t(1)] 6(2) by simp
  then show ?case unfolding t(2) using 6(2) by (intro read_object) auto
next
  case (7 pretty level)
  then show ?case by (simp add: items_read_def)
next
  case (8 pretty level v vs)
  then obtain x ms where t: "value_text pretty (level + 1) v = Inr x" "items_text pretty level vs = Inr ms"
      "t = indent pretty (level + 1) @ x @ (if vs \<noteq> [] then '','' else []) @ (if pretty then ''\<newline>'' else []) @ ms"
    by (auto simp: cbind_eq_Inr)
  have "value_read n v x" "items_read n vs ms \<and> (vs = [] \<longrightarrow> ms = [])" using 8(1) [OF _ t(1)] 8(2) [OF t(1) _ t(2)] 8(3) by simp_all
  then show ?case unfolding t(3) using serialized_start(1,2) [OF t(1)] by (intro conjI items_read_Cons) auto
next
  case (9 pretty level kvs)
  then show ?case by (simp add: members_read_def)
next
  case (10 pretty level kvs key keys)
  then obtain v x ms where v: "map_of kvs key = Some v" and t: "value_text pretty (level + 1) v = Inr x" "members_text pretty level kvs keys = Inr ms"
      "t = indent pretty (level + 1) @ CHR 0x22 # escaped key @ CHR 0x22 # CHR '':'' #
         (if pretty then '' '' else []) @ x @ (if keys \<noteq> [] then '','' else []) @ (if pretty then ''\<newline>'' else []) @ ms"
    by (auto simp: cbind_eq_Inr split: option.splits)
  have p: "printable n v" "CHR 0x00 \<notin> set key" using 10(3) map_of_SomeD [OF v] by force+
  have "value_read n v x" using 10(1) [OF v p(1) t(1)] .
  moreover have "members_read n kvs keys ms \<and> (keys = [] \<longrightarrow> ms = [])" using 10(2) [OF v t(1) 10(3) t(2)] .
  ultimately show ?case unfolding t(3) using v p by (intro conjI members_read_Cons) auto
qed

section \<open>Serialized text has no comments\<close>

text \<open>Text that a removal of comments leaves alone: outside of strings there is no slash, and a slash in a
  string is escaped. Start tokens begin with a slash.\<close>

definition comment_free :: "string \<Rightarrow> bool" where
  "comment_free t \<longleftrightarrow> (\<forall>st en rest. en \<noteq> [] \<longrightarrow> remove_comments (CHR ''/'' # st) en False False (t @ rest) =
     t @ remove_comments (CHR ''/'' # st) en False False rest)"

lemma comment_free_append: "comment_free a \<Longrightarrow> comment_free b \<Longrightarrow> comment_free (a @ b)"
  by (simp add: comment_free_def)

lemma comment_free_plain: "\<forall>c \<in> set t. c \<noteq> CHR 0x5C \<and> c \<noteq> CHR 0x22 \<and> c \<noteq> CHR ''/'' \<Longrightarrow> comment_free t"
proof (induction t)
  case (Cons c t)
  then show ?case by (auto simp: comment_free_def remove_comments.simps [of "_ # _" _ _ _ "c # _"])
qed (simp add: comment_free_def)

lemma in_string_char:
  "en \<noteq> [] \<Longrightarrow> c \<noteq> CHR 0x5C \<Longrightarrow> c \<noteq> CHR 0x22 \<Longrightarrow> remove_comments (CHR ''/'' # st) en True False (c # s) = c # remove_comments (CHR ''/'' # st) en True False s"
  "en \<noteq> [] \<Longrightarrow> remove_comments (CHR ''/'' # st) en True True (c # s) = c # remove_comments (CHR ''/'' # st) en True False s"
  "en \<noteq> [] \<Longrightarrow> remove_comments (CHR ''/'' # st) en True False (CHR 0x5C # s) = CHR 0x5C # remove_comments (CHR ''/'' # st) en True True s"
  by (simp_all add: remove_comments.simps [of "_ # _" _ _ _ "_ # _"])

lemma in_string_escaped:
  assumes "en \<noteq> []"
  shows "remove_comments (CHR ''/'' # st) en True False (escaped s @ rest) = escaped s @ remove_comments (CHR ''/'' # st) en True False rest"
proof (induction s)
  case (Cons c s)
  have "''0123456789abcdef'' ! (code c mod 16) \<notin> {CHR 0x5C, CHR 0x22}"
    using hex_digit [of "code c mod 16"] xdigit_plain by simp
  moreover have "''01'' ! (code c div 16) \<notin> {CHR 0x5C, CHR 0x22}" if "code c < 32"
  proof -
    have "code c div 16 < 2" using that by simp
    then show ?thesis using hex_lead [of "code c div 16"] hex_digit [of "code c div 16"] xdigit_plain by simp
  qed
  ultimately have "remove_comments (CHR ''/'' # st) en True False (escape_char c @ r) = escape_char c @ remove_comments (CHR ''/'' # st) en True False r" for r
    using assms by (auto simp: escape_char_def hex4_def in_string_char)
  with Cons show ?case by simp
qed simp

lemma comment_free_string: "comment_free (CHR 0x22 # escaped s @ [CHR 0x22])"
  using in_string_escaped [of _ _ s "CHR 0x22 # _"]
  by (simp add: comment_free_def remove_comments.simps [of "_ # _" _ _ _ "CHR 0x22 # _"])

lemma comment_free_Cons: "c \<notin> {CHR 0x5C, CHR 0x22, CHR ''/''} \<Longrightarrow> comment_free t \<Longrightarrow> comment_free (c # t)"
  using comment_free_append [OF comment_free_plain [of "[c]"], of t] by simp

lemma comment_free_quoted: "comment_free t \<Longrightarrow> comment_free (CHR 0x22 # escaped s @ CHR 0x22 # t)"
  using comment_free_append [OF comment_free_string, of t s] by simp

lemma comment_free_spaces: "comment_free (replicate k (CHR '' ''))"
  by (rule comment_free_plain) simp

lemma comment_free_Nil: "comment_free []"
  by (simp add: comment_free_def)

lemmas comment_free_rules = comment_free_append comment_free_Cons comment_free_quoted comment_free_spaces comment_free_Nil

lemma number_chars:
  assumes "serialize_number x = Inr t"
  shows "\<forall>c \<in> set t. isdigit c \<or> c = CHR ''-'' \<or> c = CHR ''.''"
proof -
  obtain q where x: "x = Fin q" using assms by (cases x) (auto simp: serialize_number_def)
  have "(\<exists>i. t = show_int i) \<or> (\<exists>u. t = show_nat u) \<or> t = show_fixed 6 (Fin q)"
    using assms unfolding x serialize_number_def by (auto split: sum.splits if_split_asm simp del: of_nat_unat show_fixed.simps)
  then show ?thesis using pad_left_digits
    by (auto simp: show_int_def Let_def list_all_iff split: if_splits dest!: show_nat_isdigit)
qed

lemma comment_free_number: "serialize_number x = Inr t \<Longrightarrow> comment_free t"
  by (drule number_chars) (auto intro!: comment_free_plain simp: isdigit_def code_def)

lemma serialized_comment_free:
  "value_text pretty level v = Inr t \<Longrightarrow> comment_free t"
  "items_text pretty level vs = Inr t \<Longrightarrow> comment_free t"
  "members_text pretty level kvs keys = Inr t \<Longrightarrow> comment_free t"
proof (induction pretty level v and pretty level vs and pretty level kvs keys arbitrary: t and t and t
    rule: value_text_items_text_members_text.induct)
  case (10 pretty level kvs key keys)
  then show ?case by (auto simp: cbind_eq_Inr comment_free_rules split: option.splits)
qed (auto simp: cbind_eq_Inr comment_free_rules comment_free_string comment_free_number)

lemma comments_kept:
  assumes "comment_free t"
  shows "json_parse_string_with_comments True t = json_parse_string True (Some t)"
proof -
  have "remove_comments (CHR ''/'' # st) en False False t = t" if "en \<noteq> []" for st en
    using assms that unfolding comment_free_def by (metis append_Nil2 remove_comments.simps)
  then show ?thesis by (simp add: json_parse_string_with_comments_def json_parse_string_def)
qed

lemma text_read_back:
  assumes "value_text pretty 0 v = Inr t" "printable 0 v"
  shows "json_parse_string True (Some t) = Inr (Some (reread v)) \<and> json_parse_string_with_comments True t = Inr (Some (reread v))"
proof -
  have "parse_value True 0 t = Inr (Some (reread v, []))"
    using serialized_read(1) [OF assms(2,1)] unfolding value_read_def by (metis append_Nil2 value_ends_simps(5))
  then have "json_parse_string True (Some t) = Inr (Some (reread v))" by (simp add: json_parse_string_def)
  then show ?thesis using comments_kept [OF serialized_comment_free(1) [OF assms(1)]] by simp
qed

section \<open>Properties\<close>

text \<open>C4. What the serializer wrote, compact or indented, is read back by both parsers: the same value, with
  capacities trimmed and numbers as they were printed, for every value within the limits of the parser.\<close>
theorem json_roundtrip:
  assumes "json_serialize_to_string True v = Inr (Some t) \<or> json_serialize_to_string_pretty True v = Inr (Some t)" "printable 0 v"
  shows "json_parse_string True (Some t) = Inr (Some (reread v)) \<and> json_parse_string_with_comments True t = Inr (Some (reread v))"
proof -
  obtain pretty where "value_text pretty 0 v = Inr t" using assms(1) serialize_to_string_text by blast
  then show ?thesis using assms(2) by (rule text_read_back)
qed

theorem json_roundtrip_witness:
  "json_parse_string True (Some (''{'' @ [CHR 0x22] @ ''t'' @ [CHR 0x22] @ '':[21,true]}'')) =
     Inr (Some (reread (JSONObject 15 [(''t'', JSONArray 15 [JSONNumber (Fin 21), JSONBoolean True])]))) \<and>
   json_parse_string_with_comments True (''{'' @ [CHR 0x22] @ ''t'' @ [CHR 0x22] @ '':[21,true]}'') =
     Inr (Some (reread (JSONObject 15 [(''t'', JSONArray 15 [JSONNumber (Fin 21), JSONBoolean True])])))"
proof (rule json_roundtrip)
  show "json_serialize_to_string True (JSONObject 15 [(''t'', JSONArray 15 [JSONNumber (Fin 21), JSONBoolean True])]) =
      Inr (Some (''{'' @ [CHR 0x22] @ ''t'' @ [CHR 0x22] @ '':[21,true]}'')) \<or>
    json_serialize_to_string_pretty True (JSONObject 15 [(''t'', JSONArray 15 [JSONNumber (Fin 21), JSONBoolean True])]) =
      Inr (Some (''{'' @ [CHR 0x22] @ ''t'' @ [CHR 0x22] @ '':[21,true]}''))"
    by (simp add: serialize_to_string_text escape_char_def serialize_number_def
        trunc_rat_def INT_MIN_def INT_MAX_def show_int_def show_nat.simps digit_char_def code_def)
qed (simp add: MAX_NESTING_def OBJECT_MAX_CAPACITY_def ARRAY_MAX_CAPACITY_def)

end
