(* ===== verification/Json_Api.thy ===== *)
theory Json_Api
  imports Json_Roundtrip "HOL-Library.Multiset"
begin

text \<open>
  The rest of the interface of \<^verbatim>\<open>src/deps/parson.c\<close>: types and getters, the operations of arrays, removal,
  deep copies, comparison, validation against a template, and the functions that read and write files. A
  pointer that may be NULL is an option; a mutated container is in the result beside the status.
\<close>

section \<open>Types and getters\<close>

datatype json_value_type =
  JSONErrorType | JSONNullType | JSONStringType | JSONNumberType | JSONObjectType | JSONArrayType | JSONBooleanType

definition json_value_get_type :: "json option \<Rightarrow> json_value_type" where
  "json_value_get_type v =
     (case v of
        None \<Rightarrow> JSONErrorType
      | Some JSONNull \<Rightarrow> JSONNullType
      | Some (JSONString _) \<Rightarrow> JSONStringType
      | Some (JSONNumber _) \<Rightarrow> JSONNumberType
      | Some (JSONObject _ _) \<Rightarrow> JSONObjectType
      | Some (JSONArray _ _) \<Rightarrow> JSONArrayType
      | Some (JSONBoolean _) \<Rightarrow> JSONBooleanType)"

definition json_value_get_array :: "json option \<Rightarrow> jarray option" where
  "json_value_get_array v = (case v of Some (JSONArray cap vs) \<Rightarrow> Some (cap, vs) | _ \<Rightarrow> None)"

definition json_value_get_string :: "json option \<Rightarrow> string option" where
  "json_value_get_string v = (case v of Some (JSONString s) \<Rightarrow> Some s | _ \<Rightarrow> None)"

definition json_value_get_number :: "json option \<Rightarrow> fp" where
  "json_value_get_number v = (case v of Some (JSONNumber x) \<Rightarrow> x | _ \<Rightarrow> Fin 0)"

definition json_value_get_boolean :: "json option \<Rightarrow> int" where
  "json_value_get_boolean v = (case v of Some (JSONBoolean b) \<Rightarrow> (if b then 1 else 0) | _ \<Rightarrow> - 1)"

definition json_object_get_string :: "jobject \<Rightarrow> string \<Rightarrow> string option" where
  "json_object_get_string obj name = json_value_get_string (json_object_get_value obj name)"

definition json_object_get_number :: "jobject \<Rightarrow> string \<Rightarrow> fp" where
  "json_object_get_number obj name = json_value_get_number (json_object_get_value obj name)"

definition json_object_get_array :: "jobject \<Rightarrow> string \<Rightarrow> jarray option" where
  "json_object_get_array obj name = json_value_get_array (json_object_get_value obj name)"

definition json_object_get_boolean :: "jobject \<Rightarrow> string \<Rightarrow> int" where
  "json_object_get_boolean obj name = json_value_get_boolean (json_object_get_value obj name)"

definition json_object_dotget_string :: "jobject option \<Rightarrow> string \<Rightarrow> string option" where
  "json_object_dotget_string obj name = json_value_get_string (json_object_dotget_value obj name)"

definition json_object_dotget_number :: "jobject option \<Rightarrow> string \<Rightarrow> fp" where
  "json_object_dotget_number obj name = json_value_get_number (json_object_dotget_value obj name)"

definition json_object_dotget_object :: "jobject option \<Rightarrow> string \<Rightarrow> jobject option" where
  "json_object_dotget_object obj name = json_value_get_object (json_object_dotget_value obj name)"

definition json_object_dotget_array :: "jobject option \<Rightarrow> string \<Rightarrow> jarray option" where
  "json_object_dotget_array obj name = json_value_get_array (json_object_dotget_value obj name)"

definition json_object_dotget_boolean :: "jobject option \<Rightarrow> string \<Rightarrow> int" where
  "json_object_dotget_boolean obj name = json_value_get_boolean (json_object_dotget_value obj name)"

definition json_object_get_name :: "jobject \<Rightarrow> nat \<Rightarrow> string option" where
  "json_object_get_name obj i = (if i \<ge> json_object_get_count obj then None else Some (fst (snd obj ! i)))"

definition json_object_get_value_at :: "jobject \<Rightarrow> nat \<Rightarrow> json option" where
  "json_object_get_value_at obj i = (if i \<ge> json_object_get_count obj then None else Some (snd (snd obj ! i)))"

definition json_object_has_value :: "jobject \<Rightarrow> string \<Rightarrow> bool" where
  "json_object_has_value obj name \<longleftrightarrow> json_object_get_value obj name \<noteq> None"

definition json_object_has_value_of_type :: "jobject \<Rightarrow> string \<Rightarrow> json_value_type \<Rightarrow> bool" where
  "json_object_has_value_of_type obj name type \<longleftrightarrow>
     (let val = json_object_get_value obj name in val \<noteq> None \<and> json_value_get_type val = type)"

definition json_object_dothas_value :: "jobject option \<Rightarrow> string \<Rightarrow> bool" where
  "json_object_dothas_value obj name \<longleftrightarrow> json_object_dotget_value obj name \<noteq> None"

definition json_object_dothas_value_of_type :: "jobject option \<Rightarrow> string \<Rightarrow> json_value_type \<Rightarrow> bool" where
  "json_object_dothas_value_of_type obj name type \<longleftrightarrow>
     (let val = json_object_dotget_value obj name in val \<noteq> None \<and> json_value_get_type val = type)"

definition json_array_get_value :: "jarray \<Rightarrow> nat \<Rightarrow> json option" where
  "json_array_get_value arr i = (if i \<ge> json_array_get_count arr then None else Some (snd arr ! i))"

definition json_array_get_string :: "jarray \<Rightarrow> nat \<Rightarrow> string option" where
  "json_array_get_string arr i = json_value_get_string (json_array_get_value arr i)"

definition json_array_get_number :: "jarray \<Rightarrow> nat \<Rightarrow> fp" where
  "json_array_get_number arr i = json_value_get_number (json_array_get_value arr i)"

definition json_array_get_object :: "jarray \<Rightarrow> nat \<Rightarrow> jobject option" where
  "json_array_get_object arr i = json_value_get_object (json_array_get_value arr i)"

definition json_array_get_array :: "jarray \<Rightarrow> nat \<Rightarrow> jarray option" where
  "json_array_get_array arr i = json_value_get_array (json_array_get_value arr i)"

definition json_array_get_boolean :: "jarray \<Rightarrow> nat \<Rightarrow> int" where
  "json_array_get_boolean arr i = json_value_get_boolean (json_array_get_value arr i)"

text \<open>Six short names of the getters of values.\<close>

definition json_type :: "json option \<Rightarrow> json_value_type" where "json_type v = json_value_get_type v"
definition json_object :: "json option \<Rightarrow> jobject option" where "json_object v = json_value_get_object v"
definition json_array :: "json option \<Rightarrow> jarray option" where "json_array v = json_value_get_array v"
definition json_string :: "json option \<Rightarrow> string option" where "json_string v = json_value_get_string v"
definition json_number :: "json option \<Rightarrow> fp" where "json_number v = json_value_get_number v"
definition json_boolean :: "json option \<Rightarrow> int" where "json_boolean v = json_value_get_boolean v"

section \<open>Setting booleans and null\<close>

definition json_object_set_boolean :: "bool \<Rightarrow> jobject \<Rightarrow> string \<Rightarrow> int \<Rightarrow> bool \<times> jobject" where
  "json_object_set_boolean mem obj name b = json_object_set_value mem obj name (json_value_init_boolean mem b)"

definition json_object_set_null :: "bool \<Rightarrow> jobject \<Rightarrow> string \<Rightarrow> bool \<times> jobject" where
  "json_object_set_null mem obj name = json_object_set_value mem obj name (json_value_init_null mem)"

definition json_object_dotset_boolean :: "bool \<Rightarrow> jobject \<Rightarrow> string \<Rightarrow> int \<Rightarrow> bool \<times> jobject" where
  "json_object_dotset_boolean mem obj name b =
     (case json_value_init_boolean mem b of
        None \<Rightarrow> (False, obj)
      | Some v \<Rightarrow> json_object_dotset_value mem obj name (Some v))"

definition json_object_dotset_null :: "bool \<Rightarrow> jobject \<Rightarrow> string \<Rightarrow> bool \<times> jobject" where
  "json_object_dotset_null mem obj name =
     (case json_value_init_null mem of
        None \<Rightarrow> (False, obj)
      | Some v \<Rightarrow> json_object_dotset_value mem obj name (Some v))"

section \<open>Arrays\<close>

text \<open>The last item takes the place of the one that is removed.\<close>

definition json_array_remove :: "jarray \<Rightarrow> nat \<Rightarrow> bool \<times> jarray" where
  "json_array_remove arr ix =
     (if ix \<ge> json_array_get_count arr then (False, arr)
      else
        let last_element_ix = json_array_get_count arr - 1;
            items = (if ix \<noteq> last_element_ix then (snd arr)[ix := snd arr ! last_element_ix] else snd arr)
        in (True, (fst arr, take last_element_ix items)))"

definition json_array_replace_value :: "jarray \<Rightarrow> nat \<Rightarrow> json option \<Rightarrow> bool \<times> jarray" where
  "json_array_replace_value arr ix value =
     (case value of
        None \<Rightarrow> (False, arr)
      | Some v \<Rightarrow> if ix \<ge> json_array_get_count arr then (False, arr) else (True, (fst arr, (snd arr)[ix := v])))"

definition json_array_replace_string :: "bool \<Rightarrow> jarray \<Rightarrow> nat \<Rightarrow> string option \<Rightarrow> bool \<times> jarray" where
  "json_array_replace_string mem arr i str = json_array_replace_value arr i (json_value_init_string mem str)"

definition json_array_replace_number :: "bool \<Rightarrow> jarray \<Rightarrow> nat \<Rightarrow> fp \<Rightarrow> bool \<times> jarray" where
  "json_array_replace_number mem arr i x = json_array_replace_value arr i (json_value_init_number mem x)"

definition json_array_replace_boolean :: "bool \<Rightarrow> jarray \<Rightarrow> nat \<Rightarrow> int \<Rightarrow> bool \<times> jarray" where
  "json_array_replace_boolean mem arr i b = json_array_replace_value arr i (json_value_init_boolean mem b)"

definition json_array_replace_null :: "bool \<Rightarrow> jarray \<Rightarrow> nat \<Rightarrow> bool \<times> jarray" where
  "json_array_replace_null mem arr i = json_array_replace_value arr i (json_value_init_null mem)"

definition json_array_clear :: "jarray \<Rightarrow> bool \<times> jarray" where
  "json_array_clear arr = (True, (fst arr, []))"

definition json_array_append_value :: "bool \<Rightarrow> jarray \<Rightarrow> json option \<Rightarrow> bool \<times> jarray" where
  "json_array_append_value mem arr value =
     (case value of None \<Rightarrow> (False, arr) | Some v \<Rightarrow> json_array_add mem arr v)"

definition json_array_append_string :: "bool \<Rightarrow> jarray \<Rightarrow> string option \<Rightarrow> bool \<times> jarray" where
  "json_array_append_string mem arr str = json_array_append_value mem arr (json_value_init_string mem str)"

definition json_array_append_number :: "bool \<Rightarrow> jarray \<Rightarrow> fp \<Rightarrow> bool \<times> jarray" where
  "json_array_append_number mem arr x = json_array_append_value mem arr (json_value_init_number mem x)"

definition json_array_append_boolean :: "bool \<Rightarrow> jarray \<Rightarrow> int \<Rightarrow> bool \<times> jarray" where
  "json_array_append_boolean mem arr b = json_array_append_value mem arr (json_value_init_boolean mem b)"

definition json_array_append_null :: "bool \<Rightarrow> jarray \<Rightarrow> bool \<times> jarray" where
  "json_array_append_null mem arr = json_array_append_value mem arr (json_value_init_null mem)"

section \<open>Removal from objects\<close>

definition json_object_remove :: "jobject \<Rightarrow> string \<Rightarrow> bool \<times> jobject" where
  "json_object_remove obj name =
     (if json_object_get_value obj name = None then (False, obj)
      else
        let last_item_index = json_object_get_count obj - 1;
            i = length (takeWhile (\<lambda>kv. fst kv \<noteq> name) (snd obj));
            kvs = (if i \<noteq> last_item_index then (snd obj)[i := snd obj ! last_item_index] else snd obj)
        in (True, (fst obj, take last_item_index kvs)))"

function json_object_dotremove :: "bool \<Rightarrow> jobject \<Rightarrow> string \<Rightarrow> bool \<times> jobject" where
  "json_object_dotremove mem obj name =
     (if CHR ''.'' \<notin> set name then json_object_remove obj name
      else if \<not> mem then (False, obj) \<comment> \<open>\<open>current_name\<close> is NULL\<close>
      else
        let current_name = takeWhile (\<lambda>c. c \<noteq> CHR ''.'') name
        in case json_object_get_object obj current_name of
             None \<Rightarrow> (False, obj)
           | Some temp_obj \<Rightarrow>
               (let (ok, temp_obj') = json_object_dotremove mem temp_obj (drop 1 (dropWhile (\<lambda>c. c \<noteq> CHR ''.'') name))
                in (ok, put_object obj current_name temp_obj')))"
  by pat_completeness auto
termination
  by (relation "measure (\<lambda>(mem, obj, name). length name)") (auto simp: after_dot_shorter)

declare json_object_dotremove.simps [simp del]

definition json_object_clear :: "jobject \<Rightarrow> bool \<times> jobject" where
  "json_object_clear obj = (True, (fst obj, []))"

section \<open>Deep copies\<close>

text \<open>\<open>copy_items\<close> and \<open>copy_members\<close> are the loops; a member is looked up by its name.\<close>

function (sequential)
      json_value_deep_copy :: "bool \<Rightarrow> json \<Rightarrow> json option"
  and copy_items :: "bool \<Rightarrow> jarray \<Rightarrow> json list \<Rightarrow> json option"
  and copy_members :: "bool \<Rightarrow> jobject \<Rightarrow> (string \<times> json) list \<Rightarrow> string list \<Rightarrow> json option"
where
  "json_value_deep_copy mem (JSONArray cap vs) =
     (case json_value_init_array mem of None \<Rightarrow> None | Some temp_array_copy \<Rightarrow> copy_items mem temp_array_copy vs)"
| "json_value_deep_copy mem (JSONObject cap kvs) =
     (case json_value_init_object mem of None \<Rightarrow> None | Some temp_object_copy \<Rightarrow> copy_members mem temp_object_copy kvs (map fst kvs))"
| "json_value_deep_copy mem (JSONBoolean b) = json_value_init_boolean mem (json_value_get_boolean (Some (JSONBoolean b)))"
| "json_value_deep_copy mem (JSONNumber x) = json_value_init_number mem (json_value_get_number (Some (JSONNumber x)))"
| "json_value_deep_copy mem (JSONString s) = (if mem then json_value_init_string_no_copy mem s else None)"
| "json_value_deep_copy mem JSONNull = json_value_init_null mem"
| "copy_items mem arr [] = Some (JSONArray (fst arr) (snd arr))"
| "copy_items mem arr (v # vs) =
     (case json_value_deep_copy mem v of
        None \<Rightarrow> None
      | Some temp_value_copy \<Rightarrow>
          let r = json_array_add mem arr temp_value_copy
          in if fst r then copy_items mem (snd r) vs else None)"
| "copy_members mem obj kvs [] = Some (JSONObject (fst obj) (snd obj))"
| "copy_members mem obj kvs (key # keys) =
     (case map_of kvs key of
        None \<Rightarrow> None \<comment> \<open>the copy of NULL\<close>
      | Some v \<Rightarrow>
         (case json_value_deep_copy mem v of
            None \<Rightarrow> None
          | Some temp_value_copy \<Rightarrow>
              let r = json_object_add mem obj key temp_value_copy
              in if fst r then copy_members mem (snd r) kvs keys else None))"
  by pat_completeness auto
termination
  by (relation "measures
       [\<lambda>x. case x of Inl (mem, v) \<Rightarrow> 2 * size v
         | Inr (Inl (mem, arr, vs)) \<Rightarrow> 2 * size_list size vs + 1
         | Inr (Inr (mem, obj, kvs, keys)) \<Rightarrow> 2 * size_list (size_prod (\<lambda>_. 0) size) kvs + 1,
        \<lambda>x. case x of Inr (Inr (mem, obj, kvs, keys)) \<Rightarrow> length keys | _ \<Rightarrow> 0]")
     (auto dest: size_map_of)

section \<open>Comparison and validation\<close>

fun fp_neg :: "fp \<Rightarrow> fp" where
  "fp_neg (Fin x) = Fin (- x)" | "fp_neg (FInf s) = FInf (\<not> s)" | "fp_neg FNaN = FNaN"

fun fabs :: "fp \<Rightarrow> fp" where
  "fabs (Fin x) = Fin \<bar>x\<bar>" | "fabs (FInf s) = FInf False" | "fabs FNaN = FNaN"

function (sequential) json_value_equals :: "json option \<Rightarrow> json option \<Rightarrow> bool" where
  "json_value_equals (Some (JSONArray c xs)) (Some (JSONArray d ys)) \<longleftrightarrow>
     length xs = length ys \<and> list_all (\<lambda>(x, y). json_value_equals (Some x) (Some y)) (zip xs ys)"
| "json_value_equals (Some (JSONObject c xs)) (Some (JSONObject d ys)) \<longleftrightarrow>
     length xs = length ys \<and> list_all (\<lambda>key. json_value_equals (map_of xs key) (map_of ys key)) (map fst xs)"
| "json_value_equals (Some (JSONString s)) (Some (JSONString t)) \<longleftrightarrow> s = t"
| "json_value_equals (Some (JSONBoolean a)) (Some (JSONBoolean b)) \<longleftrightarrow> a = b"
| "json_value_equals (Some (JSONNumber x)) (Some (JSONNumber y)) \<longleftrightarrow>
     fp_less (fabs (fp_add f64 x (fp_neg y))) (f64 (1 / 1000000))"
| "json_value_equals a b \<longleftrightarrow> json_value_get_type a = json_value_get_type b"
  by pat_completeness auto

lemma size_zip: "(x, y) \<in> set (zip xs ys) \<Longrightarrow> size x < Suc (size_list size xs)"
  by (drule set_zip_leftD) (simp add: size_list_estimation' less_Suc_eq_le)

termination json_value_equals
  by (relation "measure (\<lambda>(a, b). case a of None \<Rightarrow> 0 | Some v \<Rightarrow> Suc (size v))")
     (auto dest: size_zip size_map_of split: option.split)

text \<open>Only the first item of an array of the template counts; a template \<open>null\<close> takes every value.\<close>

function (sequential) json_validate :: "json option \<Rightarrow> json option \<Rightarrow> bool" where
  "json_validate None value = False"
| "json_validate schema None = False"
| "json_validate (Some JSONNull) (Some value) = True"
| "json_validate (Some (JSONArray c ss)) (Some (JSONArray d vs)) =
     (if ss = [] then True else list_all (\<lambda>v. json_validate (Some (hd ss)) (Some v)) vs)"
| "json_validate (Some (JSONObject c ss)) (Some (JSONObject d vs)) =
     (if ss = [] then True
      else if length vs < length ss then False
      else list_all (\<lambda>key. map_of vs key \<noteq> None \<and> json_validate (map_of ss key) (map_of vs key)) (map fst ss))"
| "json_validate (Some schema) (Some value) = (json_value_get_type (Some schema) = json_value_get_type (Some value))"
  by pat_completeness auto
termination
  by (relation "measure (\<lambda>(a, b). case a of None \<Rightarrow> 0 | Some v \<Rightarrow> Suc (size v))")
     (auto dest: size_map_of split: option.split simp: neq_Nil_conv)

section \<open>Files\<close>

text \<open>
  A file to read: its content, and whether \<open>ftell\<close> or \<open>fread\<close> fails on it; \<open>None\<close> when it cannot be opened. The
  text that is parsed ends at the first zero byte. A file to write: whether \<open>fopen\<close>, \<open>fputs\<close> and \<open>fclose\<close>
  succeed; the result has the status and what the file holds when it was opened.
\<close>

record rfile =
  rf_content :: string
  rf_ftell_fails :: bool
  rf_ferror :: bool

definition read_file :: "bool \<Rightarrow> rfile option \<Rightarrow> string option" where
  "read_file mem fp =
     (case fp of
        None \<Rightarrow> None
      | Some f \<Rightarrow>
          if rf_ftell_fails f then None
          else if \<not> mem then None
          else if rf_ferror f then None
          else Some (takeWhile (\<lambda>c. c \<noteq> CHR 0x00) (rf_content f)))"

definition json_parse_file :: "bool \<Rightarrow> rfile option \<Rightarrow> json option c" where
  "json_parse_file mem fp =
     (case read_file mem fp of None \<Rightarrow> Inr None | Some file_contents \<Rightarrow> json_parse_string mem (Some file_contents))"

definition json_parse_file_with_comments :: "bool \<Rightarrow> rfile option \<Rightarrow> json option c" where
  "json_parse_file_with_comments mem fp =
     (case read_file mem fp of None \<Rightarrow> Inr None | Some file_contents \<Rightarrow> json_parse_string_with_comments mem file_contents)"

record wfile =
  wf_fopen :: bool
  wf_fputs :: bool
  wf_fclose :: bool

definition write_text :: "wfile \<Rightarrow> string \<Rightarrow> bool \<times> string option" where
  "write_text fp serialized_string =
     (if \<not> wf_fopen fp then (False, None)
      else (wf_fputs fp \<and> wf_fclose fp, if wf_fputs fp \<and> wf_fclose fp then Some serialized_string else None))"

definition json_serialize_to_file :: "bool \<Rightarrow> json \<Rightarrow> wfile \<Rightarrow> (bool \<times> string option) c" where
  "json_serialize_to_file mem v fp =
     cbind (json_serialize_to_string mem v) (\<lambda>s. case s of None \<Rightarrow> Inr (False, None) | Some serialized_string \<Rightarrow> Inr (write_text fp serialized_string))"

definition json_serialize_to_file_pretty :: "bool \<Rightarrow> json \<Rightarrow> wfile \<Rightarrow> (bool \<times> string option) c" where
  "json_serialize_to_file_pretty mem v fp =
     cbind (json_serialize_to_string_pretty mem v) (\<lambda>s. case s of None \<Rightarrow> Inr (False, None) | Some serialized_string \<Rightarrow> Inr (write_text fp serialized_string))"

section \<open>Removing an item in constant time\<close>

text \<open>Both removals overwrite the item with the last one and shorten the container.\<close>

lemma swap_remove:
  assumes "i < length xs"
  shows "mset xs = add_mset (xs ! i) (mset (take (length xs - 1) (if i \<noteq> length xs - 1 then xs[i := xs ! (length xs - 1)] else xs)))"
proof -
  obtain ys z where xs: "xs = ys @ [z]" using assms by (cases xs rule: rev_cases) auto
  show ?thesis
  proof (cases "i = length ys")
    case False
    then have i: "i < length ys" using assms by (simp add: xs)
    then have "mset (ys[i := z]) = add_mset z (mset ys - {#ys ! i#})" by (simp add: mset_update)
    moreover have "ys ! i \<in># mset ys" using i by simp
    ultimately show ?thesis using i False by (simp add: xs nth_append list_update_append)
  qed (simp add: xs)
qed

lemma array_remove_mset:
  assumes "ix < json_array_get_count arr"
  shows "\<exists>arr1. json_array_remove arr ix = (True, arr1) \<and> fst arr1 = fst arr \<and> mset (snd arr) = add_mset (snd arr ! ix) (mset (snd arr1))"
  using assms swap_remove [of ix "snd arr"] by (auto simp: json_array_remove_def json_array_get_count_def Let_def)

lemma object_remove_mset:
  assumes "map_of (snd obj) name = Some v"
  shows "\<exists>obj1. json_object_remove obj name = (True, obj1) \<and> fst obj1 = fst obj \<and> mset (snd obj) = add_mset (name, v) (mset (snd obj1))"
proof -
  let ?i = "length (takeWhile (\<lambda>kv. fst kv \<noteq> name) (snd obj))"
  have "?i < length (snd obj) \<and> snd obj ! ?i = (name, v)"
    using assms by (induction "snd obj" arbitrary: obj) (auto split: if_splits)
  then show ?thesis
    using swap_remove [of ?i "snd obj"] assms by (auto simp: json_object_remove_def json_object_get_count_def Let_def)
qed

lemma map_of_remove:
  assumes "distinct (map fst xs)" "mset xs = add_mset (k, v) (mset ys)"
  shows "map_of ys = (map_of xs)(k := None)" "distinct (map fst ys)"
proof -
  have "mset (map fst xs) = add_mset k (mset (map fst ys))" using assms(2) by simp
  then have "mset (map fst xs) = mset (k # map fst ys)" by simp
  then have d: "distinct (k # map fst ys)" using assms(1) mset_eq_imp_distinct_iff by blast
  then show ys: "distinct (map fst ys)" by simp
  have set: "set xs = insert (k, v) (set ys)" using arg_cong [OF assms(2), of set_mset] by simp
  show "map_of ys = (map_of xs)(k := None)"
  proof
    fix x
    have "map_of ys x = Some w \<longleftrightarrow> ((map_of xs)(k := None)) x = Some w" for w
      using d set assms(1) ys by (auto simp: map_of_eq_Some_iff image_iff)
    then show "map_of ys x = ((map_of xs)(k := None)) x" by (metis not_None_eq)
  qed
qed

section \<open>Removing under a path\<close>

fun remove_path :: "jobject \<Rightarrow> string list \<Rightarrow> bool \<times> jobject" where
  "remove_path obj [] = (False, obj)"
| "remove_path obj [k] = json_object_remove obj k"
| "remove_path obj (k # ks) =
     (case json_object_get_object obj k of
        None \<Rightarrow> (False, obj)
      | Some sub \<Rightarrow> (case remove_path sub ks of (ok, sub') \<Rightarrow> (ok, put_object obj k sub')))"

lemma dotremove_path: "json_object_dotremove True obj name = remove_path obj (path name)"
proof (induction name arbitrary: obj rule: path.induct)
  case (1 name)
  show ?case
  proof (cases "CHR ''.'' \<in> set name")
    case True
    define r where "r = drop 1 (dropWhile (\<lambda>c. c \<noteq> CHR ''.'') name)"
    obtain p ps where ps: "path r = p # ps" by (meson neq_Nil_conv path_nonempty)
    note IH = 1 [OF True, folded r_def, unfolded ps]
    have "path name = takeWhile (\<lambda>c. c \<noteq> CHR ''.'') name # p # ps" using True ps by (subst path.simps) (simp add: r_def)
    then show ?thesis using True
      by (subst json_object_dotremove.simps) (simp add: Let_def r_def [symmetric] IH del: One_nat_def split: option.split)
  qed (simp add: json_object_dotremove.simps)
qed

lemma remove_map_of:
  assumes "distinct (map fst (snd obj))" "json_object_remove obj k = (ok, obj1)"
  shows "map_of (snd obj1) = (map_of (snd obj))(k := None) \<and> ok = (map_of (snd obj) k \<noteq> None)"
proof (cases "map_of (snd obj) k")
  case None
  then show ?thesis using assms(2) by (auto simp: json_object_remove_def fun_upd_idem)
next
  case (Some v)
  then show ?thesis using object_remove_mset [OF Some] assms map_of_remove(1) [OF assms(1)] by auto
qed

lemma remove_path_get:
  "printable n (JSONObject (fst obj) (snd obj)) \<Longrightarrow> ks \<noteq> [] \<Longrightarrow> remove_path obj ks = (ok, obj') \<Longrightarrow>
   ok = (get_path (Some obj) ks \<noteq> None) \<and> get_path (Some obj') ks = None \<and>
   (\<forall>qs. parallel ks qs \<longrightarrow> get_path (Some obj') qs = get_path (Some obj) qs)"
proof (induction obj ks arbitrary: n ok obj' rule: remove_path.induct)
  case (2 obj k)
  then have "map_of (snd obj') = (map_of (snd obj))(k := None) \<and> ok = (map_of (snd obj) k \<noteq> None)"
    using remove_map_of [of obj k ok obj'] by simp
  moreover have "get_path (Some obj') qs = get_path (Some obj) qs" if "parallel [k] qs" for qs
    using that calculation by (cases qs; cases "tl qs") (auto simp: get_path_Cons parallel_def)
  ultimately show ?case by simp
next
  case (3 obj k k2 ks)
  show ?case
  proof (cases "json_object_get_object obj k")
    case None
    then show ?thesis using 3(4) by (auto simp: json_object_get_object_def)
  next
    case (Some sub)
    obtain sub' where sub': "remove_path sub (k2 # ks) = (ok, sub')" "obj' = put_object obj k sub'"
      using 3(4) Some by (auto split: prod.splits)
    have v: "map_of (snd obj) k = Some (JSONObject (fst sub) (snd sub))"
      using Some by (auto simp: json_object_get_object_def json_value_get_object_def split: option.splits json.splits)
    then have "printable (Suc n) (JSONObject (fst sub) (snd sub))" using 3(2) map_of_SomeD [OF v] by fastforce
    note IH = 3(1) [OF Some this _ sub'(1)]
    have "get_path (Some obj') qs = get_path (Some obj) qs" if par: "parallel (k # k2 # ks) qs" for qs
    proof (cases "qs \<noteq> [] \<and> hd qs = k")
      case True
      then obtain rs where "qs = k # rs" by (cases qs) auto
      with par have "qs = k # rs" "parallel (k2 # ks) rs" "rs \<noteq> []" by (auto simp: parallel_def)
      then show ?thesis using IH v by (simp add: sub'(2) get_path_Cons)
    next
      case False
      then show ?thesis by (cases qs; cases "tl qs") (auto simp: sub'(2) get_path_Cons)
    qed
    then show ?thesis using IH v by (simp add: sub'(2))
  qed
qed simp

section \<open>Copies differ in their capacities only\<close>

fun trim :: "json \<Rightarrow> json" where
  "trim (JSONArray cap vs) = JSONArray (length vs) (map trim vs)"
| "trim (JSONObject cap kvs) = JSONObject (length kvs) (map (\<lambda>kv. (fst kv, trim (snd kv))) kvs)"
| "trim v = v"

lemma map_of_map_snd: "map_of (map (\<lambda>kv. (fst kv, f (snd kv))) kvs) k = map_option f (map_of kvs k)"
  by (induction kvs) auto

text \<open>The serializer does not look at capacities.\<close>

lemma serialize_trim:
  "json_serialize_to_buffer_r b pretty level (trim v) = json_serialize_to_buffer_r b pretty level v"
  "serialize_items b pretty level (map trim vs) acc = serialize_items b pretty level vs acc"
  "serialize_members b pretty level (map (\<lambda>kv. (fst kv, trim (snd kv))) kvs) keys acc = serialize_members b pretty level kvs keys acc"
proof (induction b pretty level v and b pretty level vs acc and b pretty level kvs keys acc
    rule: json_serialize_to_buffer_r_serialize_items_serialize_members.induct)
  case (5 buf pretty level cap items)
  then show ?case by (auto intro!: cbind_cong split del: if_split)
next
  case (6 buf pretty level cap kvs)
  then show ?case by (auto simp: comp_def intro!: cbind_cong split del: if_split)
next
  case (8 buf pretty level v vs acc)
  then show ?case by (auto intro!: cbind_cong split del: if_split)
next
  case (10 buf pretty level kvs key keys acc)
  then show ?case by (auto simp: map_of_map_snd intro!: cbind_cong split del: if_split split: option.split)
qed simp_all

lemma copy_trims:
  "m \<Longrightarrow> printable n v \<Longrightarrow> \<exists>w. json_value_deep_copy m v = Some w \<and> trim w = trim v"
  "m \<Longrightarrow> \<forall>v \<in> set vs. printable n v \<Longrightarrow> wf_array arr \<Longrightarrow> length (snd arr) + length vs \<le> ARRAY_MAX_CAPACITY \<Longrightarrow>
     \<exists>cap ws. copy_items m arr vs = Some (JSONArray cap (snd arr @ ws)) \<and> map trim ws = map trim vs"
  "m \<Longrightarrow> \<forall>kv \<in> set kvs. printable n (snd kv) \<Longrightarrow> wf_object obj \<Longrightarrow> length (snd obj) + length keys \<le> OBJECT_MAX_CAPACITY \<Longrightarrow>
     distinct (map fst (snd obj) @ keys) \<Longrightarrow> set keys \<subseteq> fst ` set kvs \<Longrightarrow>
     \<exists>cap ws. copy_members m obj kvs keys = Some (JSONObject cap (snd obj @ ws)) \<and>
       map (\<lambda>kv. (fst kv, trim (snd kv))) ws = map (\<lambda>k. (k, trim (the (map_of kvs k)))) keys"
proof (induction m v and m arr vs and m obj kvs keys arbitrary: n and n and n
    rule: json_value_deep_copy_copy_items_copy_members.induct)
  case (1 mem cap vs)
  have "\<exists>cap ws. copy_items mem json_array_init vs = Some (JSONArray cap (snd json_array_init @ ws)) \<and> map trim ws = map trim vs"
    using 1(2,3) by (intro 1(1)) (auto simp: json_value_init_array_def json_array_init_def wf_array_def)
  then show ?case using 1(2) map_eq_imp_length_eq by (fastforce simp: json_value_init_array_def json_array_init_def)
next
  case (2 mem cap kvs)
  have "\<exists>cap ws. copy_members mem json_object_init kvs (map fst kvs) = Some (JSONObject cap (snd json_object_init @ ws)) \<and>
      map (\<lambda>kv. (fst kv, trim (snd kv))) ws = map (\<lambda>k. (k, trim (the (map_of kvs k)))) (map fst kvs)"
    using 2(2,3) by (intro 2(1)) (auto simp: json_value_init_object_def json_object_init_def wf_object_def)
  moreover have "map (\<lambda>k. (k, trim (the (map_of kvs k)))) (map fst kvs) = map (\<lambda>kv. (fst kv, trim (snd kv))) kvs"
    using 2(3) by (auto simp: map_of_is_SomeI)
  ultimately obtain cap1 ws where w: "copy_members mem json_object_init kvs (map fst kvs) = Some (JSONObject cap1 ws)"
      "map (\<lambda>kv. (fst kv, trim (snd kv))) ws = map (\<lambda>kv. (fst kv, trim (snd kv))) kvs"
    by (auto simp: json_object_init_def)
  then show ?case using 2(2) map_eq_imp_length_eq [OF w(2)] by (simp add: json_value_init_object_def)
next
  case (8 mem arr v vs)
  obtain w where w: "json_value_deep_copy mem v = Some w" "trim w = trim v" using 8(1) [of n] 8(3,4) by auto
  let ?r = "json_array_add mem arr w"
  have r: "fst ?r" "snd (snd ?r) = snd arr @ [w]" "wf_array (snd ?r)"
    using array_add_cases(1,3) [OF 8(5), of w] 8(3,6) by (auto simp: ARRAY_MAX_CAPACITY_def)
  obtain cap ws where "copy_items mem (snd ?r) vs = Some (JSONArray cap (snd (snd ?r) @ ws))" "map trim ws = map trim vs"
    using 8(2) [OF w(1) refl r(1) 8(3), of n] 8(4,6) r by auto
  then show ?case using w r by (intro exI [of _ cap] exI [of _ "w # ws"]) simp
next
  case (10 mem obj kvs key keys)
  then obtain v where v: "map_of kvs key = Some v" by (metis insert_subset list.simps(15) map_of_eq_None_iff not_None_eq)
  then have "printable n v" using 10(4) map_of_SomeD by fastforce
  then obtain w where w: "json_value_deep_copy mem v = Some w" "trim w = trim v" using 10(1) [OF v 10(3)] by auto
  let ?r = "json_object_add mem obj key w"
  have r: "fst ?r" "snd (snd ?r) = snd obj @ [(key, w)]" "wf_object (snd ?r)"
    using object_add_room [OF 10(5), of key w] wf_object_add [OF 10(5), of key w] 10(3,6,7) by (auto simp: OBJECT_MAX_CAPACITY_def)
  obtain cap ws where "copy_members mem (snd ?r) kvs keys = Some (JSONObject cap (snd (snd ?r) @ ws))"
      "map (\<lambda>kv. (fst kv, trim (snd kv))) ws = map (\<lambda>k. (k, trim (the (map_of kvs k)))) keys"
    using 10(2) [OF v w(1) refl r(1) 10(3), of n] 10(4,6-8) r by auto
  then show ?case using v w r by (intro exI [of _ cap] exI [of _ "(key, w) # ws"]) simp
qed (auto simp: json_value_init_boolean_def json_value_init_number_def json_value_init_null_def json_value_get_boolean_def json_value_get_number_def)

section \<open>What is read back is equal\<close>

lemma reread_close:
  assumes "\<bar>q\<bar> < 2 ^ 31 + 1"
  shows "\<exists>y. reread_number (Fin q) = Fin y \<and> \<bar>q - y\<bar> < 8 / 10 ^ 7"
proof -
  define r where "r = (if q < 0 then - 1 else 1) * of_int (round_half_even (\<bar>q\<bar> * 10 ^ 6)) / (10 ^ 6 :: rat)"
  have "q - r = (if q < 0 then 1 else - 1) * (of_int (round_half_even (\<bar>q\<bar> * 10 ^ 6)) - \<bar>q\<bar> * 10 ^ 6) / 10 ^ 6"
    by (auto simp: r_def field_simps)
  then have "\<bar>q - r\<bar> = \<bar>of_int (round_half_even (\<bar>q\<bar> * 10 ^ 6)) - \<bar>q\<bar> * 10 ^ 6\<bar> / 10 ^ 6"
    by (simp only: abs_mult abs_divide) simp
  also have "\<dots> \<le> (1 / 2) / 10 ^ 6" using round_half_even_error by (intro divide_right_mono) auto
  finally have qr: "\<bar>q - r\<bar> \<le> 5 / 10 ^ 7" by simp
  then have "\<bar>q - r\<bar> < 1" by simp
  then have "\<bar>r\<bar> < 2 ^ 31 + 2" using assms by linarith
  then have "\<bar>r\<bar> < two_pow 32" by (simp add: two_pow_def)
  then obtain y where y: "f64 r = Fin y" "\<bar>y - r\<bar> \<le> two_pow (- 22)" using f64.rnd_error [of r 31] by auto
  have "two_pow (- 22) < 3 / 10 ^ 7" by (simp add: two_pow_def)
  then have "\<bar>y - r\<bar> < 3 / 10 ^ 7" using y(2) by (rule order_le_less_trans [rotated])
  moreover have "\<bar>q - y\<bar> \<le> \<bar>q - r\<bar> + \<bar>y - r\<bar>" by linarith
  ultimately have "\<bar>q - y\<bar> < 5 / 10 ^ 7 + 3 / 10 ^ 7" using qr by linarith
  then show ?thesis using y(1) by (intro exI [of _ y]) (simp add: reread_number.simps r_def)
qed

lemma reread_number_equals:
  assumes "serialize_number x = Inr t"
  shows "json_value_equals (Some (JSONNumber x)) (Some (JSONNumber (reread_number x)))"
proof -
  obtain q where x: "x = Fin q" and "is_i32 (trunc_rat q)" using assms by (cases x) (auto simp: serialize_number_def split: if_splits)
  then have "\<bar>q\<bar> < 2 ^ 31 + 1" by (auto simp: trunc_rat_def INT_MIN_def INT_MAX_def floor_le_iff le_ceiling_iff split: if_splits)
  then obtain y where y: "reread_number (Fin q) = Fin y" "\<bar>q - y\<bar> < 8 / 10 ^ 7" using reread_close by blast
  then have "\<bar>q - y\<bar> < two_pow 0" by (simp add: two_pow_def)
  then obtain d where d: "f64 (q - y) = Fin d" "\<bar>d - (q - y)\<bar> \<le> two_pow (- 54)" using f64.rnd_error [of "q - y" "- 1"] by auto
  obtain eps where eps: "f64 (1 / 1000000) = Fin eps" "\<bar>eps - 1 / 1000000\<bar> \<le> two_pow (- 54)"
    using f64.rnd_error [of "1 / 1000000" "- 1"] by (auto simp: two_pow_def [of 0])
  have "two_pow (- 54) < 1 / 10 ^ 8" by (simp add: two_pow_def)
  then have "\<bar>d\<bar> < eps" using y(2) d(2) eps(2) by (simp add: abs_if split: if_splits)
  then show ?thesis using y(1) d(1) eps(1) by (simp add: x)
qed

lemma reread_equals:
  "printable n v \<Longrightarrow> value_text pretty level v = Inr r \<Longrightarrow> json_value_equals (Some v) (Some (reread v))"
  "\<forall>v \<in> set vs. printable n v \<Longrightarrow> items_text pretty level vs = Inr r \<Longrightarrow> \<forall>v \<in> set vs. json_value_equals (Some v) (Some (reread v))"
  "\<forall>kv \<in> set kvs. printable n (snd kv) \<Longrightarrow> members_text pretty level kvs keys = Inr r \<Longrightarrow>
     \<forall>k \<in> set keys. json_value_equals (map_of kvs k) (map_option reread (map_of kvs k))"
proof (induction pretty level v and pretty level vs and pretty level kvs keys arbitrary: n r and n r and n r
    rule: value_text_items_text_members_text.induct)
  case (3 pretty level num)
  then show ?case using reread_number_equals by auto
next
  case (5 pretty level cap items)
  then have "\<forall>v \<in> set items. json_value_equals (Some v) (Some (reread v))" by (auto simp: cbind_eq_Inr)
  then show ?case by (auto simp: list_all_iff zip_map2 dest: set_zip_leftD simp: zip_same_conv_map)
next
  case (6 pretty level cap kvs)
  then have "\<forall>k \<in> set (map fst kvs). json_value_equals (map_of kvs k) (map_option reread (map_of kvs k))" by (auto simp: cbind_eq_Inr)
  then show ?case by (simp add: list_all_iff map_of_map_snd)
next
  case (8 pretty level v vs)
  then show ?case by (auto simp: cbind_eq_Inr)
next
  case (10 pretty level kvs key keys)
  then obtain v where v: "map_of kvs key = Some v" by (auto split: option.splits)
  moreover have "printable n v" using 10(3) map_of_SomeD [OF v] by fastforce
  ultimately show ?case using 10 by (auto simp: cbind_eq_Inr)
qed (auto simp: json_value_get_type_def)

text \<open>The getters see the values of the original, read back.\<close>

lemma get_path_reread:
  "get_path (map_option (\<lambda>obj. (length (snd obj), map (\<lambda>kv. (fst kv, reread (snd kv))) (snd obj))) obj) ks = map_option reread (get_path obj ks)"
proof (induction obj ks rule: get_path.induct)
  case (4 obj k k2 ks)
  have "json_value_get_object (map_option reread v) =
      map_option (\<lambda>obj. (length (snd obj), map (\<lambda>kv. (fst kv, reread (snd kv))) (snd obj))) (json_value_get_object v)" for v
    by (cases v; cases "the v") (simp_all add: json_value_get_object_def)
  then show ?case using 4 by (simp add: map_of_map_snd)
qed (simp_all add: map_of_map_snd)

lemma dotget_reread:
  "reread (JSONObject (fst obj) (snd obj)) = JSONObject (fst obj') (snd obj') \<Longrightarrow>
   json_object_dotget_value (Some obj') name = map_option reread (json_object_dotget_value (Some obj) name)"
  using get_path_reread [of "Some obj" "path name"] by (cases obj') (auto simp: dotget_path)

text \<open>The text has no zero byte, so it survives as a C string and in a file.\<close>

lemma escape_forms: "escape_char c \<in> {[CHR 0x5C, CHR 0x22], [CHR 0x5C, CHR 0x5C], [CHR 0x5C, CHR ''/''], [CHR 0x5C, CHR ''b''], [CHR 0x5C, CHR ''f''],
   [CHR 0x5C, CHR ''n''], [CHR 0x5C, CHR ''r''], [CHR 0x5C, CHR ''t'']} \<or> escape_char c = (if code c < 32 then hex4 (code c) else [c])"
  by (simp add: escape_char_def)

lemma escape_no_nul: "CHR 0x00 \<notin> set (escape_char c)"
proof -
  have "CHR 0x00 \<notin> set (hex4 (code c))" if "code c < 32"
  proof -
    have "code c div 16 < 2" using that by simp
    then have "''01'' ! (code c div 16) \<noteq> CHR 0x00" "''0123456789abcdef'' ! (code c mod 16) \<noteq> CHR 0x00"
      using hex_lead [of "code c div 16"] hex_digit [of "code c div 16"] hex_digit [of "code c mod 16"]
      by (auto simp: isxdigit_def isdigit_def tolower_def isupper_def code_def)
    then show ?thesis by (simp add: hex4_def)
  qed
  moreover have "CHR 0x00 \<noteq> c" if "\<not> code c < 32" using that by (auto simp: code_def)
  ultimately show ?thesis using escape_forms [of c] by (elim disjE insertE emptyE) simp_all
qed

lemma serialized_no_nul:
  "value_text pretty level v = Inr t \<Longrightarrow> CHR 0x00 \<notin> set t"
  "items_text pretty level vs = Inr t \<Longrightarrow> CHR 0x00 \<notin> set t"
  "members_text pretty level kvs keys = Inr t \<Longrightarrow> CHR 0x00 \<notin> set t"
proof (induction pretty level v and pretty level vs and pretty level kvs keys arbitrary: t and t and t
    rule: value_text_items_text_members_text.induct)
  case (3 pretty level num)
  then show ?case using number_chars [of num t] by (auto simp: isdigit_def code_def)
next
  case (10 pretty level kvs key keys)
  then show ?case using escape_no_nul by (auto simp: cbind_eq_Inr split: option.splits)
qed (use escape_no_nul in \<open>auto simp: cbind_eq_Inr\<close>)

section \<open>Properties\<close>

text \<open>A value saved to a file, compact or indented, and loaded again, with or without the removal of
  comments, is equal to the original by the comparison of the library: numbers differ by less than the
  tolerance of a millionth.\<close>
theorem json_saved_value_equals:
  assumes "json_serialize_to_file True v fp = Inr (True, Some t) \<or> json_serialize_to_file_pretty True v fp = Inr (True, Some t)"
    and "printable 0 v"
  defines "saved \<equiv> Some \<lparr>rf_content = t, rf_ftell_fails = False, rf_ferror = False\<rparr>"
  shows "\<exists>w. json_parse_file True saved = Inr (Some w) \<and> json_parse_file_with_comments True saved = Inr (Some w) \<and>
    json_value_equals (Some v) (Some w)"
proof -
  have "json_serialize_to_string True v = Inr (Some t) \<or> json_serialize_to_string_pretty True v = Inr (Some t)"
    using assms(1) by (auto simp: json_serialize_to_file_def json_serialize_to_file_pretty_def write_text_def cbind_eq_Inr
        split: option.split_asm if_split_asm)
  then obtain pretty where s: "value_text pretty 0 v = Inr t" using serialize_to_string_text by blast
  have "takeWhile (\<lambda>c. c \<noteq> CHR 0x00) t = t" using serialized_no_nul(1) [OF s] by (simp add: no_nul_id)
  then have "read_file True saved = Some t" by (simp add: saved_def read_file_def)
  then show ?thesis
    using text_read_back [OF s assms(2)] reread_equals(1) [OF assms(2) s] by (simp add: json_parse_file_def json_parse_file_with_comments_def)
qed

theorem json_saved_value_equals_witness:
  "\<exists>w. json_parse_file True (Some \<lparr>rf_content = ''[true,null]'', rf_ftell_fails = False, rf_ferror = False\<rparr>) = Inr (Some w) \<and>
    json_parse_file_with_comments True (Some \<lparr>rf_content = ''[true,null]'', rf_ftell_fails = False, rf_ferror = False\<rparr>) = Inr (Some w) \<and>
    json_value_equals (Some (JSONArray 15 [JSONBoolean True, JSONNull])) (Some w)"
proof (rule json_saved_value_equals [where fp = "\<lparr>wf_fopen = True, wf_fputs = True, wf_fclose = True\<rparr>"])
  have "json_serialize_to_string True (JSONArray 15 [JSONBoolean True, JSONNull]) = Inr (Some ''[true,null]'')"
    by (simp add: serialize_to_string_text INT_MAX_def)
  then show "json_serialize_to_file True (JSONArray 15 [JSONBoolean True, JSONNull]) \<lparr>wf_fopen = True, wf_fputs = True, wf_fclose = True\<rparr> =
      Inr (True, Some ''[true,null]'') \<or>
    json_serialize_to_file_pretty True (JSONArray 15 [JSONBoolean True, JSONNull]) \<lparr>wf_fopen = True, wf_fputs = True, wf_fclose = True\<rparr> =
      Inr (True, Some ''[true,null]'')"
    by (simp add: json_serialize_to_file_def write_text_def)
qed (simp add: MAX_NESTING_def ARRAY_MAX_CAPACITY_def)

text \<open>A dotted removal succeeds exactly when there is a value under the name; afterwards there is none,
  and every name whose path neither extends nor prefixes the removed one finds what it found before.\<close>
theorem json_dotremove_removes:
  assumes "json_object_dotremove True obj name = (ok, obj')" "printable n (JSONObject (fst obj) (snd obj))"
  shows "ok = (json_object_dotget_value (Some obj) name \<noteq> None) \<and> json_object_dotget_value (Some obj') name = None \<and>
    (\<forall>other. parallel (path name) (path other) \<longrightarrow>
       json_object_dotget_value (Some obj') other = json_object_dotget_value (Some obj) other)"
  using remove_path_get [OF assms(2) path_nonempty, of name ok obj'] assms(1) by (simp add: dotremove_path dotget_path)

theorem json_dotremove_removes_witness:
  "json_object_dotget_value (Some (15, [(''c'', JSONBoolean True), (''b'', JSONNull)])) ''a'' = None \<and>
   json_object_dotget_value (Some (15, [(''c'', JSONBoolean True), (''b'', JSONNull)])) ''c'' = Some (JSONBoolean True)"
proof -
  have removed: "json_object_dotremove True (15, [(''a'', JSONNull), (''b'', JSONNull), (''c'', JSONBoolean True)]) ''a'' =
      (True, (15, [(''c'', JSONBoolean True), (''b'', JSONNull)]))"
    by (simp add: dotremove_path json_object_remove_def json_object_get_count_def)
  have "printable 0 (JSONObject (fst (15, [(''a'', JSONNull), (''b'', JSONNull), (''c'', JSONBoolean True)]))
      (snd (15 :: nat, [(''a'', JSONNull), (''b'', JSONNull), (''c'', JSONBoolean True)])))"
    by (simp add: MAX_NESTING_def OBJECT_MAX_CAPACITY_def)
  from json_dotremove_removes [OF removed this, THEN conjunct2] show ?thesis
    by (elim conjE allE [of _ "''c''"]) (simp add: dotget_path)
qed

text \<open>A deep copy is made of every value within the limits; it differs from the original in the
  capacities of its containers only and prints to the same text.\<close>
theorem json_deep_copy_same:
  assumes "printable n v"
  shows "\<exists>w. json_value_deep_copy True v = Some w \<and> trim w = trim v \<and>
    json_serialize_to_string True w = json_serialize_to_string True v"
proof -
  obtain w where w: "json_value_deep_copy True v = Some w" "trim w = trim v" using copy_trims(1) [OF TrueI assms] by blast
  then have "json_serialize_to_buffer_r True False 0 w = json_serialize_to_buffer_r True False 0 v" by (metis serialize_trim(1))
  then show ?thesis using w by (auto simp: serialize_to_string_eq)
qed

theorem json_deep_copy_same_witness:
  "\<exists>w. json_value_deep_copy True (JSONArray 1 [JSONNull]) = Some w \<and> trim w = trim (JSONArray 1 [JSONNull]) \<and>
    json_serialize_to_string True w = json_serialize_to_string True (JSONArray 1 [JSONNull])"
  by (rule json_deep_copy_same [of 0]) (simp add: MAX_NESTING_def ARRAY_MAX_CAPACITY_def)

text \<open>A value with more members than another still passes the templates that the other passes.\<close>
lemma json_validate_more_members:
  assumes "json_validate (Some (JSONObject c ss)) (Some (JSONObject d vs))" "map_of vs \<subseteq>\<^sub>m map_of us" "length vs \<le> length us"
  shows "json_validate (Some (JSONObject c ss)) (Some (JSONObject e us))"
  using assms by (auto simp: list_all_iff map_le_def dom_def split: if_splits)

end
