(* ===== verification/Service.thy ===== *)
theory Service
  imports Commands
begin

text \<open>
  Requests from the bytes on the socket to the bytes of the answer: the turns of the worker
  (\<^verbatim>\<open>src/src/listener.c\<close>) and of the database thread (\<^verbatim>\<open>src/src/dbhandler.c\<close>) composed through the messages
  they pass, with the parser, the documents and the response of the lower theories.
\<close>

section \<open>Lemmas: the first and the last turn of a request\<close>

text \<open>A request line on the socket; what follows it, and the rest of the buffer, do not matter.\<close>

definition asks :: "turn_input \<Rightarrow> string \<Rightarrow> (string \<times> string option) list \<Rightarrow> bool" where
  "asks inp c ps \<longleftrightarrow> (\<exists>rest. ti_read inp = ReadBytes (show_request c ps @ crlf @ rest)) \<and> ti_oom inp = (\<lambda>_. False) \<and>
     url_safe c \<and> list_all safe_param ps \<and> distinct (map fst ps) \<and> length (show_request c ps) < 1024 \<and> length (query ps) < 512 \<and>
     c \<noteq> ''favicon.ico'' \<and> c \<noteq> ''text-html''"

lemma show_request_no_nul:
  assumes "url_safe c" "list_all safe_param ps"
  shows "CHR 0x00 \<notin> set (show_request c ps)"
proof -
  have p: "safe_param p \<Longrightarrow> CHR 0x00 \<notin> set (show_param p)" for p
    by (cases p rule: show_param.cases) (auto simp: safe_param_def url_safe_def)
  have "CHR 0x00 \<notin> set (query ps)" using assms(2) by (induction ps rule: query.induct) (simp_all add: p)
  then show ?thesis using assms(1) by (auto simp: show_request_def url_safe_def)
qed

lemma asks_parsed:
  assumes "asks inp c ps"
  shows "read_and_parse_response (ti_oom inp) (ti_read inp) (ti_junk inp) r e = Inr (Some (request_cmd c ps), r, e)"
proof -
  obtain rest where rest: "ti_read inp = ReadBytes (show_request c ps @ crlf @ rest)" using assms by (auto simp: asks_def)
  let ?line = "show_request c ps @ crlf"
  have safe: "url_safe c" "list_all safe_param ps" using assms by (simp_all add: asks_def)
  have nul: "CHR 0x00 \<notin> set ?line" using show_request_no_nul [OF safe] by simp
  have "length ?line \<le> 4096" using assms by (auto simp: asks_def)
  then have "take 4096 (?line @ rest) = ?line @ take (4096 - length ?line) rest"
    by (metis take_append take_all)
  moreover have "takeWhile (\<lambda>c. c \<noteq> CHR 0x00) (?line @ ys) = ?line @ takeWhile (\<lambda>c. c \<noteq> CHR 0x00) ys" for ys
    by (rule takeWhile_append2) (use nul in metis)
  ultimately have "buffer_string (?line @ rest) (ti_junk inp) =
      ?line @ takeWhile (\<lambda>c. c \<noteq> CHR 0x00) (take (4096 - length ?line) rest @ ti_junk inp)"
    unfolding buffer_string_def RESPONSE_BUFFER_SIZE_def by (metis append_assoc)
  then show ?thesis
    using assms rest parse_show_request [of c ps]
    by (simp add: read_and_parse_response_def asks_def show_request_def)
qed

lemma request_turn:
  assumes "asks inp c ps" "is_completed m = Some 0" "sockfd m = Some fd"
    and "dispatch_command env (request_cmd c ps) m (w_erange w) = Inr (CALLBACK_RETCODE_SUCCESS, m', er)" "mtype m' = Some ty"
  shows "worker_turn env henv inp w m =
    Inr (w\<lparr>w_erange := er\<rparr>, [MqSend (if ty = DB_MSGTYPE_FETCH \<or> ty = DB_MSGTYPE_STATS then DbMq else WorkerMq) m'])"
proof -
  have "ti_read inp \<noteq> ReadError" "cmdname (request_cmd c ps) \<noteq> ''favicon.ico''" "cmdname (request_cmd c ps) \<noteq> ''text-html''"
    using assms(1) by (auto simp: asks_def request_cmd_def)
  then show ?thesis
    using assms(2-5) by (simp add: worker_turn_def worker_request_def asks_parsed [OF assms(1)] Let_def)
qed

text \<open>Surroundings in which a response can be built.\<close>

definition can_respond :: "http_env \<Rightarrow> bool" where
  "can_respond henv \<longleftrightarrow> json_mem henv \<and> \<not> calloc_fails henv \<and> length (ctime_line henv) = 25 \<and> length (server_id henv) < 256"

definition ok_response :: "http_env \<Rightarrow> string \<Rightarrow> string" where
  "ok_response henv body = HTTP_RESPONSE_TEMPLATE ''200 OK'' (butlast (ctime_line henv)) (server_id henv)
     (if body = [] then [] else ''Content-Length: '' @ show_nat (length body) @ crlf) body"

text \<open>The document has a text, and it is of a size whose length prints as it is.\<close>

definition prints_as :: "json \<Rightarrow> string \<Rightarrow> bool" where
  "prints_as doc body \<longleftrightarrow> json_serialize_to_string True doc = Inr (Some body) \<and> length body < 2 ^ 31"

lemma reply_turn:
  assumes "can_respond henv" "is_completed m = Some 1" "sockfd m = Some fd"
    and "message_json True (w_jval w) m = Inr (Ptr doc)" "prints_as doc body"
  shows "\<exists>w'. worker_turn env henv inp w m = Inr (w', [SockWrite fd (ok_response henv body), SockClose fd])"
  using assms make_response_ok [of henv HTTP_CODE_OK "''200 OK''" body]
  by (simp add: worker_turn_def worker_reply_def can_respond_def prints_as_def reply_and_close_def send_response_def ok_response_def
      http_code_str_def)

lemma dispatch_known:
  "dispatch_command env (request_cmd ''config'' ps) m er = config_command_callback env (request_cmd ''config'' ps) m er"
  "dispatch_command env (request_cmd ''statistics'' ps) m er = statistics_command_callback env (request_cmd ''statistics'' ps) m er"
  "dispatch_command env (request_cmd ''current'' ps) m er = current_command_callback env (request_cmd ''current'' ps) m er"
  "dispatch_command env (request_cmd ''fetch'' ps) m er = fetch_command_callback env (request_cmd ''fetch'' ps) m er"
  by (simp_all add: dispatch_command_def CMD_CALLBACK_TABLE_def request_cmd_def)

section \<open>Lemmas: the documents behind the messages\<close>

lemma message_json_kv:
  assumes "mtype m = Some DB_MSGTYPE_STATS \<or> mtype m = Some DB_MSGTYPE_CONFIG" "data m = KvData (Some l)"
    and "wf_kvlist l" "list_all good_pair (kl_pairs l)" "distinct (map kv_key (kl_pairs l))"
  shows "message_json True old m = Inr (Ptr (kvlist_document (kl_pairs l)))"
  using assms(1,2) kvlist_json [OF assms(3-5)] by (auto simp: message_json_def msgtype_defs to_ptr_def)

lemma message_json_list:
  assumes "mtype m = Some DB_MSGTYPE_FETCH" "data m = ListData (Some l)" "wf_entrylist l" "unitstr m ! 0 \<in> {CHR ''c'', CHR ''f''}"
    and "\<forall>e \<in> set (el_entries l). is_i32 (entry_id e)" "distinct (map entry_id (el_entries l))"
  shows "message_json True old m = Inr (Ptr (entrylist_document (el_entries l) (unitstr m)))"
  using assms(1,2) entrylist_json [OF assms(3-6)] by (simp add: message_json_def msgtype_defs to_ptr_def)

lemma empty_kvlist: "wf_kvlist \<lparr>kl_length = 0, kl_capacity = n, kl_pairs = []\<rparr>"
  by (simp add: wf_kvlist_def)


text \<open>The fetch callback on arguments that select a pair of queries.\<close>

lemma fetch_callback_selects:
  assumes "params cmd \<noteq> []" "\<not> le_oom_query env" "clock_ok (le_clock env)"
    and "fetch_params (le_clock env) (take (cmd_length cmd) (params cmd)) no_args (unitstr m) er = Inr (Next, a, u, er')"
    and "fetch_queries a = Inr (Some (countq, selectq))"
  shows "fetch_command_callback env cmd m er = Inr (CALLBACK_RETCODE_SUCCESS,
    m\<lparr>unitstr := u, mtype := Some DB_MSGTYPE_FETCH, fcountq := Some countq, fselectq := Some selectq\<rparr>, er')"
proof -
  have "args_ok a" using fetch_params_args [OF assms(3,4) no_args_ok] .
  from fetch_queries_length [OF this assms(5)] show ?thesis
    using assms by (simp add: fetch_command_callback_def format_query_def SQL_COMMAND_BUFFER_SIZE_def CALLBACK_RETCODE_SUCCESS_def)
qed

lemma error_body_length: "is_i32 c \<Longrightarrow> length (error_body c err) \<le> 60 + 6 * length err"
proof -
  have "length (escape_char x) \<le> 6" for x by (simp add: escape_char_def hex4_def)
  then have "length (concat (map escape_char err)) \<le> 6 * length err"
    by (induction err) (simp_all add: add_mono)
  then show "is_i32 c \<Longrightarrow> length (error_body c err) \<le> 60 + 6 * length err"
    using length_show_int [of c] by (simp add: error_body_def Let_def)
qed

section \<open>Sample requests\<close>

definition ask :: "string \<Rightarrow> (string \<times> string option) list \<Rightarrow> turn_input" where
  "ask c ps = \<lparr>ti_read = ReadBytes (show_request c ps @ crlf @ ''Host: pi''), ti_junk = ''x'', ti_oom = \<lambda>_. False\<rparr>"

definition sample_accept_msg :: rpiwd_mqmsg where
  "sample_accept_msg = accept_message (le_config sample_lenv) 7 uninit_mqmsg"

lemma sample_accept_msg_parts [simp]:
  "is_completed sample_accept_msg = Some 0" "sockfd sample_accept_msg = Some 7" "unitstr sample_accept_msg = default_unitstring"
  by (simp_all add: sample_accept_msg_def accept_message_def rpiwd_mqmsg_init_def get_unit_string_def sample_lenv_def
      default_unitstring_def RPIWD_MAX_MEASUREMENTS_def)

lemma sample_asks:
  "asks (ask ''config'' []) ''config'' []" "asks (ask ''statistics'' []) ''statistics'' []"
  "asks (ask ''fetch'' [(''select'', Some ''5''), (''tempunit'', Some ''c'')]) ''fetch'' [(''select'', Some ''5''), (''tempunit'', Some ''c'')]"
  by (simp_all add: asks_def ask_def url_safe_def show_request_def safe_param_def)

lemma can_respond_sample: "can_respond sample_env"
  by (simp add: can_respond_def sample_env_def)

lemma serialize_small: "n < 1000 \<Longrightarrow> serialize_number (Fin (of_int (int n))) = Inr (show_nat n)"
  using serialize_number_int [of "int n"] by (simp add: INT_MIN_def INT_MAX_def show_int_def)

lemmas serialize_samples =
  serialize_small [of 0, simplified] serialize_small [of 1, simplified] serialize_small [of 6, simplified] serialize_small [of 20, simplified]

lemma valid_samples:
  "is_valid_utf8 ''attic''" "is_valid_utf8 ''1h''" "is_valid_utf8 ''dht11''" "is_valid_utf8 ''0''" "is_valid_utf8 ''pi''" "is_valid_utf8 ''1.0''"
  "is_valid_utf8 ''60''" "is_valid_utf8 ''1024''" "is_valid_utf8 ''2017-11-16''"
  by (rule is_valid_ascii; simp add: code_def)+

lemmas print_defs = prints_as_def serialize_to_string_text INT_MAX_def pair_members_def str_field_def serialize_samples valid_samples
  show_int_def show_nat.simps digit_char_def escape_char_def code_def


text \<open>A database with one counter.\<close>

definition stats_sql :: "sql_bind list list sqlite" where
  "stats_sql = sample_sql 0 []\<lparr>sql_rows := \<lambda>_ q. [sample_row 1]\<rparr>"

definition stats_env :: "(unit, sql_bind list list) listener_env" where
  "stats_env = sample_lenv\<lparr>le_sql := stats_sql\<rparr>"

lemma sample_stats_printed: "\<exists>body. prints_as (kvlist_document (stats_pairs stats_env @ map row_pair [sample_row 1])) body"
  by (simp add: print_defs kvlist_document_def stats_pairs_def stats_env_def sample_lenv_def row_pair_def sample_row_def)

lemma sample_row_celsius:
  "entry_of_row (CHR ''c'') (sample_row 1) = \<lparr>entry_id = 1, record_date = Some ''2017-11-16'', temperature = Fin 20, humidity = Fin 20,
     location = Some ''2017-11-16'', device_name = Some ''2017-11-16''\<rparr>"
  using f32.rnd_int [of 20] by (simp add: entry_of_row_def Let_def sample_row_def RPIWD_TEMPERATURE_CELSIUS_def)

lemma sample_entries_printed:
  "\<exists>body. prints_as (entrylist_document (map (entry_of_row (CHR ''c'')) [sample_row 1]) (default_unitstring[0 := CHR ''c''])) body"
  using default_unitstring_ok(2)
  by (simp add: print_defs entrylist_document_def doc_header_def result_member_def entry_members_def sample_row_celsius)

section \<open>Properties\<close>



text \<open>C24. A request for the statistics is answered in three turns: a worker starts the list with the five
  figures of the host, the database thread appends the counters of its table, and a worker writes one
  response with all of them, in that order, and closes the connection. The free space of the disk is
  the product of block size and free blocks modulo \<open>2 ^ 32\<close>.\<close>
theorem statistics_request_served:
  assumes "asks inp ''statistics'' []" "is_completed m = Some 0" "sockfd m = Some fd"
    and "\<not> le_oom_list env" "\<not> le_oom_array env" "length (le_hostname env) < 64" "length (le_version env) < 64"
    and "is_i32 (le_uptime env)" "answers (le_sql env) (le_db env) (Some SQLCMD_COUNT_INITIAL_STATS) (Some SQLCMD_SELECT_STATS) rows"
    and "length rows \<le> 2000" "\<not> oom_list oom" "\<not> oom_array oom"
    and "list_all good_pair (map row_pair rows)" "distinct (map kv_key (stats_pairs env @ map row_pair rows))"
    and "can_respond henv'" "prints_as (kvlist_document (stats_pairs env @ map row_pair rows)) body"
  shows "\<exists>m1 m2 db' w1 w2. worker_turn env henv inp w m = Inr (w1, [MqSend DbMq m1]) \<and>
    db_handle (le_sql env) oom (le_db env) m1 = Inr (db', Some m2) \<and> receiver_mq m2 = receiver_mq m \<and>
    worker_turn env' henv' inp' w' m2 = Inr (w2, [SockWrite fd (ok_response henv' body), SockClose fd])"
proof -
  have count: "exec_formatted_count_query (le_sql env) (le_db env) (Some SQLCMD_COUNT_INITIAL_STATS) = length rows"
    using answers_count [OF assms(9)] assms(10) by simp
  have rows: "sql_prepare (le_sql env) (le_db env) (Some SQLCMD_SELECT_STATS) = SQLITE_OK"
      "sql_rows (le_sql env) (le_db env) (Some SQLCMD_SELECT_STATS) = rows"
    using assms(9) by (simp_all add: answers_def)
  let ?l = "kl.add_all \<lparr>kl_length = 0, kl_capacity = length rows + 5, kl_pairs = []\<rparr> (stats_pairs env)"
  let ?m = "m\<lparr>data := KvData (Some ?l), mtype := Some DB_MSGTYPE_STATS, fselectq := Some SQLCMD_SELECT_STATS,
    fcountq := Some SQLCMD_COUNT_INITIAL_STATS\<rparr>"
  have l: "wf_kvlist ?l" "kl_pairs ?l = stats_pairs env" "kl_capacity ?l = length rows + 5" "length (stats_pairs env) = 5"
    using kl_add_all [OF empty_kvlist, of "length rows + 5" "stats_pairs env"] by (simp_all add: stats_pairs_def)
  have "dispatch_command env (request_cmd ''statistics'' []) m (w_erange w) = Inr (CALLBACK_RETCODE_SUCCESS, ?m, w_erange w)"
    unfolding dispatch_known using stats_callback_list [OF _ assms(4-8) count] assms(10) by (simp add: request_cmd_def)
  from request_turn [OF assms(1-3) this] have 1: "worker_turn env henv inp w m = Inr (w, [MqSend DbMq ?m])" by simp
  obtain l' where l': "db_handle (le_sql env) oom (le_db env) ?m = Inr (bump (le_sql env) oom (le_db env) STAT_NAME_TOTAL_REQUESTS,
        Some (?m\<lparr>data := KvData (Some l'), is_completed := Some 1\<rparr>))"
      "wf_kvlist l'" "kl_pairs l' = stats_pairs env @ map row_pair rows"
    using db_handle_stats [of ?m ?l oom "le_sql env" "le_db env" "length rows"] l assms(10-12) count rows by auto
  let ?m2 = "?m\<lparr>data := KvData (Some l'), is_completed := Some 1\<rparr>"
  have "list_all good_pair (stats_pairs env)" by (simp add: stats_pairs_def good_pair_def)
  then have "message_json True (w_jval w') ?m2 = Inr (Ptr (kvlist_document (stats_pairs env @ map row_pair rows)))"
    using message_json_kv [of ?m2 l'] l' assms(13,14) by simp
  from reply_turn [OF assms(15) _ _ this assms(16), where env = env' and inp = inp' and fd = fd]
  obtain w2 where "worker_turn env' henv' inp' w' ?m2 = Inr (w2, [SockWrite fd (ok_response henv' body), SockClose fd])"
    using assms(3) by auto
  moreover have "receiver_mq ?m2 = receiver_mq m" by simp
  ultimately show ?thesis using 1 l'(1) by blast
qed

theorem statistics_request_served_witness:
  "\<exists>body m1 m2 db' w1 w2. worker_turn stats_env sample_env (ask ''statistics'' []) worker_init sample_accept_msg = Inr (w1, [MqSend DbMq m1]) \<and>
    db_handle (le_sql stats_env) \<lparr>oom_list = False, oom_array = False, oom_query = False\<rparr> (le_db stats_env) m1 = Inr (db', Some m2) \<and>
    receiver_mq m2 = receiver_mq sample_accept_msg \<and>
    worker_turn stats_env sample_env (ask ''statistics'' []) worker_init m2 = Inr (w2, [SockWrite 7 (ok_response sample_env body), SockClose 7])"
proof -
  obtain body where body: "prints_as (kvlist_document (stats_pairs stats_env @ map row_pair [sample_row 1])) body"
    using sample_stats_printed ..
  show ?thesis
    by (rule exI [where x = body], rule statistics_request_served [OF sample_asks(2) _ _ _ _ _ _ _ _ _ _ _ _ _ can_respond_sample body])
       (simp_all add: stats_env_def sample_lenv_def stats_sql_def sample_sql_def answers_def SQLITE_OK_def sample_row_def row_pair_def
         good_pair_def stats_pairs_def INT_MIN_def INT_MAX_def)
qed

text \<open>C2. A fetch whose arguments select a pair of queries is answered in three turns: a worker passes the
  queries to the database thread, which fills the list with the rows, and a worker writes one response
  with the document of the converted rows in the unit asked for, and closes the connection.\<close>
theorem fetch_request_served:
  assumes "asks inp ''fetch'' ps" "ps \<noteq> []" "is_completed m = Some 0" "sockfd m = Some fd"
    and "\<not> le_oom_query env" "clock_ok (le_clock env)"
    and "fetch_params (le_clock env) (map to_param ps) no_args (unitstr m) (w_erange w) = Inr (Next, a, u, er)"
    and "fetch_queries a = Inr (Some (countq, selectq))" "u ! 0 \<in> {CHR ''c'', CHR ''f''}"
    and "answers sq db (Some countq) (Some selectq) rows" "length rows \<le> 2048" "list_all row_ok rows"
    and "\<not> oom_list oom" "\<not> oom_array oom" "list_all (\<lambda>r. is_i32 (column_int r 0)) rows" "distinct (map (\<lambda>r. column_int r 0) rows)"
    and "can_respond henv'" "prints_as (entrylist_document (map (entry_of_row (u ! 0)) rows) u) body"
  shows "\<exists>m1 m2 db' w1 w2. worker_turn env henv inp w m = Inr (w1, [MqSend DbMq m1]) \<and>
    db_handle sq oom db m1 = Inr (db', Some m2) \<and> receiver_mq m2 = receiver_mq m \<and>
    worker_turn env' henv' inp' w' m2 = Inr (w2, [SockWrite fd (ok_response henv' body), SockClose fd])"
proof -
  let ?m = "m\<lparr>unitstr := u, mtype := Some DB_MSGTYPE_FETCH, fcountq := Some countq, fselectq := Some selectq\<rparr>"
  let ?l = "\<lparr>el_size = length rows, el_capacity = length rows, el_entries = map (entry_of_row (u ! 0)) rows\<rparr>"
  let ?m2 = "?m\<lparr>data := ListData (Some ?l), retcode := Some DBHANDLER_ERROR_SUCCESS, is_completed := Some 1\<rparr>"
  have cmd: "params (request_cmd ''fetch'' ps) = map to_param ps" "cmd_length (request_cmd ''fetch'' ps) = length ps"
    using assms(2) by (simp_all add: request_cmd_def)
  have "dispatch_command env (request_cmd ''fetch'' ps) m (w_erange w) = Inr (CALLBACK_RETCODE_SUCCESS, ?m, er)"
    using fetch_callback_selects [OF _ assms(5,6) _ assms(8), of "request_cmd ''fetch'' ps" m "w_erange w" u er] assms(2,7)
    by (simp add: dispatch_known cmd)
  from request_turn [OF assms(1,3,4) this] have 1: "worker_turn env henv inp w m = Inr (w\<lparr>w_erange := er\<rparr>, [MqSend DbMq ?m])" by simp
  have 2: "db_handle sq oom db ?m = Inr (bump sq oom db STAT_NAME_TOTAL_REQUESTS, Some ?m2)"
    using exec_fetch_ok [OF assms(10-12), of "u ! 0" "retcode m"] assms(13,14) by (simp add: db_handle_fetch)
  have "entry_id \<circ> entry_of_row (u ! 0) = (\<lambda>r. column_int r 0)" by (simp add: fun_eq_iff entry_of_row_def Let_def)
  then have ids: "map entry_id (el_entries ?l) = map (\<lambda>r. column_int r 0) rows" by simp
  have "message_json True (w_jval w') ?m2 = Inr (Ptr (entrylist_document (el_entries ?l) (unitstr ?m2)))"
  proof (rule message_json_list)
    show "distinct (map entry_id (el_entries ?l))" unfolding ids by (rule assms(16))
  qed (use assms(9,15) in \<open>auto simp: wf_entrylist_def list_all_iff entry_of_row_def Let_def\<close>)
  from reply_turn [OF assms(17) _ _ this, where env = env' and inp = inp' and fd = fd and body = body] assms(18)
  obtain w2 where "worker_turn env' henv' inp' w' ?m2 = Inr (w2, [SockWrite fd (ok_response henv' body), SockClose fd])"
    using assms(4) by auto
  moreover have "receiver_mq ?m2 = receiver_mq m" by simp
  ultimately show ?thesis using 1 2 by blast
qed

theorem fetch_request_served_witness:
  "\<exists>body m1 m2 db' w1 w2.
    worker_turn stats_env sample_env (ask ''fetch'' [(''select'', Some ''5''), (''tempunit'', Some ''c'')]) worker_init sample_accept_msg =
      Inr (w1, [MqSend DbMq m1]) \<and>
    db_handle stats_sql \<lparr>oom_list = False, oom_array = False, oom_query = False\<rparr> [] m1 = Inr (db', Some m2) \<and>
    receiver_mq m2 = receiver_mq sample_accept_msg \<and>
    worker_turn stats_env sample_env (ask ''config'' []) worker_init m2 = Inr (w2, [SockWrite 7 (ok_response sample_env body), SockClose 7])"
proof -
  obtain body where body: "prints_as (entrylist_document (map (entry_of_row (CHR ''c'')) [sample_row 1]) (default_unitstring[0 := CHR ''c''])) body"
    using sample_entries_printed ..
  have ps: "fetch_params sample_clock (map to_param [(''select'', Some ''5''), (''tempunit'', Some ''c'')]) no_args default_unitstring False =
      Inr (Next, no_args\<lparr>fa_select := 5\<rparr>, default_unitstring[0 := CHR ''c''], False)"
    by (simp add: fetch_param_def strtol_5 to_param_def Let_def tolower_def isupper_def code_def RPIWD_TEMPERATURE_CELSIUS_def
        RPIWD_MEASURE_TEMPERATURE_def)
  have qs: "fetch_queries (no_args\<lparr>fa_select := 5\<rparr>) = Inr (Some (SQLCMD_COUNT_SELECT_N 5, SQLCMD_SELECT_N 5))"
    by (simp add: fetch_queries_def)
  have clk: "le_clock stats_env = sample_clock" by (simp add: stats_env_def sample_lenv_def)
  show ?thesis
    by (rule exI [where x = body], rule fetch_request_served [OF sample_asks(3) _ _ _ _ _ _ qs _ _ _ _ _ _ _ _ can_respond_sample,
          where u = "default_unitstring[0 := CHR ''c'']" and rows = "[sample_row 1]" and er = False])
       (use ps body default_unitstring_ok(2) sample_clock_ok clk in \<open>simp_all add: stats_env_def sample_lenv_def stats_sql_def sample_sql_def answers_def
         SQLITE_OK_def sample_row_def row_ok_def worker_init_def INT_MIN_def INT_MAX_def\<close>)
qed




text \<open>A worker remembers that a client once hung up without a request: from then on it closes the
  connections of malformed requests without the error response every other worker sends.\<close>
theorem worker_sticky_eof:
  assumes "is_completed m = Some 0" "sockfd m = Some fd" "ti_read inp = ReadBytes bytes" "bytes \<noteq> []"
    and "parse_http_request (ti_oom inp) (buffer_string bytes (ti_junk inp)) (w_response w) = Inr (None, rc)" "can_respond henv"
  shows "(\<exists>w'. worker_turn env henv inp (w\<lparr>w_is_eof := True\<rparr>) m = Inr (w', [SockClose fd])) \<and>
    (\<exists>w' t. worker_turn env henv inp (w\<lparr>w_is_eof := False\<rparr>) m = Inr (w', [SockWrite fd t, SockClose fd]))"
proof -
  have "is_valid_utf8 (http_parser_strerror rc)"
    by (rule is_valid_ascii) (simp add: http_parser_strerror_def code_def)
  moreover have "length (error_body 400 (http_parser_strerror rc)) < 2 ^ 31 - 1"
    using error_body_length [of 400 "http_parser_strerror rc"] by (simp add: http_parser_strerror_def INT_MIN_def INT_MAX_def split: if_splits)
  ultimately have "\<exists>r. send_http_error_response henv HTTP_CODE_REQUEST_BAD_REQUEST HTTP_CODE_REQUEST_BAD_REQUEST
      (Some (http_parser_strerror rc)) = Inr (sock_write henv r, Some r)"
    using error_reply_ok [of henv 400 "''400 Bad Request''" 400 "http_parser_strerror rc"] assms(6)
    by (auto simp: can_respond_def http_code_str_def http_code_defs INT_MIN_def INT_MAX_def)
  then show ?thesis
    using assms by (auto simp: worker_turn_def worker_request_def read_and_parse_response_def Let_def reply_and_close_def)
qed

theorem worker_sticky_eof_witness:
  "(\<exists>w'. worker_turn sample_lenv sample_env \<lparr>ti_read = ReadBytes ''?'', ti_junk = [], ti_oom = \<lambda>_. False\<rparr> (worker_init\<lparr>w_is_eof := True\<rparr>)
      sample_accept_msg = Inr (w', [SockClose 7])) \<and>
   (\<exists>w' t. worker_turn sample_lenv sample_env \<lparr>ti_read = ReadBytes ''?'', ti_junk = [], ti_oom = \<lambda>_. False\<rparr> (worker_init\<lparr>w_is_eof := False\<rparr>)
      sample_accept_msg = Inr (w', [SockWrite 7 t, SockClose 7]))"
proof (rule worker_sticky_eof [OF _ _ _ _ _ can_respond_sample])
  show "parse_http_request (ti_oom \<lparr>ti_read = ReadBytes ''?'', ti_junk = [], ti_oom = \<lambda>_. False\<rparr>)
      (buffer_string ''?'' (ti_junk \<lparr>ti_read = ReadBytes ''?'', ti_junk = [], ti_oom = \<lambda>_. False\<rparr>)) (w_response worker_init) = Inr (None, 0)"
    by (simp add: buffer_string_def parse_http_request_def rpiwd_getline_def RESPONSE_BUFFER_SIZE_def worker_init_def
        HTTP_PARSER_ERROR_SUCCESS_def)
qed simp_all

end
