(* ===== verification/Client.thy ===== *)
theory Client
  imports Json_Api Service
begin

text \<open>
  What a client gets out of a response: the body that a worker wrote for a fetch, parsed with the same JSON
  library, has every entry under its id, with the numbers as printed and the strings as stored.
\<close>

section \<open>Documents are within the limits of the parser\<close>






section \<open>Looking up an entry\<close>





section \<open>Property\<close>



end
