(* ===== verification/Json_Utf8.thy ===== *)
theory Json_Utf8
  imports Json_Parser
begin

text \<open>
  Character encoding in the bundled JSON library (\<^verbatim>\<open>src/deps/parson.c\<close>). Its setters take valid UTF-8 only, and
  its parser checks nothing: it copies the bytes of a string and writes its own for an escape. The theory shows
  that the two meet. The bytes written for an escaped code point pass the checks of
  \<open>verify_utf8_sequence\<close>, an ASCII character separates a text into parts that are valid on their own, and so
  every string parsed from a valid text, with or without comments, is valid.
\<close>

unbundle bit_operations_syntax

section \<open>Sequences and their bytes\<close>

lemma nat_and_mask: "(x :: nat) AND 0x3F = x mod 64" "x AND 0x1F = x mod 32" "x AND 0xF = x mod 16" "x AND 0x7 = x mod 8"
  "x AND 0x3FF = x mod 1024"
  using take_bit_eq_mask [of 6 x] take_bit_eq_mask [of 5 x] take_bit_eq_mask [of 4 x] take_bit_eq_mask [of 3 x] take_bit_eq_mask [of 10 x]
  by (simp_all add: take_bit_eq_mod mask_eq_exp_minus_1)

lemma push_or: "b < 2 ^ n \<Longrightarrow> push_bit n (a :: nat) OR b = a * 2 ^ n + b"
proof -
  assume b: "b < 2 ^ n"
  have "\<not> bit (push_bit n a) m \<or> \<not> bit b m" for m
  proof (cases "n \<le> m")
    case True
    then have "b < 2 ^ m" using b by (meson le_trans linorder_not_less one_le_numeral power_increasing)
    then show ?thesis by (simp add: bit_iff_odd)
  qed (simp add: bit_push_bit_iff)
  then have "push_bit n a + b = push_bit n a OR b" by (rule disjunctive_add)
  then show ?thesis by (simp add: push_bit_eq_mult)
qed

lemma push_or_6: "b < 64 \<Longrightarrow> push_bit 6 (a :: nat) OR b = 64 * a + b"
  using push_or [of b 6 a] by simp

lemma tag_or: "b < 64 \<Longrightarrow> b OR 0x80 = 128 + (b :: nat)" "b < 32 \<Longrightarrow> b OR 0xC0 = 192 + b"
  "b < 16 \<Longrightarrow> b OR 0xE0 = 224 + b" "b < 8 \<Longrightarrow> b OR 0xF0 = 240 + b"
  using push_or [of b 6 2] push_or [of b 5 6] push_or [of b 4 14] push_or [of b 3 30]
  by (simp_all add: or.commute push_bit_eq_mult)

lemma code_char_of: "n < 256 \<Longrightarrow> code (char_of n) = n"
  by (simp add: code_def)

lemma high_and: "(b :: nat) AND push_bit n (mask k) = 2 ^ n * (b div 2 ^ n mod 2 ^ k)"
proof -
  have "b AND push_bit n (mask k) = push_bit n (take_bit k (drop_bit n b))"
    by (rule bit_eqI) (auto simp: bit_simps)
  then show ?thesis by (simp add: push_bit_eq_mult take_bit_eq_mod drop_bit_eq_div mult.commute)
qed

lemma lead_bits:
  fixes b :: nat
  assumes "b < 256"
  shows "b AND 0x80 = 0 \<longleftrightarrow> b < 128" "b AND 0xC0 = 0x80 \<longleftrightarrow> 128 \<le> b \<and> b < 192" "b AND 0xE0 = 0xC0 \<longleftrightarrow> 192 \<le> b \<and> b < 224"
    "b AND 0xF0 = 0xE0 \<longleftrightarrow> 224 \<le> b \<and> b < 240" "b AND 0xF8 = 0xF0 \<longleftrightarrow> 240 \<le> b \<and> b < 248"
proof -
  have m: "b AND 0x80 = 128 * (b div 128)" "b AND 0xC0 = 64 * (b div 64)" "b AND 0xE0 = 32 * (b div 32)"
    "b AND 0xF0 = 16 * (b div 16)" "b AND 0xF8 = 8 * (b div 8)"
    using assms high_and [of b 7 1] high_and [of b 6 2] high_and [of b 5 3] high_and [of b 4 4] high_and [of b 3 5]
    by (simp_all add: mask_eq_exp_minus_1 push_bit_eq_mult)
  show "b AND 0x80 = 0 \<longleftrightarrow> b < 128" unfolding m by auto
  show "b AND 0xC0 = 0x80 \<longleftrightarrow> 128 \<le> b \<and> b < 192" unfolding m by auto
  show "b AND 0xE0 = 0xC0 \<longleftrightarrow> 192 \<le> b \<and> b < 224" unfolding m by auto
  show "b AND 0xF0 = 0xE0 \<longleftrightarrow> 224 \<le> b \<and> b < 240" unfolding m by auto
  show "b AND 0xF8 = 0xF0 \<longleftrightarrow> 240 \<le> b \<and> b < 248" unfolding m by auto
qed

lemma cont_iff: "b < 256 \<Longrightarrow> IS_CONT b \<longleftrightarrow> 128 \<le> b \<and> b < 192"
  by (simp add: IS_CONT_def lead_bits)

lemma lead_iff: "b < 256 \<Longrightarrow> num_bytes_in_utf8_sequence b =
  (if b < 128 then 1 else if b < 194 then 0 else if b < 224 then 2 else if b < 240 then 3 else if b < 245 then 4 else 0)"
  unfolding num_bytes_in_utf8_sequence_def by (simp add: cont_iff lead_bits)

lemma byte_bound: "byte s i < 256"
  by (simp add: byte_def code_def of_char_def)

lemma byte_simps: "byte (c # cs) 0 = code c" "byte (c # cs) (Suc i) = byte cs i" "byte (c # cs) 1 = byte cs 0"
    "byte (c # cs) 2 = byte cs 1" "byte (c # cs) 3 = byte cs 2" "byte [] i = 0"
  by (simp_all add: byte_def numeral_2_eq_2 numeral_3_eq_3)

lemma low_not_cont: "b < 128 \<Longrightarrow> \<not> IS_CONT b"
  by (simp add: cont_iff)

lemma zero_not_cont: "\<not> IS_CONT 0"
  by (simp add: low_not_cont)

text \<open>A sequence ends before the next ASCII character; nothing after that character matters.\<close>

lemma bytes_cases:
  assumes "p \<noteq> []"
  obtains x where "p = [x]" | x y where "p = [x, y]" | x y z where "p = [x, y, z]" | x y z u q where "p = x # y # z # u # q"
  using assms by (metis neq_Nil_conv)

lemma verify_before_ascii:
  assumes "p \<noteq> []" "code c < 128"
  shows "verify_utf8_sequence (p @ c # s) = verify_utf8_sequence p"
proof -
  have "\<not> IS_CONT (code c)" "\<not> IS_CONT 0" using assms(2) low_not_cont by auto
  then show ?thesis by - (rule bytes_cases [OF assms(1)]; simp add: verify_utf8_sequence_def byte_simps Let_def)
qed

lemma verify_length: "p \<noteq> [] \<Longrightarrow> verify_utf8_sequence p \<le> length p"
  by (erule bytes_cases) (auto simp: zero_not_cont verify_utf8_sequence_def byte_simps Let_def num_bytes_in_utf8_sequence_def)

lemma verify_append: "p \<noteq> [] \<Longrightarrow> verify_utf8_sequence p \<noteq> 0 \<Longrightarrow> verify_utf8_sequence (p @ s) = verify_utf8_sequence p"
  by (erule bytes_cases) (auto simp: zero_not_cont verify_utf8_sequence_def byte_simps Let_def split: if_splits)

lemma is_valid_step: "p \<noteq> [] \<Longrightarrow> is_valid_utf8 p \<longleftrightarrow> verify_utf8_sequence p \<noteq> 0 \<and> is_valid_utf8 (drop (verify_utf8_sequence p) p)"
  by (subst is_valid_utf8.simps) simp

text \<open>An ASCII character separates a text into two that are valid on their own.\<close>

lemma is_valid_split:
  assumes "code c < 128"
  shows "is_valid_utf8 (p @ c # s) \<longleftrightarrow> is_valid_utf8 p \<and> is_valid_utf8 s"
proof (induction p rule: is_valid_utf8.induct)
  case (1 p)
  then show ?case using assms verify_length [of p] verify_before_ascii [of p c s]
    by (cases "p = []") (auto simp: is_valid_step [of "p @ c # s"] is_valid_step [of p] is_valid_step [of "c # s"] verify_ascii)
qed

lemma is_valid_append: "is_valid_utf8 p \<Longrightarrow> is_valid_utf8 s \<Longrightarrow> is_valid_utf8 (p @ s)"
proof (induction p rule: is_valid_utf8.induct)
  case (1 p)
  then show ?case using verify_length [of p] verify_append [of p s]
    by (cases "p = []") (auto simp: is_valid_step [of "p @ s"] is_valid_step [of p])
qed

lemma untag: "b < 64 \<Longrightarrow> (128 + b) mod 64 = (b :: nat)" "b < 32 \<Longrightarrow> (192 + b) mod 32 = b" "b < 16 \<Longrightarrow> (224 + b) mod 16 = b"
    "b < 8 \<Longrightarrow> (240 + b) mod 8 = b"
  using mod_mult_self1 [of b 2 64] mod_mult_self1 [of b 6 32] mod_mult_self1 [of b 14 16] mod_mult_self1 [of b 30 8]
  by (simp_all add: add.commute)

lemmas utf8_arith = nat_and_mask drop_bit_eq_div tag_or code_char_of lead_iff cont_iff push_or_6 untag byte_simps

text \<open>The bytes written for a code point pass the checks of the library and are taken as one sequence.\<close>

lemma verify_utf8_bytes:
  assumes "cp \<le> 0x10FFFF" "cp < 0xD800 \<or> 0xDFFF < cp"
  shows "verify_utf8_sequence (map char_of (utf8_bytes cp) @ t) = length (utf8_bytes cp)"
proof -
  have d: "cp div 4096 = cp div 64 div 64" "cp div 262144 = cp div 64 div 64 div 64" by (simp_all flip: div_mult2_eq)
  consider "cp < 0x80" | "0x80 \<le> cp" "cp < 0x800" | "0x800 \<le> cp" "cp < 0x10000" | "0x10000 \<le> cp" by linarith
  then show ?thesis
  proof cases
    case 1
    then show ?thesis by (simp add: utf8_bytes_def verify_ascii code_char_of)
  next
    case 2
    then have "cp div 64 < 32" "2 \<le> cp div 64" by auto
    with 2 show ?thesis
      by (simp add: utf8_bytes_def verify_utf8_sequence_def Let_def utf8_arith)
  next
    case 3
    then have "cp div 4096 < 16" "cp div 4096 mod 16 = cp div 4096" by auto
    moreover have "64 * (64 * (cp div 4096) + cp div 64 mod 64) + cp mod 64 = cp" by (simp add: d)
    ultimately show ?thesis using 3 assms(2)
      by (auto simp: utf8_bytes_def verify_utf8_sequence_def Let_def utf8_arith)
  next
    case 4
    then have "cp div 262144 < 5" "cp div 262144 mod 8 = cp div 262144" using assms(1) by auto
    moreover have "64 * (64 * (64 * (cp div 262144) + cp div 4096 mod 64) + cp div 64 mod 64) + cp mod 64 = cp" by (simp add: d)
    ultimately show ?thesis using 4 assms
      by (simp add: utf8_bytes_def verify_utf8_sequence_def Let_def utf8_arith)
  qed
qed

section \<open>String literals\<close>

lemma is_valid_utf8_bytes:
  "cp \<le> 0x10FFFF \<Longrightarrow> cp < 0xD800 \<or> 0xDFFF < cp \<Longrightarrow> is_valid_utf8 (map char_of (utf8_bytes cp) @ t) \<longleftrightarrow> is_valid_utf8 t"
  using verify_utf8_bytes [of cp t] by (subst is_valid_utf8.simps) (auto simp: utf8_bytes_def)

lemma scan_4x_bound:
  assumes "is_utf16_hex s"
  shows "scan_4x s < 65536"
proof -
  have x: "xdigit_val c < 16" if "isxdigit c" for c
    using that by (auto simp: isxdigit_def xdigit_val_def isdigit_def digit_val_def code_def)
  obtain a b c d where "take 4 s = [a, b, c, d]" "isxdigit a" "isxdigit b" "isxdigit c" "isxdigit d"
    using assms by (cases s; cases "tl s"; cases "tl (tl s)"; cases "tl (tl (tl s))") (auto simp: is_utf16_hex_def)
  then show ?thesis using x [of a] x [of b] x [of c] x [of d] by (simp add: scan_4x_def)
qed

lemma pair_bound: "x < 1024 \<Longrightarrow> y < 1024 \<Longrightarrow> (push_bit 10 x OR y) + 0x10000 \<le> (0x10FFFF :: nat)"
  using push_or [of y 10 x] by simp

lemma parse_utf_16_valid:
  assumes "parse_utf_16 s = Some (out, rest)"
  shows "is_valid_utf8 out"
proof -
  have h: "is_utf16_hex (drop 1 s)" using assms by (auto simp: parse_utf_16_def Let_def split: if_splits)
  obtain cp where "out = map char_of (utf8_bytes cp)" "cp \<le> 0x10FFFF" "cp < 0xD800 \<or> 0xDFFF < cp"
  proof (cases "scan_4x (drop 1 s) < 0xD800 \<or> scan_4x (drop 1 s) > 0xDFFF")
    case True
    then show ?thesis using that [of "scan_4x (drop 1 s)"] assms scan_4x_bound [OF h] h by (auto simp: parse_utf_16_def Let_def)
  next
    case False
    have "(push_bit 10 (a AND 0x3FF) OR (b AND 0x3FF)) + 0x10000 \<le> 0x10FFFF" for a b :: nat
      unfolding nat_and_mask by (rule pair_bound) simp_all
    note le = this [of "scan_4x (drop 1 s) - 0xD800" "scan_4x (drop 7 s) - 0xDC00"]
    show ?thesis
      by (rule that [OF _ le]) (use assms False h in \<open>auto simp: parse_utf_16_def Let_def split: if_splits\<close>)
  qed
  then show ?thesis using is_valid_utf8_bytes [of cp "[]"] by simp
qed

lemma is_valid_drop: "is_valid_utf8 s \<Longrightarrow> k < length s \<Longrightarrow> code (s ! k) < 128 \<Longrightarrow> is_valid_utf8 (drop (Suc k) s)"
  using is_valid_split [of "s ! k" "take k s" "drop (Suc k) s"] by (simp add: id_take_nth_drop [symmetric])

lemma hex_ascii: "isxdigit c \<Longrightarrow> code c < 128"
  by (auto simp: isxdigit_def isdigit_def tolower_def isupper_def code_def split: if_splits)

lemma parse_utf_16_rest_valid:
  assumes "parse_utf_16 s = Some (out, rest)" "is_valid_utf8 s"
  shows "is_valid_utf8 rest"
proof -
  obtain k where k: "rest = drop (Suc (k + 3)) s" "is_utf16_hex (drop k s)"
  proof (cases "rest = drop 5 s")
    case True
    then show ?thesis using that [of 1] assms(1) by (auto simp: parse_utf_16_def Let_def split: if_splits)
  next
    case False
    then show ?thesis using that [of 7] assms(1) by (auto simp: parse_utf_16_def Let_def split: if_splits)
  qed
  then have "k + 3 < length s" "isxdigit (drop k s ! 3)" by (auto simp: is_utf16_hex_def list_all_length)
  then show ?thesis using is_valid_drop [OF assms(2), of "k + 3"] k(1) hex_ascii by simp
qed

lemma process_char_valid:
  assumes "process_char (c # s) = Some (out, rest)" "is_valid_utf8 (p @ c # s)"
  shows "is_valid_utf8 (p @ out @ rest) \<and> (is_valid_utf8 (p @ out) \<or> rest = s)"
proof (cases "c = CHR 0x5C")
  case True
  then have v: "is_valid_utf8 p" "is_valid_utf8 s" using assms(2) is_valid_split [of c p s] by (simp_all add: code_def)
  have "is_valid_utf8 out \<and> is_valid_utf8 rest"
  proof (cases "looking_at (CHR ''u'') s")
    case u: True
    then show ?thesis using assms(1) v(2) parse_utf_16_valid parse_utf_16_rest_valid by (simp add: process_char_def True)
  next
    case False
    then obtain x d t where "s = d # t" "out = [x]" "rest = t" "unescape d = Some x"
      using assms(1) True by (cases s) (auto simp: process_char_def)
    moreover from this have "code d < 128" "code x < 128" by (auto simp: unescape_def code_def split: if_splits)
    ultimately show ?thesis using v(2) is_valid_split [of d "[]" t] by (simp add: is_valid_ascii)
  qed
  then show ?thesis using v by (simp add: is_valid_append)
next
  case False
  then show ?thesis using assms by (auto simp: process_char_def split: if_splits)
qed

lemma process_chars_valid:
  assumes "process_chars mem n room input = Inr (Some out)" "is_valid_utf8 (p @ input)" "n < length input" "input ! n = CHR 0x22"
  shows "is_valid_utf8 (p @ out)"
  using assms
proof (induction mem n room input arbitrary: p out rule: process_chars.induct)
  case (1 mem n room input)
  obtain c s where i: "input = c # s" using 1(4) by (cases input) auto
  show ?case
  proof (cases n)
    case 0
    then show ?thesis using 1(2,3,5) is_valid_split [of c p s] by (simp add: i process_chars.simps code_def split: if_splits)
  next
    case (Suc m)
    then obtain o1 rest more where step: "process_char input = Some (o1, rest)" "out = o1 @ more"
      "process_chars mem (n - (length input - length rest)) (room - length o1) rest = Inr (Some more)" "mem" "\<not> room < length o1"
      using 1(2) i unfolding process_chars.simps [of mem n room input]
      by (auto simp: pbind_eq_Some split: option.splits prod.splits if_splits)
    obtain k where k: "rest = drop k input" "k \<le> length input"
      using process_char_consumes [OF step(1) _ 1(4,5)] Suc by auto
    have v: "is_valid_utf8 (p @ o1 @ rest)" "is_valid_utf8 (p @ o1) \<or> rest = s"
      using process_char_valid [of c s o1 rest p] step(1) 1(3) by (auto simp: i)
    show ?thesis
    proof (cases "k \<le> n")
      case True
      then have "is_valid_utf8 ((p @ o1) @ more)"
        using 1(1) [of "(o1, rest)" o1 rest more "p @ o1"] step v(1) k 1(4,5) Suc i by (auto simp: nth_drop)
      then show ?thesis using step(2) by simp
    next
      case False
      then have "length rest < length s" using k 1(4) Suc i by auto
      moreover have "more = []" using False step(3) k by (auto simp: process_chars.simps split: if_splits)
      ultimately show ?thesis using v(2) step(2) by auto
    qed
  qed
qed

text \<open>A valid text is cut at a zero byte into valid parts.\<close>

lemma is_valid_takeWhile:
  assumes "is_valid_utf8 s"
  shows "is_valid_utf8 (takeWhile (\<lambda>c. c \<noteq> CHR 0x00) s)"
proof (cases "CHR 0x00 \<in> set s")
  case True
  then obtain p r where "s = p @ CHR 0x00 # r" "CHR 0x00 \<notin> set p" by (metis split_list_first)
  then show ?thesis using assms is_valid_split [of "CHR 0x00" p r] by (auto simp: code_def takeWhile_append)
next
  case False
  then have "takeWhile (\<lambda>c. c \<noteq> CHR 0x00) s = s" by (induction s) auto
  then show ?thesis using assms by (simp only:)
qed

text \<open>The rest of a valid text, which may start inside a sequence.\<close>

definition within_valid :: "string \<Rightarrow> bool" where
  "within_valid s \<longleftrightarrow> (\<exists>p. is_valid_utf8 (p @ s))"

lemma within_suffix: "within_valid s \<Longrightarrow> suffix r s \<Longrightarrow> within_valid r"
  by (auto simp: within_valid_def suffix_def append_assoc [symmetric] simp del: append_assoc)

lemma get_quoted_string_valid:
  assumes "get_quoted_string mem s = Inr (Some (str, rest))" "within_valid s"
  shows "is_valid_utf8 str"
proof -
  obtain t where s: "s = CHR 0x22 # t" and "skip_to_quote t = Some rest"
    using get_quoted_string_rest [OF assms(1)] by (auto simp: skip_quotes_def split: if_splits elim!: looking_atE)
  then obtain n where n: "n < length t" "t ! n = CHR 0x22" "length t = n + Suc (length rest)" using skip_to_quote_at by blast
  then obtain out where "process_chars mem n (n + 1) t = Inr (Some out)" "str = takeWhile (\<lambda>c. c \<noteq> CHR 0x00) out"
    using assms(1) s get_quoted_string_rest [OF assms(1)] by (auto simp: get_quoted_string_def process_string_def pbind_eq_Some)
  moreover have "is_valid_utf8 t" using assms(2) s is_valid_split [of "CHR 0x22" _ t] by (auto simp: within_valid_def code_def)
  ultimately show ?thesis using process_chars_valid [of mem n "n + 1" t out "[]"] n is_valid_takeWhile by auto
qed

section \<open>Values\<close>

fun utf8_strings :: "json \<Rightarrow> bool" where
  "utf8_strings (JSONString s) \<longleftrightarrow> is_valid_utf8 s"
| "utf8_strings (JSONArray cap vs) \<longleftrightarrow> (\<forall>v \<in> set vs. utf8_strings v)"
| "utf8_strings (JSONObject cap kvs) \<longleftrightarrow> (\<forall>kv \<in> set kvs. is_valid_utf8 (fst kv) \<and> utf8_strings (snd kv))"
| "utf8_strings _ \<longleftrightarrow> True"

lemma within_rests [simp]:
  assumes "within_valid s"
  shows "within_valid (SKIP_WHITESPACES s)" "within_valid (tl s)" "within_valid (drop k s)"
  using assms within_suffix suffix_dropWhile suffix_tl suffix_drop unfolding SKIP_WHITESPACES_def by blast+

lemma number_within: "strtod s = (x, r, e) \<Longrightarrow> within_valid s \<Longrightarrow> within_valid r"
  using within_suffix strtod_suffix by blast

lemma literal_valid:
  assumes "get_quoted_string mem s = Inr (Some (str, r))" "within_valid s"
  shows "is_valid_utf8 str \<and> within_valid r"
proof -
  have "skip_to_quote (tl s) = Some r" using get_quoted_string_rest [OF assms(1)] by (simp add: skip_quotes_def split: if_splits)
  then show ?thesis using assms get_quoted_string_valid within_suffix [OF within_rests(2) skip_to_quote_suffix] by blast
qed

lemma scalars_valid:
  assumes "within_valid s"
  shows "parse_string_value mem s = Inr (Some (v, r)) \<Longrightarrow> utf8_strings v \<and> within_valid r"
    "parse_boolean_value mem s = Inr (Some (v, r)) \<Longrightarrow> utf8_strings v \<and> within_valid r"
    "parse_number_value mem s = Inr (Some (v, r)) \<Longrightarrow> utf8_strings v \<and> within_valid r"
    "parse_null_value mem s = Inr (Some (v, r)) \<Longrightarrow> utf8_strings v \<and> within_valid r"
  using assms
  by (auto simp: parse_string_value_def parse_boolean_value_def parse_number_value_def parse_null_value_def pbind_eq_Some
      json_value_init_string_no_copy_def json_value_init_boolean_def json_value_init_number_def json_value_init_null_def
      split: if_splits prod.splits dest: literal_valid number_within)

lemma add_members: "json_object_add mem obj k v = (True, obj1) \<Longrightarrow> set (snd obj1) = insert (k, v) (set (snd obj))"
  by (auto simp: json_object_add_def json_object_resize_def Let_def split: if_splits)

lemma add_items: "json_array_add mem arr v = (True, arr1) \<Longrightarrow> set (snd arr1) = insert v (set (snd arr))"
  by (auto simp: json_array_add_def json_array_resize_def Let_def split: if_splits)

lemma resize_keeps: "json_object_resize mem obj n = (True, x) \<Longrightarrow> snd x = snd obj"
  "json_array_resize mem arr n = (True, y) \<Longrightarrow> snd y = snd arr"
  by (auto simp: json_object_resize_def json_array_resize_def split: if_splits)

text \<open>One round of the loops over members and items.\<close>

lemma parse_membersE:
  assumes "parse_members mem n obj s = Inr (Some (ob, r))" "s \<noteq> []"
  obtains k s1 v s3 obj1 where "get_quoted_string mem s = Inr (Some (k, s1))" "looking_at (CHR '':'') (SKIP_WHITESPACES s1)"
    "parse_value mem n (tl (SKIP_WHITESPACES s1)) = Inr (Some (v, s3))" "json_object_add mem obj k v = (True, obj1)"
    "if looking_at (CHR '','') (SKIP_WHITESPACES s3)
     then parse_members mem n obj1 (SKIP_WHITESPACES (tl (SKIP_WHITESPACES s3))) = Inr (Some (ob, r))
     else ob = obj1 \<and> r = SKIP_WHITESPACES s3"
  using assms unfolding parse_members.simps [of mem n obj s] Let_def by (auto simp: pbind_eq_Some split: if_split_asm)

lemma parse_itemsE:
  assumes "parse_items mem n arr s = Inr (Some (ar, r))" "s \<noteq> []"
  obtains v s3 arr1 where "parse_value mem n s = Inr (Some (v, s3))" "json_array_add mem arr v = (True, arr1)"
    "if looking_at (CHR '','') (SKIP_WHITESPACES s3)
     then parse_items mem n arr1 (SKIP_WHITESPACES (tl (SKIP_WHITESPACES s3))) = Inr (Some (ar, r))
     else ar = arr1 \<and> r = SKIP_WHITESPACES s3"
  using assms unfolding parse_items.simps [of mem n arr s] Let_def by (auto simp: pbind_eq_Some split: if_split_asm)

lemma parse_valid:
  "within_valid s \<Longrightarrow> \<forall>v r. parse_value mem n s = Inr (Some (v, r)) \<longrightarrow> utf8_strings v \<and> within_valid r"
  "within_valid s \<Longrightarrow> \<forall>v r. parse_object_value mem n s = Inr (Some (v, r)) \<longrightarrow> utf8_strings v \<and> within_valid r"
  "within_valid s \<Longrightarrow> \<forall>v r. parse_array_value mem n s = Inr (Some (v, r)) \<longrightarrow> utf8_strings v \<and> within_valid r"
  "within_valid s \<Longrightarrow> utf8_strings (JSONObject 0 (snd obj)) \<Longrightarrow>
     \<forall>ob r. parse_members mem n obj s = Inr (Some (ob, r)) \<longrightarrow> utf8_strings (JSONObject 0 (snd ob)) \<and> within_valid r"
  "within_valid s \<Longrightarrow> utf8_strings (JSONArray 0 (snd arr)) \<Longrightarrow>
     \<forall>ar r. parse_items mem n arr s = Inr (Some (ar, r)) \<longrightarrow> utf8_strings (JSONArray 0 (snd ar)) \<and> within_valid r"
proof (induction mem n s and mem n s and mem n s and mem n obj s and mem n arr s rule: parse_induct)
  case (1 mem n s)
  from 1 show ?case unfolding parse_value.simps [of mem n s] Let_def
    by (auto split: if_splits dest: scalars_valid [OF within_rests(1) [OF 1(3)]])
next
  case (2 mem n s)
  have members: "utf8_strings (JSONObject 0 (snd ob)) \<and> within_valid r"
    if "looking_at (CHR ''{'') s" "\<not> looking_at (CHR ''}'') (SKIP_WHITESPACES (tl s))" "mem"
      "parse_members mem n (0, []) (SKIP_WHITESPACES (tl s)) = Inr (Some (ob, r))" for ob r
    using 2(1) [OF _ _ refl] 2(2) that by (cases ob) (auto simp: json_value_init_object_def json_object_init_def)
  show ?case using 2(2) unfolding parse_object_value.simps [of mem n s] Let_def
    by (auto simp: pbind_eq_Some json_value_init_object_def json_object_init_def split: if_splits dest!: members resize_keeps)
next
  case (3 mem n s)
  have items: "utf8_strings (JSONArray 0 (snd ar)) \<and> within_valid r"
    if "looking_at (CHR ''['') s" "\<not> looking_at (CHR '']'') (SKIP_WHITESPACES (tl s))" "mem"
      "parse_items mem n (0, []) (SKIP_WHITESPACES (tl s)) = Inr (Some (ar, r))" for ar r
    using 3(1) [OF _ _ refl] 3(2) that by (cases ar) (auto simp: json_value_init_array_def json_array_init_def)
  show ?case using 3(2) unfolding parse_array_value.simps [of mem n s] Let_def
    by (auto simp: pbind_eq_Some json_value_init_array_def json_array_init_def split: if_splits dest!: items resize_keeps)
next
  case (4 mem n obj s)
  have "utf8_strings (JSONObject 0 (snd ob)) \<and> within_valid r"
    if parse: "parse_members mem n obj s = Inr (Some (ob, r))" and s: "s \<noteq> []" for ob r
    using parse s
  proof (rule parse_membersE)
    fix k s1 v s3 obj1
    assume p: "get_quoted_string mem s = Inr (Some (k, s1))" "looking_at (CHR '':'') (SKIP_WHITESPACES s1)"
      "parse_value mem n (tl (SKIP_WHITESPACES s1)) = Inr (Some (v, s3))" "json_object_add mem obj k v = (True, obj1)"
      and more: "if looking_at (CHR '','') (SKIP_WHITESPACES s3)
        then parse_members mem n obj1 (SKIP_WHITESPACES (tl (SKIP_WHITESPACES s3))) = Inr (Some (ob, r))
        else ob = obj1 \<and> r = SKIP_WHITESPACES s3"
    have k: "is_valid_utf8 k" "within_valid (tl (SKIP_WHITESPACES s1))" using literal_valid [OF p(1) 4(3)] by simp_all
    then have v: "utf8_strings v" "within_valid s3" using 4(1) [OF s p(1) refl refl] p(2,3) by blast+
    then have "utf8_strings (JSONObject 0 (snd obj1))" using k(1) 4(4) add_members [OF p(4)] by auto
    then show ?thesis using 4(2) [OF s p(1) refl refl _ p(3) refl _ refl, of obj1] p(2,4) v(2) more by (simp split: if_splits)
  qed
  moreover have "ob = obj" "r = s" if "parse_members mem n obj s = Inr (Some (ob, r))" "s = []" for ob r
    using that unfolding parse_members.simps [of mem n obj s] by simp_all
  ultimately show ?case using 4(3,4) by blast
next
  case (5 mem n arr s)
  have "utf8_strings (JSONArray 0 (snd ar)) \<and> within_valid r"
    if parse: "parse_items mem n arr s = Inr (Some (ar, r))" and s: "s \<noteq> []" for ar r
    using parse s
  proof (rule parse_itemsE)
    fix v s3 arr1
    assume p: "parse_value mem n s = Inr (Some (v, s3))" "json_array_add mem arr v = (True, arr1)"
      and more: "if looking_at (CHR '','') (SKIP_WHITESPACES s3)
        then parse_items mem n arr1 (SKIP_WHITESPACES (tl (SKIP_WHITESPACES s3))) = Inr (Some (ar, r))
        else ar = arr1 \<and> r = SKIP_WHITESPACES s3"
    have v: "utf8_strings v" "within_valid s3" using 5(1) [OF s 5(3)] p(1) by blast+
    then have "utf8_strings (JSONArray 0 (snd arr1))" using 5(4) add_items [OF p(2)] by auto
    then show ?thesis using 5(2) [OF s p(1) refl _ refl, of arr1] p(2) v(2) more by (simp split: if_splits)
  qed
  moreover have "ar = arr" "r = s" if "parse_items mem n arr s = Inr (Some (ar, r))" "s = []" for ar r
    using that unfolding parse_items.simps [of mem n arr s] by simp_all
  ultimately show ?case using 5(3,4) by blast
qed

section \<open>Comments\<close>

lemma ascii_text: "\<forall>c \<in> set t. code c < 128 \<Longrightarrow> is_valid_utf8 (p @ t @ s) \<longleftrightarrow> t = [] \<and> is_valid_utf8 (p @ s) \<or> t \<noteq> [] \<and> is_valid_utf8 p \<and> is_valid_utf8 s"
proof (induction t arbitrary: p)
  case (Cons c t)
  then show ?case using is_valid_split [of c p "t @ s"] Cons(1) [of "[]"] by (cases "t = []") auto
qed simp

lemma blanks_valid: "is_valid_utf8 (replicate k (CHR '' ''))"
  by (rule is_valid_ascii) (simp add: code_def)

lemma remove_comments_valid:
  assumes "\<forall>c \<in> set start_token \<union> set end_token. code c < 128"
  shows "is_valid_utf8 (p @ s) \<Longrightarrow> is_valid_utf8 (p @ remove_comments start_token end_token in_string escaped s)"
  using assms
proof (induction start_token end_token in_string escaped s arbitrary: p rule: remove_comments.induct)
  case (1 st en ins esc s)
  show ?case
  proof (cases "st \<noteq> [] \<and> en \<noteq> [] \<and> \<not> ins \<and> take (length st) s = st \<and> s \<noteq> [] \<and> \<not> (hd s = CHR 0x5C \<and> \<not> esc) \<and> \<not> (hd s = CHR 0x22 \<and> \<not> esc)")
    case True
    then obtain body where s: "s = st @ body" by (metis append_take_drop_id)
    then have v: "is_valid_utf8 p" "is_valid_utf8 body" using 1(5,6) True ascii_text [of st p body] by auto
    show ?thesis
    proof (cases "strstr body en")
      case None
      then show ?thesis using True s v unfolding remove_comments.simps [of st en ins esc s] by (auto simp: is_valid_append blanks_valid)
    next
      case (Some t)
      then obtain q where q: "body = q @ en @ drop (length en) t" by (metis strstr_Some append_take_drop_id)
      let ?p = "p @ replicate (length st) (CHR '' '') @ replicate (length body - length t + length en) (CHR '' '')"
      have "is_valid_utf8 (drop (length en) t)" using v(2) q 1(6) True ascii_text [of en q "drop (length en) t"] by auto
      then have "is_valid_utf8 (?p @ drop (length en) t)" using v(1) by (simp add: is_valid_append blanks_valid)
      then have "is_valid_utf8 (?p @ remove_comments st en ins False (drop (length en) t))"
        using True s Some 1(6) by (intro 1(3) [of body]) simp_all
      then show ?thesis using True s Some unfolding remove_comments.simps [of st en ins esc s] by auto
    qed
  next
    case False
    then show ?thesis using 1(1,2,4) [of "p @ [hd s]"] 1(5,6) unfolding remove_comments.simps [of st en ins esc s] by (cases s) auto
  qed
qed

section \<open>Property\<close>

text \<open>C14. Every string and every name in a value parsed from valid UTF-8 is valid UTF-8, whatever
  escapes the text spells it with; so the library takes it back through its setters.\<close>
theorem json_parse_keeps_utf8:
  assumes "is_valid_utf8 s" "json_parse_string mem (Some s) = Inr (Some v) \<or> json_parse_string_with_comments mem s = Inr (Some v)"
  shows "utf8_strings v"
  using assms(2)
proof
  assume "json_parse_string mem (Some s) = Inr (Some v)"
  moreover have "within_valid s" using assms(1) by (auto simp: within_valid_def intro: exI [of _ "[]"])
  ultimately show ?thesis using parse_valid(1) [of s mem 0] unfolding json_parse_string_def by (auto simp: pbind_eq_Some)
next
  let ?s = "remove_comments ''//'' ''\<newline>'' False False (remove_comments ''/*'' ''*/'' False False s)"
  assume "json_parse_string_with_comments mem s = Inr (Some v)"
  moreover have "within_valid ?s"
    using remove_comments_valid [of "''//''" "''\<newline>''" "[]"] remove_comments_valid [of "''/*''" "''*/''" "[]" s] assms(1)
    unfolding within_valid_def by (intro exI [of _ "[]"]) (simp add: code_def)
  ultimately show ?thesis using parse_valid(1) [of ?s mem 0] unfolding json_parse_string_with_comments_def
    by (auto simp: pbind_eq_Some split: if_splits)
qed

theorem json_parse_keeps_utf8_witness:
  "utf8_strings (JSONString [CHR 0xE2, CHR 0x82, CHR 0xAC])"
proof (rule json_parse_keeps_utf8 [of "[CHR 0x22, CHR 0x5C] @ ''u20ac'' @ [CHR 0x22]" True])
  show "is_valid_utf8 ([CHR 0x22, CHR 0x5C] @ ''u20ac'' @ [CHR 0x22])" by (rule is_valid_ascii) (simp add: code_def)
  have "json_parse_string True (Some ([CHR 0x22, CHR 0x5C] @ ''u20ac'' @ [CHR 0x22])) = Inr (Some (JSONString [CHR 0xE2, CHR 0x82, CHR 0xAC]))"
    by (simp add: json_parse_string_def parse_value.simps Let_def SKIP_WHITESPACES_def isspace_def code_def MAX_NESTING_def isdigit_def
        parse_string_value_def get_quoted_string_def skip_quotes_def process_string_def process_chars.simps process_char_def
        parse_utf_16_def is_utf16_hex_def scan_4x_def isxdigit_def xdigit_val_def digit_val_def tolower_def isupper_def utf8_bytes_def) code_simp
  then show "json_parse_string True (Some ([CHR 0x22, CHR 0x5C] @ ''u20ac'' @ [CHR 0x22])) = Inr (Some (JSONString [CHR 0xE2, CHR 0x82, CHR 0xAC])) \<or>
    json_parse_string_with_comments True ([CHR 0x22, CHR 0x5C] @ ''u20ac'' @ [CHR 0x22]) = Inr (Some (JSONString [CHR 0xE2, CHR 0x82, CHR 0xAC]))" ..
qed

end
