(* ===== verification/Lookup_Table.thy ===== *)
theory Lookup_Table
  imports Main
begin

text \<open>
  The static tables of the trigger module pair a code with its text and end in a sentinel. A table
  is the list of its proper rows; searching by text yields the code or 0, searching by code the text
  or \<open>UNKN\<close>. The locale says when the two searches invert each other.
\<close>

fun find_code :: "(int \<times> string) list \<Rightarrow> string \<Rightarrow> int" where
  "find_code [] str = 0"
| "find_code ((cd, s) # rows) str = (if s = str then cd else find_code rows str)"

fun find_str :: "(int \<times> string) list \<Rightarrow> int \<Rightarrow> string" where
  "find_str [] cd = ''UNKN''"
| "find_str ((c, s) # rows) cd = (if c = cd then s else find_str rows cd)"

lemma find_code_mem: "find_code rows str \<noteq> 0 \<Longrightarrow> (find_code rows str, str) \<in> set rows"
  by (induction rows str rule: find_code.induct) (auto split: if_splits)

lemma find_code_0: "0 \<notin> fst ` set rows \<Longrightarrow> find_code rows str = 0 \<longleftrightarrow> str \<notin> snd ` set rows"
  by (induction rows str rule: find_code.induct) auto

locale code_table =
  fixes rows :: "(int \<times> string) list"
  assumes codes: "distinct (map fst rows)" "0 \<notin> fst ` set rows"
    and strings: "distinct (map snd rows)"
begin

lemma code_of_row: "(cd, s) \<in> set rows \<Longrightarrow> find_code rows s = cd"
proof -
  have "find_code r s = cd" if "(cd, s) \<in> set r" "distinct (map snd r)" for r
    using that by (induction r s rule: find_code.induct) (auto simp: image_iff)
  then show "(cd, s) \<in> set rows \<Longrightarrow> find_code rows s = cd" using strings by blast
qed

lemma str_of_row: "(cd, s) \<in> set rows \<Longrightarrow> find_str rows cd = s"
proof -
  have "find_str r cd = s" if "(cd, s) \<in> set r" "distinct (map fst r)" for r
    using that by (induction r cd rule: find_str.induct) (auto simp: image_iff)
  then show "(cd, s) \<in> set rows \<Longrightarrow> find_str rows cd = s" using codes(1) by blast
qed

lemma str_code: "find_code rows s \<noteq> 0 \<Longrightarrow> find_str rows (find_code rows s) = s"
  using find_code_mem str_of_row by blast

lemma code_str: "cd \<in> fst ` set rows \<Longrightarrow> find_code rows (find_str rows cd) = cd"
  using str_of_row code_of_row by fastforce

lemma known: "find_code rows s \<noteq> 0 \<longleftrightarrow> s \<in> snd ` set rows"
  using find_code_0 [OF codes(2)] by blast

end

end
