(* ===== verification/Trigger.thy ===== *)
theory Trigger
  imports Config Lookup_Table
begin

text \<open>
  \<^verbatim>\<open>src/src/trigger.c\<close> and its header: the trigger table, the line parser, loading and unloading,
  the evaluation of conditions, the placeholder substitution and the execution of actions. The
  trigger file is its text; what \<open>stat\<close> and \<open>fork\<close> answer are arguments; pin writes, executed
  programs and log lines are effects. The strings of a trigger are heap pointers that unloading
  leaves dangling.
\<close>

section \<open>Tables and types\<close>

definition TRIGGER_FILE_PATH :: string where "TRIGGER_FILE_PATH = ''/etc/rpiweatherd/rpiwd_triggers.conf''"
definition TRIGGER_ARG_STRING_MAX_LENGTH :: nat where "TRIGGER_ARG_STRING_MAX_LENGTH = 2049"

definition TRIGGER_PARSE_OK :: int where "TRIGGER_PARSE_OK = 100"
definition TRIGGER_PARSE_COMMENT_LINE :: int where "TRIGGER_PARSE_COMMENT_LINE = 101"
definition TRIGGER_ERROR_FILE_NOT_FOUND :: int where "TRIGGER_ERROR_FILE_NOT_FOUND = 201"
definition TRIGGER_ERROR_FILE_ERROR :: int where "TRIGGER_ERROR_FILE_ERROR = 202"
definition TRIGGER_ERROR_UP_TO_DATE :: int where "TRIGGER_ERROR_UP_TO_DATE = 102"
definition TRIGGER_ERROR_EOF :: int where "TRIGGER_ERROR_EOF = 103"
definition TRIGGER_ERROR_VALUE_SYNTAX :: int where "TRIGGER_ERROR_VALUE_SYNTAX = 301"
definition TRIGGER_ERROR_VALUE_TYPE_ERROR :: int where "TRIGGER_ERROR_VALUE_TYPE_ERROR = 303"
definition TRIGGER_ERROR_COND_OP_SYNTAX :: int where "TRIGGER_ERROR_COND_OP_SYNTAX = 401"
definition TRIGGER_ERROR_COND_UNKNOWN_OP :: int where "TRIGGER_ERROR_COND_UNKNOWN_OP = 402"
definition TRIGGER_ERROR_MALFORMED_VALUE :: int where "TRIGGER_ERROR_MALFORMED_VALUE = 304"
definition TRIGGER_ERROR_MISSING_VALUE :: int where "TRIGGER_ERROR_MISSING_VALUE = 305"
definition TRIGGER_ERROR_UNKNOWN_ACTION :: int where "TRIGGER_ERROR_UNKNOWN_ACTION = 501"
definition TRIGGER_ERROR_MISSING_ACTION :: int where "TRIGGER_ERROR_MISSING_ACTION = 502"
definition TRIGGER_ERROR_TARGET_MALFORMED :: int where "TRIGGER_ERROR_TARGET_MALFORMED = 601"
definition TRIGGER_ERROR_TARGET_NOT_NUMERIC :: int where "TRIGGER_ERROR_TARGET_NOT_NUMERIC = 602"
definition TRIGGER_ERROR_MISSING_ARGS :: int where "TRIGGER_ERROR_MISSING_ARGS = 701"
definition TRIGGER_ERROR_ARGUMENTS_NOT_NEEDED :: int where "TRIGGER_ERROR_ARGUMENTS_NOT_NEEDED = 702"
definition TRIGGER_ERROR_MISSING_TARGET :: int where "TRIGGER_ERROR_MISSING_TARGET = 603"
definition TRIGGER_ERROR_OUT_OF_MEMORY :: int where "TRIGGER_ERROR_OUT_OF_MEMORY = 104"

lemmas trigger_flag_defs =
  TRIGGER_PARSE_OK_def TRIGGER_PARSE_COMMENT_LINE_def TRIGGER_ERROR_FILE_NOT_FOUND_def TRIGGER_ERROR_FILE_ERROR_def
  TRIGGER_ERROR_UP_TO_DATE_def TRIGGER_ERROR_EOF_def TRIGGER_ERROR_VALUE_SYNTAX_def TRIGGER_ERROR_VALUE_TYPE_ERROR_def
  TRIGGER_ERROR_COND_OP_SYNTAX_def TRIGGER_ERROR_COND_UNKNOWN_OP_def TRIGGER_ERROR_MALFORMED_VALUE_def
  TRIGGER_ERROR_MISSING_VALUE_def TRIGGER_ERROR_UNKNOWN_ACTION_def TRIGGER_ERROR_MISSING_ACTION_def
  TRIGGER_ERROR_TARGET_MALFORMED_def TRIGGER_ERROR_TARGET_NOT_NUMERIC_def TRIGGER_ERROR_MISSING_ARGS_def
  TRIGGER_ERROR_ARGUMENTS_NOT_NEEDED_def TRIGGER_ERROR_MISSING_TARGET_def TRIGGER_ERROR_OUT_OF_MEMORY_def

definition TRIGGER_TYPE_TEMP :: int where "TRIGGER_TYPE_TEMP = 1"
definition TRIGGER_TYPE_HUMID :: int where "TRIGGER_TYPE_HUMID = 2"
definition TRIGGER_COND_EQ :: int where "TRIGGER_COND_EQ = 1"
definition TRIGGER_COND_LEQ :: int where "TRIGGER_COND_LEQ = 2"
definition TRIGGER_COND_BEQ :: int where "TRIGGER_COND_BEQ = 3"
definition TRIGGER_COND_LESS :: int where "TRIGGER_COND_LESS = 4"
definition TRIGGER_COND_MORE :: int where "TRIGGER_COND_MORE = 5"
definition TRIGGER_COND_NEQ :: int where "TRIGGER_COND_NEQ = 6"
definition TRIGGER_ACTION_EXEC :: int where "TRIGGER_ACTION_EXEC = 100"
definition TRIGGER_ACTION_PINUP :: int where "TRIGGER_ACTION_PINUP = 101"
definition TRIGGER_ACTION_PINDOWN :: int where "TRIGGER_ACTION_PINDOWN = 102"
definition TRIGGER_EXEC_OK :: int where "TRIGGER_EXEC_OK = 1"

lemmas trigger_code_defs = TRIGGER_TYPE_TEMP_def TRIGGER_TYPE_HUMID_def TRIGGER_COND_EQ_def TRIGGER_COND_LEQ_def
  TRIGGER_COND_BEQ_def TRIGGER_COND_LESS_def TRIGGER_COND_MORE_def TRIGGER_COND_NEQ_def TRIGGER_ACTION_EXEC_def
  TRIGGER_ACTION_PINUP_def TRIGGER_ACTION_PINDOWN_def

definition VALUE_TYPE_MAPPING :: "(string \<times> nat) list" where
  "VALUE_TYPE_MAPPING = [(''%temp%'', RPIWD_MEASURE_TEMPERATURE), (''%humid%'', RPIWD_MEASURE_HUMIDITY)]"

definition COND_OP_TO_STR :: "(int \<times> string) list" where
  "COND_OP_TO_STR =
     [(TRIGGER_COND_EQ, ''==''), (TRIGGER_COND_LEQ, ''<=''), (TRIGGER_COND_BEQ, ''>=''),
      (TRIGGER_COND_LESS, ''<''), (TRIGGER_COND_MORE, ''>''), (TRIGGER_COND_NEQ, ''!='')]"

definition COND_TYPE_TO_STR :: "(int \<times> string) list" where
  "COND_TYPE_TO_STR = [(TRIGGER_TYPE_HUMID, ''%humid%''), (TRIGGER_TYPE_TEMP, ''%temp%'')]"

definition COND_ACTION_TO_STR :: "(int \<times> string) list" where
  "COND_ACTION_TO_STR =
     [(TRIGGER_ACTION_EXEC, ''exec''), (TRIGGER_ACTION_PINDOWN, ''pindown''), (TRIGGER_ACTION_PINUP, ''pinup'')]"

definition TRIGGER_PARSE_ERROR_STR :: "(int \<times> string option) list" where
  "TRIGGER_PARSE_ERROR_STR =
     [(TRIGGER_PARSE_OK, Some ''Parsing is OK''),
      (TRIGGER_PARSE_COMMENT_LINE, Some ''Parser encountered a commented line.''),
      (TRIGGER_ERROR_FILE_NOT_FOUND, Some ''Trigger file could not be found.''),
      (TRIGGER_ERROR_FILE_ERROR, Some ''I/O error in trigger file.''),
      (TRIGGER_ERROR_UP_TO_DATE, Some ''Trigger file is up to date, no need to reload it.''),
      (TRIGGER_ERROR_EOF, Some ''EOF''),
      (TRIGGER_ERROR_VALUE_SYNTAX, Some ''Syntax error in the value compared by the condition.''),
      (TRIGGER_ERROR_VALUE_TYPE_ERROR, Some ''Condition value has an unrecognized type.''),
      (TRIGGER_ERROR_COND_OP_SYNTAX, Some ''Syntax error in condition operation.''),
      (TRIGGER_ERROR_COND_UNKNOWN_OP, Some ''Unrecognized condition operation type.''),
      (TRIGGER_ERROR_MALFORMED_VALUE, Some ''Malformed value.''),
      (TRIGGER_ERROR_MISSING_VALUE, Some ''Value is missing.''),
      (TRIGGER_ERROR_UNKNOWN_ACTION, Some ''Unknown action.''),
      (TRIGGER_ERROR_MISSING_ACTION, Some ''Missing action.''),
      (TRIGGER_ERROR_TARGET_MALFORMED, Some ''Trigger target is malformed.''),
      (TRIGGER_ERROR_TARGET_NOT_NUMERIC, Some ''Trigger target is not numeric, but action is not PINUP or PINDOWN.''),
      (TRIGGER_ERROR_MISSING_ARGS, Some ''Arguments are required, but are missing.''),
      (TRIGGER_ERROR_ARGUMENTS_NOT_NEEDED, Some ''Arguments are not needed, but provided.''),
      (TRIGGER_ERROR_MISSING_TARGET, Some ''Target is required, but is missing.''),
      (TRIGGER_ERROR_OUT_OF_MEMORY, Some ''rpiweathed could not allocate memory!''),
      (0, None)]"

definition TRIGGER_VALUE_VALID_MEASUREMENTS :: string where
  "TRIGGER_VALUE_VALID_MEASUREMENTS =
     [RPIWD_TEMPERATURE_CELSIUS, RPIWD_TEMPERATURE_FARENHEIT, RPIWD_DEFAULT_HUMID_UNIT]"

record rpiwd_trigger =
  val_type :: int
  op :: int
  action :: int
  cond_value :: fp
  target :: "string ptr"
  args :: "string ptr"
  value_unit :: char

definition zero_trigger :: rpiwd_trigger where
  "zero_trigger = \<lparr>val_type = 0, op = 0, action = 0, cond_value = Fin 0, target = Null, args = Null, value_unit = CHR 0x00\<rparr>"

record trigger_state =
  trigger_table :: "rpiwd_trigger list"
  trigger_count :: nat
  trigger_last_update :: int

definition trigger_state_init :: trigger_state where
  "trigger_state_init = \<lparr>trigger_table = replicate CONFIG_MAX_TRIGGERS zero_trigger, trigger_count = 0, trigger_last_update = 0\<rparr>"

definition cond_op_to_str :: "int \<Rightarrow> string" where "cond_op_to_str opc = find_str COND_OP_TO_STR opc"
definition cond_action_to_str :: "int \<Rightarrow> string" where "cond_action_to_str act = find_str COND_ACTION_TO_STR act"
definition cond_type_to_str :: "int \<Rightarrow> string" where "cond_type_to_str ty = find_str COND_TYPE_TO_STR ty"

section \<open>Parsing a trigger line\<close>

text \<open>Each parser returns its flag and the value it stores.\<close>

definition parse_cond_type :: "string option \<Rightarrow> int \<times> int" where
  "parse_cond_type part =
     (let value = (case part of
                     Some p \<Rightarrow> if p \<noteq> [] \<and> hd p = CHR ''%'' \<and> last p = CHR ''%'' then find_code COND_TYPE_TO_STR p else 0
                   | None \<Rightarrow> 0)
      in (if value \<noteq> - 1 then TRIGGER_PARSE_OK else TRIGGER_ERROR_VALUE_SYNTAX, value))"

definition parse_cond_op :: "string option \<Rightarrow> int \<times> int" where
  "parse_cond_op part =
     (case part of
        Some p \<Rightarrow>
          if length p \<le> 2 then
            let value = find_code COND_OP_TO_STR p
            in (if value = 0 then TRIGGER_ERROR_COND_UNKNOWN_OP else TRIGGER_PARSE_OK, value)
          else (TRIGGER_ERROR_COND_OP_SYNTAX, 0)
      | None \<Rightarrow> (TRIGGER_ERROR_COND_OP_SYNTAX, 0))"

text \<open>The flag, the value stored if any, the part advanced to the suffix, and \<open>errno\<close>.\<close>

definition parse_cond_value :: "bool \<Rightarrow> string option \<Rightarrow> int \<times> fp option \<times> string option \<times> bool" where
  "parse_cond_value erange part =
     (case part of
        None \<Rightarrow> (TRIGGER_ERROR_MISSING_VALUE, None, None, erange)
      | Some p \<Rightarrow>
          (case strtod p of (d, endptr, er) \<Rightarrow>
             let value = fp_conv f32 d; er' = (erange \<or> er)
             in if \<not> fp_eq value (Fin 0) \<or> \<not> er'
                then (TRIGGER_PARSE_OK, Some value, Some (if endptr \<noteq> [] then endptr else p), er')
                else (TRIGGER_ERROR_MALFORMED_VALUE, Some value, part, er')))"

text \<open>The unit stored, if the part starts with one.\<close>

definition parse_cond_value_suffix :: "string \<Rightarrow> int \<times> char option" where
  "parse_cond_value_suffix part =
     (TRIGGER_PARSE_OK,
      if part \<noteq> [] \<and> hd part \<in> set TRIGGER_VALUE_VALID_MEASUREMENTS then Some (hd part) else None)"

definition parse_cond_action :: "string option \<Rightarrow> int \<times> int" where
  "parse_cond_action part =
     (case part of
        Some p \<Rightarrow>
          let value = find_code COND_ACTION_TO_STR (map tolower p)
          in (if value = 0 then TRIGGER_ERROR_UNKNOWN_ACTION else TRIGGER_PARSE_OK, value)
      | None \<Rightarrow> (TRIGGER_ERROR_MISSING_ACTION, 0))"

text \<open>\<open>getline\<close>: the next line with its newline; \<open>None\<close> at the end of the file.\<close>

definition getline :: "string \<Rightarrow> (string \<times> string) option" where
  "getline f =
     (if f = [] then None
      else let k = length (takeWhile (\<lambda>c. c \<noteq> CHR 0x0A) f) + 1
           in Some (takeWhile (\<lambda>c. c \<noteq> CHR 0x00) (take k f), drop k f))"

abbreviation blanks :: string where "blanks \<equiv> [CHR '' '', CHR 0x09]"

definition is_pin_action :: "int \<Rightarrow> bool" where
  "is_pin_action act \<longleftrightarrow> act = TRIGGER_ACTION_PINDOWN \<or> act = TRIGGER_ACTION_PINUP"

text \<open>
  The condition, token by token: the flag, the slot, the rest of the line and \<open>errno\<close>. A flag other
  than \<open>TRIGGER_PARSE_OK\<close> ends the parse (the macro \<open>TRY_PARSE\<close>).
\<close>

definition parse_condition ::
  "bool \<Rightarrow> rpiwd_trigger \<Rightarrow> string \<Rightarrow> string \<Rightarrow> int \<times> rpiwd_trigger \<times> string \<times> bool" where
  "parse_condition erange trig p1 save1 =
     (let (flag1, ty) = parse_cond_type (Some p1);
          trig1 = trig\<lparr>val_type := ty\<rparr>
      in if flag1 \<noteq> TRIGGER_PARSE_OK then (flag1, trig1, save1, erange)
         else let (part2, save2) = strtok blanks save1;
                  (flag2, opc) = parse_cond_op part2;
                  trig2 = trig1\<lparr>op := opc\<rparr>
              in if flag2 \<noteq> TRIGGER_PARSE_OK then (flag2, trig2, save2, erange)
                 else let (part3, save3) = strtok blanks save2;
                          (flag3, value, part3', er) = parse_cond_value erange part3;
                          trig3 = (case value of Some v \<Rightarrow> trig2\<lparr>cond_value := v\<rparr> | None \<Rightarrow> trig2)
                      in if flag3 \<noteq> TRIGGER_PARSE_OK then (flag3, trig3, save3, er)
                         else let (flag4, sfx) = parse_cond_value_suffix (case part3' of Some p \<Rightarrow> p | None \<Rightarrow> []);
                                  trig4 = (case sfx of Some u \<Rightarrow> trig3\<lparr>value_unit := u\<rparr> | None \<Rightarrow> trig3)
                              in (flag4, trig4, save3, er))"

text \<open>The action, the target and the arguments.\<close>

definition parse_action :: "bool \<Rightarrow> rpiwd_trigger \<Rightarrow> string \<Rightarrow> int \<times> rpiwd_trigger" where
  "parse_action oom trig save3 =
     (let (part5, save5) = strtok blanks save3;
          (flag5, act) = parse_cond_action part5;
          trig5 = trig\<lparr>action := act\<rparr>
      in if flag5 \<noteq> TRIGGER_PARSE_OK then (flag5, trig5)
         else let (part6, save6) = strtok blanks save5
              in case part6 of
                   None \<Rightarrow> (TRIGGER_ERROR_TARGET_MALFORMED, trig5)
                 | Some p \<Rightarrow>
                     if oom then (TRIGGER_ERROR_OUT_OF_MEMORY, trig5\<lparr>target := Null\<rparr>)
                     else let trig6 = trig5\<lparr>target := Ptr p\<rparr>
                          in if is_pin_action act \<and> \<not> rpiwd_is_number p
                             then (TRIGGER_ERROR_TARGET_NOT_NUMERIC, trig6)
                             else (case fst (strtok (blanks @ [CHR 0x0A]) save6) of
                                     Some a \<Rightarrow> if is_pin_action act then (TRIGGER_ERROR_ARGUMENTS_NOT_NEEDED, trig6)
                                               else (TRIGGER_PARSE_OK, trig6\<lparr>args := Ptr a\<rparr>)
                                   | None \<Rightarrow> (TRIGGER_PARSE_OK, trig6)))"

text \<open>One call: the flag, the trigger slot, the rest of the file and \<open>errno\<close>.\<close>

definition parse_trigger :: "bool \<Rightarrow> bool \<Rightarrow> rpiwd_trigger \<Rightarrow> string \<Rightarrow> (int \<times> rpiwd_trigger \<times> string \<times> bool) c" where
  "parse_trigger oom erange trig f =
     (case getline f of
        None \<Rightarrow> Inr (TRIGGER_ERROR_EOF, trig, f, erange)
      | Some (line, f') \<Rightarrow>
          let (part1, save1) = strtok blanks line
          in cbind (deref part1) (\<lambda>p1.
               if hd p1 = CHR ''#'' then Inr (TRIGGER_PARSE_COMMENT_LINE, trig, f', erange)
               else let (flag, trig1, save3, er) = parse_condition erange trig p1 save1
                    in if flag \<noteq> TRIGGER_PARSE_OK then Inr (flag, trig1, f', er)
                       else let (flag', trig2) = parse_action oom trig1 save3
                            in Inr (flag', trig2, f', er)))"

section \<open>Loading and unloading\<close>

definition free_trigger :: "rpiwd_trigger \<Rightarrow> rpiwd_trigger c" where
  "free_trigger trig =
     cbind (free_ptr (args trig)) (\<lambda>a.
     cbind (free_ptr (target trig)) (\<lambda>t. Inr (trig\<lparr>args := a, target := t\<rparr>)))"

fun free_triggers :: "nat \<Rightarrow> rpiwd_trigger list \<Rightarrow> rpiwd_trigger list c" where
  "free_triggers 0 ts = Inr ts"
| "free_triggers (Suc n) [] = Inl OutOfBounds"
| "free_triggers (Suc n) (t # ts) =
     cbind (free_trigger t) (\<lambda>t'. cbind (free_triggers n ts) (\<lambda>ts'. Inr (t' # ts')))"

definition unload_triggers :: "trigger_state \<Rightarrow> trigger_state c" where
  "unload_triggers st =
     cbind (free_triggers (trigger_count st) (trigger_table st)) (\<lambda>ts.
       Inr (st\<lparr>trigger_table := ts, trigger_count := 0\<rparr>))"

text \<open>
  The slot handed to the parser may be the one past the end of the table; the parser writes to it
  unless it meets the end of the file or a comment.
\<close>

definition parse_into :: "trigger_state \<Rightarrow> bool \<Rightarrow> string \<Rightarrow> (int \<times> trigger_state \<times> string \<times> bool) c" where
  "parse_into st erange f =
     (let i = trigger_count st;
          slot = (if i < length (trigger_table st) then trigger_table st ! i else zero_trigger)
      in cbind (parse_trigger False erange slot f) (\<lambda>(flag, trig, f', er).
           if flag = TRIGGER_ERROR_EOF \<or> flag = TRIGGER_PARSE_COMMENT_LINE then Inr (flag, st, f', er)
           else if length (trigger_table st) \<le> i then Inl BufferOverflow
           else Inr (flag, st\<lparr>trigger_table := (trigger_table st)[i := trig]\<rparr>, f', er)))"

lemma getline_shorter: "getline f = Some (line, f') \<Longrightarrow> length f' < length f"
  by (auto simp: getline_def Let_def split: if_splits)

lemma parse_trigger_shorter:
  "parse_trigger oom erange trig f = Inr (flag, trig', f', er) \<Longrightarrow> flag = TRIGGER_ERROR_EOF \<or> length f' < length f"
  by (auto simp: parse_trigger_def Let_def cbind_eq_Inr dest!: getline_shorter
      split: option.splits prod.splits if_splits)

lemma parse_into_shorter:
  "parse_into st erange f = Inr (flag, st', f', er) \<Longrightarrow> flag \<noteq> TRIGGER_ERROR_EOF \<Longrightarrow> length f' < length f"
  by (auto simp: parse_into_def Let_def cbind_eq_Inr dest!: parse_trigger_shorter split: if_splits)

text \<open>
  The loop of \<open>load_triggers\<close>: the last flag. The message of an error is read from the table of
  messages with the flag as the index.
\<close>

function load_loop :: "trigger_state \<Rightarrow> bool \<Rightarrow> string \<Rightarrow> (int \<times> trigger_state \<times> bool) c" where
  "load_loop st erange f =
     (case parse_into st erange f of
        Inl e \<Rightarrow> Inl e
      | Inr (flag, st', f', er) \<Rightarrow>
          if flag = TRIGGER_ERROR_EOF then Inr (flag, st', er)
          else if flag = TRIGGER_PARSE_OK then
            load_loop (st'\<lparr>trigger_count := trigger_count st' + 1\<rparr>) er f'
          else if flag = TRIGGER_PARSE_COMMENT_LINE then load_loop st' er f'
          else if length TRIGGER_PARSE_ERROR_STR \<le> nat flag then Inl OutOfBounds
          else Inr (flag, st', er))"
  by pat_completeness auto
termination
  by (relation "measure (\<lambda>(st, erange, f). length f)") (auto dest: parse_into_shorter)

declare load_loop.simps [simp del]

definition load_triggers :: "files \<Rightarrow> trigger_state \<Rightarrow> bool \<Rightarrow> (int \<times> trigger_state \<times> bool) c" where
  "load_triggers fs st erange =
     cbind (if 0 < trigger_count st then unload_triggers st else Inr st) (\<lambda>st1.
       case open_read fs TRIGGER_FILE_PATH of
         None \<Rightarrow> Inr (TRIGGER_ERROR_FILE_NOT_FOUND, st1, erange)
       | Some f \<Rightarrow>
           cbind (load_loop st1 erange f) (\<lambda>(flag, st2, er).
             Inr (if flag = TRIGGER_ERROR_EOF then TRIGGER_PARSE_OK else flag, st2, er)))"

section \<open>Listing\<close>

definition pad_right :: "nat \<Rightarrow> string \<Rightarrow> string" where
  "pad_right n s = s @ replicate (n - length s) (CHR '' '')"

definition trigger_row :: "rpiwd_trigger \<Rightarrow> string c" where
  "trigger_row trig =
     cbind (load (target trig)) (\<lambda>t.
     cbind (if args trig = Null then Inr [] else load (args trig)) (\<lambda>a.
       Inr (cond_type_to_str (val_type trig) @ '' '' @ cond_op_to_str (op trig) @ '' '' @
            pad_right 10 (show_fixed 2 (cond_value trig)) @ pad_right 10 (cond_action_to_str (action trig)) @
            pad_right 30 t @ pad_right 20 a @ [CHR 0x0A])))"

fun trigger_rows :: "rpiwd_trigger list \<Rightarrow> string c" where
  "trigger_rows [] = Inr []"
| "trigger_rows (t # ts) = cbind (trigger_row t) (\<lambda>r. cbind (trigger_rows ts) (\<lambda>rs. Inr (r @ rs)))"

definition list_triggers :: "files \<Rightarrow> trigger_state \<Rightarrow> bool \<Rightarrow> (string \<times> trigger_state \<times> bool) c" where
  "list_triggers fs st erange =
     cbind (load_triggers fs st erange) (\<lambda>(load_flag, st', er).
       if load_flag \<noteq> TRIGGER_PARSE_OK then Inr (''Some triggers failed parsing!'', st', er)
       else cbind (trigger_rows (take (trigger_count st') (trigger_table st'))) (\<lambda>rows.
              Inr (pad_right 20 ''CONDITION'' @ pad_right 10 ''ACTION'' @ pad_right 30 ''TARGET'' @
                   pad_right 20 ''ARGS'' @ [CHR 0x0A] @ rows @ [CHR 0x0A], st', er)))"

section \<open>Conditions\<close>

definition read_cell :: "measurements \<Rightarrow> int \<Rightarrow> fp c" where
  "read_cell m i =
     (if i < 0 \<or> int (length m) \<le> i then Inl OutOfBounds
      else case m ! nat i of None \<Rightarrow> Inl UninitRead | Some v \<Rightarrow> Inr v)"

definition to_fahrenheit :: "fp \<Rightarrow> fp" where
  "to_fahrenheit v = fp_add f32 (fp_mul f32 v (f32 (9 / 5))) (Fin 32)"

definition convert_measurements_maybe :: "rpiwd_trigger \<Rightarrow> measurements \<Rightarrow> measurements c" where
  "convert_measurements_maybe trig m =
     (if val_type trig = TRIGGER_TYPE_TEMP \<and> value_unit trig \<noteq> RPIWD_TEMPERATURE_CELSIUS
         \<and> value_unit trig \<noteq> CHR 0x00
      then cbind (read_cell m (int RPIWD_MEASURE_TEMPERATURE)) (\<lambda>v.
             set_cell m RPIWD_MEASURE_TEMPERATURE (to_fahrenheit v))
      else Inr m)"

definition eval_cond :: "int \<Rightarrow> fp \<Rightarrow> fp \<Rightarrow> bool" where
  "eval_cond opc x y =
     (if opc = TRIGGER_COND_EQ then fp_eq x y
      else if opc = TRIGGER_COND_BEQ then fp_le y x
      else if opc = TRIGGER_COND_LEQ then fp_le x y
      else if opc = TRIGGER_COND_LESS then fp_less x y
      else if opc = TRIGGER_COND_MORE then fp_less y x
      else \<not> fp_eq x y)"

definition trigger_should_execute :: "rpiwd_trigger \<Rightarrow> measurements \<Rightarrow> (int \<times> measurements) c" where
  "trigger_should_execute trig m =
     cbind (convert_measurements_maybe trig m) (\<lambda>m'.
       if op trig \<in> {TRIGGER_COND_EQ, TRIGGER_COND_BEQ, TRIGGER_COND_LEQ, TRIGGER_COND_LESS,
                     TRIGGER_COND_MORE, TRIGGER_COND_NEQ}
       then cbind (read_cell m' (val_type trig)) (\<lambda>x.
              Inr (if eval_cond (op trig) x (cond_value trig) then 1 else 0, m'))
       else Inr (- 1, m'))"

section \<open>Placeholders\<close>

definition max_allowed_argstring_length :: nat where
  "max_allowed_argstring_length =
     TRIGGER_ARG_STRING_MAX_LENGTH - sum_list (map (length \<circ> fst) VALUE_TYPE_MAPPING) - 1"

definition strncpy_at :: "string \<Rightarrow> nat \<Rightarrow> string \<Rightarrow> string" where
  "strncpy_at buf n src = take n src @ replicate (n - length src) (CHR 0x00) @ drop n buf"

text \<open>
  One round of the loop over the placeholders. The state: the offset \<open>begin\<close> into the argument
  string, the bytes written to the buffer (none yet: \<open>None\<close>), and their count. The difference of the
  pointers is taken the wrong way round; cast to \<open>size_t\<close> a negative one is huge. The measurement is
  read through element \<open>idx\<close> of an array of one pointer.
\<close>

type_synonym arg_state = "nat \<times> string option \<times> nat"

definition replace_part :: "string \<Rightarrow> nat \<Rightarrow> string \<Rightarrow> measurements \<Rightarrow> arg_state \<Rightarrow> arg_state c" where
  "replace_part part_str idx arg m st =
     (case st of (pos, buf, appended) \<Rightarrow>
      (case strstr arg part_str of
        None \<Rightarrow> Inr st
      | Some part_ptr \<Rightarrow>
          let copy_len = int pos - int (length arg - length part_ptr);
              old = (case buf of None \<Rightarrow> [] | Some b \<Rightarrow> b)
          in if copy_len < 0 then Inl BufferOverflow
             else let buf1 = (if copy_len = 0 then old else strncpy_at old (nat copy_len) (drop pos arg));
                      app1 = appended + nat copy_len
                  in cbind (if 1 \<le> idx then Inl OutOfBounds else read_cell m 0) (\<lambda>v.
                       let num = show_fixed 4 v; app2 = app1 + length num
                       in if TRIGGER_ARG_STRING_MAX_LENGTH \<le> app2 then Inl BufferOverflow
                          else Inr (pos + nat copy_len + length part_str, Some (take app1 buf1 @ num), app2))))"

fun replace_loop :: "(string \<times> nat) list \<Rightarrow> string \<Rightarrow> measurements \<Rightarrow> arg_state \<Rightarrow> arg_state c" where
  "replace_loop [] arg m st = Inr st"
| "replace_loop ((part_str, idx) # rest) arg m st =
     cbind (replace_part part_str idx arg m st) (\<lambda>st'. replace_loop rest arg m st')"

definition post_process_args :: "string ptr \<Rightarrow> measurements \<Rightarrow> (int \<times> string) c" where
  "post_process_args arg_string m =
     cbind (load arg_string) (\<lambda>arg.
       if \<not> strchr arg (CHR ''%'') then Inr (0, [])
       else if max_allowed_argstring_length \<le> length arg then Inr (0, [])
       else cbind (replace_loop VALUE_TYPE_MAPPING arg m (0, None, 0)) (\<lambda>(pos, buf, appended).
              case buf of
                None \<Rightarrow> Inl UninitRead
              | Some b \<Rightarrow>
                  let out = (if length b + 1 \<noteq> appended then take appended b @ drop pos arg else b)
                  in if TRIGGER_ARG_STRING_MAX_LENGTH \<le> length out + 1 then Inl BufferOverflow
                     else Inr (1, out)))"

section \<open>Execution\<close>

datatype trig_effect = PinModeOutput int | PinWrite int bool | Exec string string | LogErr string

record trigger_env =
  stat_ctime :: "int option"
  trig_files :: files
  fork_ok :: bool
  child_ends :: "string \<Rightarrow> string \<Rightarrow> bool" \<comment> \<open>whether a program ends on an argument\<close>

definition atoi :: "string \<Rightarrow> int c" where
  "atoi s = (case strtol s of (v, er) \<Rightarrow> if er then Inl SignedOverflow else Inr v)"

definition pin_write :: "string ptr \<Rightarrow> bool \<Rightarrow> trig_effect list c" where
  "pin_write t level =
     cbind (load t) (\<lambda>s. cbind (atoi s) (\<lambda>pin. Inr [PinModeOutput pin, PinWrite pin level]))"

text \<open>
  The \<open>switch\<close> on the action: effects and the new \<open>retval\<close>. The parent waits for the child it started,
  forever when that does not end.
\<close>

definition run_action :: "trigger_env \<Rightarrow> rpiwd_trigger \<Rightarrow> measurements \<Rightarrow> int \<Rightarrow> (trig_effect list \<times> int) waits" where
  "run_action env trig m retval =
     (if action trig = TRIGGER_ACTION_PINUP then
        Some (cbind (pin_write (target trig) True) (\<lambda>es. Inr (es, TRIGGER_EXEC_OK)))
      else if action trig = TRIGGER_ACTION_PINDOWN then
        Some (cbind (pin_write (target trig) False) (\<lambda>es. Inr (es, TRIGGER_EXEC_OK)))
      else if action trig = TRIGGER_ACTION_EXEC then
        wbind (Some (post_process_args (args trig) m)) (\<lambda>(arg_retval, arg_string).
          if \<not> fork_ok env then Some (Inr ([LogErr ''Failed to execute fork()''], retval))
          else wbind (Some (load (target trig))) (\<lambda>t.
               wbind (Some (load (args trig))) (\<lambda>a.
                 let arg = (if arg_retval \<noteq> 0 then arg_string else a)
                 in if child_ends env t arg then Some (Inr ([Exec t arg], retval)) else None)))
      else Some (Inr ([], retval)))"

text \<open>One round of the loop; \<open>retval\<close> starts indeterminate and only decides about a log line.\<close>

definition run_trigger ::
  "trigger_env \<Rightarrow> rpiwd_trigger \<Rightarrow> measurements \<Rightarrow> int \<Rightarrow> (trig_effect list \<times> measurements \<times> int) waits" where
  "run_trigger env trig m retval =
     wbind (Some (trigger_should_execute trig m)) (\<lambda>(eval_flag, m').
       if eval_flag = 0 then Some (Inr ([], m', retval))
       else wbind (run_action env trig m' retval) (\<lambda>(es, retval').
              Some (Inr ((if eval_flag = - 1 then [LogErr ''Error evaluating trigger''] else []) @ es @
                   (if retval' = - 1 then [LogErr ''Trigger execution failed''] else []), m', retval'))))"

fun run_triggers ::
  "trigger_env \<Rightarrow> rpiwd_trigger list \<Rightarrow> measurements \<Rightarrow> int \<Rightarrow> (trig_effect list \<times> measurements) waits" where
  "run_triggers env [] m retval = Some (Inr ([], m))"
| "run_triggers env (t # ts) m retval =
     wbind (run_trigger env t m retval) (\<lambda>(es, m', retval').
     wbind (run_triggers env ts m' retval') (\<lambda>(es', m''). Some (Inr (es @ es', m''))))"

text \<open>
  The callback: the error code if it returns one (the normal path falls off the end of the
  function), the effects, the state, the measurements and \<open>errno\<close>.
\<close>

definition trigger_exec_callback ::
  "trigger_env \<Rightarrow> trigger_state \<Rightarrow> bool \<Rightarrow> measurements \<Rightarrow> int \<Rightarrow>
   (int option \<times> trig_effect list \<times> trigger_state \<times> measurements \<times> bool) waits" where
  "trigger_exec_callback env st erange m retval =
     (case stat_ctime env of
        None \<Rightarrow> Some (Inr (Some TRIGGER_ERROR_FILE_ERROR, [], st, m, erange))
      | Some ctim \<Rightarrow>
          wbind (Some (if ctim > trigger_last_update st
                 then cbind (load_triggers (trig_files env) (st\<lparr>trigger_last_update := ctim\<rparr>) erange)
                        (\<lambda>(_, st1, er). Inr (st1, er))
                 else Inr (st, erange))) (\<lambda>(st1, er).
          wbind (run_triggers env (take (trigger_count st1) (trigger_table st1)) m retval) (\<lambda>(es, m').
            Some (Inr (None, es, st1, m', er)))))"

section \<open>Lemmas: the tables invert\<close>

interpretation ops: code_table COND_OP_TO_STR
  by unfold_locales (auto simp: COND_OP_TO_STR_def trigger_code_defs)

interpretation types: code_table COND_TYPE_TO_STR
  by unfold_locales (auto simp: COND_TYPE_TO_STR_def trigger_code_defs)

interpretation actions: code_table COND_ACTION_TO_STR
  by unfold_locales (auto simp: COND_ACTION_TO_STR_def trigger_code_defs)

lemma op_rows_short: "(cd, s) \<in> set COND_OP_TO_STR \<Longrightarrow> length s \<le> 2"
  by (auto simp: COND_OP_TO_STR_def)

lemma parse_cond_op_row: "(cd, s) \<in> set COND_OP_TO_STR \<Longrightarrow> parse_cond_op (Some s) = (TRIGGER_PARSE_OK, cd)"
  using ops.code_of_row [of cd s] ops.codes(2) op_rows_short [of cd s]
  by (auto simp: parse_cond_op_def image_iff)

lemma parse_cond_type_row: "(cd, s) \<in> set COND_TYPE_TO_STR \<Longrightarrow> parse_cond_type (Some s) = (TRIGGER_PARSE_OK, cd)"
  by (auto simp: parse_cond_type_def COND_TYPE_TO_STR_def trigger_code_defs)

lemma tolower_actions: "(cd, s) \<in> set COND_ACTION_TO_STR \<Longrightarrow> map tolower s = s"
  by (auto simp: COND_ACTION_TO_STR_def tolower_def isupper_def code_def)

lemma parse_cond_action_row:
  "(cd, s) \<in> set COND_ACTION_TO_STR \<Longrightarrow> parse_cond_action (Some s) = (TRIGGER_PARSE_OK, cd)"
  using actions.code_of_row [of cd s] actions.codes(2) tolower_actions [of cd s]
  by (auto simp: parse_cond_action_def image_iff)

section \<open>Lemmas: a printed trigger parses back\<close>

text \<open>A word of a trigger line: not empty, no blank, no line break, no zero byte.\<close>

definition word_ok :: "string \<Rightarrow> bool" where
  "word_ok w \<longleftrightarrow> w \<noteq> [] \<and> (\<forall>c \<in> set w. c \<notin> {CHR '' '', CHR 0x09, CHR 0x0A, CHR 0x00})"

lemma strtok_word: "word_ok w \<Longrightarrow> strtok blanks (w @ CHR '' '' # rest) = (Some w, rest)"
  by (rule strtok_delim) (auto simp: word_ok_def)

lemma strtok_last_word: "word_ok w \<Longrightarrow> strtok (blanks @ [CHR 0x0A]) (w @ [CHR 0x0A]) = (Some w, [])"
  by (rule strtok_delim) (auto simp: word_ok_def)

lemma word_ok_rows:
  "(cd, s) \<in> set COND_OP_TO_STR \<Longrightarrow> word_ok s" "(cd, s) \<in> set COND_TYPE_TO_STR \<Longrightarrow> word_ok s"
  "(cd, s) \<in> set COND_ACTION_TO_STR \<Longrightarrow> word_ok s"
  by (auto simp: word_ok_def COND_OP_TO_STR_def COND_TYPE_TO_STR_def COND_ACTION_TO_STR_def)

lemma type_row_hd: "(cd, s) \<in> set COND_TYPE_TO_STR \<Longrightarrow> hd s \<noteq> CHR ''#''"
  by (auto simp: COND_TYPE_TO_STR_def)

lemma unit_chars:
  assumes "u \<in> set TRIGGER_VALUE_VALID_MEASUREMENTS"
  shows "\<not> isdigit u" "u \<noteq> CHR ''.''" "tolower u \<noteq> CHR ''x''" "u \<notin> {CHR '' '', CHR 0x09, CHR 0x0A, CHR 0x00}"
  using assms
  by (auto simp: TRIGGER_VALUE_VALID_MEASUREMENTS_def RPIWD_TEMPERATURE_CELSIUS_def RPIWD_TEMPERATURE_FARENHEIT_def
      RPIWD_DEFAULT_HUMID_UNIT_def isdigit_def tolower_def isupper_def code_def)

lemma parse_value_unit:
  assumes "read_nat ds < 2 ^ 24" "ds \<noteq> []" "list_all isdigit ds" "u \<in> set TRIGGER_VALUE_VALID_MEASUREMENTS"
  shows "parse_cond_value False (Some (ds @ [u])) = (TRIGGER_PARSE_OK, Some (Fin (of_nat (read_nat ds))), Some [u], False)"
proof -
  have sd: "strtod (ds @ [u]) = (Fin (of_nat (read_nat ds)), [u], False)"
    using f64.rnd_int [of "int (read_nat ds)"] assms(1) scan_number_suffix [OF assms(2,3) unit_chars(1-3) [OF assms(4)]]
    by (simp add: strtod_def strto_fp_def)
  have "fp_conv f32 (Fin (of_nat (read_nat ds))) = Fin (of_nat (read_nat ds))"
    using f32.rnd_int [of "int (read_nat ds)"] assms(1) by simp
  then show ?thesis by (simp add: parse_cond_value_def sd)
qed

definition trigger_line :: "string \<Rightarrow> string \<Rightarrow> string \<Rightarrow> char \<Rightarrow> string \<Rightarrow> string \<Rightarrow> string \<Rightarrow> string" where
  "trigger_line ty opc ds u act tgt arg =
     ty @ '' '' @ opc @ '' '' @ ds @ [u] @ '' '' @ act @ '' '' @ tgt @ '' '' @ arg @ [CHR 0x0A]"

lemma digit_word: "isdigit c \<Longrightarrow> c \<notin> {CHR '' '', CHR 0x09, CHR 0x0A, CHR 0x00}"
  by (auto simp: isdigit_def code_def)

lemma word_digits: "ds \<noteq> [] \<Longrightarrow> list_all isdigit ds \<Longrightarrow> u \<in> set TRIGGER_VALUE_VALID_MEASUREMENTS \<Longrightarrow> word_ok (ds @ [u])"
  unfolding word_ok_def set_append ball_Un
  using unit_chars(4) [of u] digit_word by (simp add: list_all_iff)

lemma getline_line:
  assumes "\<forall>c \<in> set l. c \<noteq> CHR 0x0A \<and> c \<noteq> CHR 0x00"
  shows "getline (l @ CHR 0x0A # rest) = Some (l @ [CHR 0x0A], rest)"
proof -
  have "takeWhile (\<lambda>c. c \<noteq> CHR 0x0A) (l @ CHR 0x0A # rest) = l"
    using assms by (subst takeWhile_append2) auto
  moreover have "takeWhile (\<lambda>c. c \<noteq> CHR 0x00) (l @ [CHR 0x0A]) = l @ [CHR 0x0A]"
    using assms by (subst takeWhile_append2) auto
  ultimately show ?thesis by (simp add: getline_def Let_def)
qed

lemma word_ok_plain: "word_ok w \<Longrightarrow> \<forall>c \<in> set w. c \<noteq> CHR 0x0A \<and> c \<noteq> CHR 0x00"
  by (simp add: word_ok_def)

lemma parse_condition_words:
  assumes "(tyc, ty) \<in> set COND_TYPE_TO_STR" "(opcd, opc) \<in> set COND_OP_TO_STR"
    and "ds \<noteq> []" "list_all isdigit ds" "read_nat ds < 2 ^ 24" and "u \<in> set TRIGGER_VALUE_VALID_MEASUREMENTS"
  shows "parse_condition False trig ty (opc @ CHR '' '' # (ds @ [u]) @ CHR '' '' # r) =
    (TRIGGER_PARSE_OK, trig\<lparr>val_type := tyc, op := opcd, cond_value := Fin (of_nat (read_nat ds)), value_unit := u\<rparr>, r, False)"
  using assms(6)
  by (simp only: parse_condition_def Let_def prod.case parse_cond_type_row [OF assms(1)] parse_cond_op_row [OF assms(2)]
      strtok_word [OF word_ok_rows(1) [OF assms(2)]] strtok_word [OF word_digits [OF assms(3,4,6)]]
      parse_value_unit [OF assms(5,3,4,6)])
    (simp add: parse_cond_value_suffix_def)

text \<open>A line whose condition is well formed is decided by its action, target and arguments.\<close>

lemma parse_trigger_words:
  assumes ty: "(tyc, ty) \<in> set COND_TYPE_TO_STR" and opc: "(opcd, opc) \<in> set COND_OP_TO_STR"
    and ds: "ds \<noteq> []" "list_all isdigit ds" "read_nat ds < 2 ^ 24"
    and u: "u \<in> set TRIGGER_VALUE_VALID_MEASUREMENTS" and tl: "\<forall>c \<in> set tail. c \<noteq> CHR 0x0A \<and> c \<noteq> CHR 0x00"
  shows "parse_trigger False False trig (ty @ '' '' @ opc @ '' '' @ (ds @ [u]) @ '' '' @ tail @ CHR 0x0A # rest) =
    (let (flag, t) = parse_action False (trig\<lparr>val_type := tyc, op := opcd, cond_value := Fin (of_nat (read_nat ds)),
         value_unit := u\<rparr>) (tail @ [CHR 0x0A])
     in Inr (flag, t, rest, False))"
proof -
  note ws = word_ok_rows(2) [OF ty] word_ok_rows(1) [OF opc] word_digits [OF ds(1,2) u]
  let ?l = "ty @ '' '' @ opc @ '' '' @ (ds @ [u]) @ '' '' @ tail"
  have plain: "\<forall>c \<in> set ?l. c \<noteq> CHR 0x0A \<and> c \<noteq> CHR 0x00"
    unfolding set_append ball_Un using ws [THEN word_ok_plain] tl by simp
  have g: "getline (ty @ '' '' @ opc @ '' '' @ (ds @ [u]) @ '' '' @ tail @ CHR 0x0A # rest) = Some (?l @ [CHR 0x0A], rest)"
    using getline_line [OF plain, of rest] by simp
  have ne: "ty \<noteq> []" "hd ty \<noteq> CHR ''#''" using ws(1) type_row_hd [OF ty] by (auto simp: word_ok_def)
  have s1: "strtok blanks (?l @ [CHR 0x0A]) = (Some ty, opc @ CHR '' '' # (ds @ [u]) @ CHR '' '' # (tail @ [CHR 0x0A]))"
    using strtok_word [OF ws(1), of "opc @ CHR '' '' # (ds @ [u]) @ CHR '' '' # (tail @ [CHR 0x0A])"] by simp
  show ?thesis
    unfolding parse_trigger_def g option.case prod.case s1 Let_def deref_simps cbind_Inr
      parse_condition_words [OF ty opc ds u]
    using ne by (simp split: prod.split)
qed

lemma parse_action_exec:
  assumes "word_ok tgt" "word_ok arg"
  shows "parse_action False t (''exec '' @ tgt @ CHR '' '' # arg @ [CHR 0x0A]) =
    (TRIGGER_PARSE_OK, t\<lparr>action := TRIGGER_ACTION_EXEC, target := Ptr tgt, args := Ptr arg\<rparr>)"
proof -
  have ex: "(TRIGGER_ACTION_EXEC, ''exec'') \<in> set COND_ACTION_TO_STR" by (simp add: COND_ACTION_TO_STR_def)
  have "strtok blanks (''exec '' @ r) = (Some ''exec'', r)" for r
    using strtok_word [OF word_ok_rows(3) [OF ex], of r] by simp
  then show ?thesis
    by (simp add: parse_action_def parse_cond_action_row [OF ex] strtok_word [OF assms(1)]
        strtok_last_word [OF assms(2), simplified] is_pin_action_def trigger_code_defs)
qed

lemma strtok_unended: "word_ok w \<Longrightarrow> strtok blanks (w @ [CHR 0x0A]) = (Some (w @ [CHR 0x0A]), [])"
  by (rule strtok_last) (auto simp: word_ok_def)

lemma parse_action_pin:
  assumes "word_ok tgt" "(actc, act) \<in> set COND_ACTION_TO_STR" "is_pin_action actc"
  shows "parse_action False t (act @ CHR '' '' # tgt @ [CHR 0x0A]) =
    (TRIGGER_ERROR_TARGET_NOT_NUMERIC, t\<lparr>action := actc, target := Ptr (tgt @ [CHR 0x0A])\<rparr>)"
  using assms
  by (simp add: parse_action_def parse_cond_action_row [OF assms(2)] strtok_word [OF word_ok_rows(3) [OF assms(2)]]
      strtok_unended rpiwd_is_number_def isdigit_def code_def)

lemma trigger_line_tail:
  "trigger_line ty opc ds u act tgt arg @ rest =
   ty @ '' '' @ opc @ '' '' @ (ds @ [u]) @ '' '' @ (act @ CHR '' '' # tgt @ CHR '' '' # arg) @ CHR 0x0A # rest"
  by (simp add: trigger_line_def)

lemma parse_trigger_line:
  assumes "(tyc, ty) \<in> set COND_TYPE_TO_STR" "(opcd, opc) \<in> set COND_OP_TO_STR"
    and "ds \<noteq> []" "list_all isdigit ds" "read_nat ds < 2 ^ 24"
    and "u \<in> set TRIGGER_VALUE_VALID_MEASUREMENTS" "word_ok tgt" "word_ok arg"
  shows "parse_trigger False False trig (trigger_line ty opc ds u ''exec'' tgt arg @ rest) =
    Inr (TRIGGER_PARSE_OK, \<lparr>val_type = tyc, op = opcd, action = TRIGGER_ACTION_EXEC,
      cond_value = Fin (of_nat (read_nat ds)), target = Ptr tgt, args = Ptr arg, value_unit = u\<rparr>, rest, False)"
proof -
  have tl: "\<forall>c \<in> set (''exec'' @ CHR '' '' # tgt @ CHR '' '' # arg). c \<noteq> CHR 0x0A \<and> c \<noteq> CHR 0x00"
    using assms(7,8) [THEN word_ok_plain] by (simp add: ball_Un)
  show ?thesis
    unfolding trigger_line_tail parse_trigger_words [OF assms(1-6) tl]
    using parse_action_exec [OF assms(7,8)] by simp
qed

section \<open>Lemmas: the table of loaded triggers\<close>

definition valid_op :: "int \<Rightarrow> bool" where "valid_op v \<longleftrightarrow> v \<in> fst ` set COND_OP_TO_STR"
definition valid_action :: "int \<Rightarrow> bool" where "valid_action v \<longleftrightarrow> v \<in> fst ` set COND_ACTION_TO_STR"

definition good_target :: "int \<Rightarrow> string ptr \<Rightarrow> bool" where
  "good_target act t \<longleftrightarrow> (case t of Ptr s \<Rightarrow> s \<noteq> [] \<and> (is_pin_action act \<longrightarrow> rpiwd_is_number s) | _ \<Rightarrow> False)"

definition wf_trigger :: "rpiwd_trigger \<Rightarrow> bool" where
  "wf_trigger t \<longleftrightarrow> valid_op (op t) \<and> valid_action (action t) \<and> good_target (action t) (target t)"

definition wf_triggers :: "trigger_state \<Rightarrow> bool" where
  "wf_triggers st \<longleftrightarrow> length (trigger_table st) = CONFIG_MAX_TRIGGERS \<and> trigger_count st \<le> CONFIG_MAX_TRIGGERS \<and>
     (\<forall>i < trigger_count st. wf_trigger (trigger_table st ! i))"

lemma parse_cond_op_ok: "parse_cond_op part = (TRIGGER_PARSE_OK, v) \<Longrightarrow> valid_op v"
  using find_code_mem [of COND_OP_TO_STR]
  by (force simp: parse_cond_op_def valid_op_def trigger_flag_defs Let_def split: option.splits if_splits)

lemma parse_cond_action_ok: "parse_cond_action part = (TRIGGER_PARSE_OK, v) \<Longrightarrow> valid_action v"
  using find_code_mem [of COND_ACTION_TO_STR]
  by (force simp: parse_cond_action_def valid_action_def trigger_flag_defs Let_def split: option.splits if_splits)

lemma parse_condition_ok:
  "parse_condition erange trig p1 save1 = (TRIGGER_PARSE_OK, trig', save3, er) \<Longrightarrow> valid_op (op trig')"
  by (auto simp: parse_condition_def Let_def dest!: parse_cond_op_ok split: prod.splits if_splits option.splits)

lemma parse_action_ok:
  assumes "parse_action oom trig save3 = (TRIGGER_PARSE_OK, trig')"
  shows "op trig' = op trig \<and> valid_action (action trig') \<and> good_target (action trig') (target trig')"
proof -
  have ne: "TRIGGER_ERROR_TARGET_MALFORMED \<noteq> TRIGGER_PARSE_OK" "TRIGGER_ERROR_OUT_OF_MEMORY \<noteq> TRIGGER_PARSE_OK"
    "TRIGGER_ERROR_TARGET_NOT_NUMERIC \<noteq> TRIGGER_PARSE_OK" "TRIGGER_ERROR_ARGUMENTS_NOT_NEEDED \<noteq> TRIGGER_PARSE_OK"
    by (simp_all add: trigger_flag_defs)
  show ?thesis
    using assms ne
    by (auto simp: parse_action_def Let_def good_target_def dest!: parse_cond_action_ok
        elim!: strtok_tokenE split: prod.splits if_splits option.splits)
qed

lemma parse_trigger_ok:
  assumes "parse_trigger oom erange trig f = Inr (TRIGGER_PARSE_OK, trig', f', er)"
  shows "wf_trigger trig'"
proof -
  have ne: "TRIGGER_PARSE_OK \<noteq> TRIGGER_ERROR_EOF" "TRIGGER_PARSE_OK \<noteq> TRIGGER_PARSE_COMMENT_LINE"
    by (simp_all add: trigger_flag_defs)
  obtain p1 save1 trig1 save3 where "parse_condition erange trig p1 save1 = (TRIGGER_PARSE_OK, trig1, save3, er)"
    "parse_action oom trig1 save3 = (TRIGGER_PARSE_OK, trig')"
    using assms ne
    by (auto simp: parse_trigger_def Let_def cbind_eq_Inr split: option.splits prod.splits if_splits)
  then show ?thesis using parse_condition_ok parse_action_ok by (metis wf_trigger_def)
qed

lemma part_flags:
  "parse_cond_type part = (flag, v) \<Longrightarrow> 100 \<le> flag" "parse_cond_op part = (flag, v) \<Longrightarrow> 100 \<le> flag"
  "parse_cond_value erange part = (flag, r) \<Longrightarrow> 100 \<le> flag" "parse_cond_value_suffix p = (flag, sfx) \<Longrightarrow> 100 \<le> flag"
  "parse_cond_action part = (flag, v) \<Longrightarrow> 100 \<le> flag"
  by (auto simp: parse_cond_type_def parse_cond_op_def parse_cond_value_def parse_cond_value_suffix_def
      parse_cond_action_def Let_def trigger_flag_defs split: option.splits if_splits prod.splits)

lemma parse_condition_flag: "parse_condition erange trig p1 save1 = (flag, r) \<Longrightarrow> 100 \<le> flag"
  by (auto simp: parse_condition_def Let_def dest: part_flags split: prod.splits if_splits)

lemma parse_action_flag: "parse_action oom trig save3 = (flag, r) \<Longrightarrow> 100 \<le> flag"
proof -
  have ge: "100 \<le> TRIGGER_ERROR_TARGET_MALFORMED" "100 \<le> TRIGGER_ERROR_OUT_OF_MEMORY" "100 \<le> TRIGGER_PARSE_OK"
    "100 \<le> TRIGGER_ERROR_TARGET_NOT_NUMERIC" "100 \<le> TRIGGER_ERROR_ARGUMENTS_NOT_NEEDED"
    by (simp_all add: trigger_flag_defs)
  assume "parse_action oom trig save3 = (flag, r)"
  then show ?thesis
    using ge by (auto simp: parse_action_def Let_def dest: part_flags split: prod.splits if_splits option.splits)
qed

lemma parse_trigger_flag: "parse_trigger oom erange trig f = Inr (flag, r) \<Longrightarrow> 100 \<le> flag"
  by (auto simp: parse_trigger_def Let_def cbind_eq_Inr
      dest: parse_condition_flag parse_action_flag split: option.splits prod.splits if_splits)
     (simp_all add: trigger_flag_defs)

lemma parse_into_flag: "parse_into st erange f = Inr (flag, r) \<Longrightarrow> 100 \<le> flag"
  by (auto simp: parse_into_def Let_def cbind_eq_Inr dest!: parse_trigger_flag split: if_splits)

lemma load_loop_flag: "load_loop st erange f = Inr (flag, st', er) \<Longrightarrow> flag = TRIGGER_ERROR_EOF"
proof (induction st erange f rule: load_loop.induct)
  case (1 st erange f)
  show ?case
  proof (cases "parse_into st erange f")
    case (Inr r)
    obtain fl st1 f1 er1 where r: "r = (fl, st1, f1, er1)" by (cases r)
    have len: "length TRIGGER_PARSE_ERROR_STR \<le> nat fl"
      using parse_into_flag [of st erange f fl] Inr r by (simp add: TRIGGER_PARSE_ERROR_STR_def)
    show ?thesis
      using "1.prems" "1.IH" [OF Inr r [symmetric] refl refl] len
      by (subst (asm) load_loop.simps) (auto simp: Inr r split: if_splits)
  qed (use "1.prems" in \<open>simp add: load_loop.simps [of st erange f]\<close>)
qed

lemma parse_into_wf:
  assumes "parse_into st erange f = Inr (flag, st', f', er)" "wf_triggers st"
  shows "trigger_count st' = trigger_count st" "wf_triggers st'"
    "flag = TRIGGER_PARSE_OK \<Longrightarrow> wf_triggers (st'\<lparr>trigger_count := trigger_count st' + 1\<rparr>)"
proof -
  from assms(1) show c: "trigger_count st' = trigger_count st"
    by (auto simp: parse_into_def Let_def cbind_eq_Inr split: if_splits)
  from assms show "wf_triggers st'"
    by (auto simp: parse_into_def Let_def cbind_eq_Inr wf_triggers_def nth_list_update split: if_splits)
  assume ok: "flag = TRIGGER_PARSE_OK"
  have "TRIGGER_PARSE_OK \<noteq> TRIGGER_ERROR_EOF" "TRIGGER_PARSE_OK \<noteq> TRIGGER_PARSE_COMMENT_LINE"
    by (simp_all add: trigger_flag_defs)
  with assms ok obtain trig where "wf_trigger trig" "trigger_count st < length (trigger_table st)"
    "st' = st\<lparr>trigger_table := (trigger_table st)[trigger_count st := trig]\<rparr>"
    by (auto simp: parse_into_def Let_def cbind_eq_Inr dest!: parse_trigger_ok split: if_splits)
  with assms(2) show "wf_triggers (st'\<lparr>trigger_count := trigger_count st' + 1\<rparr>)"
    by (auto simp: wf_triggers_def nth_list_update less_Suc_eq)
qed

lemma load_loop_wf: "load_loop st erange f = Inr (flag, st', er) \<Longrightarrow> wf_triggers st \<Longrightarrow> wf_triggers st'"
proof (induction st erange f rule: load_loop.induct)
  case (1 st erange f)
  show ?case
  proof (cases "parse_into st erange f")
    case (Inr r)
    obtain fl st1 f1 er1 where r: "r = (fl, st1, f1, er1)" by (cases r)
    note wf = parse_into_wf [OF Inr [unfolded r] "1.prems"(2)]
    note IH = "1.IH" [OF Inr r [symmetric] refl refl]
    show ?thesis
      using "1.prems"(1) wf IH
      by (subst (asm) load_loop.simps) (auto simp: Inr r split: if_splits)
  qed (use "1.prems" in \<open>simp add: load_loop.simps [of st erange f]\<close>)
qed

lemma free_triggers_length: "free_triggers n ts = Inr ts' \<Longrightarrow> length ts' = length ts"
  by (induction n ts arbitrary: ts' rule: free_triggers.induct) (auto simp: cbind_eq_Inr)

lemma unload_wf: "unload_triggers st = Inr st' \<Longrightarrow> wf_triggers st \<Longrightarrow> wf_triggers st' \<and> trigger_count st' = 0"
  by (auto simp: unload_triggers_def wf_triggers_def cbind_eq_Inr dest: free_triggers_length)

lemma load_triggers_wf:
  assumes "load_triggers fs st erange = Inr (flag, st', er)" "wf_triggers st"
  shows "wf_triggers st' \<and> (flag = TRIGGER_PARSE_OK \<or> flag = TRIGGER_ERROR_FILE_NOT_FOUND)"
proof -
  obtain st1 where st1: "wf_triggers st1"
    and r: "(case open_read fs TRIGGER_FILE_PATH of None \<Rightarrow> Inr (TRIGGER_ERROR_FILE_NOT_FOUND, st1, erange)
       | Some f \<Rightarrow> cbind (load_loop st1 erange f) (\<lambda>(flag, st2, er).
             Inr (if flag = TRIGGER_ERROR_EOF then TRIGGER_PARSE_OK else flag, st2, er))) = Inr (flag, st', er)"
    using assms by (cases "0 < trigger_count st") (auto simp: load_triggers_def cbind_eq_Inr dest: unload_wf)
  show ?thesis
    using r st1 load_loop_flag load_loop_wf
    by (auto simp: cbind_eq_Inr split: option.splits)
qed

lemma wf_triggers_init: "wf_triggers trigger_state_init"
  by (simp add: wf_triggers_def trigger_state_init_def)

lemma parse_action_args: "parse_action oom t save = (flag, t') \<Longrightarrow> is_pin_action (action t') \<Longrightarrow> args t' = args t"
  by (auto simp: parse_action_def Let_def split: prod.splits if_splits option.splits)

lemma parse_condition_args: "parse_condition er t p s = (flag, t', r) \<Longrightarrow> args t' = args t"
  by (auto simp: parse_condition_def Let_def split: prod.splits if_splits option.splits)

lemma parse_trigger_args:
  "parse_trigger oom er t f = Inr (TRIGGER_PARSE_OK, t', f', er') \<Longrightarrow> is_pin_action (action t') \<Longrightarrow> args t' = args t"
  by (auto simp: parse_trigger_def Let_def cbind_eq_Inr trigger_flag_defs
      dest!: parse_action_args parse_condition_args split: option.splits prod.splits if_splits)

lemma strstr_prefix: "strstr (p @ s) p = Some (p @ s)"
  by (cases "p @ s") (auto, metis append_eq_conv_conj)

lemma pin_line_ok:
  "parse_trigger False False t (''%temp%'' @ '' '' @ ''>'' @ '' '' @ (''25'' @ [CHR ''c'']) @ '' '' @ ''pinup 4 '' @ CHR 0x0A # []) =
   Inr (TRIGGER_PARSE_OK, t\<lparr>val_type := TRIGGER_TYPE_TEMP, op := TRIGGER_COND_MORE,
     cond_value := Fin (of_nat (read_nat ''25'')), value_unit := CHR ''c'', action := TRIGGER_ACTION_PINUP, target := Ptr ''4''\<rparr>, [], False)"
proof -
  have "parse_action False t' (''pinup 4 '' @ [CHR 0x0A]) = (TRIGGER_PARSE_OK, t'\<lparr>action := TRIGGER_ACTION_PINUP, target := Ptr ''4''\<rparr>)" for t'
    by (simp add: parse_action_def strtok_def parse_cond_action_def COND_ACTION_TO_STR_def tolower_def isupper_def code_def
        rpiwd_is_number_def isdigit_def trigger_code_defs is_pin_action_def)
  then show ?thesis
    by (subst parse_trigger_words [where tyc = TRIGGER_TYPE_TEMP and opcd = TRIGGER_COND_MORE])
       (simp_all add: COND_TYPE_TO_STR_def COND_OP_TO_STR_def isdigit_def code_def read_nat_def digit_val_def
         TRIGGER_VALUE_VALID_MEASUREMENTS_def RPIWD_TEMPERATURE_CELSIUS_def)
qed

section \<open>Properties\<close>

text \<open>C10. Round trip of a trigger line: a line made of a known value type, a known operator, a decimal
  below 2 to the 24 with a unit, \<open>exec\<close>, a program and an argument is parsed into exactly that
  trigger, whatever the slot held, and the rest of the file is left for the next call.\<close>
theorem trigger_line_roundtrip:
  assumes "(tyc, ty) \<in> set COND_TYPE_TO_STR" "(opcd, opc) \<in> set COND_OP_TO_STR"
    and "ds \<noteq> []" "list_all isdigit ds" "read_nat ds < 2 ^ 24"
    and "u \<in> set TRIGGER_VALUE_VALID_MEASUREMENTS" "word_ok tgt" "word_ok arg"
  shows "parse_trigger False False trig (trigger_line ty opc ds u ''exec'' tgt arg @ rest) =
    Inr (TRIGGER_PARSE_OK, \<lparr>val_type = tyc, op = opcd, action = TRIGGER_ACTION_EXEC,
      cond_value = Fin (of_nat (read_nat ds)), target = Ptr tgt, args = Ptr arg, value_unit = u\<rparr>, rest, False)"
  using assms by (rule parse_trigger_line)

theorem trigger_line_roundtrip_witness:
  "parse_trigger False False zero_trigger (trigger_line ''%temp%'' ''>='' ''25'' (CHR ''c'') ''exec'' ''/bin/fan'' ''on'' @ []) =
    Inr (TRIGGER_PARSE_OK, \<lparr>val_type = TRIGGER_TYPE_TEMP, op = TRIGGER_COND_BEQ, action = TRIGGER_ACTION_EXEC,
      cond_value = Fin (of_nat (read_nat ''25'')), target = Ptr ''/bin/fan'', args = Ptr ''on'', value_unit = CHR ''c''\<rparr>, [], False)"
  by (rule trigger_line_roundtrip)
     (simp_all add: COND_TYPE_TO_STR_def COND_OP_TO_STR_def isdigit_def code_def read_nat_def digit_val_def word_ok_def
       TRIGGER_VALUE_VALID_MEASUREMENTS_def RPIWD_TEMPERATURE_CELSIUS_def)

text \<open>C33. Loading keeps the table well formed: at most 16 triggers, each with a known operator and
  action and a target that is a number when the action drives a pin. A load that returns reports
  success or a missing file; it never returns one of the parse errors, because logging one indexes
  the message table with the error code, far outside it.\<close>
theorem triggers_load_wf:
  assumes "load_triggers fs st erange = Inr (flag, st', er)" "wf_triggers st"
  shows "wf_triggers st' \<and> (flag = TRIGGER_PARSE_OK \<or> flag = TRIGGER_ERROR_FILE_NOT_FOUND)"
  using assms by (rule load_triggers_wf)

text \<open>A trigger file with one line, and the table after it was loaded.\<close>

definition fan_trigger :: rpiwd_trigger where
  "fan_trigger = \<lparr>val_type = TRIGGER_TYPE_TEMP, op = TRIGGER_COND_BEQ, action = TRIGGER_ACTION_EXEC,
     cond_value = Fin 25, target = Ptr ''/bin/fan'', args = Ptr ''on'', value_unit = CHR ''c''\<rparr>"

definition fan_files :: files where
  "fan_files = \<lparr>contents = [TRIGGER_FILE_PATH \<mapsto> trigger_line ''%temp%'' ''>='' ''25'' (CHR ''c'') ''exec'' ''/bin/fan'' ''on''],
     unreadable = \<lambda>_. False, unwritable = \<lambda>_. False, space = 0\<rparr>"

lemma fan_loaded:
  "load_triggers fan_files trigger_state_init False =
   Inr (TRIGGER_PARSE_OK, trigger_state_init\<lparr>trigger_table := (trigger_table trigger_state_init)[0 := fan_trigger], trigger_count := 1\<rparr>, False)"
proof -
  let ?line = "trigger_line ''%temp%'' ''>='' ''25'' (CHR ''c'') ''exec'' ''/bin/fan'' ''on''"
  have "parse_trigger False False trig (?line @ []) = Inr (TRIGGER_PARSE_OK, fan_trigger, [], False)" for trig
    by (subst parse_trigger_line)
       (simp_all add: fan_trigger_def COND_TYPE_TO_STR_def COND_OP_TO_STR_def isdigit_def code_def read_nat_def digit_val_def word_ok_def
         TRIGGER_VALUE_VALID_MEASUREMENTS_def RPIWD_TEMPERATURE_CELSIUS_def)
  then have "parse_into trigger_state_init False ?line =
      Inr (TRIGGER_PARSE_OK, trigger_state_init\<lparr>trigger_table := (trigger_table trigger_state_init)[0 := fan_trigger]\<rparr>, [], False)"
    by (simp add: parse_into_def trigger_state_init_def trigger_flag_defs CONFIG_MAX_TRIGGERS_def)
  moreover have "parse_into st False [] = Inr (TRIGGER_ERROR_EOF, st, [], False)" for st
    by (simp add: parse_into_def parse_trigger_def getline_def)
  ultimately have "load_loop trigger_state_init False ?line = Inr (TRIGGER_ERROR_EOF,
      trigger_state_init\<lparr>trigger_table := (trigger_table trigger_state_init)[0 := fan_trigger], trigger_count := 1\<rparr>, False)"
    by (simp add: load_loop.simps [of _ _ ?line] load_loop.simps [of _ _ "[]"] trigger_flag_defs) (simp add: trigger_state_init_def)
  then show ?thesis by (simp add: load_triggers_def fan_files_def open_read_def trigger_state_init_def)
qed

theorem triggers_load_wf_witness:
  "\<exists>st. load_triggers fan_files trigger_state_init False = Inr (TRIGGER_PARSE_OK, st, False) \<and> trigger_count st = 1 \<and>
    trigger_table st ! 0 = fan_trigger \<and> wf_triggers st"
  using triggers_load_wf [OF fan_loaded wf_triggers_init] fan_loaded by (simp add: trigger_state_init_def CONFIG_MAX_TRIGGERS_def)

text \<open>The names used in the trigger file and in listings agree: an operator or action that the
  parser accepts is printed back as it was written, in lower case for actions.\<close>
theorem trigger_names_roundtrip:
  "(fst (parse_cond_op (Some s)) = TRIGGER_PARSE_OK \<longleftrightarrow> s \<in> snd ` set COND_OP_TO_STR) \<and>
   (fst (parse_cond_op (Some s)) = TRIGGER_PARSE_OK \<longrightarrow> cond_op_to_str (snd (parse_cond_op (Some s))) = s) \<and>
   (fst (parse_cond_action (Some s)) = TRIGGER_PARSE_OK \<longrightarrow>
      cond_action_to_str (snd (parse_cond_action (Some s))) = map tolower s)"
proof -
  have "s \<in> snd ` set COND_OP_TO_STR \<Longrightarrow> length s \<le> 2" using op_rows_short by force
  then show ?thesis
    using ops.known [of s] ops.str_code [of s] actions.str_code [of "map tolower s"]
    by (auto simp: parse_cond_op_def parse_cond_action_def cond_op_to_str_def cond_action_to_str_def Let_def trigger_flag_defs)
qed

theorem trigger_names_roundtrip_witness:
  "(fst (parse_cond_op (Some ''<='')) = TRIGGER_PARSE_OK \<longleftrightarrow> ''<='' \<in> snd ` set COND_OP_TO_STR) \<and>
   (fst (parse_cond_op (Some ''<='')) = TRIGGER_PARSE_OK \<longrightarrow> cond_op_to_str (snd (parse_cond_op (Some ''<=''))) = ''<='') \<and>
   (fst (parse_cond_action (Some ''<='')) = TRIGGER_PARSE_OK \<longrightarrow>
      cond_action_to_str (snd (parse_cond_action (Some ''<=''))) = map tolower ''<='')"
  by (rule trigger_names_roundtrip)

text \<open>C40. The value type is used as an index of the measurements: after a sensor reading, which fills
  cells 0 and 1 only, a condition on the temperature compares the humidity, and a condition on the
  humidity reads a cell nobody has written.\<close>
theorem trigger_reads_wrong_cell:
  assumes "valid_op (op t)" "value_unit t = RPIWD_TEMPERATURE_CELSIUS" "length m = RPIWD_MAX_MEASUREMENTS"
    and "m ! 0 = Some temp" "m ! 1 = Some humid" "m ! 2 = None"
  shows "(val_type t = TRIGGER_TYPE_TEMP \<longrightarrow>
      trigger_should_execute t m = Inr (if eval_cond (op t) humid (cond_value t) then 1 else 0, m)) \<and>
    (val_type t = TRIGGER_TYPE_HUMID \<longrightarrow> trigger_should_execute t m = Inl UninitRead)"
  using assms
  by (auto simp: trigger_should_execute_def convert_measurements_maybe_def read_cell_def valid_op_def COND_OP_TO_STR_def
      trigger_code_defs RPIWD_MAX_MEASUREMENTS_def numeral_2_eq_2)

definition sample_trigger :: rpiwd_trigger where
  "sample_trigger = zero_trigger\<lparr>val_type := 1, op := 4, cond_value := Fin 30, value_unit := CHR ''c''\<rparr>"

theorem trigger_reads_wrong_cell_witness:
  "trigger_should_execute sample_trigger (Some (Fin 20) # Some (Fin 40) # replicate 6 None)
   = Inr (0, Some (Fin 20) # Some (Fin 40) # replicate 6 None)"
  using trigger_reads_wrong_cell [of sample_trigger "Some (Fin 20) # Some (Fin 40) # replicate 6 None" "Fin 20" "Fin 40"]
  by (simp add: sample_trigger_def valid_op_def COND_OP_TO_STR_def trigger_code_defs RPIWD_TEMPERATURE_CELSIUS_def
      RPIWD_MAX_MEASUREMENTS_def numeral_2_eq_2 eval_cond_def)

text \<open>A pin trigger that ends its line with the pin number is rejected: the line break stays in
  the target token, which is then not numeric.\<close>
theorem trigger_pin_line_rejected:
  assumes "(tyc, ty) \<in> set COND_TYPE_TO_STR" "(opcd, opc) \<in> set COND_OP_TO_STR"
    and "ds \<noteq> []" "list_all isdigit ds" "read_nat ds < 2 ^ 24" "u \<in> set TRIGGER_VALUE_VALID_MEASUREMENTS"
    and "(actc, act) \<in> set COND_ACTION_TO_STR" "is_pin_action actc" "word_ok pin"
  shows "\<exists>t. parse_trigger False False trig (ty @ '' '' @ opc @ '' '' @ (ds @ [u]) @ '' '' @ (act @ CHR '' '' # pin) @ CHR 0x0A # rest) =
    Inr (TRIGGER_ERROR_TARGET_NOT_NUMERIC, t, rest, False)"
proof -
  have tl: "\<forall>c \<in> set (act @ CHR '' '' # pin). c \<noteq> CHR 0x0A \<and> c \<noteq> CHR 0x00"
    using word_ok_plain [OF word_ok_rows(3) [OF assms(7)]] word_ok_plain [OF assms(9)] by (simp add: ball_Un)
  show ?thesis
    unfolding parse_trigger_words [OF assms(1-6) tl] using parse_action_pin [OF assms(9,7,8)] by simp
qed

theorem trigger_pin_line_rejected_witness:
  "\<exists>t. parse_trigger False False zero_trigger (''%temp%'' @ '' '' @ ''>'' @ '' '' @ (''25'' @ [CHR ''c'']) @ '' '' @ (''pinup'' @ CHR '' '' # ''4'') @ CHR 0x0A # []) =
    Inr (TRIGGER_ERROR_TARGET_NOT_NUMERIC, t, [], False)"
  by (rule trigger_pin_line_rejected [where tyc = 1 and opcd = 5 and actc = 101])
     (simp_all add: COND_TYPE_TO_STR_def COND_OP_TO_STR_def COND_ACTION_TO_STR_def isdigit_def code_def read_nat_def
       digit_val_def word_ok_def is_pin_action_def trigger_code_defs TRIGGER_VALUE_VALID_MEASUREMENTS_def RPIWD_TEMPERATURE_CELSIUS_def)

text \<open>Reloading leaves stale argument pointers: a pin trigger parsed into a slot whose previous
  trigger had arguments keeps the freed pointer, and the next unload frees it again.\<close>
theorem trigger_reload_double_free:
  assumes "args old = Ptr a" "free_trigger old = Inr freed"
    and "parse_trigger oom er freed f = Inr (TRIGGER_PARSE_OK, new, f', er')" "is_pin_action (action new)"
  shows "free_trigger new = Inl DoubleFree"
proof -
  have "args freed = Dangling" using assms(1,2) by (auto simp: free_trigger_def cbind_eq_Inr)
  then show ?thesis using parse_trigger_args [OF assms(3,4)] by (simp add: free_trigger_def)
qed

theorem trigger_reload_double_free_witness:
  "free_trigger (zero_trigger\<lparr>args := Dangling, target := Dangling\<rparr>\<lparr>val_type := TRIGGER_TYPE_TEMP, op := TRIGGER_COND_MORE,
     cond_value := Fin (of_nat (read_nat ''25'')), value_unit := CHR ''c'', action := TRIGGER_ACTION_PINUP, target := Ptr ''4''\<rparr>)
   = Inl DoubleFree"
  by (rule trigger_reload_double_free [where old = "zero_trigger\<lparr>args := Ptr ''on'', target := Ptr ''/bin/fan''\<rparr>" and a = "''on''",
        OF _ _ pin_line_ok])
     (simp_all add: free_trigger_def is_pin_action_def)

text \<open>An argument that starts with \<open>%temp%\<close> and does not mention \<open>%humid%\<close> is passed on with the
  placeholder replaced by the temperature with four decimals, as long as the result fits.\<close>
theorem placeholder_at_start:
  assumes "strstr (''%temp%'' @ s) ''%humid%'' = None" "m = Some v # m'"
    and "length (show_fixed 4 v) + length s < 2000"
  shows "post_process_args (Ptr (''%temp%'' @ s)) m = Inr (1, show_fixed 4 v @ s)"
proof -
  have "strstr (''%temp%'' @ s) ''%temp%'' = Some (''%temp%'' @ s)" by (rule strstr_prefix)
  moreover have "length (show_fixed 4 v) < 2000" "length s < 2000" using assms(3) by simp_all
  ultimately show ?thesis
    using assms
    by (simp add: post_process_args_def strchr_def max_allowed_argstring_length_def VALUE_TYPE_MAPPING_def
        TRIGGER_ARG_STRING_MAX_LENGTH_def RPIWD_MEASURE_TEMPERATURE_def RPIWD_MEASURE_HUMIDITY_def Let_def read_cell_def
        replace_part_def)
qed

theorem placeholder_at_start_witness:
  "post_process_args (Ptr (''%temp%'' @ '' degrees'')) [Some (Fin 21)] = Inr (1, show_fixed 4 (Fin 21) @ '' degrees'')"
  by (rule placeholder_at_start [where m' = "[]"])
     (simp_all add: round_half_even_def show_nat.simps pad_left_def)

text \<open>Anywhere else the placeholder overruns the buffer: the length to copy is computed the wrong
  way round and becomes a huge unsigned number.\<close>
theorem placeholder_elsewhere_overflows:
  assumes "strstr arg ''%temp%'' = Some rest" "length rest < length arg" "length arg < 2035"
  shows "post_process_args (Ptr arg) m = Inl BufferOverflow"
proof -
  obtain p where "arg = p @ rest" "take (length ''%temp%'') rest = ''%temp%''" using strstr_Some [OF assms(1)] by blast
  then have "CHR ''%'' \<in> set arg" by (cases rest) auto
  then show ?thesis
    using assms
    by (simp add: post_process_args_def strchr_def max_allowed_argstring_length_def VALUE_TYPE_MAPPING_def
        TRIGGER_ARG_STRING_MAX_LENGTH_def replace_part_def)
qed

theorem placeholder_elsewhere_overflows_witness:
  "post_process_args (Ptr ''t=%temp%'') [Some (Fin 21)] = Inl BufferOverflow"
  by (rule placeholder_elsewhere_overflows [where rest = "''%temp%''"]) simp_all

end
