(* ===== verification/Logging.thy ===== *)
theory Logging
  imports Prelude
begin

text \<open>
  \<^verbatim>\<open>src/src/logging.c\<close>: where a log line goes. A line is the text after formatting; the flag of the
  module and the connection to the system log are the state.
\<close>

section \<open>Operations\<close>

definition LOG_ERR :: int where "LOG_ERR = 3"
definition LOG_WARNING :: int where "LOG_WARNING = 4"

record log_state =
  log_is_foreground :: bool
  syslog_open :: bool

definition log_state_init :: log_state where
  "log_state_init = \<lparr>log_is_foreground = False, syslog_open = False\<rparr>"

datatype log_line = ToStderr string | ToStdout string | ToSyslog int string

definition init_logging :: "bool \<Rightarrow> log_state \<Rightarrow> log_state" where
  "init_logging is_foreground st =
     (let st1 = st\<lparr>log_is_foreground := is_foreground\<rparr>
      in if \<not> log_is_foreground st1 then st1\<lparr>syslog_open := True\<rparr> else st1)"

definition quit_logging :: "log_state \<Rightarrow> log_state" where
  "quit_logging st = (if \<not> log_is_foreground st then st\<lparr>syslog_open := False\<rparr> else st)"

definition rpiwd_log :: "log_state \<Rightarrow> int \<Rightarrow> string \<Rightarrow> log_line" where
  "rpiwd_log st priority msg =
     (if log_is_foreground st then
        (if priority = LOG_ERR then ToStderr (msg @ [CHR 0x0A]) else ToStdout (msg @ [CHR 0x0A]))
      else ToSyslog priority msg)"

section \<open>Lemmas\<close>

lemma init_quit_logging [simp]: "\<not> syslog_open st \<Longrightarrow> \<not> syslog_open (quit_logging (init_logging fg st))"
  by (simp add: init_logging_def quit_logging_def Let_def)

lemma log_is_foreground_init [simp]: "log_is_foreground (init_logging fg st) = fg"
  by (simp add: init_logging_def Let_def)

end
