(* ===== verification/Daemon.thy ===== *)
theory Daemon
  imports Commands Trigger Logging
begin

text \<open>
  \<^verbatim>\<open>src/src/rpiweatherd.c\<close>: start-up, the query loop with its signals, reloading and shutting down,
  and the life of the listener thread from \<^verbatim>\<open>src/src/listener.c\<close> that the daemon starts and stops. What
  the outside decides in one round of the query loop (the pins, failing calls, the signals that arrived,
  the files on disk, whether a call that waits comes back) is the record \<open>cycle_input\<close>; for the start it is \<open>main_env\<close>.
\<close>

section \<open>The listener thread\<close>

text \<open>
  The thread, the number of workers wanted, the array of descriptors (its size), the workers running,
  the queue and the listening socket.
\<close>

record listener_handle =
  lh_thread :: "nat ptr"
  lh_num_workers :: int
  lh_workers :: "nat ptr"
  lh_running :: nat
  lh_mq_open :: bool
  lh_sock :: "int option"

definition listener_handle_init :: listener_handle where
  "listener_handle_init = \<lparr>lh_thread = Null, lh_num_workers = 0, lh_workers = Null, lh_running = 0, lh_mq_open = False, lh_sock = None\<rparr>"

text \<open>
  The thread up to its loop: an early return with a code, or the state it listens in. The number of
  workers is the one the variable holds when the thread gets there; \<open>creatable\<close> threads can be created.
\<close>

definition main_listener_start ::
  "bool \<Rightarrow> bool \<Rightarrow> nat \<Rightarrow> (string \<Rightarrow> addrinfo list option) \<Rightarrow> int \<Rightarrow> listener_handle \<Rightarrow> (int option \<times> listener_handle) c" where
  "main_listener_start oom mq_ok creatable getaddrinfo port h =
     (let n = nat (lh_num_workers h) in
      if oom \<or> lh_num_workers h < 0 then Inr (Some (- 1), h\<lparr>lh_workers := Null\<rparr>)
      else let h1 = h\<lparr>lh_workers := Ptr n\<rparr> in
      if \<not> mq_ok then Inr (Some (- 1), h1)
      else let h2 = h1\<lparr>lh_mq_open := True, lh_running := lh_running h + min n creatable\<rparr> in
      if creatable < n then Inr (Some (- 2), h2)
      else cbind (get_bound_socket getaddrinfo port) (\<lambda>sockfd.
        if sockfd = - 1 then Inr (Some (- 1), h2) else Inr (None, h2\<lparr>lh_sock := Some sockfd\<rparr>)))"

definition quit_listener_mq :: "listener_handle \<Rightarrow> listener_handle" where
  "quit_listener_mq h = h\<lparr>lh_mq_open := False\<rparr>"

text \<open>The loop over the descriptors goes up to the wanted number, whatever the size of the array.\<close>

definition listener_loop_cleanup_routine :: "listener_handle \<Rightarrow> listener_handle c" where
  "listener_loop_cleanup_routine h =
     cbind (if 0 < lh_num_workers h then load (lh_workers h) else Inr 0) (\<lambda>n.
       if int n < lh_num_workers h then Inl OutOfBounds
       else Inr (quit_listener_mq (h\<lparr>lh_running := lh_running h - nat (lh_num_workers h), lh_sock := None\<rparr>)))"

text \<open>A thread that returned early has not registered its cleanup routine.\<close>

definition quit_listener_loop :: "listener_handle \<Rightarrow> listener_handle c" where
  "quit_listener_loop h =
     cbind (load (lh_thread h)) (\<lambda>_.
     cbind (if lh_sock h \<noteq> None then listener_loop_cleanup_routine h else Inr h) (\<lambda>h1.
     cbind (free_ptr (lh_workers h1)) (\<lambda>ws. Inr (h1\<lparr>lh_thread := Dangling, lh_workers := ws\<rparr>))))"

text \<open>What the outside decides about a start of the listener.\<close>

record listener_input =
  li_thread :: "nat option" \<comment> \<open>the thread, if it can be created\<close>
  li_early :: bool \<comment> \<open>whether it reads the number of workers before that is set\<close>
  li_oom :: bool
  li_mq_ok :: bool
  li_creatable :: nat
  li_getaddrinfo :: "string \<Rightarrow> addrinfo list option"

text \<open>
  The start of the listener and the thread it creates, up to its loop; \<open>None\<close> when the process exits.
  The thread runs beside the rest of \<open>init_listener_loop\<close>, which sets the number of workers.
\<close>

definition start_listener :: "listener_input \<Rightarrow> int \<Rightarrow> int \<Rightarrow> listener_handle \<Rightarrow> listener_handle option c" where
  "start_listener li num_threads port h =
     (case init_listener_loop (li_thread li \<noteq> None) num_threads of
        None \<Rightarrow> Inr None
      | Some n \<Rightarrow>
          let h1 = h\<lparr>lh_thread := Ptr (the (li_thread li))\<rparr> in
          cbind (main_listener_start (li_oom li) (li_mq_ok li) (li_creatable li) (li_getaddrinfo li) port
                   (if li_early li then h1 else h1\<lparr>lh_num_workers := n\<rparr>)) (\<lambda>(_, h2).
            Inr (Some (h2\<lparr>lh_num_workers := n\<rparr>))))"

section \<open>State of the daemon\<close>

record 'db daemon =
  dm_files :: files
  dm_config :: config_state
  dm_device :: device_state
  dm_triggers :: trigger_state
  dm_dbh :: dbhandler
  dm_db :: 'db
  dm_listener :: listener_handle
  dm_log :: log_state
  dm_pid_fd :: int
  dm_config_path :: "string ptr"
  dm_errno :: bool
  dm_results :: measurements

definition daemon_init :: "files \<Rightarrow> 'db \<Rightarrow> 'db daemon" where
  "daemon_init fs db =
     \<lparr>dm_files = fs, dm_config = \<lparr>current_config = zero_config, unitstring = replicate RPIWD_MAX_MEASUREMENTS (CHR 0x00)\<rparr>,
      dm_device = device_state_init, dm_triggers = trigger_state_init, dm_dbh = dbhandler_init, dm_db = db,
      dm_listener = listener_handle_init, dm_log = log_state_init, dm_pid_fd = - 1, dm_config_path = Null,
      dm_errno = False, dm_results = replicate RPIWD_MAX_MEASUREMENTS None\<rparr>"

datatype event =
    Logged log_line
  | DbSend rpiwd_mqmsg
  | Triggered trig_effect
  | Sleeping "32 word" "32 word" \<comment> \<open>seconds and nanoseconds\<close>

text \<open>A process goes on or leaves with its exit code.\<close>

datatype 'd control = Goes 'd | Exits int 'd

section \<open>The query loop\<close>

definition ATTEMPT_LOG_THRESHOLD :: int where "ATTEMPT_LOG_THRESHOLD = 5"

record cycle_input =
  ci_gpio :: "nat \<Rightarrow> gpio" \<comment> \<open>the pins during the \<open>n\<close>-th query of the round\<close>
  ci_oom_entry :: bool
  ci_junk :: entry
  ci_trigger :: trigger_env
  ci_retval :: int \<comment> \<open>the indeterminate start of a local variable\<close>
  ci_hup :: bool
  ci_term :: bool
  ci_files :: files
  ci_mq_ok :: bool
  ci_db_thread :: "nat option"
  ci_listener :: listener_input
  ci_oom_config :: "nat \<Rightarrow> bool" \<comment> \<open>the settings whose copies fail at a reload\<close>
  ci_db_sends :: bool \<comment> \<open>whether \<open>mq_send\<close> to the database queue returns: it waits while that is full\<close>
  ci_db_joins :: bool \<comment> \<open>whether the cancelled database thread ends\<close>
  ci_listener_joins :: bool

text \<open>
  The \<open>switch\<close> on the code of a query: the flag, the attempts and what was done. Sending a reading waits
  for room in the queue of the database thread.
\<close>

definition on_retflag ::
  "cycle_input \<Rightarrow> log_state \<Rightarrow> rpiwd_config \<Rightarrow> int \<Rightarrow> measurements \<Rightarrow> int \<Rightarrow> (bool \<times> int \<times> event list) waits" where
  "on_retflag inp lg conf retflag results qattempts =
     (if retflag = RPIWD_DEVRETCODE_SUCCESS then
        wbind (Some (cell results 0)) (\<lambda>t.
        wbind (Some (cell results 1)) (\<lambda>h.
        wbind (Some (request_write_entry (ci_oom_entry inp) (ci_junk inp) t h (measure_location conf) (cfg_device_name conf))) (\<lambda>m.
          if ci_db_sends inp then Some (Inr (True, 0, [DbSend m])) else None)))
      else if retflag = RPIWD_DEVRETCODE_DEVICE_FAILURE \<or> retflag = RPIWD_DEVRETCODE_DATA_FAILURE
              \<or> retflag = RPIWD_DEVRETCODE_GENERAL_FAILURE then
        Some (cbind (if tmod qattempts ATTEMPT_LOG_THRESHOLD = 0 then
                 cbind (load (cfg_device_name conf)) (\<lambda>dev.
                   Inr [Logged (rpiwd_log lg LOG_WARNING (''device '' @ dev @ '' failed to query; '' @ show_int qattempts
                          @ ''/'' @ show_int CONFIG_MAX_QUERY_ATTEMPTS @ '' attempts so far.''))])
               else Inr []) (\<lambda>es. Inr (False, qattempts + 1, es)))
      else if retflag = RPIWD_DEVRETCODE_MEMORY_ERROR then
        Some (Inr (True, qattempts, [Logged (rpiwd_log lg LOG_ERR ''out of memory to perform query.'')]))
      else Some (Inr (False, qattempts,
             [Logged (rpiwd_log lg LOG_ERR (''error code '' @ show_int retflag @ '' encountered while querying.''))])))"

text \<open>A query and the \<open>switch\<close> on its code.\<close>

definition query_step ::
  "cycle_input \<Rightarrow> log_state \<Rightarrow> rpiwd_config \<Rightarrow> device_state \<Rightarrow> nat \<Rightarrow> int \<Rightarrow> measurements \<Rightarrow>
   (bool \<times> int \<times> measurements \<times> event list) waits" where
  "query_step inp lg conf dev k qattempts results =
     wbind (Some (device_query_current dev (ci_gpio inp k) (Some results))) (\<lambda>(retflag, arr).
     wbind (Some (deref arr)) (\<lambda>results'.
     wbind (on_retflag inp lg conf retflag results' qattempts) (\<lambda>(ok, q, es). Some (Inr (ok, q, results', es)))))"

text \<open>
  The inner loop. It counts only some failures, so it may run forever, and it may wait forever for the
  database queue: not returning is \<open>None\<close>. \<open>k\<close> numbers the queries; the result is the flag, the measurements and the events.
\<close>

partial_function (option) query_round ::
  "cycle_input \<Rightarrow> log_state \<Rightarrow> rpiwd_config \<Rightarrow> device_state \<Rightarrow> nat \<Rightarrow> bool \<Rightarrow> int \<Rightarrow> measurements \<Rightarrow> event list \<Rightarrow>
   (bool \<times> measurements \<times> event list) waits" where
  "query_round inp lg conf dev k ok_flag qattempts results es =
     (if \<not> ok_flag \<and> qattempts < CONFIG_MAX_QUERY_ATTEMPTS then
        (case query_step inp lg conf dev k qattempts results of
           None \<Rightarrow> None
         | Some (Inl u) \<Rightarrow> Some (Inl u)
         | Some (Inr (ok, q, results', es')) \<Rightarrow> query_round inp lg conf dev (k + 1) ok q results' (es @ es'))
      else Some (Inr (ok_flag, results, es)))"

text \<open>Reloading after SIGHUP. Each thread is cancelled and joined.\<close>

definition joined :: "bool \<Rightarrow> 'a c \<Rightarrow> 'a waits" where
  "joined ends m = wbind (Some m) (\<lambda>x. if ends then Some (Inr x) else None)"

definition reload_all :: "'db sqlite \<Rightarrow> cycle_input \<Rightarrow> 'db daemon \<Rightarrow> 'db daemon control waits" where
  "reload_all sq inp d =
     wbind (joined (ci_db_joins inp) (quit_dbhandler (dm_dbh d))) (\<lambda>h.
     wbind (joined (ci_listener_joins inp) (quit_listener_loop (dm_listener d))) (\<lambda>l.
     Some (cbind (unload_triggers (dm_triggers d)) (\<lambda>ts.
       (case init_dbhandler sq (ci_mq_ok inp) (ci_db_thread inp) (dm_db d) h of (_, db, h') \<Rightarrow>
     cbind (free_current_config (dm_config d)) (\<lambda>c.
     cbind (load (dm_config_path d)) (\<lambda>path.
       (case init_current_config (ci_oom_config inp) (ci_files inp) path c (dm_errno d) of (_, c', er) \<Rightarrow>
       let d' = d\<lparr>dm_files := ci_files inp, dm_dbh := h', dm_db := db, dm_triggers := ts, dm_config := c', dm_errno := er\<rparr> in
       cbind (start_listener (ci_listener inp) (num_worker_threads (get_current_config c')) (comm_port (get_current_config c')) l) (\<lambda>li.
         case li of
           None \<Rightarrow> Inr (Exits 1 (d'\<lparr>dm_listener := l\<rparr>))
         | Some l' \<Rightarrow> Inr (Goes (d'\<lparr>dm_listener := l'\<rparr>)))))))))))"

definition remove_file :: "files \<Rightarrow> string \<Rightarrow> files" where
  "remove_file fs fname = fs\<lparr>contents := (contents fs)(fname := None)\<rparr>"

definition quit_routine :: "cycle_input \<Rightarrow> 'db daemon \<Rightarrow> 'db daemon waits" where
  "quit_routine inp d =
     wbind (joined (ci_db_joins inp) (quit_dbhandler (dm_dbh d))) (\<lambda>h.
     wbind (joined (ci_listener_joins inp) (quit_listener_loop (dm_listener d))) (\<lambda>l.
     Some (cbind (unload_triggers (dm_triggers d)) (\<lambda>ts.
     cbind (free_current_config (dm_config d)) (\<lambda>c.
     cbind (free_ptr (dm_config_path d)) (\<lambda>path.
       Inr (d\<lparr>dm_log := quit_logging (dm_log d), dm_dbh := h, dm_listener := l, dm_triggers := ts, dm_config := c,
              dm_config_path := path,
              dm_files := (if dm_pid_fd d \<noteq> - 1 then remove_file (dm_files d) PID_FILE else dm_files d)\<rparr>)))))))"

text \<open>What follows the queries: the triggers, then the sleep for the configured interval.\<close>

definition run_and_sleep :: "cycle_input \<Rightarrow> bool \<Rightarrow> measurements \<Rightarrow> 'db daemon \<Rightarrow> ('db daemon \<times> event list) waits" where
  "run_and_sleep inp ok_flag results d =
     wbind (if ok_flag then
              wbind (trigger_exec_callback (ci_trigger inp) (dm_triggers d) (dm_errno d) results (ci_retval inp))
                (\<lambda>(_, es, ts, m, er). Some (Inr (d\<lparr>dm_triggers := ts, dm_results := m, dm_errno := er\<rparr>, map Triggered es)))
            else Some (Inr (d\<lparr>dm_results := results\<rparr>, []))) (\<lambda>(d1, es).
     Some (cbind (load (query_interval (get_current_config (dm_config d1)))) (\<lambda>iv.
     cbind (rpiwd_units_to_milliseconds (dm_errno d1) iv) (\<lambda>(ms, er).
       case rpiwd_sleep ms of (s, ns) \<Rightarrow> Inr (d1\<lparr>dm_errno := er\<rparr>, es @ [Sleeping s ns])))))"

text \<open>The check for signals after the sleep.\<close>

definition on_wakeup :: "'db sqlite \<Rightarrow> cycle_input \<Rightarrow> 'db daemon \<Rightarrow> 'db daemon control waits" where
  "on_wakeup sq inp d =
     (if ci_hup inp then reload_all sq inp d
      else if ci_term inp then wbind (quit_routine inp d) (\<lambda>d'. Some (Inr (Exits 0 d')))
      else Some (Inr (Goes d)))"

text \<open>One round of the query loop.\<close>

definition query_cycle ::
  "'db sqlite \<Rightarrow> cycle_input \<Rightarrow> 'db daemon \<Rightarrow> ('db daemon control \<times> event list) waits" where
  "query_cycle sq inp d =
     wbind (query_round inp (dm_log d) (get_current_config (dm_config d)) (dm_device d) 0 False 0 (dm_results d) []) (\<lambda>(ok_flag, results, es).
     wbind (run_and_sleep inp ok_flag results d) (\<lambda>(d1, es').
     wbind (on_wakeup sq inp d1) (\<lambda>c. Some (Inr (c, es @ es')))))"

text \<open>The loop, for as many rounds as the outside has inputs for.\<close>

fun query_loop ::
  "'db sqlite \<Rightarrow> cycle_input list \<Rightarrow> 'db daemon \<Rightarrow> ('db daemon control \<times> event list) waits" where
  "query_loop sq [] d = Some (Inr (Goes d, []))"
| "query_loop sq (inp # inps) d =
     wbind (query_cycle sq inp d) (\<lambda>(c, es).
       case c of
         Exits rc d' \<Rightarrow> Some (Inr (c, es))
       | Goes d' \<Rightarrow> wbind (query_loop sq inps d') (\<lambda>(c', es'). Some (Inr (c', es @ es'))))"

section \<open>Options\<close>

definition CONFIG_FILE_DEFAULT_FOLDER :: string where "CONFIG_FILE_DEFAULT_FOLDER = ''/etc/rpiweatherd''"

definition newline :: string where "newline = [CHR 0x0A]"

definition ASCII_TITLE :: "string \<Rightarrow> string" where
  "ASCII_TITLE v = ''rpiweatherd, version '' @ v @ newline @ ''Copyright (C) 2016-2017 Ronen Lapushner.'' @ newline @ newline
     @ ''License GPLv3+: GNU GPL version 3 or later '' @ ''<http://gnu.org/licenses/gpl.html>'' @ newline"

text \<open>The title has room for the version only; the build date is an argument that is not printed.\<close>

definition version :: "string \<Rightarrow> string option \<Rightarrow> string" where
  "version v build_date = ASCII_TITLE v"

definition help_row :: "string \<Rightarrow> string \<Rightarrow> string \<Rightarrow> string" where
  "help_row long short descr = pad_right 16 (newline @ long) @ pad_right 15 short @ pad_right 50 descr"

definition help_text :: string where
  "help_text = newline @ ''Usage: rpiweatherd [ -v | -h | -l | -g | -c PATH]'' @ newline
     @ help_row ''--config'' (pad_right 5 ''-c'' @ pad_right 10 ''[path]'') ''Use a different configuration file''
     @ help_row ''--genconfig'' ''-g'' ''Generate a default configuration file''
     @ help_row ''--listdevices'' ''-l'' ''List all supported sensor devices''
     @ help_row ''--foreground'' ''-f'' ''Run in foreground (do not daemonize)''
     @ help_row ''--version'' ''-v'' ''Show version information and exit''
     @ help_row ''--help'' ''-h'' (''Show help string and exit'' @ newline) @ newline"

definition EXIT_SUCCESS :: int where "EXIT_SUCCESS = 0"
definition EXIT_FAILURE :: int where "EXIT_FAILURE = 1"

text \<open>The table of long options and the short ones, as \<open>getopt_long\<close> gets them.\<close>

definition rpiwd_long_options :: "(string \<times> bool \<times> char) list" where
  "rpiwd_long_options = [(''config'', True, CHR ''c''), (''genconfig'', False, CHR ''g''), (''listdevices'', False, CHR ''l''),
     (''foreground'', False, CHR ''f''), (''listtriggers'', False, CHR ''t''), (''version'', False, CHR ''v''),
     (''help'', False, CHR ''h'')]"

record main_env =
  me_argv0 :: string
  me_opts :: "(char \<times> string option) list" \<comment> \<open>what \<open>getopt_long\<close> returns, with \<open>optarg\<close>\<close>
  me_answer :: "char option" \<comment> \<open>the character read by \<open>scanf\<close>\<close>
  me_gpio :: gpio
  me_daemon_ok :: bool
  me_pid_fd :: int
  me_pid :: nat
  me_mq_ok :: bool
  me_db_thread :: "nat option"
  me_listener :: listener_input
  me_oom_config :: "nat \<Rightarrow> bool" \<comment> \<open>the settings whose copies fail\<close>

text \<open>\<open>-g\<close>: the text shown, the exit code and the files.\<close>

definition option_g :: "char option \<Rightarrow> files \<Rightarrow> string \<times> int \<times> files" where
  "option_g answer fs =
     (let exists = rpiwd_file_exists fs CONFIG_FILE_DEFAULT_LOCATION;
          ask = (if exists then newline @ ''A configuration file is already present at '' @ [CHR 0x27] @ CONFIG_FILE_DEFAULT_FOLDER
                   @ [CHR 0x27] @ ''.'' @ newline @ ''Remove it and replace it with a blank file? (y/n) '' else [])
      in if exists \<and> answer \<noteq> Some (CHR ''y'') \<and> answer \<noteq> Some (CHR ''Y'') then (ask, EXIT_SUCCESS, fs)
         else (case generate_blank_config (if exists then remove_file fs CONFIG_FILE_DEFAULT_LOCATION else fs) CONFIG_FILE_DEFAULT_LOCATION of
                 (status, fs') \<Rightarrow>
                   (ask @ (if status = - 1 then newline @ ''configuration error''
                           else newline @ ''Config file generated at '' @ CONFIG_FILE_DEFAULT_LOCATION @ ''.'' @ newline
                                  @ ''NOTE: Please configure it before use!'' @ newline), EXIT_SUCCESS, fs')))"

text \<open>
  The option loop: it leaves with text, code and files, or goes on with the path and the foreground flag.
  The path of an earlier \<open>-c\<close> is not freed.
\<close>

datatype option_exit = OptionsExit string int files | OptionsDone "string ptr" bool

fun main_options ::
  "char option \<Rightarrow> files \<Rightarrow> (char \<times> string option) list \<Rightarrow> string ptr \<Rightarrow> bool \<Rightarrow> option_exit c" where
  "main_options answer fs [] cpath fg = Inr (OptionsDone cpath fg)"
| "main_options answer fs ((opt, optarg) # opts) cpath fg =
     (if opt = CHR ''c'' then
        (case optarg of
           Some a \<Rightarrow> main_options answer fs opts (Ptr a) fg
         | None \<Rightarrow> Inr (OptionsExit (''error: Missing path to configuration file.'' @ newline) EXIT_FAILURE fs))
      else if opt = CHR ''v'' then Inr (OptionsExit [] EXIT_SUCCESS fs)
      else if opt = CHR ''g'' then (case option_g answer fs of (t, rc, fs') \<Rightarrow> Inr (OptionsExit t rc fs'))
      else if opt = CHR ''f'' then main_options answer fs opts cpath True
      else if opt = CHR ''t'' then
        cbind (list_triggers fs trigger_state_init False) (\<lambda>(t, _). Inr (OptionsExit t EXIT_SUCCESS fs))
      else if opt = CHR ''l'' then Inr (OptionsExit (print_supported_device_names supported_devices) EXIT_SUCCESS fs)
      else if opt = CHR ''h'' then Inr (OptionsExit help_text EXIT_SUCCESS fs)
      else Inr (OptionsExit (''Unknown option '' @ [CHR 0x27, opt, CHR 0x27] @ ''.'' @ newline) EXIT_FAILURE fs))"

section \<open>Start-up\<close>

text \<open>
  The checks before the process detaches. Each failing one prints its message and ends the process.
\<close>

definition main_checks :: "main_env \<Rightarrow> string \<Rightarrow> bool \<Rightarrow> 'db daemon \<Rightarrow> ('db daemon control \<times> string) c" where
  "main_checks env cpath fg d =
     (case init_current_config (me_oom_config env) (dm_files d) cpath (dm_config d) (dm_errno d) of (flag, c, er) \<Rightarrow>
      let d1 = d\<lparr>dm_log := init_logging fg (dm_log d), dm_config_path := Ptr cpath, dm_config := c, dm_errno := er\<rparr>;
          conf = get_current_config c
      in if flag \<noteq> 0 then
           Inr (Exits EXIT_FAILURE d1, me_argv0 env @ '': errors in configuration file '' @ cpath @ ''.'' @ newline)
         else cbind (config_has_errors conf) (\<lambda>errors.
           if 0 < errors then
             Inr (Exits EXIT_FAILURE d1, me_argv0 env @ '': error: Configuration errors encountered.'' @ newline)
           else cbind (load_triggers (dm_files d1) (dm_triggers d1) er) (\<lambda>(lflag, ts, er2).
             let d2 = d1\<lparr>dm_triggers := ts, dm_errno := er2\<rparr> in
             if lflag \<noteq> TRIGGER_PARSE_OK then
               Inr (Exits EXIT_FAILURE d2, me_argv0 env @ '': error: could not load trigger file.'')
             else if pid_file_exists (dm_files d2) then
               Inr (Exits EXIT_FAILURE d2, newline @ ''Error: Pid file found at '' @ PID_FILE @ ''.'' @ newline
                 @ ''Either a rpiweatherd instance is running, or that file is empty.'' @ newline)
             else cbind (load (cfg_device_name conf)) (\<lambda>dev.
               cbind (device_init_by_name (dm_device d2) (Some dev) (device_config conf)) (\<lambda>(dflag, ds).
                 let d3 = d2\<lparr>dm_device := ds\<rparr> in
                 if dflag \<noteq> RETCODE_DEVICE_INIT_OK then
                   Inr (Exits EXIT_FAILURE d3, me_argv0 env @ '': error: Could not initialize device '' @ [CHR 0x22] @ dev
                     @ [CHR 0x22] @ ''. Please '' @ ''check configuration file.'' @ newline)
                 else cbind (device_test_current ds (me_gpio env)) (\<lambda>ok.
                   if \<not> ok then
                     cbind (deref (get_current_device ds)) (\<lambda>cur.
                       Inr (Exits EXIT_FAILURE d3, me_argv0 env @ '': error: Device '' @ [CHR 0x22] @ dev @ [CHR 0x22]
                         @ '' at data pin '' @ show_int (pin_data cur) @ '' failed self-testing.'' @ newline))
                   else Inr (Goes d3, [])))))))"

text \<open>From detaching to the start of the threads; \<open>quit_dbhandler\<close> is called on a handler that failed to start.\<close>

definition main_start :: "main_env \<Rightarrow> 'db sqlite \<Rightarrow> bool \<Rightarrow> 'db daemon \<Rightarrow> ('db daemon control \<times> string) c" where
  "main_start env sq fg d =
     (if \<not> fg \<and> \<not> me_daemon_ok env then
        Inr (Exits EXIT_FAILURE d, me_argv0 env @ '': error: failed to make into daemon.'')
      else case write_pid_file (me_pid_fd env) (me_pid env) (dm_files d) of (pid_fd, fs) \<Rightarrow>
        (case init_dbhandler sq (me_mq_ok env) (me_db_thread env) (dm_db d) (dm_dbh d) of (flag, db, h) \<Rightarrow>
         let d1 = d\<lparr>dm_pid_fd := pid_fd, dm_files := fs, dm_db := db, dm_dbh := h\<rparr> in
         if flag = - 1 then cbind (quit_dbhandler h) (\<lambda>h'. Inr (Exits EXIT_FAILURE (d1\<lparr>dm_dbh := h'\<rparr>), []))
         else cbind (start_listener (me_listener env) (num_worker_threads (get_current_config (dm_config d1)))
                       (comm_port (get_current_config (dm_config d1))) (dm_listener d1)) (\<lambda>li.
                case li of
                  None \<Rightarrow> Inr (Exits EXIT_FAILURE d1, [])
                | Some l \<Rightarrow> Inr (Goes (d1\<lparr>dm_listener := l\<rparr>), []))))"

definition start_up :: "main_env \<Rightarrow> 'db sqlite \<Rightarrow> files \<Rightarrow> 'db \<Rightarrow> ('db daemon control \<times> string) c" where
  "start_up env sq fs db =
     cbind (main_options (me_answer env) fs (me_opts env) Null False) (\<lambda>opts.
       case opts of
         OptionsExit t rc fs' \<Rightarrow> Inr (Exits rc (daemon_init fs' db), t)
       | OptionsDone p fg \<Rightarrow>
           cbind (if p = Null then Inr CONFIG_FILE_DEFAULT_LOCATION else load p) (\<lambda>cpath.
           cbind (main_checks env cpath fg (daemon_init fs db)) (\<lambda>(c, t).
             case c of
               Exits rc d \<Rightarrow> Inr (c, t)
             | Goes d \<Rightarrow> main_start env sq fg d)))"

text \<open>The whole of \<open>main\<close>: the start, then the query loop.\<close>

definition main ::
  "main_env \<Rightarrow> 'db sqlite \<Rightarrow> files \<Rightarrow> 'db \<Rightarrow> cycle_input list \<Rightarrow> ('db daemon control \<times> event list) waits" where
  "main env sq fs db inps =
     wbind (Some (start_up env sq fs db)) (\<lambda>(c, _).
       case c of Exits rc d \<Rightarrow> Some (Inr (c, [])) | Goes d \<Rightarrow> query_loop sq inps d)"

section \<open>Lemmas: a round of queries\<close>

text \<open>The warnings of the first \<open>k\<close> failed queries: one for every fifth.\<close>

definition warning :: "log_state \<Rightarrow> string \<Rightarrow> nat \<Rightarrow> event list" where
  "warning lg dev i =
     (if i mod 5 = 0 then [Logged (rpiwd_log lg LOG_WARNING (''device '' @ dev @ '' failed to query; '' @ show_int (int i)
          @ ''/64 attempts so far.''))] else [])"

definition warnings :: "log_state \<Rightarrow> string \<Rightarrow> nat \<Rightarrow> event list" where
  "warnings lg dev k = concat (map (warning lg dev) [0..<k])"

lemma show_64: "show_int 64 = ''64''"
  by (simp add: show_int_def show_nat.simps digit_char_def)

lemma failure_warned:
  assumes "cfg_device_name conf = Ptr dev"
  shows "on_retflag inp lg conf RPIWD_DEVRETCODE_DATA_FAILURE results (int i) = Some (Inr (False, int (Suc i), warning lg dev i))"
proof -
  have "tmod (int i) 5 = int (i mod 5)" by (simp add: tmod_nonneg zmod_int)
  then show ?thesis
    using assms by (simp add: on_retflag_def devretcode_defs warning_def ATTEMPT_LOG_THRESHOLD_def CONFIG_MAX_QUERY_ATTEMPTS_def show_64)
qed

abbreviation dht11_fails :: "cycle_input \<Rightarrow> int \<Rightarrow> measurements \<Rightarrow> nat \<Rightarrow> bool" where
  "dht11_fails inp pin cells i \<equiv>
     dht11_query_callback (ci_gpio inp i) pin (Some cells) = Inr (RPIWD_DEVRETCODE_DATA_FAILURE, Some cells)"

lemma dht11_current: "uses_dht11 dev pin \<Longrightarrow> device_query_current dev g arr = dht11_query_callback g pin arr"
  using query_dht11 by (auto simp: uses_dht11_def)

lemma round_skips_failures:
  assumes "uses_dht11 ds pin" "cfg_device_name conf = Ptr dev" "k \<le> 64" "\<And>i. i < k \<Longrightarrow> dht11_fails inp pin cells i"
  shows "query_round inp lg conf ds 0 False 0 cells es = query_round inp lg conf ds k False (int k) cells (es @ warnings lg dev k)"
  using assms(3,4)
proof (induction k)
  case (Suc k)
  have "query_round inp lg conf ds k False (int k) cells (es @ warnings lg dev k) =
      query_round inp lg conf ds (Suc k) False (int (Suc k)) cells (es @ warnings lg dev (Suc k))"
    using Suc.prems
    by (subst query_round.simps)
       (simp add: query_step_def dht11_current [OF assms(1)] failure_warned [OF assms(2)] CONFIG_MAX_QUERY_ATTEMPTS_def warnings_def)
  with Suc show ?case by simp
qed (simp add: warnings_def)

text \<open>The message for a reading.\<close>

definition measurement_msg :: "entry \<Rightarrow> fp \<Rightarrow> fp \<Rightarrow> string \<Rightarrow> string \<Rightarrow> rpiwd_mqmsg" where
  "measurement_msg junk t h loc dev =
     uninit_mqmsg\<lparr>mtype := Some DB_MSGTYPE_WRITEENTRY, sockfd := Some DB_MSG_NO_SOCKFD,
       data := EntryData (Some (junk\<lparr>record_date := None, temperature := t, humidity := h, location := Some loc, device_name := Some dev\<rparr>))\<rparr>"

lemma success_sent:
  assumes "cfg_device_name conf = Ptr dev" "measure_location conf = Ptr loc" "\<not> ci_oom_entry inp"
  shows "on_retflag inp lg conf RPIWD_DEVRETCODE_SUCCESS (Some t # Some h # rest) q =
    (if ci_db_sends inp then Some (Inr (True, 0, [DbSend (measurement_msg (ci_junk inp) t h loc dev)])) else None)"
  using assms by (simp add: on_retflag_def cell_def request_write_entry_def entry_alloc_def measurement_msg_def)

text \<open>A round that gets a reading after \<open>k\<close> failed queries sends it, unless the queue of the database stays full.\<close>

lemma round_reads_or_waits:
  assumes "uses_dht11 ds pin" "cfg_device_name conf = Ptr dev" "measure_location conf = Ptr loc" "\<not> ci_oom_entry inp"
    and "k < 64" "\<And>i. i < k \<Longrightarrow> dht11_fails inp pin cells i"
    and "dht11_query_callback (ci_gpio inp k) pin (Some cells) = Inr (RPIWD_DEVRETCODE_SUCCESS, Some (Some t # Some h # rest))"
  shows "query_round inp lg conf ds 0 False 0 cells [] = (if ci_db_sends inp then
    Some (Inr (True, Some t # Some h # rest, warnings lg dev k @ [DbSend (measurement_msg (ci_junk inp) t h loc dev)])) else None)"
proof -
  have "query_round inp lg conf ds k False (int k) cells es = (if ci_db_sends inp then
      Some (Inr (True, Some t # Some h # rest, es @ [DbSend (measurement_msg (ci_junk inp) t h loc dev)])) else None)" for es
    using assms(5,7)
    by (subst query_round.simps)
       (simp add: query_step_def dht11_current [OF assms(1)] success_sent [OF assms(2-4)] CONFIG_MAX_QUERY_ATTEMPTS_def query_round.simps [of _ _ _ _ _ True])
  then show ?thesis
    using round_skips_failures [OF assms(1,2), of k inp cells lg "[]"] assms(5,6) by simp
qed

lemmas round_reads = round_reads_or_waits [THEN trans, OF _ _ _ _ _ _ _ if_P]

lemma round_gives_up:
  assumes "uses_dht11 ds pin" "cfg_device_name conf = Ptr dev" "\<And>i. i < 64 \<Longrightarrow> dht11_fails inp pin cells i"
  shows "query_round inp lg conf ds 0 False 0 cells [] = Some (Inr (False, cells, warnings lg dev 64))"
  using round_skips_failures [OF assms(1,2), of 64 inp cells lg "[]"] assms(3)
  by (simp add: query_round.simps [of inp lg conf ds 64 False 64] CONFIG_MAX_QUERY_ATTEMPTS_def)

text \<open>
  With the sensor of the table every failure is counted, so a round ends whatever the pins do, once the
  queue of the database takes its reading.
\<close>

lemma step_returns:
  assumes "uses_dht11 ds pin" "2 \<le> length cells" "0 \<le> q" "ci_db_sends inp"
  shows "(\<exists>u. query_step inp lg conf ds k q cells = Some (Inl u)) \<or>
    (\<exists>ok q' cells' es. query_step inp lg conf ds k q cells = Some (Inr (ok, q', cells', es)) \<and>
       length cells' = length cells \<and> (ok \<or> q' = q + 1) \<and> 0 \<le> q')"
proof (cases "dht11_query_callback (ci_gpio inp k) pin (Some cells)")
  case (Inl u)
  then show ?thesis by (simp add: query_step_def dht11_current [OF assms(1)])
next
  case (Inr p)
  then obtain ret out where p: "dht11_query_callback (ci_gpio inp k) pin (Some cells) = Inr (ret, out)" by (cases p) auto
  obtain cells' where c: "out = Some cells'" "length cells' = length cells" using dht11.keeps_length [OF assms(2) p] by auto
  have "query_step inp lg conf ds k q cells = wbind (on_retflag inp lg conf ret cells' q) (\<lambda>(ok, q, es). Some (Inr (ok, q, cells', es)))"
    using p c by (simp add: query_step_def dht11_current [OF assms(1)])
  moreover have "(\<exists>u. on_retflag inp lg conf ret cells' q = Some (Inl u)) \<or>
      (\<exists>ok q' es. on_retflag inp lg conf ret cells' q = Some (Inr (ok, q', es)) \<and> (ok \<or> q' = q + 1) \<and> 0 \<le> q')"
    using dht11.codes [OF assms(2) p] assms(3,4)
    by (auto simp: on_retflag_def devretcode_defs wbind_def cbind_def split: sum.split)
  ultimately show ?thesis using c(2) by auto
qed

lemma round_returns:
  assumes "uses_dht11 ds pin" "2 \<le> length cells" "0 \<le> q" "ci_db_sends inp"
  shows "\<exists>r. query_round inp lg conf ds k ok q cells es = Some r \<and> (\<forall>ok' m es'. r = Inr (ok', m, es') \<longrightarrow> length m = length cells)"
  using assms(2,3)
proof (induction "if ok then 0 else Suc (nat (CONFIG_MAX_QUERY_ATTEMPTS - q))" arbitrary: k ok q cells es rule: less_induct)
  case less
  show ?case
  proof (cases "\<not> ok \<and> q < CONFIG_MAX_QUERY_ATTEMPTS")
    case False
    then show ?thesis using less.prems by (subst query_round.simps) auto
  next
    case True
    from step_returns [OF assms(1) less.prems assms(4), of lg conf k] show ?thesis
    proof (elim disjE exE)
      fix u assume "query_step inp lg conf ds k q cells = Some (Inl u)"
      then show ?thesis using True by (subst query_round.simps) simp
    next
      fix ok' q' cells' es'
      assume *: "query_step inp lg conf ds k q cells = Some (Inr (ok', q', cells', es')) \<and>
        length cells' = length cells \<and> (ok' \<or> q' = q + 1) \<and> 0 \<le> q'"
      then have st: "query_step inp lg conf ds k q cells = Some (Inr (ok', q', cells', es'))" "length cells' = length cells" "ok' \<or> q' = q + 1" "0 \<le> q'"
        by blast+
      have "\<exists>r. query_round inp lg conf ds (k + 1) ok' q' cells' (es @ es') = Some r \<and> (\<forall>ok' m es'. r = Inr (ok', m, es') \<longrightarrow> length m = length cells')"
        using True st less.prems(1) by (intro less.hyps) auto
      moreover have "query_round inp lg conf ds k ok q cells es = query_round inp lg conf ds (k + 1) ok' q' cells' (es @ es')"
        using True st(1) by (subst query_round.simps) simp
      ultimately show ?thesis using st(2) by simp
    qed
  qed
qed

text \<open>A code the \<open>switch\<close> does not count keeps the loop going.\<close>

lemma round_spins:
  assumes "\<And>k. device_query_current ds (ci_gpio inp k) (Some cells) = Inr (RPIWD_DEVRETCODE_UNIT_ERROR, Some cells)"
  shows "query_round inp lg conf ds k False 0 cells es = None"
proof (rule ccontr)
  assume "query_round inp lg conf ds k False 0 cells es \<noteq> None"
  then obtain y where y: "query_round inp lg conf ds k False 0 cells es = Some y" by blast
  have st: "\<exists>es. query_step inp lg conf ds k 0 cells = Some (Inr (False, 0, cells, es))" for lg conf k
    using assms by (simp add: query_step_def on_retflag_def devretcode_defs)
  define P :: "cycle_input \<Rightarrow> log_state \<Rightarrow> rpiwd_config \<Rightarrow> device_state \<Rightarrow> nat \<Rightarrow> bool \<Rightarrow> int \<Rightarrow> measurements \<Rightarrow>
      event list \<Rightarrow> (bool \<times> measurements \<times> event list) c \<Rightarrow> bool"
    where "P = (\<lambda>inp' _ _ ds' _ ok q c _ _. inp' \<noteq> inp \<or> ds' \<noteq> ds \<or> ok \<or> q \<noteq> 0 \<or> c \<noteq> cells)"
  have "P inp lg conf ds k False 0 cells es y"
  proof (rule query_round.raw_induct [OF _ y])
    show "P inp' lg' conf' ds' k' ok q c es' y'"
      if ih: "\<And>inp lg conf ds k ok q c es y. qr inp lg conf ds k ok q c es = Some y \<Longrightarrow> P inp lg conf ds k ok q c es y"
        and eq: "(if \<not> ok \<and> q < CONFIG_MAX_QUERY_ATTEMPTS then
          (case query_step inp' lg' conf' ds' k' q c of
             None \<Rightarrow> None
           | Some (Inl u) \<Rightarrow> Some (Inl u)
           | Some (Inr (ok, q, results', es'')) \<Rightarrow> qr inp' lg' conf' ds' (k' + 1) ok q results' (es' @ es''))
          else Some (Inr (ok, c, es'))) = Some y'"
      for qr inp' lg' conf' ds' k' ok q c es' y'
    proof (rule ccontr)
      assume "\<not> P inp' lg' conf' ds' k' ok q c es' y'"
      then obtain es'' where "qr inp lg' conf' ds (k' + 1) False 0 cells es'' = Some y'"
        using eq st [of lg' conf' k'] by (auto simp: P_def CONFIG_MAX_QUERY_ATTEMPTS_def)
      then have "P inp lg' conf' ds (k' + 1) False 0 cells es'' y'" by (rule ih)
      then show False by (simp add: P_def)
    qed
  qed
  then show False by (simp add: P_def)
qed

text \<open>Every message to the database is a request to write an entry.\<close>

definition measured :: "cycle_input \<Rightarrow> rpiwd_config \<Rightarrow> event list \<Rightarrow> bool" where
  "measured inp conf es \<longleftrightarrow> (\<forall>m. DbSend m \<in> set es \<longrightarrow>
     (\<exists>t h. request_write_entry (ci_oom_entry inp) (ci_junk inp) t h (measure_location conf) (cfg_device_name conf) = Inr m))"

lemma measured_append: "measured inp conf (es @ es') \<longleftrightarrow> measured inp conf es \<and> measured inp conf es'"
  by (auto simp: measured_def)

lemma on_retflag_measured: "on_retflag inp lg conf r m q = Some (Inr (ok, q', es)) \<Longrightarrow> measured inp conf es"
  unfolding measured_def on_retflag_def
  by (clarsimp simp: cbind_eq_Inr wbind_eq_Inr split: if_split_asm) blast

lemma step_measured: "query_step inp lg conf ds k q cells = Some (Inr (ok, q', cells', es)) \<Longrightarrow> measured inp conf es"
  by (auto simp: query_step_def wbind_eq_Inr dest: on_retflag_measured)

lemma round_measured:
  assumes "query_round inp lg conf ds k ok q cells es = Some r" "measured inp conf es"
  shows "\<forall>ok' m es'. r = Inr (ok', m, es') \<longrightarrow> measured inp conf es'"
proof -
  define P where "P = (\<lambda>(inp :: cycle_input) (lg :: log_state) conf (ds :: device_state) (k :: nat) (ok :: bool) (q :: int) (c :: measurements) es
      (r :: (bool \<times> measurements \<times> event list) c).
    measured inp conf es \<longrightarrow> (\<forall>ok' m es'. r = Inr (ok', m, es') \<longrightarrow> measured inp conf es'))"
  have "P inp lg conf ds k ok q cells es r"
  proof (rule query_round.raw_induct [OF _ assms(1)])
    show "P inp lg conf ds k ok q c es y"
      if ih: "\<And>inp lg conf ds k ok q c es y. qr inp lg conf ds k ok q c es = Some y \<Longrightarrow> P inp lg conf ds k ok q c es y"
        and eq: "(if \<not> ok \<and> q < CONFIG_MAX_QUERY_ATTEMPTS then
          (case query_step inp lg conf ds k q c of
             None \<Rightarrow> None
           | Some (Inl u) \<Rightarrow> Some (Inl u)
           | Some (Inr (ok, q, results', es')) \<Rightarrow> qr inp lg conf ds (k + 1) ok q results' (es @ es'))
          else Some (Inr (ok, c, es))) = Some y"
      for qr inp lg conf ds k ok q c es y
    proof (cases "\<not> ok \<and> q < CONFIG_MAX_QUERY_ATTEMPTS")
      case False
      then show ?thesis using eq by (auto simp: P_def)
    next
      case True
      show ?thesis
      proof (cases "\<exists>u. query_step inp lg conf ds k q c = Some (Inl u)")
        case True
        then show ?thesis using eq by (auto simp: P_def split: if_splits)
      next
        case False
        have "query_step inp lg conf ds k q c \<noteq> None" using eq True by (cases "query_step inp lg conf ds k q c") auto
        with False obtain ok' q' c' es' where st: "query_step inp lg conf ds k q c = Some (Inr (ok', q', c', es'))"
          by (cases "the (query_step inp lg conf ds k q c)") auto
        then have "qr inp lg conf ds (k + 1) ok' q' c' (es @ es') = Some y" using eq True by simp
        from ih [OF this] step_measured [OF st] show ?thesis by (simp add: P_def measured_append)
      qed
    qed
  qed
  with assms(2) show ?thesis by (simp add: P_def)
qed

section \<open>Lemmas: rounds of the loop\<close>

text \<open>What the start establishes and no round destroys: the sensor is selected and the array has its size.\<close>

definition daemon_ready :: "'db daemon \<Rightarrow> bool" where
  "daemon_ready d \<longleftrightarrow> (\<exists>pin. uses_dht11 (dm_device d) pin) \<and> length (dm_results d) = RPIWD_MAX_MEASUREMENTS"

text \<open>What a round waits for happens: the queue of the database takes a reading, the programs of the triggers
  and the cancelled threads end.\<close>

definition nothing_blocks :: "cycle_input \<Rightarrow> bool" where
  "nothing_blocks inp \<longleftrightarrow>
     ci_db_sends inp \<and> ci_db_joins inp \<and> ci_listener_joins inp \<and> (\<forall>t a. child_ends (ci_trigger inp) t a)"

lemmas wbind_some = wbind_returns [unfolded not_None_eq]

lemma run_action_returns: "(\<And>t a. child_ends env t a) \<Longrightarrow> run_action env trig m r \<noteq> None"
  by (auto simp: run_action_def Let_def intro!: wbind_some)

lemma run_trigger_returns: "(\<And>t a. child_ends env t a) \<Longrightarrow> run_trigger env trig m r \<noteq> None"
  using run_action_returns [of env] by (auto simp: run_trigger_def intro!: wbind_some)

lemma run_triggers_return: "(\<And>t a. child_ends env t a) \<Longrightarrow> run_triggers env ts m r \<noteq> None"
proof (induction ts arbitrary: m r)
  case (Cons t ts)
  then show ?case using run_trigger_returns [of env t m r] by (auto intro!: wbind_some)
qed simp

lemma trigger_callback_returns: "(\<And>t a. child_ends env t a) \<Longrightarrow> trigger_exec_callback env st er m r \<noteq> None"
  unfolding trigger_exec_callback_def
  using run_triggers_return [of env] by (cases "stat_ctime env") (auto intro!: wbind_some)

lemma set_cell_length: "set_cell m i v = Inr m' \<Longrightarrow> length m' = length m"
  by (auto simp: set_cell_def split: if_splits)

lemma run_trigger_length: "run_trigger env t m r = Some (Inr (es, m', r')) \<Longrightarrow> length m' = length m"
  by (auto simp: run_trigger_def trigger_should_execute_def convert_measurements_maybe_def cbind_eq_Inr wbind_eq_Inr
      dest: set_cell_length split: if_splits)

lemma run_triggers_length: "run_triggers env ts m r = Some (Inr (es, m')) \<Longrightarrow> length m' = length m"
proof (induction ts arbitrary: m r es)
  case (Cons t ts)
  then obtain es1 m1 r1 es2 where "run_trigger env t m r = Some (Inr (es1, m1, r1))" "run_triggers env ts m1 r1 = Some (Inr (es2, m'))"
    by (auto simp: wbind_eq_Inr)
  then show ?case using Cons.IH run_trigger_length by fastforce
qed simp

lemma trigger_callback_length:
  "trigger_exec_callback env st er m r = Some (Inr (c, es, st', m', er')) \<Longrightarrow> length m' = length m"
  by (auto simp: trigger_exec_callback_def wbind_eq_Inr dest: run_triggers_length split: option.splits)

lemma run_and_sleep_keeps:
  assumes "run_and_sleep inp ok m d = Some (Inr (d', es))"
  shows "dm_device d' = dm_device d" "length (dm_results d') = length m"
  using assms by (auto simp: run_and_sleep_def rpiwd_sleep_def cbind_eq_Inr wbind_eq_Inr dest: trigger_callback_length split: if_splits)

lemma run_and_sleep_returns: "nothing_blocks inp \<Longrightarrow> run_and_sleep inp ok m d \<noteq> None"
  using trigger_callback_returns [of "ci_trigger inp"]
  by (auto simp: run_and_sleep_def nothing_blocks_def intro!: wbind_some)

lemma joined_eq [simp]: "joined True m = Some m" "joined ends m = Some (Inr x) \<longleftrightarrow> ends \<and> m = Inr x"
  by (cases m; auto simp: joined_def)+

lemma on_wakeup_returns: "nothing_blocks inp \<Longrightarrow> on_wakeup sq inp d \<noteq> None"
  by (auto simp: on_wakeup_def reload_all_def quit_routine_def nothing_blocks_def intro!: wbind_some)

lemma reload_cases:
  assumes "reload_all sq inp d = Some (Inr (Goes d'))"
  obtains h l ts flag db h' c cpath rc c' er l' where
    "quit_dbhandler (dm_dbh d) = Inr h" "quit_listener_loop (dm_listener d) = Inr l" "unload_triggers (dm_triggers d) = Inr ts"
    "init_dbhandler sq (ci_mq_ok inp) (ci_db_thread inp) (dm_db d) h = (flag, db, h')"
    "free_current_config (dm_config d) = Inr c" "dm_config_path d = Ptr cpath"
    "init_current_config (ci_oom_config inp) (ci_files inp) cpath c (dm_errno d) = (rc, c', er)"
    "start_listener (ci_listener inp) (num_worker_threads (get_current_config c')) (comm_port (get_current_config c')) l = Inr (Some l')"
    "d' = d\<lparr>dm_files := ci_files inp, dm_dbh := h', dm_db := db, dm_triggers := ts, dm_config := c', dm_errno := er, dm_listener := l'\<rparr>"
proof -
  obtain h l ts where 1: "quit_dbhandler (dm_dbh d) = Inr h" "quit_listener_loop (dm_listener d) = Inr l"
      "unload_triggers (dm_triggers d) = Inr ts"
    using assms by (auto simp: reload_all_def cbind_eq_Inr wbind_eq_Inr)
  obtain flag db h' where 2: "init_dbhandler sq (ci_mq_ok inp) (ci_db_thread inp) (dm_db d) h = (flag, db, h')"
    by (cases "init_dbhandler sq (ci_mq_ok inp) (ci_db_thread inp) (dm_db d) h") auto
  obtain c cpath where 3: "free_current_config (dm_config d) = Inr c" "load (dm_config_path d) = Inr cpath"
    using assms 1 2 by (auto simp: reload_all_def cbind_eq_Inr wbind_eq_Inr)
  then have 4: "dm_config_path d = Ptr cpath" by (cases "dm_config_path d") auto
  obtain rc c' er where 5: "init_current_config (ci_oom_config inp) (ci_files inp) cpath c (dm_errno d) = (rc, c', er)"
    by (cases "init_current_config (ci_oom_config inp) (ci_files inp) cpath c (dm_errno d)") auto
  obtain l' where 6: "start_listener (ci_listener inp) (num_worker_threads (get_current_config c')) (comm_port (get_current_config c')) l = Inr (Some l')"
      "d' = d\<lparr>dm_files := ci_files inp, dm_dbh := h', dm_db := db, dm_triggers := ts, dm_config := c', dm_errno := er, dm_listener := l'\<rparr>"
    using assms 1 2 3 5 by (auto simp: reload_all_def Let_def cbind_eq_Inr wbind_eq_Inr split: option.splits)
  show thesis by (rule that [OF 1 2 3(1) 4 5 6])
qed

lemma reload_keeps:
  assumes "reload_all sq inp d = Some (Inr (Goes d'))"
  shows "dm_device d' = dm_device d" "dm_results d' = dm_results d"
  using assms by (auto elim!: reload_cases)

text \<open>The parts of a round that went on.\<close>

lemma cycle_cases:
  assumes "query_cycle sq inp d = Some (Inr (c, es))"
  obtains ok m es1 d1 es2 where
    "query_round inp (dm_log d) (get_current_config (dm_config d)) (dm_device d) 0 False 0 (dm_results d) [] = Some (Inr (ok, m, es1))"
    "run_and_sleep inp ok m d = Some (Inr (d1, es2))" "on_wakeup sq inp d1 = Some (Inr c)" "es = es1 @ es2"
  using assms by (auto simp: query_cycle_def wbind_eq_Inr)

lemma cycle_keeps_ready:
  assumes "daemon_ready d" "nothing_blocks inp" "query_cycle sq inp d = Some (Inr (Goes d', es))"
  shows "daemon_ready d'"
proof -
  obtain pin where pin: "uses_dht11 (dm_device d) pin" using assms(1) by (auto simp: daemon_ready_def)
  have room: "2 \<le> length (dm_results d)" "ci_db_sends inp"
    using assms(1,2) by (simp_all add: daemon_ready_def nothing_blocks_def RPIWD_MAX_MEASUREMENTS_def)
  from assms(3) obtain ok m es1 d1 es2 where
    c: "query_round inp (dm_log d) (get_current_config (dm_config d)) (dm_device d) 0 False 0 (dm_results d) [] = Some (Inr (ok, m, es1))"
      "run_and_sleep inp ok m d = Some (Inr (d1, es2))" "on_wakeup sq inp d1 = Some (Inr (Goes d'))"
    by (rule cycle_cases)
  have "length m = length (dm_results d)"
    using round_returns [OF pin room(1) order_refl room(2), of "dm_log d" "get_current_config (dm_config d)" 0 False "[]"] c(1) by auto
  then have "daemon_ready d1" using assms(1) run_and_sleep_keeps [OF c(2)] by (simp add: daemon_ready_def)
  then show ?thesis
    using c(3) reload_keeps [of sq inp d1 d'] by (auto simp: on_wakeup_def daemon_ready_def wbind_eq_Inr split: if_splits)
qed

lemma cycle_returns:
  assumes "daemon_ready d" "nothing_blocks inp"
  shows "query_cycle sq inp d \<noteq> None"
proof -
  obtain pin where pin: "uses_dht11 (dm_device d) pin" using assms(1) by (auto simp: daemon_ready_def)
  have "2 \<le> length (dm_results d)" "ci_db_sends inp"
    using assms by (simp_all add: daemon_ready_def nothing_blocks_def RPIWD_MAX_MEASUREMENTS_def)
  then have "query_round inp (dm_log d) (get_current_config (dm_config d)) (dm_device d) 0 False 0 (dm_results d) [] \<noteq> None"
    using round_returns [OF pin] by (metis option.discI order_refl)
  then show ?thesis
    using run_and_sleep_returns [OF assms(2)] on_wakeup_returns [OF assms(2)]
    unfolding query_cycle_def by (auto intro!: wbind_some)
qed

lemma loop_returns: "daemon_ready d \<Longrightarrow> (\<And>inp. inp \<in> set inps \<Longrightarrow> nothing_blocks inp) \<Longrightarrow> query_loop sq inps d \<noteq> None"
proof (induction inps arbitrary: d)
  case (Cons inp inps)
  have inp: "nothing_blocks inp" using Cons.prems(2) by simp
  have "query_loop sq inps d' \<noteq> None" if "query_cycle sq inp d = Some (Inr (Goes d', es))" for d' es
    using Cons.IH [OF cycle_keeps_ready [OF Cons.prems(1) inp that]] Cons.prems(2) by simp
  then show ?case
    using cycle_returns [OF Cons.prems(1) inp]
    by (auto intro!: wbind_some split: control.split)
qed simp

lemma cycle_measures:
  assumes "uses_dht11 (dm_device d) pin" "k < 64" "\<And>i. i < k \<Longrightarrow> dht11_fails inp pin (dm_results d) i"
    and "dht11_query_callback (ci_gpio inp k) pin (Some (dm_results d)) = Inr (RPIWD_DEVRETCODE_SUCCESS, Some (Some t # Some h # rest))"
    and "current_config (dm_config d) = conf" "cfg_device_name conf = Ptr dev" "measure_location conf = Ptr loc"
    and "query_interval conf = Ptr iv" "\<not> ci_oom_entry inp" "ci_db_sends inp" "\<not> ci_hup inp" "\<not> ci_term inp"
    and "trigger_exec_callback (ci_trigger inp) (dm_triggers d) (dm_errno d) (Some t # Some h # rest) (ci_retval inp) =
      Some (Inr (rc, es, ts, m, er))"
    and "rpiwd_units_to_milliseconds er iv = Inr (ms, er')"
  shows "query_cycle sq inp d =
    Some (Inr (Goes (d\<lparr>dm_triggers := ts, dm_results := m, dm_errno := er'\<rparr>),
      warnings (dm_log d) dev k @ [DbSend (measurement_msg (ci_junk inp) t h loc dev)] @ map Triggered es
      @ [Sleeping (ms div 1000) (ms mod 1000 * 1000000)]))"
proof -
  have "query_round inp (dm_log d) conf (dm_device d) 0 False 0 (dm_results d) [] =
      Some (Inr (True, Some t # Some h # rest, warnings (dm_log d) dev k @ [DbSend (measurement_msg (ci_junk inp) t h loc dev)]))"
    by (rule round_reads [OF assms(1,6,7,9,2,3,4,10)])
  moreover have "run_and_sleep inp True (Some t # Some h # rest) d = Some (Inr (d\<lparr>dm_triggers := ts, dm_results := m, dm_errno := er'\<rparr>,
      map Triggered es @ [Sleeping (ms div 1000) (ms mod 1000 * 1000000)]))"
    using assms(5,8,13,14) by (simp add: run_and_sleep_def get_current_config_def rpiwd_sleep_def)
  ultimately show ?thesis
    using assms(5,11,12) by (simp add: query_cycle_def on_wakeup_def get_current_config_def)
qed

section \<open>Lemmas: start-up\<close>

lemma device_init_dht11:
  assumes "device_init_by_name device_state_init (Some ''dht11'') pin = Inr (f, ds)"
  shows "uses_dht11 ds pin" "device_test_current ds g = Inr (g pin 0)"
  using assms
  by (auto simp: uses_dht11_def init_dht11 device_test_current_def get_current_device_def supported_devices_def dht11_test_def)

text \<open>The checks in the order of the code; the one that passes last lets the process go on.\<close>

lemma main_checks_pass:
  assumes "main_checks env cpath fg d = Inr (Goes d', t)" "dm_device d = device_state_init"
  shows "config_has_errors (get_current_config (dm_config d')) = Inr 0"
    and "uses_dht11 (dm_device d') (device_config (get_current_config (dm_config d')))"
    and "me_gpio env (device_config (get_current_config (dm_config d'))) 0"
    and "contents (dm_files d) PID_FILE = None" "dm_files d' = dm_files d" "dm_results d' = dm_results d"
    and "dm_dbh d' = dm_dbh d" "dm_listener d' = dm_listener d"
proof -
  obtain flag c er where c: "init_current_config (me_oom_config env) (dm_files d) cpath (dm_config d) (dm_errno d) = (flag, c, er)"
    by (cases "init_current_config (me_oom_config env) (dm_files d) cpath (dm_config d) (dm_errno d)") auto
  have flag: "flag = 0" using assms(1) c by (auto simp: main_checks_def Let_def split: if_splits)
  note c = c [unfolded flag]
  let ?conf = "get_current_config c"
  have errors: "config_has_errors ?conf = Inr 0"
    using assms(1) c by (auto simp: main_checks_def Let_def cbind_eq_Inr split: if_splits)
  then have dev: "cfg_device_name ?conf = Ptr ''dht11''" using accepted_config by blast
  obtain ts er2 where ts: "load_triggers (dm_files d) (dm_triggers d) er = Inr (TRIGGER_PARSE_OK, ts, er2)"
    using assms(1) c errors by (auto simp: main_checks_def Let_def cbind_eq_Inr split: if_splits)
  have pid: "contents (dm_files d) PID_FILE = None"
    using assms(1) c errors ts by (auto simp: main_checks_def Let_def pid_file_exists_def split: if_splits)
  obtain f ds where ds: "device_init_by_name (dm_device d) (Some ''dht11'') (device_config ?conf) = Inr (f, ds)"
    using assms(1) c errors ts dev pid by (auto simp: main_checks_def Let_def pid_file_exists_def cbind_eq_Inr)
  note dht11 = device_init_dht11 [OF ds [unfolded assms(2)]]
  have "me_gpio env (device_config ?conf) 0 \<and>
      d' = d\<lparr>dm_log := init_logging fg (dm_log d), dm_config_path := Ptr cpath, dm_config := c, dm_triggers := ts, dm_errno := er2, dm_device := ds\<rparr>"
    using assms(1) c errors ts dev pid ds dht11
    by (auto simp: main_checks_def Let_def pid_file_exists_def cbind_eq_Inr split: if_splits)
  with errors dht11 pid show "config_has_errors (get_current_config (dm_config d')) = Inr 0"
    "uses_dht11 (dm_device d') (device_config (get_current_config (dm_config d')))"
    "me_gpio env (device_config (get_current_config (dm_config d'))) 0"
    "contents (dm_files d) PID_FILE = None" "dm_files d' = dm_files d" "dm_results d' = dm_results d"
    "dm_dbh d' = dm_dbh d" "dm_listener d' = dm_listener d"
    by simp_all
qed

lemma init_dbhandler_up:
  "init_dbhandler sq mq_ok thread db h = (flag, db', h') \<Longrightarrow> flag \<noteq> - 1 \<Longrightarrow> db_open h' \<and> db_mq_open h' \<and> flag = 1"
  by (auto simp: init_dbhandler_def Let_def split: if_splits prod.splits)

text \<open>
  The listener after its first start. It listens only with the queue of the workers open and all of them
  created: the number asked for, or none when the thread was faster than the setting of that number.
\<close>

lemma start_listener_up:
  assumes "start_listener li n port listener_handle_init = Inr (Some h)" "0 \<le> n" "n \<le> 4"
  shows "lh_num_workers h = n" "lh_thread h \<noteq> Null"
    and "lh_sock h \<noteq> None \<Longrightarrow>
      lh_mq_open h \<and> lh_running h = (if li_early li then 0 else nat n) \<and> lh_workers h = Ptr (lh_running h)"
  using assms
  by (auto simp: start_listener_def main_listener_start_def init_listener_loop_def MAX_WORKER_THREADS_def listener_handle_init_def
      Let_def cbind_eq_Inr split: if_splits)

lemma main_start_up:
  assumes "main_start env sq fg d = Inr (Goes d', t)"
  shows "dm_device d' = dm_device d" "dm_results d' = dm_results d" "dm_config d' = dm_config d"
    and "db_open (dm_dbh d') \<and> db_mq_open (dm_dbh d')"
    and "start_listener (me_listener env) (num_worker_threads (get_current_config (dm_config d)))
           (comm_port (get_current_config (dm_config d))) (dm_listener d) = Inr (Some (dm_listener d'))"
    and "write_pid_file (me_pid_fd env) (me_pid env) (dm_files d) = (dm_pid_fd d', dm_files d')"
proof -
  obtain pid_fd fs where pid: "write_pid_file (me_pid_fd env) (me_pid env) (dm_files d) = (pid_fd, fs)"
    by (cases "write_pid_file (me_pid_fd env) (me_pid env) (dm_files d)") auto
  obtain flag db h where dbh: "init_dbhandler sq (me_mq_ok env) (me_db_thread env) (dm_db d) (dm_dbh d) = (flag, db, h)"
    by (cases "init_dbhandler sq (me_mq_ok env) (me_db_thread env) (dm_db d) (dm_dbh d)") auto
  have flag: "flag \<noteq> - 1"
    using assms pid dbh by (auto simp: main_start_def cbind_eq_Inr split: if_splits)
  obtain l where l: "start_listener (me_listener env) (num_worker_threads (get_current_config (dm_config d)))
        (comm_port (get_current_config (dm_config d))) (dm_listener d) = Inr (Some l)"
      "d' = d\<lparr>dm_pid_fd := pid_fd, dm_files := fs, dm_db := db, dm_dbh := h, dm_listener := l\<rparr>"
    using assms pid dbh flag by (auto simp: main_start_def Let_def cbind_eq_Inr split: if_splits option.splits)
  then show "dm_device d' = dm_device d" "dm_results d' = dm_results d" "dm_config d' = dm_config d"
    "db_open (dm_dbh d') \<and> db_mq_open (dm_dbh d')"
    "start_listener (me_listener env) (num_worker_threads (get_current_config (dm_config d)))
       (comm_port (get_current_config (dm_config d))) (dm_listener d) = Inr (Some (dm_listener d'))"
    "write_pid_file (me_pid_fd env) (me_pid env) (dm_files d) = (dm_pid_fd d', dm_files d')"
    using init_dbhandler_up [OF dbh flag] pid by simp_all
qed

lemma start_up_passes:
  assumes "start_up env sq fs db = Inr (Goes d, t)"
  obtains cpath fg d1 t1 where "main_checks env cpath fg (daemon_init fs db) = Inr (Goes d1, t1)"
    "main_start env sq fg d1 = Inr (Goes d, t)"
proof -
  obtain opts where opts: "main_options (me_answer env) fs (me_opts env) Null False = Inr opts"
    using assms by (auto simp: start_up_def cbind_eq_Inr)
  obtain p fg where p: "opts = OptionsDone p fg"
    using assms opts by (cases opts) (auto simp: start_up_def)
  obtain cpath c t1 where c: "main_checks env cpath fg (daemon_init fs db) = Inr (c, t1)"
      "(case c of Exits rc d \<Rightarrow> Inr (c, t1) | Goes d \<Rightarrow> main_start env sq fg d) = Inr (Goes d, t)"
    using assms opts p by (auto simp: start_up_def cbind_eq_Inr)
  then obtain d1 where "c = Goes d1" by (cases c) auto
  with c show thesis using that by simp
qed

lemma start_up_ready:
  assumes "start_up env sq fs db = Inr (Goes d, t)"
  shows "daemon_ready d"
proof -
  obtain cpath fg d1 t1 where s: "main_checks env cpath fg (daemon_init fs db) = Inr (Goes d1, t1)"
      "main_start env sq fg d1 = Inr (Goes d, t)" using start_up_passes [OF assms] .
  show ?thesis
    using main_checks_pass(2,6) [OF s(1)] main_start_up(1,2) [OF s(2)] by (auto simp: daemon_ready_def daemon_init_def)
qed

section \<open>A start that succeeds\<close>

text \<open>A written configuration file, an empty trigger file and no pid file.\<close>

definition start_files :: files where
  "start_files = \<lparr>contents = [CONFIG_FILE_DEFAULT_LOCATION \<mapsto> projr (config_text sample_config), TRIGGER_FILE_PATH \<mapsto> []],
     unreadable = \<lambda>_. False, unwritable = \<lambda>_. False, space = 4096\<rparr>"

definition sample_listener :: listener_input where
  "sample_listener = \<lparr>li_thread = Some 2, li_early = False, li_oom = False, li_mq_ok = True, li_creatable = 4,
     li_getaddrinfo = \<lambda>_. Some [\<lparr>ai_socket = 9, ai_setsockopt = True, ai_bind = True\<rparr>]\<rparr>"

definition sample_main :: main_env where
  "sample_main = \<lparr>me_argv0 = ''rpiweatherd'', me_opts = [(CHR ''f'', None)], me_answer = None, me_gpio = \<lambda>_ _. True, me_daemon_ok = True,
     me_pid_fd = 5, me_pid = 321, me_mq_ok = True, me_db_thread = Some 1, me_listener = sample_listener, me_oom_config = \<lambda>_. False\<rparr>"

definition sample_daemon :: "sql_bind list list daemon" where
  "sample_daemon =
     \<lparr>dm_files = snd (write_pid_file 5 321 start_files), dm_config = \<lparr>current_config = sample_config, unitstring = default_unitstring\<rparr>,
      dm_device = \<lparr>supported = supported_devices[0 := (supported_devices ! 0)\<lparr>pin_data := 7\<rparr>], selected_device = Some 0\<rparr>,
      dm_triggers = trigger_state_init, dm_dbh = \<lparr>db_open = True, db_mq_open = True, db_thread = Ptr 1\<rparr>, dm_db = [],
      dm_listener = \<lparr>lh_thread = Ptr 2, lh_num_workers = 2, lh_workers = Ptr 2, lh_running = 2, lh_mq_open = True, lh_sock = Some 9\<rparr>,
      dm_log = init_logging True log_state_init,
      dm_pid_fd = 5, dm_config_path = Ptr CONFIG_FILE_DEFAULT_LOCATION, dm_errno = False,
      dm_results = replicate RPIWD_MAX_MEASUREMENTS None\<rparr>"

lemma paths_differ:
  "CONFIG_FILE_DEFAULT_LOCATION \<noteq> TRIGGER_FILE_PATH" "PID_FILE \<noteq> TRIGGER_FILE_PATH" "PID_FILE \<noteq> CONFIG_FILE_DEFAULT_LOCATION"
  by (simp_all add: CONFIG_FILE_DEFAULT_LOCATION_def TRIGGER_FILE_PATH_def PID_FILE_def)

lemma sample_config_read:
  "init_current_config (\<lambda>_. False) start_files CONFIG_FILE_DEFAULT_LOCATION st False =
   (0, st\<lparr>current_config := sample_config, unitstring := default_unitstring\<rparr>, False)"
proof -
  obtain body where body: "config_text sample_config = Inr body" by (simp add: config_text_def sample_config_def)
  obtain conf' where "ini_parse_stream (inih_callback (\<lambda>_. False)) (current_config st, 0, False) body = (0, (conf', 6, False))"
      "conf'\<lparr>config_count := 6\<rparr> = sample_config"
    using parse_config_text [OF _ _ _ _ _ _ _ _ _ _ body, where ?c0.0 = "current_config st" and oom = "\<lambda>_. False"]
    by (fastforce simp: sample_config_def clean_value_def isspace_def code_def INT_MIN_def INT_MAX_def)
  then show ?thesis
    using body paths_differ
    by (simp add: init_current_config_def parse_config_file_def ini_parse_def open_read_def start_files_def)
qed

lemma no_triggers: "load_loop st er [] = Inr (TRIGGER_ERROR_EOF, st, er)"
  by (simp add: load_loop.simps parse_into_def parse_trigger_def getline_def)

lemma sample_checks:
  "main_checks sample_main CONFIG_FILE_DEFAULT_LOCATION True (daemon_init start_files ([] :: sql_bind list list)) =
   Inr (Goes (sample_daemon\<lparr>dm_files := start_files, dm_dbh := dbhandler_init, dm_listener := listener_handle_init, dm_pid_fd := - 1\<rparr>), [])"
proof -
  have conf: "config_has_errors sample_config = Inr 0" "cfg_device_name sample_config = Ptr ''dht11''" "device_config sample_config = 7"
    by (simp_all add: config_has_errors_def sample_config_def supported_devices_def CONFIG_NUM_WORKER_THREADS_MAX_def)
  have load: "load_triggers start_files trigger_state_init False = Inr (TRIGGER_PARSE_OK, trigger_state_init, False)"
    using paths_differ by (simp add: load_triggers_def trigger_state_init_def no_triggers open_read_def start_files_def)
  have pid: "\<not> pid_file_exists start_files" using paths_differ by (simp add: pid_file_exists_def start_files_def)
  show ?thesis
    using sample_config_read conf load pid device_init_dht11(2) [OF init_dht11, of 7]
    by (simp add: main_checks_def daemon_init_def Let_def get_current_config_def init_dht11 sample_main_def sample_daemon_def)
qed

lemma sample_port: "show_int 6005 = ''6005''"
  by (simp add: show_int_def show_nat.simps digit_char_def)

lemma sample_listens:
  "start_listener sample_listener (num_worker_threads sample_config) (comm_port sample_config) listener_handle_init =
   Inr (Some \<lparr>lh_thread = Ptr 2, lh_num_workers = 2, lh_workers = Ptr 2, lh_running = 2, lh_mq_open = True, lh_sock = Some 9\<rparr>)"
  by (simp add: start_listener_def main_listener_start_def init_listener_loop_def MAX_WORKER_THREADS_def listener_handle_init_def
      sample_listener_def sample_config_def Let_def get_bound_socket_def STR_PORT_BUFFER_SIZE_def sample_port)

lemma sample_start: "start_up sample_main (sample_sql 0 []) start_files [] = Inr (Goes sample_daemon, [])"
proof -
  have opts: "main_options None start_files [(CHR ''f'', None)] Null False = Inr (OptionsDone Null True)" by simp
  have db: "run_execs (sample_sql 0 []) db 0 qs = (0, db)" for db qs
    by (induction qs) (simp_all add: sample_sql_def)
  have parts: "sql_open (sample_sql 0 []) f = 0" "contents start_files PID_FILE = None" "\<not> unwritable start_files PID_FILE"
    for f using paths_differ by (simp_all add: sample_sql_def start_files_def)
  show ?thesis
    using sample_checks opts db parts
    by (simp add: start_up_def sample_main_def main_start_def write_pid_file_def sample_daemon_def init_dbhandler_def
        dbhandler_init_def SQLITE_OK_def get_current_config_def sample_listens)
qed

text \<open>A round with three failed queries, and the results of its parts.\<close>

definition sample_cycle :: cycle_input where
  "sample_cycle = \<lparr>ci_gpio = (\<lambda>n. if n < 3 then (\<lambda>_ _. True) else (\<lambda>_. zero_line)), ci_oom_entry = False, ci_junk = sample_entry 0,
     ci_trigger = \<lparr>stat_ctime = None, trig_files = start_files, fork_ok = True, child_ends = \<lambda>_ _. True\<rparr>, ci_retval = 0,
     ci_hup = False, ci_term = False, ci_files = start_files, ci_mq_ok = True, ci_db_thread = Some 3,
     ci_listener = sample_listener\<lparr>li_thread := Some 4\<rparr>, ci_oom_config = \<lambda>_. False, ci_db_sends = True, ci_db_joins = True,
     ci_listener_joins = True\<rparr>"

text \<open>The measurements of the daemon after a first reading: the other cells stay uninitialized.\<close>

abbreviation zero_results :: measurements where
  "zero_results \<equiv> Some (reading (replicate 40 False) 2) # Some (reading (replicate 40 False) 0) # replicate 6 None"

lemma sample_results: "dm_results sample_daemon = replicate 8 None" "2 \<le> length (dm_results sample_daemon)"
  by (simp_all add: sample_daemon_def RPIWD_MAX_MEASUREMENTS_def)

lemma sample_queries:
  "i < 3 \<Longrightarrow> dht11_fails sample_cycle 7 (dm_results sample_daemon) i"
  "dht11_query_callback (ci_gpio sample_cycle 3) 7 (Some (dm_results sample_daemon)) = Inr (RPIWD_DEVRETCODE_SUCCESS, Some zero_results)"
  using sample_results(2) by (simp_all add: sample_cycle_def stuck_line_fails zero_line_reading) (simp add: sample_results numeral_eq_Suc)

lemma sample_dht11: "uses_dht11 (dm_device sample_daemon) 7"
  by (simp add: uses_dht11_def init_dht11 sample_daemon_def)

lemma sample_interval: "rpiwd_units_to_milliseconds False ''15m'' = Inr (900000, False)"
  using units_exact_digits [of "''15''" "CHR ''m''"]
  by (simp add: isdigit_def code_def read_nat_def digit_val_def max_units_def seconds_of_def)

lemma sample_config_parts:
  "current_config (dm_config sample_daemon) = sample_config" "cfg_device_name sample_config = Ptr ''dht11''"
  "measure_location sample_config = Ptr ''attic''" "query_interval sample_config = Ptr ''15m''"
  by (simp_all add: sample_daemon_def sample_config_def)

lemma sample_cycle_runs:
  "query_cycle (sample_sql 0 []) sample_cycle sample_daemon =
    Some (Inr (Goes (sample_daemon\<lparr>dm_triggers := dm_triggers sample_daemon,
        dm_results := zero_results, dm_errno := False\<rparr>),
      warnings (dm_log sample_daemon) ''dht11'' 3 @
      [DbSend (measurement_msg (ci_junk sample_cycle) (reading (replicate 40 False) 2) (reading (replicate 40 False) 0) ''attic'' ''dht11'')]
      @ map Triggered [] @ [Sleeping (900000 div 1000) (900000 mod 1000 * 1000000)]))"
  by (rule cycle_measures [OF sample_dht11 _ sample_queries(1) sample_queries(2) sample_config_parts,
        where rc = "Some TRIGGER_ERROR_FILE_ERROR" and er = False])
     (simp_all add: sample_cycle_def trigger_exec_callback_def sample_interval sample_daemon_def)

lemma sample_freed:
  "free_current_config (dm_config sample_daemon) = Inr
      \<lparr>current_config = sample_config\<lparr>measure_location := Dangling, cfg_device_name := Dangling, query_interval := Dangling,
         comm_port := 0, device_config := 0\<rparr>, unitstring = default_unitstring\<rparr>"
  by (simp add: free_current_config_def free_config_def sample_daemon_def sample_config_def)

text \<open>A reload that finds the configuration file, and one that does not.\<close>

lemma sample_reload: "\<exists>d'. reload_all (sample_sql 0 []) sample_cycle sample_daemon = Some (Inr (Goes d'))"
  using sample_config_read sample_freed
  by (simp add: reload_all_def Let_def quit_dbhandler_def quit_listener_loop_def listener_loop_cleanup_routine_def quit_listener_mq_def
      unload_triggers_def start_listener_def main_listener_start_def init_listener_loop_def MAX_WORKER_THREADS_def get_bound_socket_def
      STR_PORT_BUFFER_SIZE_def sample_port get_current_config_def sample_listener_def sample_config_def
      sample_daemon_def trigger_state_init_def sample_cycle_def split: prod.split)

abbreviation lost_files :: files where "lost_files \<equiv> start_files\<lparr>unreadable := \<lambda>_. True\<rparr>"

lemma sample_reload_lost:
  "\<exists>d'. reload_all (sample_sql 0 []) (sample_cycle\<lparr>ci_files := lost_files\<rparr>) sample_daemon = Some (Inr (Goes d'))"
  using sample_freed
  by (simp add: reload_all_def Let_def quit_dbhandler_def quit_listener_loop_def listener_loop_cleanup_routine_def quit_listener_mq_def
      unload_triggers_def start_listener_def main_listener_start_def init_listener_loop_def MAX_WORKER_THREADS_def get_bound_socket_def
      STR_PORT_BUFFER_SIZE_def show_int_def show_nat.simps get_current_config_def sample_listener_def sample_config_def
      init_current_config_def parse_config_file_def ini_parse_def open_read_def
      sample_daemon_def trigger_state_init_def sample_cycle_def split: prod.split)

section \<open>Properties\<close>

text \<open>C23. The daemon comes up only on a good configuration: it names the sensor, has a location and an
  interval and asks for one to four workers; the sensor answered its self-test on the configured pin and is
  selected; no other instance had left its pid file; the database and its queue are open; the listener thread
  was created. When that thread has got its socket, the queue of the workers is open and the configured number of
  workers runs, or none when the thread was faster than the setting of their number.\<close>
theorem start_up_safe:
  assumes "start_up env sq fs db = Inr (Goes d, t)"
  shows "cfg_device_name (get_current_config (dm_config d)) = Ptr ''dht11'' \<and>
    measure_location (get_current_config (dm_config d)) \<noteq> Null \<and> query_interval (get_current_config (dm_config d)) \<noteq> Null \<and>
    1 \<le> num_worker_threads (get_current_config (dm_config d)) \<and> num_worker_threads (get_current_config (dm_config d)) \<le> 4 \<and>
    uses_dht11 (dm_device d) (device_config (get_current_config (dm_config d))) \<and>
    me_gpio env (device_config (get_current_config (dm_config d))) 0 \<and>
    contents fs PID_FILE = None \<and> db_open (dm_dbh d) \<and> db_mq_open (dm_dbh d) \<and> lh_thread (dm_listener d) \<noteq> Null \<and>
    lh_num_workers (dm_listener d) = num_worker_threads (get_current_config (dm_config d)) \<and>
    (lh_sock (dm_listener d) \<noteq> None \<longrightarrow> lh_mq_open (dm_listener d) \<and>
      lh_running (dm_listener d) = (if li_early (me_listener env) then 0 else nat (num_worker_threads (get_current_config (dm_config d)))) \<and>
      lh_workers (dm_listener d) = Ptr (lh_running (dm_listener d)))"
proof -
  obtain cpath fg d1 t1 where s: "main_checks env cpath fg (daemon_init fs db) = Inr (Goes d1, t1)"
      "main_start env sq fg d1 = Inr (Goes d, t)" using start_up_passes [OF assms] .
  have fresh: "dm_device (daemon_init fs db) = device_state_init" "dm_files (daemon_init fs db) = fs"
      "dm_listener (daemon_init fs db) = listener_handle_init"
    by (simp_all add: daemon_init_def)
  note checks = main_checks_pass [OF s(1) fresh(1)] and start = main_start_up [OF s(2)]
  have conf: "dm_config d = dm_config d1" by (rule start(3))
  note ok = accepted_config [OF checks(1)]
  have num: "0 \<le> num_worker_threads (get_current_config (dm_config d1))" "num_worker_threads (get_current_config (dm_config d1)) \<le> 4"
    using ok by simp_all
  note up = start_listener_up [OF start(5) [unfolded checks(8) fresh(3)] num]
  show ?thesis unfolding conf using ok checks(2-4) start(1,4) fresh(2) up by simp
qed

theorem start_up_safe_witness:
  "start_up sample_main (sample_sql 0 []) start_files [] = Inr (Goes sample_daemon, []) \<and>
    cfg_device_name (get_current_config (dm_config sample_daemon)) = Ptr ''dht11'' \<and> contents start_files PID_FILE = None \<and>
    db_open (dm_dbh sample_daemon) \<and> db_mq_open (dm_dbh sample_daemon) \<and> lh_thread (dm_listener sample_daemon) \<noteq> Null \<and>
    lh_sock (dm_listener sample_daemon) = Some 9 \<and> lh_mq_open (dm_listener sample_daemon) \<and> lh_running (dm_listener sample_daemon) = 2 \<and>
    lh_workers (dm_listener sample_daemon) = Ptr 2"
proof -
  have "lh_sock (dm_listener sample_daemon) = Some 9" "num_worker_threads (get_current_config (dm_config sample_daemon)) = 2"
    "\<not> li_early (me_listener sample_main)"
    by (simp_all add: sample_daemon_def sample_config_def get_current_config_def sample_main_def sample_listener_def)
  then show ?thesis using start_up_safe [OF sample_start] sample_start by simp
qed

text \<open>C22. Whatever the pins, the files, the signals, SQLite and the trigger file do, every round of the query
  loop comes to an end, as long as what it waits for does: the database queue takes the reading, the
  programs of the triggers end and the cancelled threads end.\<close>
theorem main_rounds_end:
  assumes "\<And>inp. inp \<in> set inps \<Longrightarrow> nothing_blocks inp"
  shows "main env sq fs db inps \<noteq> None"
proof -
  have "query_loop sq inps d \<noteq> None" if "start_up env sq fs db = Inr (Goes d, t)" for d t
    using loop_returns [OF start_up_ready [OF that] assms] .
  then show ?thesis
    unfolding main_def by (auto intro!: wbind_some split: control.split)
qed

theorem main_rounds_end_witness:
  "main sample_main (sample_sql 0 []) start_files [] [sample_cycle, sample_cycle\<lparr>ci_hup := True\<rparr>, sample_cycle\<lparr>ci_term := True\<rparr>] \<noteq> None"
  by (rule main_rounds_end) (auto simp: nothing_blocks_def sample_cycle_def)

text \<open>The round waits forever with a reading when the queue of the database stays full.\<close>
theorem full_queue_blocks_round:
  assumes "uses_dht11 (dm_device d) pin" "k < 64" "\<And>i. i < k \<Longrightarrow> dht11_fails inp pin (dm_results d) i"
    and "dht11_query_callback (ci_gpio inp k) pin (Some (dm_results d)) = Inr (RPIWD_DEVRETCODE_SUCCESS, Some (Some t # Some h # rest))"
    and "current_config (dm_config d) = conf" "cfg_device_name conf = Ptr dev" "measure_location conf = Ptr loc"
    and "\<not> ci_oom_entry inp" "\<not> ci_db_sends inp"
  shows "query_cycle sq inp d = None"
  using round_reads_or_waits [OF assms(1,6,7,8,2,3,4), of "dm_log d"] assms(5,9) by (simp add: query_cycle_def get_current_config_def)

theorem full_queue_blocks_round_witness:
  "query_cycle (sample_sql 0 []) (sample_cycle\<lparr>ci_db_sends := False\<rparr>) sample_daemon = None"
  by (rule full_queue_blocks_round [OF sample_dht11 _ _ _ sample_config_parts(1-3), where k = 3])
     (use sample_queries in \<open>simp_all add: sample_cycle_def\<close>)

text \<open>C27. One round that gets a reading after \<open>k\<close> failed queries: a warning for every fifth failure, one
  message to the database with the reading, the effects of the triggers on that reading, and a sleep
  of the configured interval.\<close>
theorem query_cycle_measures:
  assumes "uses_dht11 (dm_device d) pin" "k < 64" "\<And>i. i < k \<Longrightarrow> dht11_fails inp pin (dm_results d) i"
    and "dht11_query_callback (ci_gpio inp k) pin (Some (dm_results d)) = Inr (RPIWD_DEVRETCODE_SUCCESS, Some (Some t # Some h # rest))"
    and "current_config (dm_config d) = conf" "cfg_device_name conf = Ptr dev" "measure_location conf = Ptr loc"
    and "query_interval conf = Ptr iv" "\<not> ci_oom_entry inp" "ci_db_sends inp" "\<not> ci_hup inp" "\<not> ci_term inp"
    and "trigger_exec_callback (ci_trigger inp) (dm_triggers d) (dm_errno d) (Some t # Some h # rest) (ci_retval inp) =
      Some (Inr (rc, es, ts, m, er))"
    and "rpiwd_units_to_milliseconds er iv = Inr (ms, er')"
  shows "query_cycle sq inp d =
    Some (Inr (Goes (d\<lparr>dm_triggers := ts, dm_results := m, dm_errno := er'\<rparr>),
      warnings (dm_log d) dev k @ [DbSend (measurement_msg (ci_junk inp) t h loc dev)] @ map Triggered es
      @ [Sleeping (ms div 1000) (ms mod 1000 * 1000000)]))"
  using assms by (rule cycle_measures)

theorem query_cycle_measures_witness:
  "query_cycle (sample_sql 0 []) sample_cycle sample_daemon =
    Some (Inr (Goes (sample_daemon\<lparr>dm_triggers := dm_triggers sample_daemon,
        dm_results := zero_results, dm_errno := False\<rparr>),
      warnings (dm_log sample_daemon) ''dht11'' 3 @
      [DbSend (measurement_msg (ci_junk sample_cycle) (reading (replicate 40 False) 2) (reading (replicate 40 False) 0) ''attic'' ''dht11'')]
      @ map Triggered [] @ [Sleeping (900000 div 1000) (900000 mod 1000 * 1000000)]))"
  by (rule query_cycle_measures [OF sample_dht11 _ sample_queries(1) sample_queries(2) sample_config_parts,
        where rc = "Some TRIGGER_ERROR_FILE_ERROR" and er = False])
     (simp_all add: sample_cycle_def trigger_exec_callback_def sample_interval sample_daemon_def)

text \<open>When all 64 queries of a round fail, nothing is written and no trigger runs; there are 13
  warnings, and the daemon sleeps until the next round.\<close>
theorem query_cycle_gives_up:
  assumes "uses_dht11 (dm_device d) pin" "\<And>i. i < 64 \<Longrightarrow> dht11_fails inp pin (dm_results d) i"
    and "current_config (dm_config d) = conf" "cfg_device_name conf = Ptr dev" "query_interval conf = Ptr iv"
    and "\<not> ci_hup inp" "\<not> ci_term inp" "rpiwd_units_to_milliseconds (dm_errno d) iv = Inr (ms, er)"
  shows "query_cycle sq inp d = Some (Inr (Goes (d\<lparr>dm_errno := er\<rparr>),
      warnings (dm_log d) dev 64 @ [Sleeping (ms div 1000) (ms mod 1000 * 1000000)])) \<and> length (warnings (dm_log d) dev 64) = 13"
proof -
  have len: "length (warnings lg dev n) = (n + 4) div 5" for lg n
  proof (induction n)
    case (Suc n)
    have "n mod 5 = 0 \<or> n mod 5 = 1 \<or> n mod 5 = 2 \<or> n mod 5 = 3 \<or> n mod 5 = 4" by linarith
    with Suc show ?case by (auto simp: warnings_def warning_def) presburger+
  qed (simp add: warnings_def)
  have "run_and_sleep inp False (dm_results d) d = Some (Inr (d\<lparr>dm_errno := er\<rparr>, [Sleeping (ms div 1000) (ms mod 1000 * 1000000)]))"
    using assms(3,5,8) by (simp add: run_and_sleep_def get_current_config_def rpiwd_sleep_def)
  then show ?thesis
    using round_gives_up [OF assms(1,4,2)] assms(3,6,7) len [of _ 64]
    by (simp add: query_cycle_def on_wakeup_def get_current_config_def)
qed

theorem query_cycle_gives_up_witness:
  "query_cycle (sample_sql 0 []) (sample_cycle\<lparr>ci_gpio := \<lambda>_ _ _. True\<rparr>) sample_daemon =
    Some (Inr (Goes (sample_daemon\<lparr>dm_errno := False\<rparr>),
      warnings (dm_log sample_daemon) ''dht11'' 64 @ [Sleeping (900000 div 1000) (900000 mod 1000 * 1000000)])) \<and>
    length (warnings (dm_log sample_daemon) ''dht11'' 64) = 13"
  by (rule query_cycle_gives_up [OF sample_dht11 _ sample_config_parts(1,2,4)])
     (simp_all add: sample_cycle_def stuck_line_fails sample_results(2) sample_interval, simp add: sample_daemon_def sample_interval)

text \<open>A sensor that reports a code the loop does not count, such as the unit error of the table of
  codes, keeps the daemon in its inner loop forever: no round of it ever ends.\<close>
theorem query_cycle_spins:
  assumes "\<And>k. device_query_current (dm_device d) (ci_gpio inp k) (Some (dm_results d)) = Inr (RPIWD_DEVRETCODE_UNIT_ERROR, Some (dm_results d))"
  shows "query_cycle sq inp d = None"
  using round_spins [OF assms] by (simp add: query_cycle_def)

theorem query_cycle_spins_witness:
  "query_cycle (sample_sql 0 []) sample_cycle (sample_daemon\<lparr>dm_device :=
     \<lparr>supported = [\<lparr>dev_name = Some ''dht22'', pin_data = 7, query_function = Some (\<lambda>_ _ arr. Inr (RPIWD_DEVRETCODE_UNIT_ERROR, arr)),
        test_function = None\<rparr>], selected_device = Some 0\<rparr>\<rparr>) = None"
  by (rule query_cycle_spins) (simp add: device_query_current_def get_current_device_def)

text \<open>A reload forgets the triggers: the table is emptied but the time of its last update is kept,
  so until the trigger file changes no trigger runs. The device is not selected anew.\<close>
theorem reload_forgets_triggers:
  assumes "reload_all sq inp d = Some (Inr (Goes d'))"
    and "stat_ctime env = Some ctim" "ctim \<le> trigger_last_update (dm_triggers d)"
  shows "dm_device d' = dm_device d \<and>
    trigger_exec_callback env (dm_triggers d') er m r = Some (Inr (None, [], dm_triggers d', m, er))"
proof -
  obtain ts where ts: "unload_triggers (dm_triggers d) = Inr ts" "dm_triggers d' = ts"
    using assms(1) by (auto elim!: reload_cases)
  from ts(1) have "trigger_count ts = 0" "trigger_last_update ts = trigger_last_update (dm_triggers d)"
    by (auto simp: unload_triggers_def cbind_eq_Inr)
  then show ?thesis
    using reload_keeps [OF assms(1)] ts assms(2,3) by (simp add: trigger_exec_callback_def)
qed

theorem reload_forgets_triggers_witness:
  "\<exists>d'. reload_all (sample_sql 0 []) sample_cycle sample_daemon = Some (Inr (Goes d')) \<and>
    dm_device d' = dm_device sample_daemon \<and>
    trigger_exec_callback \<lparr>stat_ctime = Some 0, trig_files = start_files, fork_ok = True, child_ends = \<lambda>_ _. True\<rparr> (dm_triggers d') False [] 0 =
      Some (Inr (None, [], dm_triggers d', [], False))"
proof -
  obtain d' where d': "reload_all (sample_sql 0 []) sample_cycle sample_daemon = Some (Inr (Goes d'))"
    using sample_reload by blast
  have "dm_device d' = dm_device sample_daemon \<and>
      trigger_exec_callback \<lparr>stat_ctime = Some 0, trig_files = start_files, fork_ok = True, child_ends = \<lambda>_ _. True\<rparr> (dm_triggers d') False [] 0 =
      Some (Inr (None, [], dm_triggers d', [], False))"
    by (rule reload_forgets_triggers [OF d', of _ 0]) (simp_all add: sample_daemon_def trigger_state_init_def)
  with d' show ?thesis by blast
qed

lemma reload_lost_strings:
  assumes "reload_all sq inp d = Some (Inr (Goes d'))" "dm_config_path d = Ptr cpath" "open_read (ci_files inp) cpath = None"
    and "measure_location (current_config (dm_config d)) = Ptr loc" "cfg_device_name (current_config (dm_config d)) = Ptr dev"
  shows "measure_location (current_config (dm_config d')) = Dangling" "cfg_device_name (current_config (dm_config d')) = Dangling"
proof -
  obtain c rc c' er where c: "free_current_config (dm_config d) = Inr c"
      "init_current_config (ci_oom_config inp) (ci_files inp) cpath c (dm_errno d) = (rc, c', er)" "dm_config d' = c'"
    using assms(1,2) by (auto elim!: reload_cases)
  have "measure_location (current_config c) = Dangling \<and> cfg_device_name (current_config c) = Dangling"
    using c(1) assms(4,5) by (auto simp: free_current_config_def free_config_def cbind_eq_Inr)
  moreover have "current_config c' = current_config c\<lparr>config_count := 0\<rparr>"
    using c(2) assms(3) by (auto simp: init_current_config_def parse_config_file_def ini_parse_def)
  ultimately show "measure_location (current_config (dm_config d')) = Dangling" "cfg_device_name (current_config (dm_config d')) = Dangling"
    using c(3) by simp_all
qed

text \<open>C39. When the configuration file cannot be read at a reload, the daemon goes on with the strings it
  has just freed: the next round uses them after its first query, the location for a reading or the name of
  the device for the warning about a failure.\<close>
theorem reload_without_file_dangles:
  assumes "reload_all sq inp d = Some (Inr (Goes d'))" "dm_config_path d = Ptr cpath" "open_read (ci_files inp) cpath = None"
    and "measure_location (current_config (dm_config d)) = Ptr loc" "cfg_device_name (current_config (dm_config d)) = Ptr dev"
    and "uses_dht11 (dm_device d) pin" "length (dm_results d) = RPIWD_MAX_MEASUREMENTS"
    and "dht11_query_callback (ci_gpio inp' 0) pin (Some (dm_results d)) = Inr (ret, out)" "\<not> ci_oom_entry inp'"
  shows "query_cycle sq inp' d' = Some (Inl UseAfterFree)"
proof -
  note lost = reload_lost_strings [OF assms(1-5)] and keeps = reload_keeps [OF assms(1)]
  have len: "2 \<le> length (dm_results d)" "dm_results d \<noteq> []" using assms(7) by (auto simp: RPIWD_MAX_MEASUREMENTS_def)
  have "query_step inp' (dm_log d') (current_config (dm_config d')) (dm_device d) 0 0 (dm_results d) = Some (Inl UseAfterFree)"
  proof (cases "ret = RPIWD_DEVRETCODE_SUCCESS")
    case True
    then obtain t h where "out = Some ((dm_results d)[0 := Some t, 1 := Some h])"
      using dht11.success [OF len(1)] assms(8) by blast
    then show ?thesis
      using True assms(8,9) len lost
      by (simp add: query_step_def dht11_current [OF assms(6)] on_retflag_def cell_def request_write_entry_def entry_alloc_def)
  next
    case False
    then have "ret = RPIWD_DEVRETCODE_DATA_FAILURE" "out = Some (dm_results d)"
      using dht11.codes [OF len(1) assms(8)] dht11.failure [OF len(1)] assms(8) by auto
    then show ?thesis
      using assms(8) lost
      by (simp add: query_step_def dht11_current [OF assms(6)] on_retflag_def devretcode_defs tmod_nonneg ATTEMPT_LOG_THRESHOLD_def)
  qed
  then show ?thesis
    by (simp add: query_cycle_def keeps query_round.simps [of _ _ _ _ 0] get_current_config_def CONFIG_MAX_QUERY_ATTEMPTS_def)
qed

theorem reload_without_file_dangles_witness:
  "\<exists>d'. reload_all (sample_sql 0 []) (sample_cycle\<lparr>ci_files := lost_files\<rparr>) sample_daemon = Some (Inr (Goes d')) \<and>
    query_cycle (sample_sql 0 []) sample_cycle d' = Some (Inl UseAfterFree)"
proof -
  obtain d' where d': "reload_all (sample_sql 0 []) (sample_cycle\<lparr>ci_files := lost_files\<rparr>) sample_daemon = Some (Inr (Goes d'))"
    using sample_reload_lost by blast
  have "query_cycle (sample_sql 0 []) sample_cycle d' = Some (Inl UseAfterFree)"
    by (rule reload_without_file_dangles [OF d' _ _ _ _ sample_dht11 _ sample_queries(1) [of 0]])
       (simp_all add: sample_daemon_def sample_config_def open_read_def sample_cycle_def)
  with d' show ?thesis by blast
qed

text \<open>When another instance creates the pid file between the check and the write, this one runs
  without having noticed: the failed write leaves 0, not -1, and on exit it removes the file of the other.\<close>
theorem quit_removes_foreign_pid_file:
  assumes "contents (dm_files d) PID_FILE = Some other" "main_start env sq fg d = Inr (Goes d', t)" "quit_routine inp d' = Some (Inr d'')"
  shows "dm_pid_fd d' = 0 \<and> contents (dm_files d') PID_FILE = Some other \<and> contents (dm_files d'') PID_FILE = None"
proof -
  have "dm_pid_fd d' = 0 \<and> dm_files d' = dm_files d"
    using main_start_up(6) [OF assms(2)] assms(1) by (simp add: write_pid_file_def)
  then show ?thesis
    using assms(1,3) by (auto simp: quit_routine_def cbind_eq_Inr wbind_eq_Inr remove_file_def)
qed

theorem quit_removes_foreign_pid_file_witness:
  "\<exists>d' d''. main_start sample_main (sample_sql 0 []) True (sample_daemon\<lparr>dm_dbh := dbhandler_init, dm_listener := listener_handle_init\<rparr>) =
      Inr (Goes d', []) \<and>
    quit_routine sample_cycle d' = Some (Inr d'') \<and> dm_pid_fd d' = 0 \<and> contents (dm_files d') PID_FILE = Some (show_nat 321) \<and>
    contents (dm_files d'') PID_FILE = None"
proof -
  let ?d = "sample_daemon\<lparr>dm_dbh := dbhandler_init, dm_listener := listener_handle_init\<rparr>"
  have db: "run_execs (sample_sql 0 []) db 0 qs = (0, db)" for db qs
    by (induction qs) (simp_all add: sample_sql_def)
  have pid: "contents (dm_files ?d) PID_FILE = Some (show_nat 321)"
    using paths_differ by (simp add: sample_daemon_def write_pid_file_def start_files_def show_nat.simps)
  obtain d' where d': "main_start sample_main (sample_sql 0 []) True ?d = Inr (Goes d', [])" "db_thread (dm_dbh d') = Ptr 1"
      "dm_listener d' = dm_listener sample_daemon" "dm_triggers d' = dm_triggers sample_daemon" "dm_config d' = dm_config sample_daemon"
      "dm_config_path d' = dm_config_path sample_daemon"
    using pid db sample_listens
    by (simp add: main_start_def sample_main_def write_pid_file_def init_dbhandler_def sample_sql_def SQLITE_OK_def dbhandler_init_def
        sample_config_parts(1) get_current_config_def) (simp add: sample_daemon_def)
  then have "\<exists>d''. quit_routine sample_cycle d' = Some (Inr d'')"
    using sample_freed
    by (simp add: quit_routine_def quit_dbhandler_def quit_listener_loop_def listener_loop_cleanup_routine_def quit_listener_mq_def
        unload_triggers_def sample_cycle_def) (simp add: sample_daemon_def trigger_state_init_def quit_listener_mq_def)
  then obtain d'' where d'': "quit_routine sample_cycle d' = Some (Inr d'')" by blast
  show ?thesis using d'(1) d'' quit_removes_foreign_pid_file [OF pid d'(1) d''] by blast
qed

text \<open>When the database does not open, the error path cancels a thread that was never created.\<close>
theorem start_up_db_failure_crashes:
  assumes "sql_open sq DB_DEFAULT_FILE_PATH \<noteq> SQLITE_OK" "db_thread (dm_dbh d) = Null" "fg \<or> me_daemon_ok env"
  shows "main_start env sq fg d = Inl NullDeref"
  using assms by (auto simp: main_start_def init_dbhandler_def quit_dbhandler_def split: prod.splits)

theorem start_up_db_failure_crashes_witness:
  "main_start sample_main (sample_sql 0 []\<lparr>sql_open := \<lambda>_. 14\<rparr>) True (daemon_init start_files []) = Inl NullDeref"
  by (rule start_up_db_failure_crashes) (simp_all add: SQLITE_OK_def daemon_init_def dbhandler_init_def)

text \<open>The listener thread can run before the number of workers is set: it then creates no worker, and
  stopping it walks past its empty array of descriptors.\<close>
theorem listener_start_race:
  assumes "lh_num_workers h = 0" "get_bound_socket gai port = Inr fd" "fd \<noteq> - 1" "lh_thread h = Ptr tid"
    and "init_listener_loop True n = Some k" "0 < n"
  shows "\<exists>h'. main_listener_start False True creatable gai port h = Inr (None, h') \<and> lh_running h' = lh_running h \<and>
    quit_listener_loop (h'\<lparr>lh_num_workers := k\<rparr>) = Inl OutOfBounds"
  using assms
  by (auto simp: main_listener_start_def Let_def quit_listener_loop_def listener_loop_cleanup_routine_def init_listener_loop_def
      MAX_WORKER_THREADS_def)

theorem listener_start_race_witness:
  "\<exists>h'. main_listener_start False True 4 (\<lambda>_. Some [\<lparr>ai_socket = 9, ai_setsockopt = True, ai_bind = True\<rparr>]) 6005
      (listener_handle_init\<lparr>lh_thread := Ptr 2\<rparr>) = Inr (None, h') \<and> lh_running h' = lh_running (listener_handle_init\<lparr>lh_thread := Ptr 2\<rparr>) \<and>
    quit_listener_loop (h'\<lparr>lh_num_workers := 2\<rparr>) = Inl OutOfBounds"
  by (rule listener_start_race [where n = 2 and fd = 9 and tid = 2])
     (simp_all add: listener_handle_init_def get_bound_socket_def STR_PORT_BUFFER_SIZE_def show_int_def show_nat.simps
       init_listener_loop_def MAX_WORKER_THREADS_def)

end
