(* ===== verification/Heap.thy ===== *)
theory Heap
  imports C_Float
begin

text \<open>
  The C heap for the pointer-level models: blocks at addresses, \<open>malloc\<close> that may return NULL, \<open>free\<close>,
  loads and stores, with every misuse a value of \<open>ub\<close>. An address is never given out twice, so a
  pointer to a freed block stays recognisable. What a data structure owns is a set of addresses, its
  footprint; the locale \<open>owned_data\<close> is the contract between a constructor, which adds exactly a
  footprint to the heap, and a destructor, which takes it away up to what it forgets.
\<close>

section \<open>Blocks and the heap\<close>

type_synonym addr = nat \<comment> \<open>0 is NULL\<close>

text \<open>\<open>struct entry_s\<close> with its three strings as pointers.\<close>

record hentry =
  he_id :: int
  he_record_date :: addr
  he_temperature :: fp
  he_humidity :: fp
  he_location :: addr
  he_device_name :: addr

text \<open>The union of a \<open>JSON_Value\<close>, tagged with its type.\<close>

datatype jnode = NObject addr | NArray addr | NString addr | NNumber fp | NBoolean bool | NNull

text \<open>
  A block is one allocated object; slots of an array that were not stored yet are \<open>None\<close>, and so are
  members of a struct that is read before all of them are set. \<open>Raw\<close> is an object without any store.
\<close>

datatype block =
    Raw
  | CString string
  | EntryBlock hentry
  | EntryArray "hentry option list"
  | EntryListBlock nat nat addr \<comment> \<open>size, capacity, entries\<close>
  | StrPairs "(addr \<times> addr) option list" \<comment> \<open>an array of \<open>key_value_pair\<close> or \<open>http_cmd_param\<close>\<close>
  | KvListBlock nat nat addr \<comment> \<open>length, capacity, pairs\<close>
  | CmdBlock addr "addr option" "nat option" \<comment> \<open>cmdname, params, length\<close>
  | ValueBlock jnode
  | ObjectBlock addr addr nat nat \<comment> \<open>names, values, count, capacity\<close>
  | ArrayBlock addr nat nat \<comment> \<open>items, count, capacity\<close>
  | PtrArray "addr option list"

text \<open>\<open>refused a\<close>: the allocation that would get address \<open>a\<close> returns NULL.\<close>

record heap =
  cells :: "addr \<rightharpoonup> block"
  next_addr :: addr
  refused :: "addr \<Rightarrow> bool"

type_synonym 'a hm = "heap \<Rightarrow> ('a \<times> heap) c"

definition live :: "heap \<Rightarrow> addr set" where "live h = dom (cells h)"

definition empty_heap :: heap where
  "empty_heap = \<lparr>cells = Map.empty, next_addr = 1, refused = (\<lambda>_. False)\<rparr>"

definition wf_heap :: "heap \<Rightarrow> bool" where
  "wf_heap h \<longleftrightarrow> 0 < next_addr h \<and> (\<forall>a \<in> live h. 0 < a \<and> a < next_addr h)"

section \<open>Operations\<close>

definition hret :: "'a \<Rightarrow> 'a hm" where "hret x = (\<lambda>h. Inr (x, h))"

definition hfail :: "ub \<Rightarrow> 'a hm" where "hfail e = (\<lambda>h. Inl e)"

definition hbind :: "'a hm \<Rightarrow> ('a \<Rightarrow> 'b hm) \<Rightarrow> 'b hm" where
  "hbind m f = (\<lambda>h. cbind (m h) (\<lambda>(x, h'). f x h'))"

text \<open>A computation that does not touch the heap.\<close>

definition hlift :: "'a c \<Rightarrow> 'a hm" where
  "hlift m = (\<lambda>h. cbind m (\<lambda>x. Inr (x, h)))"

definition halloc :: "block \<Rightarrow> addr hm" where
  "halloc b = (\<lambda>h.
     if refused h (next_addr h) then Inr (0, h\<lparr>next_addr := next_addr h + 1\<rparr>)
     else Inr (next_addr h, h\<lparr>cells := (cells h)(next_addr h \<mapsto> b), next_addr := next_addr h + 1\<rparr>))"

definition hfree :: "addr \<Rightarrow> unit hm" where
  "hfree p = (\<lambda>h.
     if p = 0 then Inr ((), h)
     else if p \<in> live h then Inr ((), h\<lparr>cells := (cells h)(p := None)\<rparr>)
     else Inl DoubleFree)"

definition bad_access :: "addr \<Rightarrow> ub" where
  "bad_access p = (if p = 0 then NullDeref else UseAfterFree)"

definition hload :: "addr \<Rightarrow> block hm" where
  "hload p = (\<lambda>h. case cells h p of None \<Rightarrow> Inl (bad_access p) | Some b \<Rightarrow> Inr (b, h))"

definition hstore :: "addr \<Rightarrow> block \<Rightarrow> unit hm" where
  "hstore p b = (\<lambda>h. if p \<in> live h then Inr ((), h\<lparr>cells := (cells h)(p \<mapsto> b)\<rparr>) else Inl (bad_access p))"

text \<open>\<open>strdup\<close>; of NULL it is undefined.\<close>

definition strdup :: "string option \<Rightarrow> addr hm" where
  "strdup s = (case s of None \<Rightarrow> hfail NullDeref | Some t \<Rightarrow> halloc (CString t))"

fun hfor :: "'a list \<Rightarrow> ('a \<Rightarrow> unit hm) \<Rightarrow> unit hm" where
  "hfor [] f = hret ()"
| "hfor (x # xs) f = hbind (f x) (\<lambda>_. hfor xs f)"

definition free_all :: "addr list \<Rightarrow> unit hm" where
  "free_all ps = hfor ps hfree"

text \<open>A slot of an array that was loaded, and a string through a pointer that may be NULL.\<close>

definition load_slot :: "'a option list \<Rightarrow> nat \<Rightarrow> 'a hm" where
  "load_slot xs i = (if i < length xs then (case xs ! i of None \<Rightarrow> hfail UninitRead | Some x \<Rightarrow> hret x) else hfail OutOfBounds)"

definition load_string :: "addr \<Rightarrow> string option hm" where
  "load_string p = (if p = 0 then hret None
     else hbind (hload p) (\<lambda>b. case b of CString s \<Rightarrow> hret (Some s) | _ \<Rightarrow> hfail UninitRead))"

section \<open>The algebra of the heap\<close>

named_theorems heap_simps \<open>evaluation of heap operations\<close>

lemma hret_apply [heap_simps]: "hret x h = Inr (x, h)"
  by (simp add: hret_def)

lemma hfail_apply [heap_simps]: "hfail e h = Inl e"
  by (simp add: hfail_def)

lemma hlift_apply [heap_simps]: "hlift (Inr x) h = Inr (x, h)" "hlift (Inl e) h = Inl e"
  by (simp_all add: hlift_def)

lemma hbind_apply [heap_simps]: "m h = Inr (x, h') \<Longrightarrow> hbind m f h = f x h'" "m h = Inl e \<Longrightarrow> hbind m f h = Inl e"
  by (simp_all add: hbind_def)

lemma hbind_eq_Inr: "hbind m f h = Inr (y, h2) \<longleftrightarrow> (\<exists>x h1. m h = Inr (x, h1) \<and> f x h1 = Inr (y, h2))"
  by (cases "m h") (auto simp: hbind_def)

lemma hbind_assoc: "hbind (hbind m f) g = hbind m (\<lambda>x. hbind (f x) g)"
proof
  fix h show "hbind (hbind m f) g h = hbind m (\<lambda>x. hbind (f x) g) h"
    by (cases "m h") (auto simp: hbind_def)
qed

lemma hbind_hret [simp]: "hbind (hret x) f = f x"
  by (simp add: hbind_def hret_def)

lemma hbind_hlift [simp]: "hbind (hlift (Inr x)) f = f x" "hbind (hlift (Inl e)) f = hfail e"
  by (simp_all add: hbind_def hlift_def hfail_def)

lemma hbind_hret_right [simp]: "hbind m hret = m"
proof
  fix h show "hbind m hret h = m h" by (cases "m h") (auto simp: hbind_def hret_def)
qed

lemma hload_apply [heap_simps]: "cells h p = Some b \<Longrightarrow> hload p h = Inr (b, h)" "cells h p = None \<Longrightarrow> hload p h = Inl (bad_access p)"
  by (simp_all add: hload_def)

lemma hstore_apply [heap_simps]: "p \<in> live h \<Longrightarrow> hstore p b h = Inr ((), h\<lparr>cells := (cells h)(p \<mapsto> b)\<rparr>)"
  by (simp add: hstore_def)

lemma hfor_append: "hfor (xs @ ys) f = hbind (hfor xs f) (\<lambda>_. hfor ys f)"
  by (induction xs) (simp_all add: hbind_assoc)

text \<open>Taking a set of blocks off the heap.\<close>

definition release :: "addr set \<Rightarrow> heap \<Rightarrow> heap" where
  "release A h = h\<lparr>cells := cells h |` (- A)\<rparr>"

lemma release_simps [simp]:
  "cells (release A h) = cells h |` (- A)" "next_addr (release A h) = next_addr h" "refused (release A h) = refused h"
  "release {} h = h" "release B (release A h) = release (A \<union> B) h" "live (release A h) = live h - A"
proof -
  have "cells h |` (- A) |` (- B) = cells h |` (- (A \<union> B))" by (auto simp: restrict_map_def)
  then show "release B (release A h) = release (A \<union> B) h" by (simp add: release_def)
qed (auto simp: release_def live_def restrict_map_def split: if_splits)

lemma wf_heap_zero: "wf_heap h \<Longrightarrow> 0 \<notin> live h" "wf_heap h \<Longrightarrow> cells h 0 = None"
  by (auto simp: wf_heap_def live_def)

lemma wf_heap_block: "wf_heap h \<Longrightarrow> cells h p = Some b \<Longrightarrow> p \<noteq> 0 \<and> p \<in> live h"
  by (auto simp: wf_heap_def live_def)

lemma wf_heap_next: "wf_heap h \<Longrightarrow> next_addr h \<notin> live h" "wf_heap h \<Longrightarrow> cells h (next_addr h) = None" "wf_heap h \<Longrightarrow> 0 < next_addr h"
  by (auto simp: wf_heap_def live_def)

lemma wf_heap_release [simp]: "wf_heap h \<Longrightarrow> wf_heap (release A h)"
  by (auto simp: wf_heap_def)

lemma hfree_ok: "p = 0 \<or> p \<in> live h \<Longrightarrow> wf_heap h \<Longrightarrow> hfree p h = Inr ((), release {p} h)"
  by (auto simp: hfree_def release_def wf_heap_zero restrict_map_def fun_eq_iff intro!: heap.equality)

lemma free_all_ok:
  assumes "distinct (filter (\<lambda>p. p \<noteq> 0) ps)" "\<forall>p \<in> set ps. p \<noteq> 0 \<longrightarrow> p \<in> live h" "wf_heap h"
  shows "free_all ps h = Inr ((), release (set ps) h)"
  using assms unfolding free_all_def
proof (induction ps arbitrary: h)
  case (Cons p ps)
  have "hfree p h = Inr ((), release {p} h)" using Cons(3,4) by (intro hfree_ok) auto
  moreover have "hfor ps hfree (release {p} h) = Inr ((), release (set ps) (release {p} h))"
    using Cons(2-4) by (intro Cons(1)) (auto split: if_splits)
  ultimately show ?case by (simp add: heap_simps)
qed (simp add: heap_simps)

lemma release_zero: "wf_heap h \<Longrightarrow> release (insert 0 A) h = release A h"
  using wf_heap_zero(2) [of h] by (auto simp: release_def restrict_map_def fun_eq_iff intro!: heap.equality)

text \<open>A loop whose rounds release one set each.\<close>

lemma hfor_release:
  "(\<And>i. i < n \<Longrightarrow> f i (release (\<Union>j<i. F j) h) = Inr ((), release (F i) (release (\<Union>j<i. F j) h))) \<Longrightarrow>
   hfor [0..<n] f h = Inr ((), release (\<Union>j<n. F j) h)"
proof (induction n)
  case (Suc n)
  have "hfor [0..<n] f h = Inr ((), release (\<Union>j<n. F j) h)" using Suc by simp
  moreover have "f n (release (\<Union>j<n. F j) h) = Inr ((), release (F n \<union> (\<Union>j<n. F j)) h)"
    using Suc(2) [of n] by (simp add: Un_commute)
  ultimately show ?case by (simp add: hfor_append heap_simps lessThan_Suc)
qed (simp add: heap_simps)

abbreviation nonnull :: "addr list \<Rightarrow> addr list" where "nonnull \<equiv> filter (\<lambda>p. p \<noteq> 0)"

text \<open>The fields of a struct are freed one after the other, each read through the pointer to the struct.\<close>

lemma free_fields:
  assumes "wf_heap h" "distinct (nonnull (map (\<lambda>f. f e) fs))" "set (nonnull (map (\<lambda>f. f e) fs)) \<subseteq> live h"
    and "\<And>C. C \<subseteq> set (nonnull (map (\<lambda>f. f e) fs)) \<Longrightarrow> ent (release C h) = Inr (e, release C h)"
  shows "hfor fs (\<lambda>f. hbind ent (\<lambda>e. hfree (f e))) h = Inr ((), release (set (nonnull (map (\<lambda>f. f e) fs))) h)"
  using assms
proof (induction fs arbitrary: h)
  case (Cons f fs)
  let ?A = "set (nonnull (map (\<lambda>f. f e) fs))"
  have e: "ent h = Inr (e, h)" using Cons(5) [of "{}"] by simp
  show ?case
  proof (cases "f e = 0")
    case True
    then show ?thesis using Cons(1) [OF Cons(2)] Cons(3-5) e by (simp add: heap_simps hfree_def)
  next
    case False
    then have "hfree (f e) h = Inr ((), release {f e} h)" using Cons(2,4) by (intro hfree_ok) auto
    moreover have "hfor fs (\<lambda>f. hbind ent (\<lambda>e. hfree (f e))) (release {f e} h) = Inr ((), release ?A (release {f e} h))"
      using Cons(2-4) Cons(5) [of "insert (f e) _"] False by (intro Cons(1)) (auto simp: image_iff)
    ultimately show ?thesis using e False by (simp add: heap_simps)
  qed
qed (simp add: heap_simps)

text \<open>An array of such structs; \<open>ent i\<close> reads slot \<open>i\<close>.\<close>

definition field_ptrs :: "('e \<Rightarrow> addr) list \<Rightarrow> 'e \<Rightarrow> addr list" where
  "field_ptrs fs e = nonnull (map (\<lambda>f. f e) fs)"

lemma free_slots:
  assumes wf: "wf_heap h" and d: "distinct (concat (map (field_ptrs fs) xs))" and lv: "set (concat (map (field_ptrs fs) xs)) \<subseteq> live h"
    and ent: "\<And>i C. i < length xs \<Longrightarrow> C \<subseteq> set (concat (map (field_ptrs fs) xs)) \<Longrightarrow> ent i (release C h) = Inr (xs ! i, release C h)"
  shows "hfor [0..<length xs] (\<lambda>i. hfor fs (\<lambda>f. hbind (ent i) (\<lambda>e. hfree (f e)))) h =
    Inr ((), release (set (concat (map (field_ptrs fs) xs))) h)"
proof -
  let ?P = "\<lambda>ys. concat (map (field_ptrs fs) ys)"
  let ?F = "\<lambda>i. set (field_ptrs fs (xs ! i))"
  have U: "(\<Union>j<i. ?F j) = set (?P (take i xs))" if "i \<le> length xs" for i
    using that by (auto simp: set_conv_nth [of "take _ _"]) 
  have "hfor fs (\<lambda>f. hbind (ent i) (\<lambda>e. hfree (f e))) (release (\<Union>j<i. ?F j) h) = Inr ((), release (?F i) (release (\<Union>j<i. ?F j) h))"
    if i: "i < length xs" for i
  proof -
    have xs: "?P xs = ?P (take i xs) @ field_ptrs fs (xs ! i) @ ?P (drop (Suc i) xs)"
      using id_take_nth_drop [OF i] by (metis concat.simps(2) concat_append list.simps(9) map_append)
    have "ent i (release C (release (\<Union>j<i. ?F j) h)) = Inr (xs ! i, release C (release (\<Union>j<i. ?F j) h))" if "C \<subseteq> ?F i" for C
      using ent [OF i, of "set (?P (take i xs)) \<union> C"] that i by (simp add: U xs subset_insertI2 le_supI1 le_supI2)
    moreover have "?F i \<subseteq> live h - set (?P (take i xs))" "distinct (field_ptrs fs (xs ! i))" using d lv unfolding xs by auto
    ultimately show ?thesis
      using free_fields [of "release (\<Union>j<i. ?F j) h" "xs ! i" fs "ent i"] wf i unfolding field_ptrs_def [symmetric]
      by (simp add: U)
  qed
  then show ?thesis using hfor_release [of "length xs" _ ?F h] U [of "length xs"] by simp
qed

lemma free_all_append: "free_all (ps @ qs) = hbind (free_all ps) (\<lambda>_. free_all qs)"
  by (simp add: free_all_def hfor_append)

lemma free_all_Nil [simp]: "free_all [] = hret ()" "free_all (p # ps) = hbind (hfree p) (\<lambda>_. free_all ps)"
  by (simp_all add: free_all_def)

section \<open>Growing the heap by a footprint\<close>

text \<open>\<open>h'\<close> is \<open>h\<close> with the fresh blocks \<open>A\<close> added and nothing else changed.\<close>

definition adds :: "addr set \<Rightarrow> heap \<Rightarrow> heap \<Rightarrow> bool" where
  "adds A h h' \<longleftrightarrow> wf_heap h' \<and> next_addr h \<le> next_addr h' \<and> refused h' = refused h \<and>
     (\<forall>a \<in> A. next_addr h \<le> a \<and> cells h a = None \<and> cells h' a \<noteq> None) \<and> (\<forall>a. a \<notin> A \<longrightarrow> cells h' a = cells h a)"

lemma adds_refl: "wf_heap h \<Longrightarrow> adds {} h h"
  by (simp add: adds_def)

lemma adds_wf: "adds A h h' \<Longrightarrow> wf_heap h'"
  and adds_refused: "adds A h h' \<Longrightarrow> refused h' = refused h"
  and adds_next: "adds A h h' \<Longrightarrow> next_addr h \<le> next_addr h'"
  and adds_old: "adds A h h' \<Longrightarrow> a \<notin> A \<Longrightarrow> cells h' a = cells h a"
  by (simp_all add: adds_def)

lemma adds_fresh: "adds A h h' \<Longrightarrow> a \<in> live h \<Longrightarrow> a \<notin> A"
  by (auto simp: adds_def live_def)

lemma adds_kept: "adds A h h' \<Longrightarrow> cells h a = Some b \<Longrightarrow> cells h' a = Some b"
  by (metis adds_def option.distinct(1))

lemma adds_live: "adds A h h' \<Longrightarrow> live h' = live h \<union> A"
  unfolding adds_def live_def by auto

lemma adds_trans: "adds A h h1 \<Longrightarrow> adds B h1 h2 \<Longrightarrow> adds (A \<union> B) h h2"
  unfolding adds_def by (auto intro: le_trans) (metis option.distinct(1))

lemma adds_store: "adds A h h' \<Longrightarrow> p \<in> A \<Longrightarrow> adds A h (h'\<lparr>cells := (cells h')(p \<mapsto> b)\<rparr>)"
  by (auto simp: adds_def wf_heap_def live_def)

lemma adds_release: "adds A h h' \<Longrightarrow> B \<subseteq> A \<Longrightarrow> adds (A - B) h (release B h')"
  by (auto simp: adds_def restrict_map_def)

lemma adds_empty: "adds {} h h' \<Longrightarrow> cells h' = cells h"
  by (auto simp: adds_def)

text \<open>What is left of a structure: fresh blocks, beside a heap that is as it was.\<close>

lemma adds_effect: "adds A h h' \<Longrightarrow> live h' = live h \<union> A \<and> live h \<inter> A = {} \<and> (\<forall>a \<in> live h. cells h' a = cells h a)"
  using adds_live adds_fresh adds_old by blast

text \<open>What the footprint holds does not change as the heap grows further.\<close>

lemma adds_cells: "adds A h h1 \<Longrightarrow> adds B h1 h2 \<Longrightarrow> a \<in> A \<Longrightarrow> cells h2 a = cells h1 a"
  by (metis adds_def)

lemma adds_disjoint: "adds A h h1 \<Longrightarrow> adds B h1 h2 \<Longrightarrow> A \<inter> B = {}"
  by (auto simp: adds_def)

lemma halloc_cases:
  assumes "wf_heap h"
  obtains "refused h (next_addr h)" "halloc b h = Inr (0, h\<lparr>next_addr := next_addr h + 1\<rparr>)"
      "adds {} h (h\<lparr>next_addr := next_addr h + 1\<rparr>)"
    | h' where "\<not> refused h (next_addr h)" "halloc b h = Inr (next_addr h, h')" "adds {next_addr h} h h'"
      "cells h' (next_addr h) = Some b" "next_addr h' = next_addr h + 1"
proof (cases "refused h (next_addr h)")
  case True
  show ?thesis
    by (rule that(1)) (use True assms in \<open>auto simp: halloc_def adds_def wf_heap_def live_def intro: less_SucI\<close>)
next
  case False
  show ?thesis
    by (rule that(2) [of "h\<lparr>cells := (cells h)(next_addr h \<mapsto> b), next_addr := next_addr h + 1\<rparr>"])
       (use False assms wf_heap_next [OF assms] in \<open>auto simp: halloc_def adds_def wf_heap_def live_def intro: less_SucI\<close>)
qed

text \<open>A struct with an array: when the array is refused, the struct is given back.\<close>

definition alloc_with_array :: "block \<Rightarrow> (addr \<Rightarrow> block) \<Rightarrow> addr hm" where
  "alloc_with_array arr struct =
     hbind (halloc Raw) (\<lambda>p. if p = 0 then hret 0
       else hbind (halloc arr) (\<lambda>a. if a = 0 then hbind (hfree p) (\<lambda>_. hret 0)
         else hbind (hstore p (struct a)) (\<lambda>_. hret p)))"

lemma alloc_with_array_cases:
  assumes wf: "wf_heap h"
  obtains h' where "refused h (next_addr h) \<or> refused h (next_addr h + 1)" "alloc_with_array arr struct h = Inr (0, h')" "adds {} h h'"
    | p a h' where "\<not> refused h (next_addr h)" "\<not> refused h (next_addr h + 1)" "alloc_with_array arr struct h = Inr (p, h')"
      "p \<noteq> 0" "a \<noteq> 0" "p \<noteq> a" "adds {p, a} h h'" "cells h' p = Some (struct a)" "cells h' a = Some arr"
proof (cases rule: halloc_cases [OF wf, of Raw])
  case 1
  then have "alloc_with_array arr struct h = Inr (0, h\<lparr>next_addr := next_addr h + 1\<rparr>)"
    by (simp add: alloc_with_array_def hbind_def hret_def)
  then show ?thesis using that(1) 1 by blast
next
  case (2 h1)
  define p where "p = next_addr h"
  have p: "p \<noteq> 0" using wf_heap_next [OF wf] by (simp add: p_def)
  have first: "halloc Raw h = Inr (p, h1)" "adds {p} h h1" "next_addr h1 = p + 1" "refused h1 = refused h"
    using 2 adds_refused [OF 2(3)] by (simp_all add: p_def)
  show ?thesis
  proof (cases rule: halloc_cases [OF adds_wf [OF first(2)], of arr])
    case r: 1
    let ?h = "h1\<lparr>next_addr := next_addr h1 + 1\<rparr>"
    have a: "adds {p} h ?h" using adds_trans [OF first(2) r(3)] by simp
    have "hfree p ?h = Inr ((), release {p} ?h)" using adds_live [OF a] adds_wf [OF a] by (intro hfree_ok) simp_all
    then have "alloc_with_array arr struct h = Inr (0, release {p} ?h)"
      using first(1) r(2) p by (simp add: alloc_with_array_def hbind_def hret_def)
    then show ?thesis using that(1) [of "release {p} ?h"] adds_release [OF a, of "{p}"] r(1) first(3,4) by (simp add: p_def)
  next
    case s: (2 h2)
    define a where "a = next_addr h1"
    let ?h = "h2\<lparr>cells := (cells h2)(p \<mapsto> struct a)\<rparr>"
    have pa: "a \<noteq> 0" "p \<noteq> a" using first(3) by (simp_all add: a_def)
    have ad: "adds {p, a} h h2" using adds_trans [OF first(2) s(3)] by (simp add: a_def insert_commute)
    have "hstore p (struct a) h2 = Inr ((), ?h)" using adds_live [OF ad] by (intro hstore_apply) simp
    then have "alloc_with_array arr struct h = Inr (p, ?h)"
      using first(1) s(2) p pa by (simp add: alloc_with_array_def hbind_def hret_def a_def)
    moreover have "adds {p, a} h ?h" using ad by (rule adds_store) simp
    ultimately show ?thesis using that(2) [of p ?h a] p pa s(1,4) first(3,4) 2(1) by (simp add: p_def a_def)
  qed
qed

text \<open>The string at a pointer that may be NULL.\<close>

definition str_of :: "heap \<Rightarrow> addr \<Rightarrow> string option" where
  "str_of h p = (case cells h p of Some (CString s) \<Rightarrow> Some s | _ \<Rightarrow> None)"

definition unrefused :: "heap \<Rightarrow> bool" where
  "unrefused h \<longleftrightarrow> (\<forall>a \<ge> next_addr h. \<not> refused h a)"

lemma empty_heap_ok: "wf_heap empty_heap" "unrefused empty_heap" "live empty_heap = {}"
  by (simp_all add: empty_heap_def wf_heap_def unrefused_def live_def)

lemma unrefused_later: "unrefused h \<Longrightarrow> adds A h h' \<Longrightarrow> unrefused h'"
  by (auto simp: unrefused_def adds_def)

lemma str_of_kept: "adds A h h' \<Longrightarrow> p \<notin> A \<Longrightarrow> str_of h' p = str_of h p"
  by (simp add: str_of_def adds_old)

lemma str_of_later: "adds A h h' \<Longrightarrow> str_of h p = Some s \<Longrightarrow> str_of h' p = Some s"
  by (auto simp: str_of_def dest: adds_kept split: option.splits block.splits)

lemma str_of_fresh: "adds A h h' \<Longrightarrow> p = 0 \<or> p \<in> live h \<Longrightarrow> wf_heap h \<Longrightarrow> str_of h' p = str_of h p"
  using adds_old [of A h h' p] adds_fresh [of A h h' p] by (auto simp: str_of_def wf_heap_zero adds_wf)

lemma strdup_spec:
  assumes "wf_heap h"
  obtains q h1 where "strdup (Some s) h = Inr (q, h1)" "adds (set (nonnull [q])) h h1"
    "unrefused h \<Longrightarrow> str_of h1 q = Some s" "q = 0 \<longleftrightarrow> refused h (next_addr h)" "q \<noteq> 0 \<longrightarrow> cells h1 q = Some (CString s)"
proof (cases rule: halloc_cases [OF assms, of "CString s"])
  case 1
  show ?thesis by (rule that [of 0]) (use 1 in \<open>auto simp: strdup_def unrefused_def\<close>)
next
  case (2 h')
  show ?thesis
    by (rule that [of "next_addr h"]) (use 2 wf_heap_next [OF assms] in \<open>auto simp: strdup_def str_of_def\<close>)
qed

section \<open>The contract of owned data\<close>

text \<open>
  \<open>owned h p x\<close>: at \<open>p\<close> there is a structure with the layout \<open>x\<close>. Its destructor releases its
  footprint up to the blocks it loses.
\<close>

locale owned_data =
  fixes owned :: "heap \<Rightarrow> addr \<Rightarrow> 'x \<Rightarrow> bool"
    and foot :: "addr \<Rightarrow> 'x \<Rightarrow> addr set"
    and lost :: "addr \<Rightarrow> 'x \<Rightarrow> addr set"
    and destroy :: "addr \<Rightarrow> unit hm"
  assumes destroy_ok: "wf_heap h \<Longrightarrow> owned h p x \<Longrightarrow> destroy p h = Inr ((), release (foot p x - lost p x) h)"
    and lost_foot: "lost p x \<subseteq> foot p x"
    and owned_frame: "owned h p x \<Longrightarrow> (\<And>a. a \<in> foot p x \<Longrightarrow> cells h' a = cells h a) \<Longrightarrow> owned h' p x"
begin

lemma destroy_made:
  assumes "adds (foot p x \<union> A) h h'" "owned h' p x" "foot p x \<inter> A = {}"
  shows "\<exists>h2. destroy p h' = Inr ((), h2) \<and> adds (lost p x \<union> A) h h2"
proof -
  have "destroy p h' = Inr ((), release (foot p x - lost p x) h')"
    using assms(2) adds_wf [OF assms(1)] by (rule destroy_ok [rotated])
  moreover have "adds (foot p x \<union> A - (foot p x - lost p x)) h (release (foot p x - lost p x) h')"
    using assms(1) by (rule adds_release) auto
  moreover have "foot p x \<union> A - (foot p x - lost p x) = lost p x \<union> A" using lost_foot assms(3) by auto
  ultimately show ?thesis by auto
qed

lemma owned_later: "owned h1 p x \<Longrightarrow> foot p x \<subseteq> A \<Longrightarrow> adds A h h1 \<Longrightarrow> adds B h1 h2 \<Longrightarrow> owned h2 p x"
  using adds_cells by (blast intro: owned_frame)

end

end
