(* ===== verification/Heap_Data.thy ===== *)
theory Heap_Data
  imports Heap Dbhandler
begin

text \<open>
  \<^verbatim>\<open>src/src/datastructures.c\<close> and the lists built by \<^verbatim>\<open>src/src/dbhandler.c\<close> at the level of pointers: what
  is allocated, what each destructor frees, and that the values agree with the models of
  \<open>Datastructures\<close> and \<open>Dbhandler\<close>, which leave the heap out.
\<close>

section \<open>Entries and entry lists\<close>

definition load_entry :: "addr \<Rightarrow> hentry hm" where
  "load_entry p = hbind (hload p) (\<lambda>b. case b of EntryBlock e \<Rightarrow> hret e | _ \<Rightarrow> hfail UninitRead)"

definition load_list :: "addr \<Rightarrow> (nat \<times> nat \<times> addr) hm" where
  "load_list p = hbind (hload p) (\<lambda>b. case b of EntryListBlock n cap a \<Rightarrow> hret (n, cap, a) | _ \<Rightarrow> hfail UninitRead)"

definition load_entries :: "addr \<Rightarrow> hentry option list hm" where
  "load_entries a = hbind (hload a) (\<lambda>b. case b of EntryArray es \<Rightarrow> hret es | _ \<Rightarrow> hfail UninitRead)"

text \<open>The members that are not set are indeterminate, the argument \<open>junk\<close>.\<close>

definition h_entry_alloc :: "hentry \<Rightarrow> addr hm" where
  "h_entry_alloc junk =
     hbind (halloc Raw) (\<lambda>ptr.
       if ptr = 0 then hret 0
       else hbind (hstore ptr (EntryBlock (junk\<lparr>he_record_date := 0, he_location := 0, he_device_name := 0\<rparr>))) (\<lambda>_. hret ptr))"

text \<open>The entry is read through its pointer before each \<open>free\<close>.\<close>

definition entry_free :: "hentry hm \<Rightarrow> unit hm" where
  "entry_free ent =
     hbind ent (\<lambda>e. hbind (hfree (he_record_date e)) (\<lambda>_.
     hbind ent (\<lambda>e. hbind (hfree (he_location e)) (\<lambda>_.
     hbind ent (\<lambda>e. hfree (he_device_name e))))))"

definition entry_ptr_free :: "addr \<Rightarrow> unit hm" where
  "entry_ptr_free ent = hbind (entry_free (load_entry ent)) (\<lambda>_. hfree ent)"

definition h_entrylist_alloc :: "nat \<Rightarrow> addr hm" where
  "h_entrylist_alloc capacity =
     hbind (halloc Raw) (\<lambda>entp.
       if entp = 0 then hret 0
       else hbind (halloc (EntryArray (replicate capacity None))) (\<lambda>entries.
         if entries = 0 then hbind (hfree entp) (\<lambda>_. hret 0)
         else hbind (hstore entp (EntryListBlock 0 capacity entries)) (\<lambda>_. hret entp)))"

definition entrylist_free :: "addr \<Rightarrow> unit hm" where
  "entrylist_free listptr =
     hbind (load_list listptr) (\<lambda>(n, _, _).
     hbind (hfor [0..<n] (\<lambda>i. entry_free
              (hbind (load_list listptr) (\<lambda>(_, _, a). hbind (load_entries a) (\<lambda>es. load_slot es i))))) (\<lambda>_.
     hbind (load_list listptr) (\<lambda>(_, _, a). hbind (hfree a) (\<lambda>_. hfree listptr))))"

section \<open>Key/value lists\<close>

definition h_key_value_pair_emplace :: "string option \<Rightarrow> string option \<Rightarrow> (addr \<times> addr) hm" where
  "h_key_value_pair_emplace key value =
     hbind (if key \<noteq> None then strdup key else hret 0) (\<lambda>k.
     hbind (if value \<noteq> None then strdup value else hret 0) (\<lambda>v. hret (k, v)))"

definition key_value_pair_free :: "(addr \<times> addr) hm \<Rightarrow> unit hm" where
  "key_value_pair_free pair =
     hbind pair (\<lambda>(k, _). hbind (if k \<noteq> 0 then hfree k else hret ()) (\<lambda>_.
     hbind pair (\<lambda>(_, v). if v \<noteq> 0 then hfree v else hret ())))"

definition load_kvlist :: "addr \<Rightarrow> (nat \<times> nat \<times> addr) hm" where
  "load_kvlist p = hbind (hload p) (\<lambda>b. case b of KvListBlock n cap a \<Rightarrow> hret (n, cap, a) | _ \<Rightarrow> hfail UninitRead)"

definition load_pairs :: "addr \<Rightarrow> (addr \<times> addr) option list hm" where
  "load_pairs a = hbind (hload a) (\<lambda>b. case b of StrPairs ps \<Rightarrow> hret ps | _ \<Rightarrow> hfail UninitRead)"

definition h_key_value_list_alloc :: "nat \<Rightarrow> addr hm" where
  "h_key_value_list_alloc max_items =
     hbind (halloc Raw) (\<lambda>list.
       if list = 0 then hret 0
       else hbind (halloc (StrPairs (replicate max_items None))) (\<lambda>pairs.
         if pairs = 0 then hbind (hfree list) (\<lambda>_. hret 0)
         else hbind (hstore list (KvListBlock 0 max_items pairs)) (\<lambda>_. hret list)))"

definition key_value_list_free :: "addr \<Rightarrow> unit hm" where
  "key_value_list_free list =
     hbind (load_kvlist list) (\<lambda>(n, _, _).
     hbind (hfor [0..<n] (\<lambda>i. key_value_pair_free
              (hbind (load_kvlist list) (\<lambda>(_, _, a). hbind (load_pairs a) (\<lambda>ps. load_slot ps i))))) (\<lambda>_.
     hfree list))"

definition h_key_value_list_emplace :: "addr \<Rightarrow> string option \<Rightarrow> string option \<Rightarrow> int hm" where
  "h_key_value_list_emplace list key value =
     hbind (load_kvlist list) (\<lambda>(n, cap, a).
       if n + 1 > cap then hret (- 1)
       else hbind (h_key_value_pair_emplace key value) (\<lambda>kv.
            hbind (load_pairs a) (\<lambda>ps.
              if length ps \<le> n then hfail BufferOverflow
              else hbind (hstore a (StrPairs (ps[n := Some kv]))) (\<lambda>_.
                   hbind (hstore list (KvListBlock (n + 1) cap a)) (\<lambda>_. hret 1)))))"

section \<open>Lists built from the rows of a query\<close>

text \<open>The members of a slot are written one by one between the copies of the strings; nothing reads them in between.\<close>

fun h_fetch_rows :: "bool \<Rightarrow> addr \<Rightarrow> nat \<Rightarrow> sql_row list \<Rightarrow> nat hm" where
  "h_fetch_rows keep_native_unit list i [] = hret i"
| "h_fetch_rows keep_native_unit list i (row # rows) =
     hbind (load_list list) (\<lambda>(_, _, a).
     hbind (load_entries a) (\<lambda>es.
       if length es \<le> i then hfail BufferOverflow
       else hbind (strdup (column_text row 1)) (\<lambda>date.
            hbind (strdup (column_text row 4)) (\<lambda>loc.
            hbind (strdup (column_text row 5)) (\<lambda>dev.
              let t = fp_conv f32 (column_double row 2) in
              hbind (hstore a (EntryArray (es[i := Some
                \<lparr>he_id = column_int row 0, he_record_date = date,
                 he_temperature = (if keep_native_unit then t else RPIWD_CELSIUS_TO_FARENHEIT t),
                 he_humidity = fp_conv f32 (column_double row 3), he_location = loc, he_device_name = dev\<rparr>]))) (\<lambda>_.
              h_fetch_rows keep_native_unit list (i + 1) rows))))))"

definition h_exec_fetch_query ::
  "'db sqlite \<Rightarrow> 'db \<Rightarrow> string option \<Rightarrow> string option \<Rightarrow> bool \<Rightarrow> int option \<Rightarrow> (addr \<times> int option) hm" where
  "h_exec_fetch_query sq db countq selectq keep_native_unit errcode =
     (let count = exec_formatted_count_query sq db countq
      in if count > DBHANDLER_MAX_FETCHED_ENTRIES then hret (0, Some DBHANDLER_ERROR_TOO_MANY_ENTRIES)
         else hbind (h_entrylist_alloc count) (\<lambda>list.
                if list = 0 then hret (0, errcode)
                else if sql_prepare sq db selectq = SQLITE_OK then
                  hbind (h_fetch_rows keep_native_unit list 0 (sql_rows sq db selectq)) (\<lambda>i.
                  hbind (load_list list) (\<lambda>(_, cap, a).
                  hbind (hstore list (EntryListBlock i cap a)) (\<lambda>_.
                    hret (list, Some DBHANDLER_ERROR_SUCCESS))))
                else hbind (entrylist_free list) (\<lambda>_. hret (0, Some DBHANDLER_ERROR_SQL_ERROR))))"

fun h_kv_rows :: "addr \<Rightarrow> sql_row list \<Rightarrow> int option \<Rightarrow> int option hm" where
  "h_kv_rows kvlist [] errcode = hret errcode"
| "h_kv_rows kvlist (row # rows) errcode =
     hbind (h_key_value_list_emplace kvlist (column_text row 0) (column_text row 1)) (\<lambda>addflag.
       if addflag = 0 then hret (Some DBHANDLER_ERROR_NO_MEMORY) else h_kv_rows kvlist rows errcode)"

text \<open>Too many rows: the list that was allocated first is neither returned nor freed.\<close>

definition h_exec_key_value_query ::
  "'db sqlite \<Rightarrow> 'db \<Rightarrow> string option \<Rightarrow> string option \<Rightarrow> int option \<Rightarrow> (addr \<times> int option) hm" where
  "h_exec_key_value_query sq db countq selectq errcode =
     (let count = exec_formatted_count_query sq db countq
      in hbind (h_key_value_list_alloc count) (\<lambda>kvlist.
           if kvlist = 0 then hret (0, errcode)
           else if count > DBHANDLER_MAX_FETCHED_ENTRIES then hret (0, Some DBHANDLER_ERROR_TOO_MANY_ENTRIES)
           else if sql_prepare sq db selectq = SQLITE_OK then
             hbind (h_kv_rows kvlist (sql_rows sq db selectq) errcode) (\<lambda>ec. hret (kvlist, ec))
           else hret (kvlist, errcode)))"

section \<open>Destructors\<close>

abbreviation entry_ptrs :: "hentry \<Rightarrow> addr list" where
  "entry_ptrs \<equiv> field_ptrs [he_record_date, he_location, he_device_name]"

abbreviation pair_ptrs :: "addr \<times> addr \<Rightarrow> addr list" where
  "pair_ptrs \<equiv> field_ptrs [fst, snd]"

lemma entry_free_fields: "entry_free ent = hfor [he_record_date, he_location, he_device_name] (\<lambda>f. hbind ent (\<lambda>e. hfree (f e)))"
  by (simp add: entry_free_def hbind_assoc)

lemma pair_free_fields: "key_value_pair_free pair = hfor [fst, snd] (\<lambda>f. hbind pair (\<lambda>e. hfree (f e)))"
proof -
  have "(if k \<noteq> 0 then hfree k else hret ()) = hfree k" for k by (auto simp: hfree_def hret_def)
  then show ?thesis by (simp add: key_value_pair_free_def hbind_assoc case_prod_unfold)
qed

text \<open>The layout of an entry list: its array, its capacity, the entries in use and the slots after them.\<close>

type_synonym list_layout = "addr \<times> nat \<times> hentry list \<times> hentry option list"

fun list_ptrs :: "addr \<Rightarrow> list_layout \<Rightarrow> addr list" where
  "list_ptrs p (a, cap, es, free) = p # a # concat (map entry_ptrs es)"

fun list_owned :: "heap \<Rightarrow> addr \<Rightarrow> list_layout \<Rightarrow> bool" where
  "list_owned h p (a, cap, es, free) \<longleftrightarrow>
     cells h p = Some (EntryListBlock (length es) cap a) \<and> cells h a = Some (EntryArray (map Some es @ free)) \<and>
     length es + length free = cap \<and> distinct (list_ptrs p (a, cap, es, free)) \<and> set (list_ptrs p (a, cap, es, free)) \<subseteq> live h"

lemma entrylist_free_ok:
  assumes "wf_heap h" "list_owned h p x"
  shows "entrylist_free p h = Inr ((), release (set (list_ptrs p x)) h)"
proof -
  obtain a cap es fr where x: "x = (a, cap, es, fr)" by (cases x)
  let ?A = "set (concat (map entry_ptrs es))"
  let ?ent = "\<lambda>i. hbind (load_list p) (\<lambda>(_, _, a). hbind (load_entries a) (\<lambda>es. load_slot es i))"
  note own = assms(2) [unfolded x, simplified]
  have l: "load_list p (release C h) = Inr ((length es, cap, a), release C h)" if "p \<notin> C" for C
    using own that by (simp add: load_list_def heap_simps)
  have "hfor [0..<length es] (\<lambda>i. entry_free (?ent i)) h = Inr ((), release ?A h)"
    unfolding entry_free_fields
  proof (rule free_slots [OF assms(1)])
    fix i C assume "i < length es" "C \<subseteq> ?A"
    moreover from this own have "p \<notin> C" "a \<notin> C" by auto
    ultimately show "?ent i (release C h) = Inr (es ! i, release C h)"
      using own by (simp add: load_list_def load_entries_def load_slot_def heap_simps nth_append)
  qed (use own in auto)
  moreover have "hfree a (release ?A h) = Inr ((), release (?A \<union> {a}) h)"
    using hfree_ok [of a "release ?A h"] own assms(1) by auto
  moreover have "hfree p (release (?A \<union> {a}) h) = Inr ((), release (?A \<union> {a} \<union> {p}) h)"
    using hfree_ok [of p "release (?A \<union> {a}) h"] own assms(1) by auto
  ultimately show ?thesis using l [of "{}"] l [of ?A] own by (simp add: entrylist_free_def heap_simps x)
qed

lemma entry_ptr_free_ok:
  assumes "wf_heap h" "cells h p = Some (EntryBlock e)" "distinct (p # entry_ptrs e)" "set (p # entry_ptrs e) \<subseteq> live h"
  shows "entry_ptr_free p h = Inr ((), release (set (p # entry_ptrs e)) h)"
proof -
  have "load_entry p (release C h) = Inr (e, release C h)" if "C \<subseteq> set (entry_ptrs e)" for C
  proof -
    have "p \<notin> C" using that assms(3) by auto
    then show ?thesis using assms(2) by (simp add: load_entry_def heap_simps)
  qed
  then have "entry_free (load_entry p) h = Inr ((), release (set (entry_ptrs e)) h)"
    using free_fields [of h e "[he_record_date, he_location, he_device_name]" "load_entry p"] assms
    unfolding entry_free_fields field_ptrs_def by auto
  moreover have "hfree p (release (set (entry_ptrs e)) h) = Inr ((), release (set (entry_ptrs e) \<union> {p}) h)"
    using hfree_ok [of p "release (set (entry_ptrs e)) h"] assms by auto
  ultimately show ?thesis by (simp add: entry_ptr_free_def heap_simps)
qed

text \<open>The layout of a key/value list: its array, its capacity, the pairs in use and the slots after them.\<close>

type_synonym kv_layout = "addr \<times> nat \<times> (addr \<times> addr) list \<times> (addr \<times> addr) option list"

fun kv_ptrs :: "addr \<Rightarrow> kv_layout \<Rightarrow> addr list" where
  "kv_ptrs p (a, cap, ps, free) = p # a # concat (map pair_ptrs ps)"

fun kv_lost :: "addr \<Rightarrow> kv_layout \<Rightarrow> addr set" where
  "kv_lost p (a, cap, ps, free) = {a}"

fun kv_owned :: "heap \<Rightarrow> addr \<Rightarrow> kv_layout \<Rightarrow> bool" where
  "kv_owned h p (a, cap, ps, free) \<longleftrightarrow>
     cells h p = Some (KvListBlock (length ps) cap a) \<and> cells h a = Some (StrPairs (map Some ps @ free)) \<and>
     length ps + length free = cap \<and> distinct (kv_ptrs p (a, cap, ps, free)) \<and> set (kv_ptrs p (a, cap, ps, free)) \<subseteq> live h"

lemma key_value_list_free_ok:
  assumes "wf_heap h" "kv_owned h p x"
  shows "key_value_list_free p h = Inr ((), release (set (kv_ptrs p x) - kv_lost p x) h)"
proof -
  obtain a cap ps fr where x: "x = (a, cap, ps, fr)" by (cases x)
  let ?A = "set (concat (map pair_ptrs ps))"
  let ?ent = "\<lambda>i. hbind (load_kvlist p) (\<lambda>(_, _, a). hbind (load_pairs a) (\<lambda>ps. load_slot ps i))"
  note own = assms(2) [unfolded x, simplified]
  have "hfor [0..<length ps] (\<lambda>i. key_value_pair_free (?ent i)) h = Inr ((), release ?A h)"
    unfolding pair_free_fields
  proof (rule free_slots [OF assms(1)])
    fix i C assume "i < length ps" "C \<subseteq> ?A"
    moreover from this own have "p \<notin> C" "a \<notin> C" by auto
    ultimately show "?ent i (release C h) = Inr (ps ! i, release C h)"
      using own by (simp add: load_kvlist_def load_pairs_def load_slot_def heap_simps nth_append)
  qed (use own in auto)
  moreover have "hfree p (release ?A h) = Inr ((), release (?A \<union> {p}) h)"
    using hfree_ok [of p "release ?A h"] own assms(1) by auto
  moreover have "load_kvlist p h = Inr ((length ps, cap, a), h)" using own by (simp add: load_kvlist_def heap_simps)
  moreover have "set (kv_ptrs p x) - kv_lost p x = ?A \<union> {p}" using own by (auto simp: x)
  ultimately show ?thesis by (simp add: key_value_list_free_def heap_simps)
qed

section \<open>Constructors\<close>

lemma list_alloc_array: "h_entrylist_alloc cap = alloc_with_array (EntryArray (replicate cap None)) (EntryListBlock 0 cap)"
  by (simp add: h_entrylist_alloc_def alloc_with_array_def)

lemma kv_alloc_array: "h_key_value_list_alloc n = alloc_with_array (StrPairs (replicate n None)) (KvListBlock 0 n)"
  by (simp add: h_key_value_list_alloc_def alloc_with_array_def)

text \<open>A list under construction: the struct does not yet say how many slots are in use.\<close>

fun list_filled :: "heap \<Rightarrow> addr \<Rightarrow> list_layout \<Rightarrow> bool" where
  "list_filled h p (a, cap, es, free) \<longleftrightarrow>
     cells h p = Some (EntryListBlock 0 cap a) \<and> cells h a = Some (EntryArray (map Some es @ free)) \<and>
     length es + length free = cap \<and> distinct (list_ptrs p (a, cap, es, free))"

definition entry_val :: "heap \<Rightarrow> hentry \<Rightarrow> entry" where
  "entry_val h e = \<lparr>entry_id = he_id e, record_date = str_of h (he_record_date e), temperature = he_temperature e,
     humidity = he_humidity e, location = str_of h (he_location e), device_name = str_of h (he_device_name e)\<rparr>"

lemma entry_val_later: "adds A h h' \<Longrightarrow> wf_heap h \<Longrightarrow> set (entry_ptrs e) \<subseteq> live h \<Longrightarrow> entry_val h' e = entry_val h e"
  by (auto simp: entry_val_def field_ptrs_def str_of_fresh split: if_splits)

lemma entry_val_store: "a \<notin> set (entry_ptrs e) \<Longrightarrow> a \<noteq> 0 \<Longrightarrow> entry_val (h\<lparr>cells := (cells h)(a \<mapsto> b)\<rparr>) e = entry_val h e"
  by (auto simp: entry_val_def field_ptrs_def str_of_def split: if_splits)

lemma row_strings:
  assumes "wf_heap h"
  obtains d h1 l h2 v h3 where "strdup (Some s1) h = Inr (d, h1)" "strdup (Some s2) h1 = Inr (l, h2)" "strdup (Some s3) h2 = Inr (v, h3)"
    "adds (set (nonnull [d, l, v])) h h3" "distinct (nonnull [d, l, v])"
    "unrefused h \<Longrightarrow> str_of h3 d = Some s1 \<and> str_of h3 l = Some s2 \<and> str_of h3 v = Some s3"
proof -
  obtain d h1 where d: "strdup (Some s1) h = Inr (d, h1)" "adds (set (nonnull [d])) h h1" "unrefused h \<Longrightarrow> str_of h1 d = Some s1"
    using strdup_spec [OF assms] by metis
  obtain l h2 where l: "strdup (Some s2) h1 = Inr (l, h2)" "adds (set (nonnull [l])) h1 h2" "unrefused h1 \<Longrightarrow> str_of h2 l = Some s2"
    using strdup_spec [OF adds_wf [OF d(2)]] by metis
  obtain v h3 where v: "strdup (Some s3) h2 = Inr (v, h3)" "adds (set (nonnull [v])) h2 h3" "unrefused h2 \<Longrightarrow> str_of h3 v = Some s3"
    using strdup_spec [OF adds_wf [OF l(2)]] by metis
  have dl: "adds (set (nonnull [d, l])) h h2" using adds_trans [OF d(2) l(2)] by (simp add: insert_commute split: if_splits)
  have "adds (set (nonnull [d, l, v])) h h3" using adds_trans [OF dl v(2)] by (auto simp: insert_commute split: if_splits)
  moreover have "distinct (nonnull [d, l, v])" using adds_disjoint [OF d(2) l(2)] adds_disjoint [OF dl v(2)] by auto
  moreover have "unrefused h \<Longrightarrow> str_of h3 d = Some s1 \<and> str_of h3 l = Some s2 \<and> str_of h3 v = Some s3"
    using d(2,3) l(2,3) v(2,3) by (meson str_of_later unrefused_later)
  ultimately show ?thesis using that d(1) l(1) v(1) by blast
qed

text \<open>One more entry, whose strings are the only new blocks.\<close>

lemma list_filled_snoc:
  assumes "adds (set (list_ptrs p (a, cap, es, f # free))) h0 h" "list_filled h p (a, cap, es, f # free)"
    and "adds (set (entry_ptrs e)) h h3" "distinct (entry_ptrs e)"
  defines "h4 \<equiv> h3\<lparr>cells := (cells h3)(a \<mapsto> EntryArray (map Some (es @ [e]) @ free))\<rparr>"
  shows "adds (set (list_ptrs p (a, cap, es @ [e], free))) h0 h4" "list_filled h4 p (a, cap, es @ [e], free)"
    "\<And>q. q \<noteq> a \<Longrightarrow> cells h4 q = cells h3 q"
proof -
  have "adds (set (list_ptrs p (a, cap, es @ [e], free))) h0 h3"
    using adds_trans [OF assms(1,3)] by (simp add: Un_ac insert_commute)
  then show "adds (set (list_ptrs p (a, cap, es @ [e], free))) h0 h4" unfolding h4_def by (rule adds_store) simp
  have "set (list_ptrs p (a, cap, es, f # free)) \<inter> set (entry_ptrs e) = {}" using adds_disjoint [OF assms(1,3)] .
  then show "list_filled h4 p (a, cap, es @ [e], free)"
    using assms(2,4) adds_kept [OF assms(3), of p] by (auto simp: h4_def)
qed (simp add: h4_def)

text \<open>One round of the loop when there is a slot left and no text of the row is NULL.\<close>

lemma fetch_row_step:
  assumes "adds (set (list_ptrs p (a, cap, es, f # fs))) h0 h" "list_filled h p (a, cap, es, f # fs)"
    and t: "column_text row 1 = Some s1" "column_text row 4 = Some s2" "column_text row 5 = Some s3"
  obtains e h4 where "\<And>rows. h_fetch_rows keep p (length es) (row # rows) h = h_fetch_rows keep p (length (es @ [e])) rows h4"
    "adds (set (list_ptrs p (a, cap, es @ [e], fs))) h0 h4" "list_filled h4 p (a, cap, es @ [e], fs)"
    "\<And>x. x \<in> set es \<Longrightarrow> entry_val h4 x = entry_val h x" "unrefused h \<Longrightarrow> unrefused h4 \<and> row_entry keep row = Inr (entry_val h4 e)"
proof -
  note own = assms(2) [simplified]
  have wf: "wf_heap h" using assms(1) by (rule adds_wf)
  have ll: "load_list p h = Inr ((0, cap, a), h)" "load_entries a h = Inr (map Some es @ f # fs, h)"
    using own by (simp_all add: load_list_def load_entries_def heap_simps)
  have a0: "a \<noteq> 0" using own wf_heap_zero(2) [OF wf] by (metis option.distinct(1))
  obtain d h1 l h2 v h3 where s: "strdup (Some s1) h = Inr (d, h1)" "strdup (Some s2) h1 = Inr (l, h2)" "strdup (Some s3) h2 = Inr (v, h3)"
    "adds (set (nonnull [d, l, v])) h h3" "distinct (nonnull [d, l, v])"
    "unrefused h \<Longrightarrow> str_of h3 d = Some s1 \<and> str_of h3 l = Some s2 \<and> str_of h3 v = Some s3"
    using row_strings [OF wf, of s1 s2 s3] by metis
  let ?t = "fp_conv f32 (column_double row 2)"
  define e where "e = \<lparr>he_id = column_int row 0, he_record_date = d,
     he_temperature = (if keep then ?t else RPIWD_CELSIUS_TO_FARENHEIT ?t),
     he_humidity = fp_conv f32 (column_double row 3), he_location = l, he_device_name = v\<rparr>"
  define h4 where "h4 = h3\<lparr>cells := (cells h3)(a \<mapsto> EntryArray (map Some (es @ [e]) @ fs))\<rparr>"
  have ep: "entry_ptrs e = nonnull [d, l, v]" by (simp add: e_def field_ptrs_def)
  note snoc = list_filled_snoc [OF assms(1,2), of e h3, unfolded ep, OF s(4,5), folded ep h4_def]
  have upd: "(map Some es @ f # fs)[length es := Some e] = map Some (es @ [e]) @ fs" by (simp add: list_update_append)
  have st: "hstore a (EntryArray (map Some (es @ [e]) @ fs)) h3 = Inr ((), h4)"
    using own adds_kept [OF s(4), of a] by (simp add: hstore_def live_def domIff h4_def)
  show ?thesis
  proof (rule that [OF _ snoc(1,2)])
    show "h_fetch_rows keep p (length es) (row # rows) h = h_fetch_rows keep p (length (es @ [e])) rows h4" for rows
      using ll s(1-3) upd st by (simp add: t heap_simps Let_def e_def [symmetric] Suc_eq_plus1 [symmetric] del: One_nat_def split del: if_split)
    show "entry_val h4 x = entry_val h x" if "x \<in> set es" for x
    proof -
      have "a \<notin> set (entry_ptrs x)" "set (entry_ptrs x) \<subseteq> live h" using own that adds_live [OF assms(1)] by auto
      then show ?thesis using a0 entry_val_store [of a x h3] entry_val_later [OF s(4) wf, of x] by (simp add: h4_def)
    qed
    have "a \<notin> set (entry_ptrs e)" using adds_disjoint [OF assms(1) s(4)] unfolding ep by auto
    then have "entry_val h4 e = entry_val h3 e" unfolding h4_def using a0 by (rule entry_val_store)
    then show "unrefused h4 \<and> row_entry keep row = Inr (entry_val h4 e)" if "unrefused h"
      using s(6) [OF that] unrefused_later [OF that s(4)]
      by (simp add: h4_def unrefused_def row_entry_def deref_def t entry_val_def e_def Let_def del: One_nat_def)
  qed
qed

lemma h_fetch_rows_spec:
  assumes "adds (set (list_ptrs p (a, cap, es, free))) h0 h" "list_filled h p (a, cap, es, free)"
  shows "case h_fetch_rows keep p (length es) rows h of
      Inl e \<Rightarrow> fetch_rows keep cap (length es) rows = Inl e
    | Inr (i, h') \<Rightarrow> \<exists>new free'. i = length (es @ new) \<and> adds (set (list_ptrs p (a, cap, es @ new, free'))) h0 h' \<and>
        list_filled h' p (a, cap, es @ new, free') \<and> (\<forall>e \<in> set es. entry_val h' e = entry_val h e) \<and>
        (unrefused h \<longrightarrow> fetch_rows keep cap (length es) rows = Inr (map (entry_val h') new))"
  using assms
proof (induction rows arbitrary: es free h)
  case Nil
  then show ?case by (auto simp: heap_simps intro: exI [of _ "[]"])
next
  case (Cons row rows)
  note own = Cons(3) [simplified]
  have ll: "load_list p h = Inr ((0, cap, a), h)" "load_entries a h = Inr (map Some es @ free, h)"
    using own by (simp_all add: load_list_def load_entries_def heap_simps)
  show ?case
  proof (cases "free = [] \<or> column_text row 1 = None \<or> column_text row 4 = None \<or> column_text row 5 = None")
    case True
    then show ?thesis using own ll
      by (auto simp: hbind_def heap_simps strdup_def halloc_def row_entry_def deref_def split: option.splits)
  next
    case False
    then obtain f fs s1 s2 s3 where t: "free = f # fs" "column_text row 1 = Some s1" "column_text row 4 = Some s2" "column_text row 5 = Some s3"
      by (cases free) auto
    obtain e h4 where step: "\<And>rows. h_fetch_rows keep p (length es) (row # rows) h = h_fetch_rows keep p (length (es @ [e])) rows h4"
      and snoc: "adds (set (list_ptrs p (a, cap, es @ [e], fs))) h0 h4" "list_filled h4 p (a, cap, es @ [e], fs)"
      and old: "\<And>x. x \<in> set es \<Longrightarrow> entry_val h4 x = entry_val h x"
      and row: "unrefused h \<Longrightarrow> unrefused h4 \<and> row_entry keep row = Inr (entry_val h4 e)"
      using fetch_row_step [OF Cons(2,3) [unfolded t(1)] t(2-4), of keep] by metis
    note IH = Cons(1) [OF snoc]
    obtain r where r: "row_entry keep row = Inr r" by (simp add: row_entry_def deref_def t Let_def del: One_nat_def)
    have cap: "length es < cap" using own t(1) by simp
    show ?thesis
    proof (cases "h_fetch_rows keep p (length (es @ [e])) rows h4")
      case (Inl err)
      then show ?thesis using IH r cap unfolding step by simp
    next
      case (Inr ih)
      then obtain i h' new free' where IH': "ih = (i, h')" "i = length ((es @ [e]) @ new)"
        "adds (set (list_ptrs p (a, cap, (es @ [e]) @ new, free'))) h0 h'" "list_filled h' p (a, cap, (es @ [e]) @ new, free')"
        "\<forall>x \<in> set (es @ [e]). entry_val h' x = entry_val h4 x"
        "unrefused h4 \<longrightarrow> fetch_rows keep cap (length (es @ [e])) rows = Inr (map (entry_val h') new)"
        using IH by (cases ih) auto
      have assoc: "(es @ [e]) @ new = es @ (e # new)" by simp
      have "unrefused h \<longrightarrow> fetch_rows keep cap (length es) (row # rows) = Inr (map (entry_val h') (e # new))"
        using IH'(5,6) row cap by simp
      moreover have "\<forall>x \<in> set es. entry_val h' x = entry_val h x" using IH'(5) old by simp
      ultimately show ?thesis using IH'(2-4) unfolding step Inr IH'(1) sum.case prod.case assoc by blast
    qed
  qed
qed

interpretation el: owned_data list_owned "\<lambda>p x. set (list_ptrs p x)" "\<lambda>_ _. {}" entrylist_free
proof
  fix h h' :: heap and p and x :: list_layout
  assume "list_owned h p x" "\<And>a. a \<in> set (list_ptrs p x) \<Longrightarrow> cells h' a = cells h a"
  then show "list_owned h' p x" by (cases x) (auto simp: live_def subset_iff domIff)
qed (simp_all add: entrylist_free_ok)

interpretation kvl: owned_data kv_owned "\<lambda>p x. set (kv_ptrs p x)" kv_lost key_value_list_free
proof
  fix h h' :: heap and p and x :: kv_layout
  assume "kv_owned h p x" "\<And>a. a \<in> set (kv_ptrs p x) \<Longrightarrow> cells h' a = cells h a"
  then show "kv_owned h' p x" by (cases x) (auto simp: live_def subset_iff domIff)
next
  fix p and x :: kv_layout show "kv_lost p x \<subseteq> set (kv_ptrs p x)" by (cases x) auto
qed (rule key_value_list_free_ok)

section \<open>Fetching and freeing\<close>

lemma list_filled_sized:
  assumes "adds (set (list_ptrs p (a, cap, es, free))) h0 h" "list_filled h p (a, cap, es, free)"
  shows "load_list p h = Inr ((0, cap, a), h)"
    "\<exists>h'. hstore p (EntryListBlock (length es) cap a) h = Inr ((), h') \<and> adds (set (list_ptrs p (a, cap, es, free))) h0 h' \<and>
       list_owned h' p (a, cap, es, free) \<and> (\<forall>e \<in> set es. entry_val h' e = entry_val h e)"
proof -
  let ?h = "h\<lparr>cells := (cells h)(p \<mapsto> EntryListBlock (length es) cap a)\<rparr>"
  show "load_list p h = Inr ((0, cap, a), h)" using assms(2) by (simp add: load_list_def heap_simps)
  have ad: "adds (set (list_ptrs p (a, cap, es, free))) h0 ?h" using assms(1) by (rule adds_store) simp
  have "p \<noteq> 0" using assms(2) wf_heap_zero(2) [OF adds_wf [OF assms(1)]] by (cases "p = 0") simp_all
  then have "\<forall>e \<in> set es. entry_val ?h e = entry_val h e" using assms(2) by (auto intro!: entry_val_store)
  moreover have "hstore p (EntryListBlock (length es) cap a) h = Inr ((), ?h)" using adds_live [OF assms(1)] by (intro hstore_apply) simp
  moreover have "list_owned ?h p (a, cap, es, free)" using assms(2) adds_live [OF ad] by auto
  ultimately show "\<exists>h'. hstore p (EntryListBlock (length es) cap a) h = Inr ((), h') \<and> adds (set (list_ptrs p (a, cap, es, free))) h0 h' \<and>
       list_owned h' p (a, cap, es, free) \<and> (\<forall>e \<in> set es. entry_val h' e = entry_val h e)" using ad by blast
qed

text \<open>The rows are copied into the new list, which is then given its size.\<close>

lemma fetch_prepared:
  assumes "adds (set (list_ptrs p (a, n, [], replicate n None))) h h1" "list_filled h1 p (a, n, [], replicate n None)"
    and m_def: "m = hbind (h_fetch_rows keep p 0 rows) (\<lambda>i. hbind (load_list p) (\<lambda>(_, cap, a).
    hbind (hstore p (EntryListBlock i cap a)) (\<lambda>_. hret (p, Some DBHANDLER_ERROR_SUCCESS))))"
  obtains (ub) e where "m h1 = Inl e" "fetch_rows keep n 0 rows = Inl e"
  | (filled) es free h' where "m h1 = Inr ((p, Some DBHANDLER_ERROR_SUCCESS), h')" "adds (set (list_ptrs p (a, n, es, free))) h h'"
      "list_owned h' p (a, n, es, free)" "unrefused h1 \<Longrightarrow> fetch_rows keep n 0 rows = Inr (map (entry_val h') es)"
proof -
  note run = h_fetch_rows_spec [OF assms(1,2), of keep rows]
  show ?thesis
  proof (cases "h_fetch_rows keep p 0 rows h1")
    case (Inl e)
    then show ?thesis using run ub by (simp add: m_def heap_simps)
  next
    case (Inr ih)
    then obtain i h2 es free where es: "ih = (i, h2)" "i = length es" "adds (set (list_ptrs p (a, n, es, free))) h h2"
      "list_filled h2 p (a, n, es, free)" "unrefused h1 \<longrightarrow> fetch_rows keep n 0 rows = Inr (map (entry_val h2) es)"
      using run by (cases ih) auto
    obtain h3 where h3: "hstore p (EntryListBlock (length es) n a) h2 = Inr ((), h3)" "adds (set (list_ptrs p (a, n, es, free))) h h3"
      "list_owned h3 p (a, n, es, free)" "\<forall>e \<in> set es. entry_val h3 e = entry_val h2 e"
      using list_filled_sized(2) [OF es(3,4)] by blast
    have "m h1 = Inr ((p, Some DBHANDLER_ERROR_SUCCESS), h3)"
      using Inr es(1,2) h3(1) list_filled_sized(1) [OF es(3,4)] by (simp add: m_def heap_simps)
    then show ?thesis using filled [OF _ h3(2,3)] es(5) h3(4) by (auto cong: map_cong)
  qed
qed

text \<open>What the fetch returns: NULL with the heap as it was, or a list that owns exactly the new blocks.\<close>

lemma h_exec_fetch_query_spec:
  assumes wf: "wf_heap h"
  shows "case h_exec_fetch_query sq db countq selectq keep ec h of
      Inl e \<Rightarrow> exec_fetch_query sq (refused h (next_addr h)) (refused h (next_addr h + 1)) db countq selectq keep ec = Inl e
    | Inr ((p, ec'), h') \<Rightarrow>
        (if p = 0 then adds {} h h' \<and>
           exec_fetch_query sq (refused h (next_addr h)) (refused h (next_addr h + 1)) db countq selectq keep ec = Inr (None, ec')
         else \<exists>a cap es free. adds (set (list_ptrs p (a, cap, es, free))) h h' \<and> list_owned h' p (a, cap, es, free) \<and>
           (unrefused h \<longrightarrow> exec_fetch_query sq False False db countq selectq keep ec =
              Inr (Some \<lparr>el_size = length es, el_capacity = cap, el_entries = map (entry_val h') es\<rparr>, ec')))"
proof -
  define n where "n = exec_formatted_count_query sq db countq"
  note defs = h_exec_fetch_query_def exec_fetch_query_def list_alloc_array heap_simps n_def [symmetric] entrylist_alloc_def
  show ?thesis
  proof (cases "n > DBHANDLER_MAX_FETCHED_ENTRIES")
    case True
    then show ?thesis using adds_refl [OF wf] by (simp add: defs)
  next
    case small: False
    show ?thesis
    proof (cases rule: alloc_with_array_cases [OF wf, of "EntryArray (replicate n None)" "EntryListBlock 0 n"])
      case (1 h')
      then show ?thesis using small by (auto simp: defs)
    next
      case (2 p a h1)
      let ?x = "(a, n, [], replicate n None) :: list_layout"
      have x: "adds (set (list_ptrs p ?x)) h h1" "list_filled h1 p ?x" "list_owned h1 p ?x"
        using 2(6-9) adds_live [OF 2(7)] by simp_all
      show ?thesis
      proof (cases "sql_prepare sq db selectq = SQLITE_OK")
        case False
        then show ?thesis using el.destroy_made [of p ?x "{}" h h1] x small 2(1-4) by (auto simp: defs)
      next
        case True
        note ready = True small 2(1-4) unrefused_later [OF _ 2(7)]
        show ?thesis
          by (cases rule: fetch_prepared [OF x(1,2) refl, of keep "sql_rows sq db selectq"])
             (use ready in \<open>simp_all add: defs del: list_owned.simps list_ptrs.simps, blast\<close>)
      qed
    qed
  qed
qed

section \<open>Key/value lists: emplacing\<close>

definition pair_val :: "heap \<Rightarrow> addr \<times> addr \<Rightarrow> key_value_pair" where
  "pair_val h kv = \<lparr>kv_key = str_of h (fst kv), kv_value = str_of h (snd kv)\<rparr>"

lemma pair_val_later: "adds A h h' \<Longrightarrow> wf_heap h \<Longrightarrow> set (pair_ptrs kv) \<subseteq> live h \<Longrightarrow> pair_val h' kv = pair_val h kv"
  by (auto simp: pair_val_def field_ptrs_def str_of_fresh split: if_splits)

lemma pair_val_store: "a \<notin> set (pair_ptrs kv) \<Longrightarrow> a \<noteq> 0 \<Longrightarrow> pair_val (h\<lparr>cells := (cells h)(a \<mapsto> b)\<rparr>) kv = pair_val h kv"
  by (auto simp: pair_val_def field_ptrs_def str_of_def split: if_splits)

lemma optional_strdup:
  assumes "wf_heap h"
  obtains q h1 where "(if so \<noteq> None then strdup so else hret 0) h = Inr (q, h1)" "adds (set (nonnull [q])) h h1"
    "unrefused h \<Longrightarrow> str_of h1 q = so" "so = None \<Longrightarrow> q = 0" "q \<noteq> 0 \<Longrightarrow> str_of h1 q \<noteq> None"
proof (cases so)
  case None
  show ?thesis
    by (rule that [of 0 h]) (use None assms in \<open>auto simp: heap_simps adds_refl str_of_def wf_heap_zero\<close>)
next
  case (Some s)
  obtain q h1 where "strdup (Some s) h = Inr (q, h1)" "adds (set (nonnull [q])) h h1" "unrefused h \<Longrightarrow> str_of h1 q = Some s"
    "q \<noteq> 0 \<longrightarrow> cells h1 q = Some (CString s)"
    using strdup_spec [OF assms] by metis
  then show ?thesis using that [of q h1] Some by (simp add: str_of_def)
qed

lemma h_key_value_pair_emplace_spec:
  assumes "wf_heap h"
  obtains kv h1 where "h_key_value_pair_emplace key value h = Inr (kv, h1)" "adds (set (pair_ptrs kv)) h h1" "distinct (pair_ptrs kv)"
    "unrefused h \<Longrightarrow> pair_val h1 kv = key_value_pair_emplace key value" "key = None \<Longrightarrow> fst kv = 0" "value = None \<Longrightarrow> snd kv = 0"
    "\<forall>r \<in> set (pair_ptrs kv). str_of h1 r \<noteq> None"
proof -
  obtain k h1 where k: "(if key \<noteq> None then strdup key else hret 0) h = Inr (k, h1)" "adds (set (nonnull [k])) h h1"
    "unrefused h \<Longrightarrow> str_of h1 k = key" "key = None \<Longrightarrow> k = 0" "k \<noteq> 0 \<Longrightarrow> str_of h1 k \<noteq> None" using optional_strdup [OF assms] by metis
  obtain v h2 where v: "(if value \<noteq> None then strdup value else hret 0) h1 = Inr (v, h2)" "adds (set (nonnull [v])) h1 h2"
    "unrefused h1 \<Longrightarrow> str_of h2 v = value" "value = None \<Longrightarrow> v = 0" "v \<noteq> 0 \<Longrightarrow> str_of h2 v \<noteq> None" using optional_strdup [OF adds_wf [OF k(2)]] by metis
  have "h_key_value_pair_emplace key value h = Inr ((k, v), h2)"
    using k(1) v(1) unfolding h_key_value_pair_emplace_def by (simp only: heap_simps)
  moreover have "adds (set (pair_ptrs (k, v))) h h2" using adds_trans [OF k(2) v(2)] by (simp add: field_ptrs_def insert_commute split: if_splits)
  moreover have "distinct (pair_ptrs (k, v))" using adds_disjoint [OF k(2) v(2)] by (auto simp: field_ptrs_def)
  moreover have old: "str_of h2 k = str_of h1 k"
    using str_of_fresh [OF v(2) _ adds_wf [OF k(2)], of k] adds_live [OF k(2)] by (auto split: if_splits)
  moreover have "pair_val h2 (k, v) = key_value_pair_emplace key value" if "unrefused h"
  proof -
    show ?thesis using old k(3) v(3) that unrefused_later [OF that k(2)] by (simp add: pair_val_def key_value_pair_emplace_def)
  qed
  moreover have "\<forall>r \<in> set (pair_ptrs (k, v)). str_of h2 r \<noteq> None" using k(5) v(5) old by (simp add: field_ptrs_def)
  ultimately show ?thesis using that [of "(k, v)" h2] k(4) v(4) by simp
qed

text \<open>The value of the list at a pointer.\<close>

fun kv_layout_val :: "heap \<Rightarrow> kv_layout \<Rightarrow> key_value_list" where
  "kv_layout_val h (a, cap, ps, free) = \<lparr>kl_length = length ps, kl_capacity = cap, kl_pairs = map (pair_val h) ps\<rparr>"

lemma h_key_value_list_emplace_spec:
  assumes "adds (set (kv_ptrs p x)) h0 h" "kv_owned h p x"
  obtains r h' x' where "h_key_value_list_emplace p key value h = Inr (r, h')" "adds (set (kv_ptrs p x')) h0 h'" "kv_owned h' p x'"
    "r \<noteq> 0" "kv_lost p x' = kv_lost p x"
    "unrefused h \<Longrightarrow> (r, kv_layout_val h' x') = key_value_list_emplace (kv_layout_val h x) key value" "unrefused h \<Longrightarrow> unrefused h'"
proof -
  obtain a cap ps free where x: "x = (a, cap, ps, free)" by (cases x)
  note own = assms(2) [unfolded x, simplified]
  have ld: "load_kvlist p h = Inr ((length ps, cap, a), h)" using own by (simp add: load_kvlist_def heap_simps)
  show ?thesis
  proof (cases free)
    case Nil
    then show ?thesis using that [of "- 1" h x] assms ld own by (simp add: h_key_value_list_emplace_def heap_simps x key_value_list_emplace_def)
  next
    case (Cons f fs)
    have wf: "wf_heap h" using assms(1) by (rule adds_wf)
    obtain kv h1 where kv: "h_key_value_pair_emplace key value h = Inr (kv, h1)" "adds (set (pair_ptrs kv)) h h1" "distinct (pair_ptrs kv)"
      "unrefused h \<Longrightarrow> pair_val h1 kv = key_value_pair_emplace key value"
      using h_key_value_pair_emplace_spec [OF wf] by metis
    let ?x = "(a, cap, ps @ [kv], fs) :: kv_layout"
    define h2 where "h2 = h1\<lparr>cells := (cells h1)(a \<mapsto> StrPairs (map Some (ps @ [kv]) @ fs))\<rparr>"
    define h3 where "h3 = h2\<lparr>cells := (cells h2)(p \<mapsto> KvListBlock (length ps + 1) cap a)\<rparr>"
    have sep: "set (kv_ptrs p x) \<inter> set (pair_ptrs kv) = {}" using adds_disjoint [OF assms(1) kv(2)] .
    have grown: "adds (set (kv_ptrs p ?x)) h0 h1" using adds_trans [OF assms(1) kv(2)] by (simp add: x Un_ac insert_commute)
    then have a3: "adds (set (kv_ptrs p ?x)) h0 h3" unfolding h3_def h2_def by (intro adds_store) simp_all
    have cells: "cells h1 p = cells h p" "cells h1 a = cells h a" using adds_old [OF kv(2)] sep by (auto simp: x)
    have zero: "p \<noteq> 0" "a \<noteq> 0" using own wf_heap_zero(2) [OF wf] by (cases "p = 0"; cases "a = 0"; simp)+
    have upd: "(map Some ps @ f # fs)[length ps := Some kv] = map Some (ps @ [kv]) @ fs" by (simp add: list_update_append)
    have run: "h_key_value_list_emplace p key value h = Inr (1, h3)"
      using ld kv(1) own cells upd Cons
      by (simp add: h_key_value_list_emplace_def load_pairs_def heap_simps hstore_def live_def domIff h2_def h3_def)
    have "pair_val h3 q = pair_val h1 q" if "q \<in> set (ps @ [kv])" for q
    proof -
      have "p \<notin> set (pair_ptrs q)" "a \<notin> set (pair_ptrs q)" using that own sep by (auto simp: x)
      then show ?thesis unfolding h3_def h2_def using zero by (simp only: pair_val_store simp_thms)
    qed
    moreover have "pair_val h1 q = pair_val h q" if "q \<in> set ps" for q
      using that adds_live [OF assms(1)] by (intro pair_val_later [OF kv(2) wf]) (auto simp: x)
    ultimately have "(1, kv_layout_val h3 ?x) = key_value_list_emplace (kv_layout_val h x) key value" if "unrefused h"
      using kv(4) [OF that] own Cons by (simp add: x key_value_list_emplace_def)
    moreover have "kv_owned h3 p ?x" using own sep kv(3) adds_live [OF a3] Cons by (auto simp: h3_def h2_def x)
    moreover have "unrefused h3" if "unrefused h" using unrefused_later [OF that kv(2)] by (simp add: h3_def h2_def unrefused_def)
    ultimately show ?thesis using that [of 1 h3 ?x] run a3 by (simp add: x)
  qed
qed


lemma h_kv_rows_spec:
  assumes "adds (set (kv_ptrs p x)) h0 h" "kv_owned h p x"
  obtains h' x' where "h_kv_rows p rows ec h = Inr (ec, h')" "adds (set (kv_ptrs p x')) h0 h'" "kv_owned h' p x'"
    "kv_lost p x' = kv_lost p x" "unrefused h \<Longrightarrow> (kv_layout_val h' x', ec) = kv_rows (kv_layout_val h x) rows ec"
  using assms
proof (induction rows arbitrary: h x thesis)
  case (Cons row rows)
  obtain r h1 x1 where e: "h_key_value_list_emplace p (column_text row 0) (column_text row 1) h = Inr (r, h1)"
    "adds (set (kv_ptrs p x1)) h0 h1" "kv_owned h1 p x1" "r \<noteq> 0" "kv_lost p x1 = kv_lost p x"
    "unrefused h \<Longrightarrow> (r, kv_layout_val h1 x1) = key_value_list_emplace (kv_layout_val h x) (column_text row 0) (column_text row 1)"
    "unrefused h \<Longrightarrow> unrefused h1"
    using h_key_value_list_emplace_spec [OF Cons(3,4)] by metis
  obtain h' x' where r: "h_kv_rows p rows ec h1 = Inr (ec, h')" "adds (set (kv_ptrs p x')) h0 h'" "kv_owned h' p x'"
    "kv_lost p x' = kv_lost p x1" "unrefused h1 \<Longrightarrow> (kv_layout_val h' x', ec) = kv_rows (kv_layout_val h1 x1) rows ec"
    using Cons(1) [OF _ e(2,3)] by metis
  show ?case
  proof (rule Cons(2))
    show "h_kv_rows p (row # rows) ec h = Inr (ec, h')" using e(1,4) r(1) by (simp add: heap_simps)
    show "(kv_layout_val h' x', ec) = kv_rows (kv_layout_val h x) (row # rows) ec" if "unrefused h"
      using e(4,6,7) r(5) that by (simp split: prod.split) (metis prod.inject)
  qed (use r(2-4) e(5) in simp_all)
qed (auto simp: heap_simps)

text \<open>The list of a query, or NULL: because memory ran out, with nothing kept, or because there are too many rows,
  with the empty list left behind.\<close>

lemma h_exec_key_value_query_spec:
  assumes wf: "wf_heap h"
  obtains (null) h' where "h_exec_key_value_query sq db countq selectq ec h = Inr ((0, ec), h')" "adds {} h h'"
    "refused h (next_addr h) \<or> refused h (next_addr h + 1)"
  | (many) h' p a n where "h_exec_key_value_query sq db countq selectq ec h = Inr ((0, Some DBHANDLER_ERROR_TOO_MANY_ENTRIES), h')"
      "adds {p, a} h h'" "p \<noteq> a" "n > DBHANDLER_MAX_FETCHED_ENTRIES" "exec_formatted_count_query sq db countq = n"
  | (found) p x h' where "h_exec_key_value_query sq db countq selectq ec h = Inr ((p, ec), h')" "p \<noteq> 0"
      "adds (set (kv_ptrs p x)) h h'" "kv_owned h' p x" "exec_formatted_count_query sq db countq \<le> DBHANDLER_MAX_FETCHED_ENTRIES"
      "unrefused h \<Longrightarrow> exec_key_value_query sq False False db countq selectq ec = (Some (kv_layout_val h' x), ec)"
proof -
  define n where "n = exec_formatted_count_query sq db countq"
  show ?thesis
  proof (cases rule: alloc_with_array_cases [OF wf, of "StrPairs (replicate n None)" "KvListBlock 0 n"])
    case (1 h')
    then show ?thesis using null by (simp add: h_exec_key_value_query_def kv_alloc_array heap_simps n_def [symmetric])
  next
    case (2 p a h1)
    let ?x = "(a, n, [], replicate n None) :: kv_layout"
    have x: "adds (set (kv_ptrs p ?x)) h h1" "kv_owned h1 p ?x" using 2(6-9) adds_live [OF 2(7)] by simp_all
    consider "n > DBHANDLER_MAX_FETCHED_ENTRIES" | "n \<le> DBHANDLER_MAX_FETCHED_ENTRIES" "sql_prepare sq db selectq = SQLITE_OK"
      | "n \<le> DBHANDLER_MAX_FETCHED_ENTRIES" "sql_prepare sq db selectq \<noteq> SQLITE_OK" by linarith
    then show ?thesis
    proof cases
      case c: 1
      then show ?thesis using many [of h1 p a n] 2 by (simp add: h_exec_key_value_query_def kv_alloc_array heap_simps n_def [symmetric])
    next
      case c: 2
      obtain h' x' where r: "h_kv_rows p (sql_rows sq db selectq) ec h1 = Inr (ec, h')" "adds (set (kv_ptrs p x')) h h'" "kv_owned h' p x'"
        "unrefused h1 \<Longrightarrow> (kv_layout_val h' x', ec) = kv_rows (kv_layout_val h1 ?x) (sql_rows sq db selectq) ec"
        using h_kv_rows_spec [OF x] by metis
      show ?thesis
      proof (rule found [of p h' x'])
        show "exec_key_value_query sq False False db countq selectq ec = (Some (kv_layout_val h' x'), ec)" if "unrefused h"
          using r(4) [OF unrefused_later [OF that 2(7)]] c
          by (simp add: exec_key_value_query_def n_def [symmetric] key_value_list_alloc_def split: prod.split) (metis prod.inject)
      qed (use c r 2 in \<open>simp_all add: h_exec_key_value_query_def kv_alloc_array heap_simps n_def [symmetric]\<close>)
    next
      case c: 3
      show ?thesis
        by (rule found [of p h1 ?x])
           (use c x 2 in \<open>simp_all add: h_exec_key_value_query_def exec_key_value_query_def kv_alloc_array key_value_list_alloc_def heap_simps n_def [symmetric]\<close>)
    qed
  qed
qed

section \<open>Properties\<close>

text \<open>The list at a pointer.\<close>

definition list_val :: "heap \<Rightarrow> addr \<Rightarrow> entrylist option" where
  "list_val h p =
     (case cells h p of
        Some (EntryListBlock n cap a) \<Rightarrow>
          (case cells h a of
             Some (EntryArray es) \<Rightarrow> Some \<lparr>el_size = n, el_capacity = cap, el_entries = map (\<lambda>e. entry_val h (the e)) (take n es)\<rparr>
           | _ \<Rightarrow> None)
      | _ \<Rightarrow> None)"

lemma list_val_owned: "list_owned h p (a, cap, es, free) \<Longrightarrow>
    list_val h p = Some \<lparr>el_size = length es, el_capacity = cap, el_entries = map (entry_val h) es\<rparr>"
  by (simp add: list_val_def)

lemma sample_fetch:
  "\<exists>p ec' h1. h_exec_fetch_query (sample_sql 1 [sample_row 1]) [] (Some ''count'') (Some ''select'') True None empty_heap = Inr ((p, ec'), h1) \<and> p \<noteq> 0"
proof -
  let ?run = "h_exec_fetch_query (sample_sql 1 [sample_row 1]) [] (Some ''count'') (Some ''select'') True None empty_heap"
  have "\<exists>l ec'. exec_fetch_query (sample_sql 1 [sample_row 1]) False False [] (Some ''count'') (Some ''select'') True None = Inr (Some l, ec')"
    by (simp add: exec_fetch_query_def exec_formatted_count_query_def sample_db_defs SQLITE_OK_def DBHANDLER_MAX_FETCHED_ENTRIES_def
        entrylist_alloc_def row_entry_def deref_def)
  then show ?thesis using h_exec_fetch_query_spec [OF empty_heap_ok(1), of "sample_sql 1 [sample_row 1]" "[]" "Some ''count''" "Some ''select''" True None]
    by (cases ?run) (auto simp: empty_heap_def split: if_splits)
qed

text \<open>C16. The fetch on the heap implements the fetch on values: with memory to spare it has the same
  undefined behaviour, the same error code, NULL exactly where the model has no list, and otherwise a
  pointer at which the very list of the model can be read.\<close>
theorem fetch_heap_refines:
  assumes "wf_heap h" "unrefused h"
  shows "case h_exec_fetch_query sq db countq selectq keep ec h of
      Inl e \<Rightarrow> exec_fetch_query sq False False db countq selectq keep ec = Inl e
    | Inr ((p, ec'), h') \<Rightarrow> \<exists>l. exec_fetch_query sq False False db countq selectq keep ec = Inr (l, ec') \<and>
        (case l of None \<Rightarrow> p = 0 | Some el \<Rightarrow> p \<noteq> 0 \<and> list_val h' p = Some el)"
proof -
  have none: "\<not> refused h (next_addr h)" "\<not> refused h (next_addr h + 1)" using assms(2) by (simp_all add: unrefused_def)
  note spec = h_exec_fetch_query_spec [OF assms(1), of sq db countq selectq keep ec] none assms(2)
  show ?thesis
  proof (cases "h_exec_fetch_query sq db countq selectq keep ec h")
    case (Inr r)
    obtain p ec' h' where r: "r = ((p, ec'), h')" by (cases r) auto
    show ?thesis
    proof (cases "p = 0")
      case True
      then show ?thesis using spec Inr r by auto
    next
      case False
      then obtain a cap es free where l: "list_owned h' p (a, cap, es, free)"
        "exec_fetch_query sq False False db countq selectq keep ec = Inr (Some \<lparr>el_size = length es, el_capacity = cap, el_entries = map (entry_val h') es\<rparr>, ec')"
        using spec Inr r by auto
      then show ?thesis using False Inr r list_val_owned [OF l(1)] by simp
    qed
  qed (use spec in simp)
qed

theorem fetch_heap_refines_witness:
  "case h_exec_fetch_query (sample_sql 1 [sample_row 1]) [] (Some ''count'') (Some ''select'') True None empty_heap of
      Inl e \<Rightarrow> exec_fetch_query (sample_sql 1 [sample_row 1]) False False [] (Some ''count'') (Some ''select'') True None = Inl e
    | Inr ((p, ec'), h') \<Rightarrow> \<exists>l. exec_fetch_query (sample_sql 1 [sample_row 1]) False False [] (Some ''count'') (Some ''select'') True None = Inr (l, ec') \<and>
        (case l of None \<Rightarrow> p = 0 | Some el \<Rightarrow> p \<noteq> 0 \<and> list_val h' p = Some el)"
  using empty_heap_ok(1,2) by (rule fetch_heap_refines)

text \<open>C17. A fetched list is given back completely: whatever the query yields and whichever allocations are
  refused, freeing the list of a fetch that returned leaves every cell of the heap as it was before the fetch,
  and where NULL was returned there is nothing to free. No string is freed twice and none is forgotten.\<close>
theorem fetched_list_released:
  assumes "wf_heap h" "h_exec_fetch_query sq db countq selectq keep ec h = Inr ((p, ec'), h1)"
  shows "\<exists>h2. (if p = 0 then hret () else entrylist_free p) h1 = Inr ((), h2) \<and> cells h2 = cells h"
proof (cases "p = 0")
  case True
  then show ?thesis using h_exec_fetch_query_spec [OF assms(1), of sq db countq selectq keep ec] assms(2)
    by (auto simp: heap_simps dest: adds_empty)
next
  case False
  then obtain x where "adds (set (list_ptrs p x)) h h1" "list_owned h1 p x"
    using h_exec_fetch_query_spec [OF assms(1), of sq db countq selectq keep ec] assms(2) by auto
  then show ?thesis using el.destroy_made [of p x "{}" h h1] False by (auto dest: adds_empty)
qed

theorem fetched_list_released_witness:
  "\<exists>p ec' h1 h2. h_exec_fetch_query (sample_sql 1 [sample_row 1]) [] (Some ''count'') (Some ''select'') True None empty_heap = Inr ((p, ec'), h1) \<and>
     p \<noteq> 0 \<and> entrylist_free p h1 = Inr ((), h2) \<and> cells h2 = Map.empty"
proof -
  obtain p ec' h1 where r: "h_exec_fetch_query (sample_sql 1 [sample_row 1]) [] (Some ''count'') (Some ''select'') True None empty_heap = Inr ((p, ec'), h1)" "p \<noteq> 0"
    using sample_fetch by blast
  then show ?thesis using fetched_list_released [OF empty_heap_ok(1) r(1)] by (auto simp: empty_heap_def)
qed

text \<open>C36. The list of a key/value query is not: its destructor frees the pairs and the struct and leaves exactly one
  fresh block behind, the array of pairs, on every heap and whichever allocations are refused.\<close>
theorem key_value_list_array_lost:
  assumes "wf_heap h" "h_exec_key_value_query sq db countq selectq ec h = Inr ((p, ec'), h1)" "p \<noteq> 0"
  shows "\<exists>a ps h2. key_value_list_free p h1 = Inr ((), h2) \<and> live h2 = live h \<union> {a} \<and> a \<notin> live h \<and>
    cells h2 a = Some (StrPairs ps) \<and> (\<forall>x \<in> live h. cells h2 x = cells h x)"
proof (cases rule: h_exec_key_value_query_spec [OF assms(1), of sq db countq selectq ec])
  case (3 q x h')
  then have q: "adds (set (kv_ptrs p x)) h h1" "kv_owned h1 p x" using assms(2) by simp_all
  obtain a cap ps free where x: "x = (a, cap, ps, free)" by (cases x)
  obtain h2 where h2: "key_value_list_free p h1 = Inr ((), h2)" "adds {a} h h2"
    using kvl.destroy_made [of p x "{}" h h1] q by (auto simp: x)
  have "cells h2 a = cells h1 a"
    using h2(1) key_value_list_free_ok [OF adds_wf [OF q(1)] q(2)] by (auto simp: x)
  then show ?thesis using h2 q(2) adds_effect [OF h2(2)] by (auto simp: x)
qed (use assms in auto)

theorem key_value_list_array_lost_witness:
  "\<exists>p ec' h1 a ps h2. h_exec_key_value_query (sample_sql 1 [sample_row 1]) [] (Some ''count'') (Some ''select'') None empty_heap = Inr ((p, ec'), h1) \<and>
     p \<noteq> 0 \<and> key_value_list_free p h1 = Inr ((), h2) \<and> live h2 = {a} \<and> cells h2 a = Some (StrPairs ps)"
proof -
  have "exec_formatted_count_query (sample_sql 1 [sample_row 1]) [] (Some ''count'') = 1"
    by (simp add: exec_formatted_count_query_def sample_db_defs SQLITE_OK_def)
  then have "\<exists>p ec' h1. h_exec_key_value_query (sample_sql 1 [sample_row 1]) [] (Some ''count'') (Some ''select'') None empty_heap = Inr ((p, ec'), h1) \<and> p \<noteq> 0"
    by (cases rule: h_exec_key_value_query_spec [OF empty_heap_ok(1), of "sample_sql 1 [sample_row 1]" "[]" "Some ''count''" "Some ''select''" None])
       (auto simp: empty_heap_def DBHANDLER_MAX_FETCHED_ENTRIES_def)
  then show ?thesis using key_value_list_array_lost [OF empty_heap_ok(1)] empty_heap_ok(3) by (metis Un_empty_left)
qed

text \<open>When there are more rows than may be fetched, the list that was allocated before the check is lost as a whole.\<close>
theorem too_many_rows_lost:
  assumes "wf_heap h" "unrefused h" "exec_formatted_count_query sq db countq > DBHANDLER_MAX_FETCHED_ENTRIES"
  shows "\<exists>p a h1. h_exec_key_value_query sq db countq selectq ec h = Inr ((0, Some DBHANDLER_ERROR_TOO_MANY_ENTRIES), h1) \<and>
    p \<noteq> a \<and> live h1 = live h \<union> {p, a} \<and> live h \<inter> {p, a} = {}"
proof (cases rule: h_exec_key_value_query_spec [OF assms(1), of sq db countq selectq ec])
  case (2 h' p a n)
  then show ?thesis using adds_effect [OF 2(2)] by blast
next
  case (3 p x h')
  then show ?thesis using assms(3) by simp
qed (use assms in \<open>auto simp: unrefused_def\<close>)

theorem too_many_rows_lost_witness:
  "\<exists>p a h1. h_exec_key_value_query (sample_sql 4096 []) [] (Some ''count'') (Some ''select'') None empty_heap =
      Inr ((0, Some DBHANDLER_ERROR_TOO_MANY_ENTRIES), h1) \<and> p \<noteq> a \<and> live h1 = live empty_heap \<union> {p, a} \<and> live empty_heap \<inter> {p, a} = {}"
  by (rule too_many_rows_lost [OF empty_heap_ok(1,2)])
     (simp add: exec_formatted_count_query_def sample_db_defs SQLITE_OK_def DBHANDLER_MAX_FETCHED_ENTRIES_def)

end
