(* ===== verification/Heap_Http.thy ===== *)
theory Heap_Http
  imports Heap_Data Http
begin

text \<open>
  The request parser of \<^verbatim>\<open>src/src/http.c\<close> at the level of pointers: the line, the command with its name,
  the array of parameters and their strings, and what \<open>http_cmd_free\<close> gives back of them.
\<close>

section \<open>Freeing a command\<close>

definition load_cmd :: "addr \<Rightarrow> (addr \<times> addr option \<times> nat option) hm" where
  "load_cmd p = hbind (hload p) (\<lambda>b. case b of CmdBlock nm arr len \<Rightarrow> hret (nm, arr, len) | _ \<Rightarrow> hfail UninitRead)"

text \<open>Reading a member of the struct that may not be set yet.\<close>

definition hget :: "'a option \<Rightarrow> 'a hm" where
  "hget v = (case v of None \<Rightarrow> hfail UninitRead | Some x \<Rightarrow> hret x)"

definition load_params :: "addr \<Rightarrow> (addr \<times> addr) option list hm" where
  "load_params cmd = hbind (load_cmd cmd) (\<lambda>(_, params, _). hbind (hget params) load_pairs)"

definition http_cmd_param_free :: "(addr \<times> addr) hm \<Rightarrow> unit hm" where
  "http_cmd_param_free ptr =
     hbind ptr (\<lambda>(name, _). hbind (hfree name) (\<lambda>_. hbind ptr (\<lambda>(_, value). hfree value)))"

definition http_cmd_free :: "addr \<Rightarrow> unit hm" where
  "http_cmd_free ptr =
     hbind (load_cmd ptr) (\<lambda>(_, _, len). hbind (hget len) (\<lambda>n.
     hbind (hfor [0..<n] (\<lambda>i. http_cmd_param_free (hbind (load_params ptr) (\<lambda>ps. load_slot ps i)))) (\<lambda>_.
     hbind (load_cmd ptr) (\<lambda>(_, params, _). hbind (hget params) (\<lambda>a.
     hbind (if a \<noteq> 0 then hfree a else hret ()) (\<lambda>_. hfree ptr))))))"

text \<open>Closing the socket is an effect of the worker and not part of the heap.\<close>

definition end_response :: "addr \<Rightarrow> unit hm" where
  "end_response cmd = (if cmd \<noteq> 0 then http_cmd_free cmd else hret ())"

section \<open>Parsing a request\<close>

definition h_rpiwd_getline :: "string \<Rightarrow> string \<Rightarrow> addr hm" where
  "h_rpiwd_getline line newline =
     (case rpiwd_getline False line newline of None \<Rightarrow> hret 0 | Some l \<Rightarrow> halloc (CString l))"

definition h_parse_http_param :: "string option \<Rightarrow> (addr \<times> addr) hm" where
  "h_parse_http_param paramstr =
     hbind (hlift (deref paramstr)) (\<lambda>local.
       case strtok ''='' local of (part, saveptr) \<Rightarrow>
         hbind (if part \<noteq> None then strdup part else hret 0) (\<lambda>name.
         let part1 = fst (strtok ''='' saveptr) in
         hbind (if part1 \<noteq> None then strdup part1 else hret 0) (\<lambda>value. hret (name, value))))"

text \<open>\<open>cmd->params[i] = param\<close>\<close>

definition store_param :: "addr \<Rightarrow> nat \<Rightarrow> addr \<times> addr \<Rightarrow> unit hm" where
  "store_param cmd i param =
     hbind (load_cmd cmd) (\<lambda>(_, params, _). hbind (hget params) (\<lambda>a. hbind (load_pairs a) (\<lambda>ps.
       if length ps \<le> i then hfail BufferOverflow else hstore a (StrPairs (ps[i := Some param])))))"

function h_parse_params :: "addr \<Rightarrow> nat \<Rightarrow> string option \<Rightarrow> string \<Rightarrow> nat hm" where
  "h_parse_params cmd cmd_iter part saveptr =
     hbind (h_parse_http_param part) (\<lambda>p.
     hbind (store_param cmd cmd_iter p) (\<lambda>_.
       case strtok ''&'' saveptr of
         (None, _) \<Rightarrow> hret (cmd_iter + 1)
       | (Some part', saveptr') \<Rightarrow> h_parse_params cmd (cmd_iter + 1) (Some part') saveptr'))"
  by pat_completeness auto
termination h_parse_params
  by (relation "measure (\<lambda>(cmd, i, part, saveptr). length saveptr)")
     (auto simp: eq_commute [of "(Some _, _)"] dest: strtok_length)

declare h_parse_params.simps [simp del]

text \<open>\<open>cmd->length = n\<close> and \<open>cmd->params = a\<close>\<close>

definition set_length :: "addr \<Rightarrow> nat \<Rightarrow> unit hm" where
  "set_length cmd n = hbind (load_cmd cmd) (\<lambda>(name, params, _). hstore cmd (CmdBlock name params (Some n)))"

definition set_params :: "addr \<Rightarrow> addr \<Rightarrow> unit hm" where
  "set_params cmd a = hbind (load_cmd cmd) (\<lambda>(name, _, len). hstore cmd (CmdBlock name (Some a) len))"

text \<open>\<open>realloc\<close> to fewer slots; to none it frees the array.\<close>

definition realloc_pairs :: "addr \<Rightarrow> nat \<Rightarrow> addr hm" where
  "realloc_pairs a n =
     (if n = 0 then hbind (hfree a) (\<lambda>_. hret 0)
      else hbind (load_pairs a) (\<lambda>ps. hbind (halloc (StrPairs (take n ps))) (\<lambda>b.
             if b = 0 then hret 0 else hbind (hfree a) (\<lambda>_. hret b))))"

text \<open>The names the duplicate check compares; a NULL name is \<open>None\<close>.\<close>

fun read_names :: "addr \<Rightarrow> nat list \<Rightarrow> string option list hm" where
  "read_names cmd [] = hret []"
| "read_names cmd (i # is) =
     hbind (load_params cmd) (\<lambda>ps. hbind (load_slot ps i) (\<lambda>(n, _).
     hbind (load_string n) (\<lambda>name. hbind (read_names cmd is) (\<lambda>rest. hret (name # rest)))))"

definition h_check_duplicates :: "addr \<Rightarrow> int \<Rightarrow> (addr \<times> int) hm" where
  "h_check_duplicates cmd response =
     hbind (load_cmd cmd) (\<lambda>(_, _, len). hbind (hget len) (\<lambda>n.
     hbind (read_names cmd [0..<n]) (\<lambda>names.
     let ps = map (\<lambda>s. \<lparr>p_name = s, p_value = None\<rparr>) names in
     hbind (hlift (has_duplicate \<lparr>cmdname = [], cmd_length = n, params = ps\<rparr> ps)) (\<lambda>dup.
       if dup then hbind (http_cmd_free cmd) (\<lambda>_. hret (0, HTTP_PARSER_ERROR_DUPLICATE_PARAMS))
       else hret (cmd, response)))))"

text \<open>The arguments are parsed into the array of the command; the result says whether the command is still there.\<close>

definition h_fill_params :: "addr \<Rightarrow> string \<Rightarrow> nat \<Rightarrow> bool hm" where
  "h_fill_params cmd args actual_count =
     (if actual_count = 0 then
        hbind (h_parse_http_param (Some args)) (\<lambda>p. hbind (store_param cmd 0 p) (\<lambda>_.
          hbind (set_length cmd (if fst p \<noteq> 0 then 1 else 0)) (\<lambda>_. hret True)))
      else
        (case strtok ''&'' args of (part, saveptr) \<Rightarrow>
           hbind (h_parse_params cmd 0 part saveptr) (\<lambda>cmd_iter.
             if cmd_iter - 1 \<noteq> actual_count then
               hbind (set_length cmd (cmd_iter - 1)) (\<lambda>_.
               hbind (load_cmd cmd) (\<lambda>(_, arr, _). hbind (hget arr) (\<lambda>old.
               hbind (realloc_pairs old (cmd_iter - 1)) (\<lambda>b. hbind (set_params cmd b) (\<lambda>_.
                 if b = 0 then hbind (http_cmd_free cmd) (\<lambda>_. hret False) else hret True)))))
             else hbind (set_length cmd cmd_iter) (\<lambda>_. hret True))))"

text \<open>The command for a request line that was broken up: \<open>commandstr\<close> and \<open>args\<close> are arrays of the caller.\<close>

definition h_build_cmd :: "string \<Rightarrow> string \<Rightarrow> int \<Rightarrow> (addr \<times> int) hm" where
  "h_build_cmd commandstr args response =
     hbind (halloc Raw) (\<lambda>cmd.
       if cmd = 0 then hret (0, HTTP_PARSER_ERROR_NO_MEMORY)
       else hbind (strdup (Some commandstr)) (\<lambda>name.
         hbind (hstore cmd (CmdBlock name None None)) (\<lambda>_.
           if name = 0 then hret (0, HTTP_PARSER_ERROR_NO_MEMORY)
           else let actual_count = count_list args (CHR ''&'') in
             hbind (halloc (StrPairs (replicate (actual_count + 1) None))) (\<lambda>a.
             hbind (set_params cmd a) (\<lambda>_.
               if a = 0 then hbind (hfree cmd) (\<lambda>_. hret (0, HTTP_PARSER_ERROR_NO_MEMORY))
               else hbind (h_fill_params cmd args actual_count) (\<lambda>ok.
                      if ok then h_check_duplicates cmd response else hret (0, HTTP_PARSER_ERROR_NO_MEMORY)))))))"

definition h_parse_http_request :: "string \<Rightarrow> int \<Rightarrow> (addr \<times> int) hm" where
  "h_parse_http_request request response =
     hbind (h_rpiwd_getline request [CHR 0x0D, CHR 0x0A]) (\<lambda>line.
     if line = 0 then hret (0, response)
     else hbind (load_string line) (\<lambda>l. hbind (hlift (deref l)) (\<lambda>url.
          hbind (hlift (break_request url)) (\<lambda>(bflag, http_proto, args, commandstr).
            if bflag < 0 then hret (0, bflag)
            else if http_proto \<noteq> ''HTTP/1.1'' \<and> http_proto \<noteq> ''HTTP/1.0'' then hret (0, HTTP_PARSER_ERROR_WRONG_PROTOCOL)
            else h_build_cmd commandstr args response))))"

section \<open>What \<open>http_cmd_free\<close> releases\<close>

text \<open>The layout of a command: its name, its array, the parameters in use and the slots after them.\<close>

type_synonym cmd_layout = "addr \<times> addr \<times> (addr \<times> addr) list \<times> (addr \<times> addr) option list"

fun cmd_ptrs :: "addr \<Rightarrow> cmd_layout \<Rightarrow> addr list" where
  "cmd_ptrs p (name, a, ps, free) = p # name # a # concat (map pair_ptrs ps)"

fun cmd_lost :: "addr \<Rightarrow> cmd_layout \<Rightarrow> addr set" where
  "cmd_lost p (name, a, ps, free) = {name}"

text \<open>\<open>len\<close> is what the struct says about its length.\<close>

fun cmd_shape :: "heap \<Rightarrow> addr \<Rightarrow> nat option \<Rightarrow> cmd_layout \<Rightarrow> bool" where
  "cmd_shape h p len (name, a, ps, free) \<longleftrightarrow>
     cells h p = Some (CmdBlock name (Some a) len) \<and> cells h a = Some (StrPairs (map Some ps @ free)) \<and>
     (\<exists>s. cells h name = Some (CString s)) \<and> (\<forall>r \<in> set (concat (map pair_ptrs ps)). str_of h r \<noteq> None) \<and> distinct (cmd_ptrs p (name, a, ps, free)) \<and> set (cmd_ptrs p (name, a, ps, free)) \<subseteq> live h"

definition cmd_owned :: "heap \<Rightarrow> addr \<Rightarrow> cmd_layout \<Rightarrow> bool" where
  "cmd_owned h p x \<longleftrightarrow> cmd_shape h p (Some (length (fst (snd (snd x))))) x"

lemma param_free_fields: "http_cmd_param_free ptr = hfor [fst, snd] (\<lambda>f. hbind ptr (\<lambda>e. hfree (f e)))"
  by (simp add: http_cmd_param_free_def hbind_assoc case_prod_unfold)

lemma http_cmd_free_ok:
  assumes "wf_heap h" "cmd_owned h p x"
  shows "http_cmd_free p h = Inr ((), release (set (cmd_ptrs p x) - cmd_lost p x) h)"
proof -
  obtain name a ps fr where x: "x = (name, a, ps, fr)" by (cases x)
  let ?A = "set (concat (map pair_ptrs ps))"
  let ?ent = "\<lambda>i. hbind (load_params p) (\<lambda>ps. load_slot ps i)"
  note own = assms(2) [unfolded x cmd_owned_def, simplified]
  have cmd: "load_cmd p (release C h) = Inr ((name, Some a, Some (length ps)), release C h)" if "p \<notin> C" for C
    using own that by (simp add: load_cmd_def heap_simps)
  have "hfor [0..<length ps] (\<lambda>i. http_cmd_param_free (?ent i)) h = Inr ((), release ?A h)"
    unfolding param_free_fields
  proof (rule free_slots [OF assms(1)])
    fix i C assume "i < length ps" "C \<subseteq> ?A"
    moreover from this own have "p \<notin> C" "a \<notin> C" by auto
    ultimately show "?ent i (release C h) = Inr (ps ! i, release C h)"
      using own cmd [of C] by (simp add: load_params_def hget_def load_pairs_def load_slot_def heap_simps nth_append)
  qed (use own in auto)
  moreover have "hfree a (release ?A h) = Inr ((), release (?A \<union> {a}) h)"
    using hfree_ok [of a "release ?A h"] own assms(1) by auto
  moreover have "hfree p (release (?A \<union> {a}) h) = Inr ((), release (?A \<union> {a} \<union> {p}) h)"
    using hfree_ok [of p "release (?A \<union> {a}) h"] own assms(1) by auto
  moreover have "a \<noteq> 0" using own wf_heap_zero(1) [OF assms(1)] by auto
  moreover have "set (cmd_ptrs p x) - cmd_lost p x = ?A \<union> {a} \<union> {p}" using own by (auto simp: x)
  ultimately show ?thesis using cmd [of "{}"] cmd [of ?A] own by (simp add: http_cmd_free_def hget_def heap_simps)
qed

interpretation hc: owned_data cmd_owned "\<lambda>p x. set (cmd_ptrs p x)" cmd_lost http_cmd_free
proof
  fix h h' :: heap and p and x :: cmd_layout
  assume own: "cmd_owned h p x" and same: "\<And>a. a \<in> set (cmd_ptrs p x) \<Longrightarrow> cells h' a = cells h a"
  have "str_of h' r = str_of h r" if "r \<in> set (cmd_ptrs p x)" for r using same [OF that] by (simp add: str_of_def)
  then show "cmd_owned h' p x" using own same
    by (cases x) (auto simp: cmd_owned_def live_def subset_iff domIff simp del: not_None_eq)
next
  fix p and x :: cmd_layout show "cmd_lost p x \<subseteq> set (cmd_ptrs p x)" by (cases x) auto
qed (rule http_cmd_free_ok)


section \<open>Building a command\<close>

definition param_val :: "heap \<Rightarrow> addr \<times> addr \<Rightarrow> http_cmd_param" where
  "param_val h nv = \<lparr>p_name = str_of h (fst nv), p_value = str_of h (snd nv)\<rparr>"

lemma param_val_pair: "param_val h nv = \<lparr>p_name = kv_key (pair_val h nv), p_value = kv_value (pair_val h nv)\<rparr>"
  by (simp add: param_val_def pair_val_def)

lemma h_parse_http_param_pair:
  "h_parse_http_param (Some s) = h_key_value_pair_emplace (fst (strtok ''='' s)) (fst (strtok ''='' (snd (strtok ''='' s))))"
  by (simp add: h_parse_http_param_def h_key_value_pair_emplace_def hlift_def deref_def hbind_def fun_eq_iff split: prod.split)

lemma h_parse_http_param_spec:
  assumes "wf_heap h"
  obtains kv h1 where "h_parse_http_param (Some s) h = Inr (kv, h1)" "adds (set (pair_ptrs kv)) h h1" "distinct (pair_ptrs kv)"
    "\<And>i. unrefused h \<Longrightarrow> parse_http_param (\<lambda>_. False) i (Some s) = Inr (param_val h1 kv)"
    "unrefused h \<Longrightarrow> fst kv = 0 \<Longrightarrow> snd kv = 0" "unrefused h \<Longrightarrow> fst kv = 0 \<longleftrightarrow> p_name (param_val h1 kv) = None"
    "\<forall>r \<in> set (pair_ptrs kv). str_of h1 r \<noteq> None"
proof -
  let ?k = "fst (strtok ''='' s)" and ?v = "fst (strtok ''='' (snd (strtok ''='' s)))"
  obtain kv h1 where kv: "h_parse_http_param (Some s) h = Inr (kv, h1)" "adds (set (pair_ptrs kv)) h h1" "distinct (pair_ptrs kv)"
    "unrefused h \<Longrightarrow> pair_val h1 kv = key_value_pair_emplace (fst (strtok ''='' s)) (fst (strtok ''='' (snd (strtok ''='' s))))"
    "?k = None \<Longrightarrow> fst kv = 0" "?v = None \<Longrightarrow> snd kv = 0" "\<forall>r \<in> set (pair_ptrs kv). str_of h1 r \<noteq> None"
    using h_key_value_pair_emplace_spec [OF assms] unfolding h_parse_http_param_pair by metis
  have zero: "cells h1 0 = None" using adds_wf [OF kv(2)] by (rule wf_heap_zero)
  have none: "?k = None \<longleftrightarrow> fst kv = 0" if "unrefused h"
    using kv(4) [OF that] kv(5) zero by (cases kv) (auto simp: pair_val_def key_value_pair_emplace_def str_of_def)
  have "?v = None" if "?k = None" using that strtok_None [of "''=''" s] by (cases "strtok ''='' s") (auto simp: strtok_def)
  show ?thesis
  proof (rule that [OF kv(1-3) _ _ _ kv(7)])
    show "snd kv = 0" if "unrefused h" "fst kv = 0" using none that kv(6) \<open>?k = None \<Longrightarrow> ?v = None\<close> by auto
    show "fst kv = 0 \<longleftrightarrow> p_name (param_val h1 kv) = None" if "unrefused h"
      using none kv(4) that by (simp add: param_val_pair key_value_pair_emplace_def)
    show "parse_http_param (\<lambda>_. False) i (Some s) = Inr (param_val h1 kv)" if "unrefused h" for i
      using kv(4) [OF that] by (simp add: param_val_pair key_value_pair_emplace_def parse_http_param_def deref_def split: prod.split)
  qed
qed

text \<open>The next free slot is filled with a parameter whose strings are new.\<close>

lemma store_param_spec:
  assumes "adds (set (cmd_ptrs p (name, a, ps, f # free))) h0 h" "cmd_shape h p len (name, a, ps, f # free)"
    and "adds (set (pair_ptrs kv)) h h1" "distinct (pair_ptrs kv)" "\<forall>r \<in> set (pair_ptrs kv). str_of h1 r \<noteq> None"
  obtains h2 where "store_param p (length ps) kv h1 = Inr ((), h2)" "adds (set (cmd_ptrs p (name, a, ps @ [kv], free))) h0 h2"
    "cmd_shape h2 p len (name, a, ps @ [kv], free)" "cells h2 name = cells h name" "next_addr h2 = next_addr h1" "refused h2 = refused h1"
    "\<And>q. q \<in> set (ps @ [kv]) \<Longrightarrow> pair_val h2 q = pair_val h1 q"
proof -
  let ?x = "(name, a, ps @ [kv], free) :: cmd_layout"
  define h2 where "h2 = h1\<lparr>cells := (cells h1)(a \<mapsto> StrPairs (map Some (ps @ [kv]) @ free))\<rparr>"
  note own = assms(2) [simplified]
  have sep: "set (cmd_ptrs p (name, a, ps, f # free)) \<inter> set (pair_ptrs kv) = {}" using adds_disjoint [OF assms(1,3)] .
  have "adds (set (cmd_ptrs p ?x)) h0 h1" using adds_trans [OF assms(1,3)] by (simp add: Un_ac insert_commute)
  then have a2: "adds (set (cmd_ptrs p ?x)) h0 h2" unfolding h2_def by (rule adds_store) simp
  have cells: "cells h1 p = cells h p" "cells h1 a = cells h a" "cells h1 name = cells h name" using adds_old [OF assms(3)] sep by auto
  have upd: "(map Some ps @ f # free)[length ps := Some kv] = map Some (ps @ [kv]) @ free" by (simp add: list_update_append)
  have zero: "a \<noteq> 0" using own wf_heap_zero(1) [OF adds_wf [OF assms(1)]] by auto
  show ?thesis
  proof (rule that [of h2])
    show "store_param p (length ps) kv h1 = Inr ((), h2)"
      using own cells upd by (simp add: store_param_def load_cmd_def hget_def load_pairs_def heap_simps hstore_def live_def domIff h2_def)
    have "str_of h2 r \<noteq> None" if "r \<in> set (concat (map pair_ptrs (ps @ [kv])))" for r
    proof -
      have "r \<noteq> a" using that own sep by auto
      then have "str_of h2 r = str_of h1 r" by (simp add: str_of_def h2_def)
      then show ?thesis using that own assms(5) str_of_later [OF assms(3), of r] by fastforce
    qed
    then show "cmd_shape h2 p len ?x" using own sep assms(4) adds_live [OF a2] cells by (auto simp: h2_def)
    show "pair_val h2 q = pair_val h1 q" if "q \<in> set (ps @ [kv])" for q
      unfolding h2_def using that own sep zero by (intro pair_val_store) auto
  qed (use a2 cells own in \<open>auto simp: h2_def\<close>)
qed


text \<open>One round of the loop over the parts.\<close>

lemma parse_params_step:
  assumes "adds (set (cmd_ptrs p (name, a, ps, f # fs))) h0 h" "cmd_shape h p len (name, a, ps, f # fs)"
  obtains kv h2 where "\<And>m. hbind (h_parse_http_param (Some part)) (\<lambda>q. hbind (store_param p (length ps) q) (\<lambda>_. m)) h = (m h2 :: ('x \<times> heap) c)"
    "adds (set (cmd_ptrs p (name, a, ps @ [kv], fs))) h0 h2" "cmd_shape h2 p len (name, a, ps @ [kv], fs)" "cells h2 name = cells h name"
    "\<And>q. q \<in> set ps \<Longrightarrow> pair_val h2 q = pair_val h q"
    "unrefused h \<Longrightarrow> unrefused h2 \<and> parse_http_param (\<lambda>_. False) (length ps) (Some part) = Inr (param_val h2 kv)"
proof -
  have wf: "wf_heap h" using assms(1) by (rule adds_wf)
  obtain kv h1 where kv: "h_parse_http_param (Some part) h = Inr (kv, h1)" "adds (set (pair_ptrs kv)) h h1" "distinct (pair_ptrs kv)"
    "\<And>i. unrefused h \<Longrightarrow> parse_http_param (\<lambda>_. False) i (Some part) = Inr (param_val h1 kv)"
    "\<forall>r \<in> set (pair_ptrs kv). str_of h1 r \<noteq> None"
    using h_parse_http_param_spec [OF wf, of part] by metis
  obtain h2 where h2: "store_param p (length ps) kv h1 = Inr ((), h2)" "adds (set (cmd_ptrs p (name, a, ps @ [kv], fs))) h0 h2"
    "cmd_shape h2 p len (name, a, ps @ [kv], fs)" "cells h2 name = cells h name" "next_addr h2 = next_addr h1" "refused h2 = refused h1"
    "\<And>q. q \<in> set (ps @ [kv]) \<Longrightarrow> pair_val h2 q = pair_val h1 q"
    using store_param_spec [OF assms kv(2,3,5)] by metis
  show ?thesis
  proof (rule that [OF _ h2(2-4)])
    show "hbind (h_parse_http_param (Some part)) (\<lambda>q. hbind (store_param p (length ps) q) (\<lambda>_. m)) h = m h2" for m :: "'x hm"
      using kv(1) h2(1) by (simp add: heap_simps)
    show "pair_val h2 q = pair_val h q" if "q \<in> set ps" for q
      using that h2(7) [of q] pair_val_later [OF kv(2) wf, of q] adds_live [OF assms(1)] by auto
    show "unrefused h2 \<and> parse_http_param (\<lambda>_. False) (length ps) (Some part) = Inr (param_val h2 kv)" if "unrefused h"
      using unrefused_later [OF that kv(2)] h2(5,6) kv(4) [OF that] h2(7) [of kv] by (simp add: unrefused_def param_val_pair)
  qed
qed

lemma parse_params_full:
  assumes "adds (set (cmd_ptrs p (name, a, ps, []))) h0 h" "cmd_shape h p len (name, a, ps, [])"
  shows "h_parse_params p (length ps) (Some part) saveptr h = Inl BufferOverflow"
proof -
  obtain kv h1 where kv: "h_parse_http_param (Some part) h = Inr (kv, h1)" "adds (set (pair_ptrs kv)) h h1"
    using h_parse_http_param_spec [OF adds_wf [OF assms(1)], of part] by metis
  have "store_param p (length ps) kv h1 = Inl BufferOverflow"
    using assms(2) adds_kept [OF kv(2), of p] adds_kept [OF kv(2), of a]
    by (auto simp: store_param_def load_cmd_def hget_def load_pairs_def heap_simps)
  then show ?thesis using kv(1) by (simp add: h_parse_params.simps [of p] heap_simps)
qed

lemma h_parse_params_spec:
  assumes "adds (set (cmd_ptrs p (name, a, ps, free))) h0 h" "cmd_shape h p len (name, a, ps, free)"
  shows "case h_parse_params p (length ps) (Some part) saveptr h of
      Inl e \<Rightarrow> parse_params (\<lambda>_. False) (length ps + length free) (length ps) (Some part) saveptr = Inl e
    | Inr (i, h') \<Rightarrow> \<exists>new free'. new \<noteq> [] \<and> i = length (ps @ new) \<and> length free = length new + length free' \<and>
        adds (set (cmd_ptrs p (name, a, ps @ new, free'))) h0 h' \<and> cmd_shape h' p len (name, a, ps @ new, free') \<and>
        cells h' name = cells h name \<and> (\<forall>q \<in> set ps. pair_val h' q = pair_val h q) \<and> (unrefused h \<longrightarrow> unrefused h' \<and>
          parse_params (\<lambda>_. False) (length ps + length free) (length ps) (Some part) saveptr = Inr (map (param_val h') new))"
  using assms
proof (induction saveptr arbitrary: part ps free h rule: measure_induct_rule [where f = length])
  case (less saveptr)
  obtain pv where pv: "parse_http_param (\<lambda>_. False) (length ps) (Some part) = Inr pv"
    by (cases "strtok ''='' part") (simp add: parse_http_param_def deref_def)
  show ?case
  proof (cases free)
    case Nil
    then show ?thesis using parse_params_full less(2,3) pv by (simp add: parse_params.simps [of "\<lambda>_. False"] del: cmd_ptrs.simps cmd_shape.simps)
  next
    case (Cons f fs)
    obtain kv h2 where step: "\<And>m. hbind (h_parse_http_param (Some part)) (\<lambda>q. hbind (store_param p (length ps) q) (\<lambda>_. m)) h = (m h2 :: (nat \<times> heap) c)"
      and h2: "adds (set (cmd_ptrs p (name, a, ps @ [kv], fs))) h0 h2" "cmd_shape h2 p len (name, a, ps @ [kv], fs)" "cells h2 name = cells h name"
      and old: "\<And>q. q \<in> set ps \<Longrightarrow> pair_val h2 q = pair_val h q"
      and val: "unrefused h \<Longrightarrow> unrefused h2 \<and> parse_http_param (\<lambda>_. False) (length ps) (Some part) = Inr (param_val h2 kv)"
      using parse_params_step [OF less(2,3) [unfolded Cons], of part] by metis
    obtain part' save' where tok: "strtok ''&'' saveptr = (part', save')" by (cases "strtok ''&'' saveptr")
    show ?thesis
    proof (cases part')
      case None
      have "h_parse_params p (length ps) (Some part) saveptr h = Inr (length ps + 1, h2)"
        using step tok None by (simp add: h_parse_params.simps [of p "length ps" "Some part"] heap_simps)
      then show ?thesis using h2 old val Cons tok None
        by (auto simp: parse_params.simps [of "\<lambda>_. False" _ "length ps"] intro!: exI [of _ "[kv]"] exI [of _ fs])
    next
      case (Some part1)
      have shorter: "length save' < length saveptr" using strtok_length [of "''&''" saveptr part1 save'] tok Some by simp
      have hstep: "h_parse_params p (length ps) (Some part) saveptr h = h_parse_params p (length (ps @ [kv])) (Some part1) save' h2"
        using step tok Some by (simp add: h_parse_params.simps [of p "length ps" "Some part"])
      have vstep: "parse_params (\<lambda>_. False) (length ps + length free) (length ps) (Some part) saveptr =
        cbind (parse_params (\<lambda>_. False) (length (ps @ [kv]) + length fs) (length (ps @ [kv])) (Some part1) save') (\<lambda>qs. Inr (pv # qs))"
        using pv tok Some Cons by (simp add: parse_params.simps [of "\<lambda>_. False" _ "length ps"])
      note IH = less(1) [OF shorter h2(1,2), of part1]
      show ?thesis
      proof (cases "h_parse_params p (length (ps @ [kv])) (Some part1) save' h2")
        case (Inl e)
        then show ?thesis using IH unfolding hstep vstep by simp
      next
        case (Inr ih)
        obtain i h' where ih: "ih = (i, h')" by (cases ih)
        then obtain new free' where r: "i = length ((ps @ [kv]) @ new)" "length fs = length new + length free'"
          "adds (set (cmd_ptrs p (name, a, (ps @ [kv]) @ new, free'))) h0 h'" "cmd_shape h' p len (name, a, (ps @ [kv]) @ new, free')"
          "cells h' name = cells h2 name" "\<forall>q \<in> set (ps @ [kv]). pair_val h' q = pair_val h2 q"
          "unrefused h2 \<longrightarrow> unrefused h' \<and>
             parse_params (\<lambda>_. False) (length (ps @ [kv]) + length fs) (length (ps @ [kv])) (Some part1) save' = Inr (map (param_val h') new)"
          using IH [unfolded Inr ih sum.case prod.case] by blast
        have assoc: "(ps @ [kv]) @ new = ps @ (kv # new)" by simp
        have "unrefused h \<longrightarrow> unrefused h' \<and> parse_params (\<lambda>_. False) (length ps + length free) (length ps) (Some part) saveptr =
            Inr (map (param_val h') (kv # new))"
          using r(6,7) val pv unfolding vstep by (auto simp: param_val_pair)
        moreover have "length free = length (kv # new) + length free'" "cells h' name = cells h name"
          "\<forall>q \<in> set ps. pair_val h' q = pair_val h q" using r(2,5,6) h2(3) old Cons by auto
        ultimately show ?thesis using r(3,4) unfolding hstep Inr ih r(1) sum.case prod.case assoc by blast
      qed
    qed
  qed
qed

text \<open>The struct is updated in place.\<close>

lemma set_length_spec:
  assumes "adds A h0 h" "p \<in> A" "cmd_shape h p len (name, a, ps, free)"
  obtains h' where "set_length p n h = Inr ((), h')" "adds A h0 h'" "cmd_shape h' p (Some n) (name, a, ps, free)"
    "cells h' name = cells h name" "\<And>q. pair_val h' q = pair_val h q" "unrefused h \<Longrightarrow> unrefused h'"
proof -
  let ?h = "h\<lparr>cells := (cells h)(p \<mapsto> CmdBlock name (Some a) (Some n))\<rparr>"
  note own = assms(3) [simplified]
  have str: "str_of ?h q = str_of h q" for q using own by (auto simp: str_of_def)
  show ?thesis
  proof (rule that [of ?h])
    show "set_length p n h = Inr ((), ?h)" using own by (simp add: set_length_def load_cmd_def heap_simps)
    show "cmd_shape ?h p (Some n) (name, a, ps, free)" using own str by (auto simp: live_def simp del: not_None_eq)
  qed (use own adds_store [OF assms(1,2)] str in \<open>auto simp: pair_val_def unrefused_def\<close>)
qed

text \<open>What the arguments come to: how many parameters, and the slots written.\<close>

definition fill_val :: "string \<Rightarrow> (nat \<times> http_cmd_param list) option c" where
  "fill_val args =
     (let k = count_list args (CHR ''&'')
      in if k = 0 then cbind (parse_http_param (\<lambda>_. False) 0 (Some args)) (\<lambda>p. Inr (Some (if p_name p \<noteq> None then 1 else 0, [p])))
         else case strtok ''&'' args of (part, saveptr) \<Rightarrow>
           cbind (parse_params (\<lambda>_. False) (k + 1) 0 part saveptr) (\<lambda>ps.
             if length ps - 1 \<noteq> k then (if length ps - 1 = 0 then Inr None else Inr (Some (length ps - 1, take (length ps - 1) ps)))
             else Inr (Some (length ps, ps))))"

lemma parse_http_request_fill:
  "parse_http_request (\<lambda>_. False) request response =
     (case rpiwd_getline False request [CHR 0x0D, CHR 0x0A] of
        None \<Rightarrow> Inr (None, response)
      | Some line \<Rightarrow> cbind (break_request line) (\<lambda>(bflag, http_proto, args, commandstr).
          if bflag < 0 then Inr (None, bflag)
          else if http_proto \<noteq> ''HTTP/1.1'' \<and> http_proto \<noteq> ''HTTP/1.0'' then Inr (None, HTTP_PARSER_ERROR_WRONG_PROTOCOL)
          else cbind (fill_val args) (\<lambda>r. case r of None \<Rightarrow> Inr (None, HTTP_PARSER_ERROR_NO_MEMORY)
            | Some (n, ps) \<Rightarrow> check_duplicates \<lparr>cmdname = commandstr, cmd_length = n, params = ps\<rparr> response)))"
  unfolding parse_http_request_def fill_val_def Let_def
  by (auto simp: cbind_def intro!: option.case_cong split: option.split prod.split sum.split)

lemma fill_single:
  assumes "adds (set (cmd_ptrs p (name, a, [], [None]))) h0 h" "cmd_shape h p None (name, a, [], [None])"
  obtains kv h' where "h_fill_params p args 0 h = Inr (True, h')"
    "adds (set (cmd_ptrs p (name, a, [kv], []))) h0 h'"
    "cmd_shape h' p (Some (if fst kv \<noteq> 0 then 1 else 0)) (name, a, [kv], [])" "cells h' name = cells h name"
    "unrefused h \<Longrightarrow> parse_http_param (\<lambda>_. False) 0 (Some args) = Inr (param_val h' kv)"
    "unrefused h \<Longrightarrow> fst kv = 0 \<Longrightarrow> snd kv = 0" "unrefused h \<Longrightarrow> fst kv = 0 \<longleftrightarrow> p_name (param_val h' kv) = None"
proof -
  obtain kv h1 where kv: "h_parse_http_param (Some args) h = Inr (kv, h1)" "adds (set (pair_ptrs kv)) h h1" "distinct (pair_ptrs kv)"
    "\<And>i. unrefused h \<Longrightarrow> parse_http_param (\<lambda>_. False) i (Some args) = Inr (param_val h1 kv)"
    "unrefused h \<Longrightarrow> fst kv = 0 \<Longrightarrow> snd kv = 0" "unrefused h \<Longrightarrow> fst kv = 0 \<longleftrightarrow> p_name (param_val h1 kv) = None"
    "\<forall>r \<in> set (pair_ptrs kv). str_of h1 r \<noteq> None"
    using h_parse_http_param_spec [OF adds_wf [OF assms(1)], of args] by metis
  obtain h2 where h2: "store_param p 0 kv h1 = Inr ((), h2)" "adds (set (cmd_ptrs p (name, a, [kv], []))) h0 h2"
    "cmd_shape h2 p None (name, a, [kv], [])" "cells h2 name = cells h name" "pair_val h2 kv = pair_val h1 kv"
    by (rule store_param_spec [OF assms kv(2,3,7), unfolded append_Nil list.size]) (metis list.set_intros(1))
  obtain h3 where h3: "set_length p (if fst kv \<noteq> 0 then 1 else 0) h2 = Inr ((), h3)" "adds (set (cmd_ptrs p (name, a, [kv], []))) h0 h3"
    "cmd_shape h3 p (Some (if fst kv \<noteq> 0 then 1 else 0)) (name, a, [kv], [])" "cells h3 name = cells h2 name" "\<And>q. pair_val h3 q = pair_val h2 q"
    by (rule set_length_spec [OF h2(2) _ h2(3), of "if fst kv \<noteq> 0 then 1 else 0"]) (simp, metis)
  show ?thesis
  proof (rule that [of h3 kv])
    show "h_fill_params p args 0 h = Inr (True, h3)" using kv(1) h2(1) h3(1) by (simp add: h_fill_params_def heap_simps del: One_nat_def)
    show "parse_http_param (\<lambda>_. False) 0 (Some args) = Inr (param_val h3 kv)" if "unrefused h"
      using kv(4) [OF that, of 0] h2(5) h3(5) by (simp add: param_val_pair)
    show "fst kv = 0 \<longleftrightarrow> p_name (param_val h3 kv) = None" if "unrefused h"
      using kv(6) [OF that] h2(5) h3(5) by (simp add: param_val_pair)
  qed (use h2(4) h3 kv(5) in simp_all)
qed


text \<open>The array is replaced by a shorter one; the parameter left out keeps its strings.\<close>

definition shrink_params :: "addr \<Rightarrow> nat \<Rightarrow> bool hm" where
  "shrink_params cmd n =
     hbind (set_length cmd n) (\<lambda>_. hbind (load_cmd cmd) (\<lambda>(_, arr, _). hbind (hget arr) (\<lambda>old.
     hbind (realloc_pairs old n) (\<lambda>b. hbind (set_params cmd b) (\<lambda>_.
       if b = 0 then hbind (http_cmd_free cmd) (\<lambda>_. hret False) else hret True)))))"

lemma shrink_to_none:
  assumes "adds (set (cmd_ptrs p (name, a, ps, free))) h0 h" "cmd_shape h p len (name, a, ps, free)"
  obtains h' where "shrink_params p 0 h = Inr (False, h')" "adds (insert name (set (concat (map pair_ptrs ps)))) h0 h'"
    "cells h' name = cells h name"
proof -
  obtain h1 where h1: "set_length p 0 h = Inr ((), h1)" "adds (set (cmd_ptrs p (name, a, ps, free))) h0 h1"
    "cmd_shape h1 p (Some 0) (name, a, ps, free)"
    "cells h1 name = cells h name"
    by (rule set_length_spec [OF assms(1) _ assms(2), of 0]) auto
  note own = h1(3) [simplified]
  define h2 where "h2 = release {a} h1"
  define h3 where "h3 = h2\<lparr>cells := (cells h2)(p \<mapsto> CmdBlock name (Some 0) (Some 0))\<rparr>"
  have a2: "adds (set (cmd_ptrs p (name, a, ps, free)) - {a}) h0 h2" unfolding h2_def using h1(2) by (rule adds_release) simp
  then have a3: "adds (set (cmd_ptrs p (name, a, ps, free)) - {a}) h0 h3" unfolding h3_def using own by (intro adds_store) auto
  have "hfree a h1 = Inr ((), h2)" unfolding h2_def using own adds_wf [OF h1(2)] by (intro hfree_ok) auto
  moreover have "set_params p 0 h2 = Inr ((), h3)"
    using own by (simp add: set_params_def load_cmd_def heap_simps h2_def h3_def hstore_def)
  moreover have "hfree p h3 = Inr ((), release {p} h3)" using own adds_wf [OF a3] by (intro hfree_ok) (auto simp: h3_def h2_def live_def)
  ultimately have "shrink_params p 0 h = Inr (False, release {p} h3)"
    using h1(1) own by (simp add: shrink_params_def realloc_pairs_def http_cmd_free_def load_cmd_def hget_def heap_simps h3_def)
  moreover have "set (cmd_ptrs p (name, a, ps, free)) - {a} - {p} = insert name (set (concat (map pair_ptrs ps)))" using own by auto
  moreover have "cells (release {p} h3) name = cells h name" using h1(4) own by (auto simp: h3_def h2_def)
  ultimately show ?thesis using that adds_release [OF a3, of "{p}"] own by auto
qed

text \<open>The command takes over a new array, and the old one is freed.\<close>

lemma params_moved:
  assumes "adds (set (cmd_ptrs p (name, a, ps @ [kv], free))) h0 h1" "cmd_shape h1 p (Some (length ps)) (name, a, ps @ [kv], free)"
    and b: "adds {b} h1 h2" "cells h2 b = Some (StrPairs (map Some ps))"
  obtains h4 where "hfree a h2 = Inr ((), release {a} h2)" "set_params p b (release {a} h2) = Inr ((), h4)"
    "adds (set (cmd_ptrs p (name, b, ps, [])) \<union> set (pair_ptrs kv)) h0 h4" "set (cmd_ptrs p (name, b, ps, [])) \<inter> set (pair_ptrs kv) = {}"
    "cmd_owned h4 p (name, b, ps, [])" "cells h4 name = cells h1 name" "\<And>q. q \<in> set ps \<Longrightarrow> pair_val h4 q = pair_val h1 q"
proof -
  let ?old = "(name, a, ps @ [kv], free) :: cmd_layout" and ?new = "(name, b, ps, []) :: cmd_layout" and ?n = "length ps"
  note own = assms(2) [simplified]
  define h4 where "h4 = (release {a} h2)\<lparr>cells := (cells (release {a} h2))(p \<mapsto> CmdBlock name (Some b) (Some ?n))\<rparr>"
  have fresh: "b \<notin> set (cmd_ptrs p ?old)" using adds_fresh [OF b(1), of b] own by auto
  have keep: "cells h2 q = cells h1 q" if "q \<noteq> b" for q using adds_old [OF b(1), of q] that by simp
  have "adds (set (cmd_ptrs p ?old) \<union> {b}) h0 h2" using adds_trans [OF assms(1) b(1)] .
  then have "adds (set (cmd_ptrs p ?old) \<union> {b} - {a}) h0 (release {a} h2)" by (rule adds_release) simp
  moreover have "set (cmd_ptrs p ?old) \<union> {b} - {a} = set (cmd_ptrs p ?new) \<union> set (pair_ptrs kv)" using own fresh by auto
  ultimately have a4: "adds (set (cmd_ptrs p ?new) \<union> set (pair_ptrs kv)) h0 h4" unfolding h4_def by (intro adds_store) simp_all
  have cells4: "cells h4 q = cells h1 q" if "q \<noteq> a" "q \<noteq> p" "q \<noteq> b" for q using that keep by (simp add: h4_def)
  then have str4: "str_of h4 r = str_of h1 r" if "r \<in> set (concat (map pair_ptrs ps))" for r
  proof -
    have "r \<noteq> a" "r \<noteq> p" "r \<noteq> b" using that own fresh by auto
    then show ?thesis by (simp add: str_of_def cells4)
  qed
  have zero: "str_of h4 0 = str_of h1 0"
    using wf_heap_zero(2) [OF adds_wf [OF assms(1)]] wf_heap_zero(2) [OF adds_wf [OF a4]] by (simp add: str_of_def)
  show ?thesis
  proof (rule that [OF _ _ a4])
    show "hfree a h2 = Inr ((), release {a} h2)" using own adds_wf [OF b(1)] adds_live [OF b(1)] by (intro hfree_ok) auto
    show "set_params p b (release {a} h2) = Inr ((), h4)"
      using own fresh keep by (simp add: set_params_def load_cmd_def heap_simps hstore_def live_def domIff h4_def)
    show "cmd_owned h4 p ?new"
      using own fresh b(2) cells4 str4 adds_live [OF a4] by (auto simp: cmd_owned_def h4_def simp del: not_None_eq)
    show "pair_val h4 q = pair_val h1 q" if "q \<in> set ps" for q
    proof -
      have "r = 0 \<or> r \<in> set (concat (map pair_ptrs ps))" if "r \<in> {fst q, snd q}" for r
        using that \<open>q \<in> set ps\<close> by (auto simp: field_ptrs_def intro!: bexI [of _ q])
      then have "str_of h4 r = str_of h1 r" if "r \<in> {fst q, snd q}" for r using that str4 zero by metis
      then show ?thesis by (simp add: pair_val_def)
    qed
  qed (use own fresh cells4 in auto)
qed

lemma shrink_to_some:
  assumes "adds (set (cmd_ptrs p (name, a, ps @ [kv], free))) h0 h" "cmd_shape h p len (name, a, ps @ [kv], free)" "ps \<noteq> []"
  obtains (refused) "shrink_params p (length ps) h = Inl NullDeref" "\<not> unrefused h"
  | (moved) b h' where "shrink_params p (length ps) h = Inr (True, h')"
      "adds (set (cmd_ptrs p (name, b, ps, [])) \<union> set (pair_ptrs kv)) h0 h'" "set (cmd_ptrs p (name, b, ps, [])) \<inter> set (pair_ptrs kv) = {}"
      "cmd_owned h' p (name, b, ps, [])" "cells h' name = cells h name" "\<And>q. q \<in> set ps \<Longrightarrow> pair_val h' q = pair_val h q"
proof -
  let ?old = "(name, a, ps @ [kv], free) :: cmd_layout" and ?n = "length ps"
  obtain h1 where h1: "set_length p ?n h = Inr ((), h1)" "adds (set (cmd_ptrs p ?old)) h0 h1" "cmd_shape h1 p (Some ?n) ?old"
    "cells h1 name = cells h name" "\<And>q. pair_val h1 q = pair_val h q" "unrefused h \<Longrightarrow> unrefused h1"
    by (rule set_length_spec [OF assms(1) _ assms(2), of ?n]) (simp, metis)
  note own = h1(3) [simplified]
  have wf: "wf_heap h1" using h1(2) by (rule adds_wf)
  have ld: "load_cmd p h1 = Inr ((name, Some a, Some ?n), h1)" "load_pairs a h1 = Inr (map Some (ps @ [kv]) @ free, h1)"
    using own by (simp_all add: load_cmd_def load_pairs_def heap_simps)
  show ?thesis
  proof (cases rule: halloc_cases [OF wf, of "StrPairs (map Some ps)"])
    case 1
    let ?h = "h1\<lparr>next_addr := next_addr h1 + 1\<rparr>"
    let ?h3 = "?h\<lparr>cells := (cells ?h)(p \<mapsto> CmdBlock name (Some 0) (Some ?n))\<rparr>"
    have p0: "p \<noteq> 0" "cells h1 0 = None" using own wf_heap_zero [OF wf] by auto
    have "set_params p 0 ?h = Inr ((), ?h3)" using own by (simp add: set_params_def load_cmd_def heap_simps hstore_def live_def domIff)
    moreover have "http_cmd_free p ?h3 = Inl NullDeref"
      using assms(3) p0 by (cases ps) (simp_all add: http_cmd_free_def load_cmd_def load_params_def load_pairs_def hget_def upt_conv_Cons
          http_cmd_param_free_def heap_simps bad_access_def del: upt_Suc)
    ultimately have "shrink_params p ?n h = Inl NullDeref"
      using h1(1) ld 1(2) assms(3) by (simp add: shrink_params_def realloc_pairs_def hget_def heap_simps)
    then show ?thesis using refused 1(1) h1(6) by (auto simp: unrefused_def)
  next
    case (2 h2)
    define b where "b = next_addr h1"
    have b: "adds {b} h1 h2" "cells h2 b = Some (StrPairs (map Some ps))" "halloc (StrPairs (map Some ps)) h1 = Inr (b, h2)" "b \<noteq> 0"
      using 2 wf_heap_next [OF wf] by (simp_all add: b_def)
    obtain h4 where h4: "hfree a h2 = Inr ((), release {a} h2)" "set_params p b (release {a} h2) = Inr ((), h4)"
      "adds (set (cmd_ptrs p (name, b, ps, [])) \<union> set (pair_ptrs kv)) h0 h4" "set (cmd_ptrs p (name, b, ps, [])) \<inter> set (pair_ptrs kv) = {}"
      "cmd_owned h4 p (name, b, ps, [])" "cells h4 name = cells h1 name" "\<And>q. q \<in> set ps \<Longrightarrow> pair_val h4 q = pair_val h1 q"
      using params_moved [OF h1(2,3) b(1,2)] by metis
    have "shrink_params p ?n h = Inr (True, h4)"
      using h1(1) ld b(3,4) h4(1,2) assms(3) by (simp add: shrink_params_def realloc_pairs_def hget_def heap_simps)
    then show ?thesis using moved [OF _ h4(3-5)] h1(4,5) h4(6,7) by simp
  qed
qed


text \<open>
  The parsed command at \<open>p\<close>: \<open>D\<close> are the strings of a parameter that is in no slot, the one left out because an
  ampersand stands next to another or at an end.
\<close>

definition cmd_made :: "heap \<Rightarrow> heap \<Rightarrow> addr \<Rightarrow> cmd_layout \<Rightarrow> addr set \<Rightarrow> bool" where
  "cmd_made h0 h p x D \<longleftrightarrow> adds (set (cmd_ptrs p x) \<union> D) h0 h \<and> set (cmd_ptrs p x) \<inter> D = {} \<and> cmd_owned h p x"

lemma fill_none_or_one:
  assumes "adds (set (cmd_ptrs p (name, a, [], [None]))) h0 h" "cmd_shape h p None (name, a, [], [None])" "count_list args (CHR ''&'') = 0"
  obtains ps free D h' where "h_fill_params p args 0 h = Inr (True, h')" "cmd_made h0 h' p (name, a, ps, free) D" "cells h' name = cells h name"
    "unrefused h \<Longrightarrow> D = {} \<and> (\<exists>qs. fill_val args = Inr (Some (length ps, qs)) \<and> take (length ps) qs = map (param_val h') ps)"
proof -
  obtain kv h' where s: "h_fill_params p args 0 h = Inr (True, h')" "adds (set (cmd_ptrs p (name, a, [kv], []))) h0 h'"
    "cmd_shape h' p (Some (if fst kv \<noteq> 0 then 1 else 0)) (name, a, [kv], [])" "cells h' name = cells h name"
    "unrefused h \<Longrightarrow> parse_http_param (\<lambda>_. False) 0 (Some args) = Inr (param_val h' kv)"
    "unrefused h \<Longrightarrow> fst kv = 0 \<Longrightarrow> snd kv = 0" "unrefused h \<Longrightarrow> fst kv = 0 \<longleftrightarrow> p_name (param_val h' kv) = None"
    using fill_single [OF assms(1,2), of args] by metis
  have fv: "fill_val args = Inr (Some (if p_name (param_val h' kv) \<noteq> None then 1 else 0, [param_val h' kv]))" if "unrefused h"
    using s(5) [OF that] assms(3) by (simp add: fill_val_def)
  note own = s(3) [simplified]
  show ?thesis
  proof (cases "fst kv = 0")
    case True
    have "cmd_made h0 h' p (name, a, [], [Some kv]) (set (pair_ptrs kv))"
      using s(2) own True by (auto simp: cmd_made_def cmd_owned_def Un_commute)
    then show ?thesis using that [of h' "[]" "[Some kv]" "set (pair_ptrs kv)"] s(1,4,6,7) fv True by (simp add: field_ptrs_def)
  next
    case False
    have "cmd_made h0 h' p (name, a, [kv], []) {}" using s(2) own False by (auto simp: cmd_made_def cmd_owned_def)
    then show ?thesis using that [of h' "[kv]" "[]" "{}"] s(1,4,7) fv False by simp
  qed
qed

lemma h_fill_params_many:
  "k \<noteq> 0 \<Longrightarrow> h_fill_params p args k = (case strtok ''&'' args of (part, saveptr) \<Rightarrow>
     hbind (h_parse_params p 0 part saveptr) (\<lambda>i.
       if i - 1 \<noteq> k then shrink_params p (i - 1) else hbind (set_length p i) (\<lambda>_. hret True)))"
  by (simp only: h_fill_params_def shrink_params_def if_False)

text \<open>After the loop, when \<open>ps\<close> are the parameters and \<open>k\<close> the ampersands.\<close>

lemma fill_finish:
  fixes v :: "(nat \<times> http_cmd_param list) option c"
  assumes "adds (set (cmd_ptrs p (name, a, ps, free))) h0 h" "cmd_shape h p None (name, a, ps, free)" "ps \<noteq> []" "length ps - 1 \<le> k"
    and m: "m = (if length ps - 1 \<noteq> k then shrink_params p (length ps - 1) else hbind (set_length p (length ps)) (\<lambda>_. hret True))"
    and v: "v = (if length ps - 1 \<noteq> k then (if length ps - 1 = 0 then Inr None
        else Inr (Some (length ps - 1, take (length ps - 1) (map (param_val h) ps)))) else Inr (Some (length ps, map (param_val h) ps)))"
  obtains (refused) "m h = Inl NullDeref" "\<not> unrefused h"
  | (gone) D h' where "m h = Inr (False, h')" "adds D h0 h'" "name \<in> D" "cells h' name = cells h name" "v = Inr None"
  | (made) b qs free' D h' where "m h = Inr (True, h')" "cmd_made h0 h' p (name, b, qs, free') D" "cells h' name = cells h name"
      "D = {} \<or> length qs < k" "\<exists>rs. v = Inr (Some (length qs, rs)) \<and> take (length qs) rs = map (param_val h') qs"
proof -
  have vals: "map (param_val h') qs = map (param_val h) qs" if "\<And>q. q \<in> set qs \<Longrightarrow> pair_val h' q = pair_val h q" for h' qs
    using that by (simp add: param_val_pair)
  obtain qs kv where ps: "ps = qs @ [kv]" using assms(3) by (cases ps rule: rev_cases) auto
  consider "length qs = k" | "qs = []" "k \<noteq> 0" | "qs \<noteq> []" "length qs < k"
    using assms(4) ps by fastforce
  then show ?thesis
  proof cases
    case 1
    obtain h' where h': "set_length p (length ps) h = Inr ((), h')" "adds (set (cmd_ptrs p (name, a, ps, free))) h0 h'"
      "cmd_shape h' p (Some (length ps)) (name, a, ps, free)" "cells h' name = cells h name" "\<And>q. pair_val h' q = pair_val h q"
      by (rule set_length_spec [OF assms(1) _ assms(2), of "length ps"]) auto
    have "cmd_made h0 h' p (name, a, ps, free) {}" using h'(2,3) by (simp add: cmd_made_def cmd_owned_def)
    then show ?thesis using made [of h' a ps free "{}"] h'(1,4) vals [of ps h'] h'(5) 1 by (simp add: m v ps heap_simps)
  next
    case 2
    obtain h' where "shrink_params p 0 h = Inr (False, h')" "adds (insert name (set (concat (map pair_ptrs ps)))) h0 h'"
      "cells h' name = cells h name" using shrink_to_none [OF assms(1,2)] by metis
    then show ?thesis using gone [of h'] 2 by (simp add: m v ps)
  next
    case 3
    show ?thesis
    proof (cases rule: shrink_to_some [OF assms(1,2) [unfolded ps] 3(1)])
      case 1
      then show ?thesis using refused 3 by (simp add: m ps)
    next
      case (2 b h')
      have "cmd_made h0 h' p (name, b, qs, []) (set (pair_ptrs kv))" using 2(2-4) by (simp only: cmd_made_def)
      then show ?thesis using made [of h' b qs "[]"] 2(1,5) vals [of qs h'] 2(6) 3 by (simp add: m v ps)
    qed
  qed
qed

text \<open>Several parameters, the first of them \<open>t\<close>.\<close>

lemma fill_loop:
  fixes args :: string
  defines "k \<equiv> count_list args (CHR ''&'')"
  assumes "adds (set (cmd_ptrs p (name, a, [], replicate (k + 1) None))) h0 h" "cmd_shape h p None (name, a, [], replicate (k + 1) None)"
    and k: "k \<noteq> 0" and tok: "strtok ''&'' args = (Some t, saveptr)"
  obtains (ub) e where "h_fill_params p args k h = Inl e" "unrefused h \<Longrightarrow> fill_val args = Inl e"
  | (gone) D h' where "h_fill_params p args k h = Inr (False, h')" "adds D h0 h'" "unrefused h \<Longrightarrow> fill_val args = Inr None"
  | (made) b ps free D h' where "h_fill_params p args k h = Inr (True, h')" "cmd_made h0 h' p (name, b, ps, free) D" "cells h' name = cells h name"
      "unrefused h \<Longrightarrow> D = {} \<or> length ps < k"
      "unrefused h \<Longrightarrow> \<exists>qs. fill_val args = Inr (Some (length ps, qs)) \<and> take (length ps) qs = map (param_val h') ps"
proof -
  have fill: "h_fill_params p args k h = hbind (h_parse_params p 0 (Some t) saveptr) (\<lambda>i.
      if i - 1 \<noteq> k then shrink_params p (i - 1) else hbind (set_length p i) (\<lambda>_. hret True)) h"
    using h_fill_params_many [OF k] tok by simp
  have fv: "fill_val args = cbind (parse_params (\<lambda>_. False) (k + 1) 0 (Some t) saveptr) (\<lambda>ps.
      if length ps - 1 \<noteq> k then (if length ps - 1 = 0 then Inr None else Inr (Some (length ps - 1, take (length ps - 1) ps)))
      else Inr (Some (length ps, ps)))"
    using k tok unfolding fill_val_def Let_def by (simp add: k_def)
  note run = h_parse_params_spec [OF assms(2,3), of t saveptr, simplified length_replicate list.size(3) append_Nil add_0]
  show ?thesis
  proof (cases "h_parse_params p 0 (Some t) saveptr h")
    case (Inl e)
    then show ?thesis using ub [of e] run fill fv by (simp add: heap_simps)
  next
    case (Inr ih)
    obtain i h1 where ih: "ih = (i, h1)" by (cases ih)
    obtain ps free where ps: "ih = (i, h1)" "ps \<noteq> []" "i = length ps" "k + 1 = length ps + length free"
      "adds (set (cmd_ptrs p (name, a, ps, free))) h0 h1" "cmd_shape h1 p None (name, a, ps, free)" "cells h1 name = cells h name"
      "unrefused h \<longrightarrow> unrefused h1 \<and> parse_params (\<lambda>_. False) (k + 1) 0 (Some t) saveptr = Inr (map (param_val h1) ps)"
      using run [unfolded Inr ih sum.case prod.case] ih by blast
    have fill1: "h_fill_params p args k h = (if length ps - 1 \<noteq> k then shrink_params p (length ps - 1)
        else hbind (set_length p (length ps)) (\<lambda>_. hret True)) h1"
      unfolding fill using Inr ps(1,3) by (simp add: heap_simps)
    have fv1: "fill_val args = (if length ps - 1 \<noteq> k then (if length ps - 1 = 0 then Inr None
        else Inr (Some (length ps - 1, take (length ps - 1) (map (param_val h1) ps)))) else Inr (Some (length ps, map (param_val h1) ps)))"
      if "unrefused h" using ps(8) that unfolding fv by simp
    have le: "length ps - 1 \<le> k" using ps(4) by linarith
    show ?thesis
    proof (cases rule: fill_finish [OF ps(5,6,2) le refl refl])
      case 1 then show ?thesis using ub [OF trans [OF fill1 1(1)]] ps(8) by blast
    next
      case (2 D h') then show ?thesis using gone [OF trans [OF fill1 2(1)]] fv1 by simp
    next
      case (3 b qs free' D h') then show ?thesis using made [OF trans [OF fill1 3(1)] 3(2)] fv1 ps(7) by simp
    qed
  qed
qed

lemma h_fill_params_cases:
  fixes args :: string
  defines "k \<equiv> count_list args (CHR ''&'')"
  assumes "adds (set (cmd_ptrs p (name, a, [], replicate (k + 1) None))) h0 h" "cmd_shape h p None (name, a, [], replicate (k + 1) None)"
  obtains (ub) e where "h_fill_params p args k h = Inl e" "unrefused h \<Longrightarrow> fill_val args = Inl e"
  | (gone) D h' where "h_fill_params p args k h = Inr (False, h')" "adds D h0 h'" "unrefused h \<Longrightarrow> fill_val args = Inr None"
  | (made) b ps free D h' where "h_fill_params p args k h = Inr (True, h')" "cmd_made h0 h' p (name, b, ps, free) D" "cells h' name = cells h name"
      "unrefused h \<Longrightarrow> D = {} \<or> length ps < k"
      "unrefused h \<Longrightarrow> \<exists>qs. fill_val args = Inr (Some (length ps, qs)) \<and> take (length ps) qs = map (param_val h') ps"
proof (cases "k = 0")
  case True
  then show ?thesis using fill_none_or_one [of p name a h0 h args] assms made by (simp add: k_def) (metis)
next
  case k: False
  obtain part saveptr where tok: "strtok ''&'' args = (part, saveptr)" by (cases "strtok ''&'' args")
  show ?thesis
  proof (cases part)
    case None
    have "h_fill_params p args k h = Inl NullDeref" "fill_val args = Inl NullDeref"
      using k tok None by (simp_all add: h_fill_params_def fill_val_def k_def h_parse_params.simps [of p] parse_params.simps [of "\<lambda>_. False"]
          h_parse_http_param_def parse_http_param_def deref_def heap_simps)
    then show ?thesis by (intro ub)
  next
    case (Some t)
    then have "strtok ''&'' args = (Some t, saveptr)" using tok by simp
    from fill_loop [OF assms(2,3) [unfolded k_def] k [unfolded k_def] this, folded k_def] show ?thesis
      by cases (rule ub gone made; assumption)+
  qed
qed

text \<open>The duplicate check sees the names only.\<close>

lemma count_params_names: "map p_name ps = map p_name qs \<Longrightarrow> count_params ps n = count_params qs n"
proof (induction ps arbitrary: qs)
  case (Cons p ps)
  then obtain q rs where "qs = q # rs" "p_name p = p_name q" "map p_name ps = map p_name rs" by (cases qs) auto
  then show ?case using Cons(1) [of rs] by simp
qed simp

lemma has_duplicate_names:
  assumes "map p_name (take (cmd_length c) (params c)) = map p_name (take (cmd_length d) (params d))" "map p_name ps = map p_name qs"
  shows "has_duplicate c ps = has_duplicate d qs"
  using assms(2)
proof (induction ps arbitrary: qs)
  case (Cons p ps)
  then obtain q rs where "qs = q # rs" "p_name p = p_name q" "map p_name ps = map p_name rs" by (cases qs) auto
  then show ?case using Cons(1) [of rs] count_params_names [OF assms(1)] by (simp add: http_cmd_param_count_def cong: if_cong)
qed simp

lemma read_names_ok:
  assumes "wf_heap h" "cmd_owned h p (name, a, ps, free)" "\<forall>i \<in> set is. i < length ps"
  shows "read_names p is h = Inr (map (\<lambda>i. p_name (param_val h (ps ! i))) is, h)"
  using assms(3)
proof (induction "is")
  case (Cons i js)
  obtain n v where nv: "ps ! i = (n, v)" by (cases "ps ! i")
  have own: "cells h p = Some (CmdBlock name (Some a) (Some (length ps)))" "cells h a = Some (StrPairs (map Some ps @ free))"
    "\<forall>q \<in> set ps. \<forall>r \<in> set (pair_ptrs q). str_of h r \<noteq> None" using assms(2) by (auto simp: cmd_owned_def)
  have slot: "load_params p h = Inr (map Some ps @ free, h)" "load_slot (map Some ps @ free) i h = Inr ((n, v), h)"
    using own(1,2) Cons(2) nv by (simp_all add: load_params_def load_cmd_def load_pairs_def hget_def load_slot_def heap_simps nth_append)
  have "str_of h n \<noteq> None" if "n \<noteq> 0"
    using own(3) [rule_format, of "(n, v)" n] nth_mem [of i ps] Cons(2) nv that by (simp add: field_ptrs_def)
  then have "load_string n h = Inr (str_of h n, h)"
    using wf_heap_zero(2) [OF assms(1)] by (cases "n = 0") (auto simp: load_string_def str_of_def heap_simps split: option.splits block.splits)
  then show ?case using Cons nv slot by (simp add: heap_simps param_val_def)
qed (simp add: heap_simps)

text \<open>The command at a pointer.\<close>

definition cmd_val :: "heap \<Rightarrow> addr \<Rightarrow> http_cmd option" where
  "cmd_val h p =
     (case cells h p of
        Some (CmdBlock name (Some a) (Some n)) \<Rightarrow>
          (case (str_of h name, cells h a) of
             (Some s, Some (StrPairs ps)) \<Rightarrow> Some \<lparr>cmdname = s, cmd_length = n, params = map (\<lambda>q. param_val h (the q)) (take n ps)\<rparr>
           | _ \<Rightarrow> None)
      | _ \<Rightarrow> None)"

definition trim_cmd :: "http_cmd \<Rightarrow> http_cmd" where
  "trim_cmd c = c\<lparr>params := take (cmd_length c) (params c)\<rparr>"

lemma cmd_val_owned:
  "cmd_owned h p (name, a, ps, free) \<Longrightarrow> cells h name = Some (CString s) \<Longrightarrow>
   cmd_val h p = Some \<lparr>cmdname = s, cmd_length = length ps, params = map (param_val h) ps\<rparr>"
  by (simp add: cmd_owned_def cmd_val_def str_of_def)

lemma h_check_duplicates_cases:
  assumes "cmd_made h0 h p (name, a, ps, free) D"
  obtains (ub) e where "h_check_duplicates p response h = Inl e"
      "\<And>c qs. take (length ps) qs = map (param_val h) ps \<Longrightarrow> check_duplicates \<lparr>cmdname = c, cmd_length = length ps, params = qs\<rparr> response = Inl e"
  | (dup) h' where "h_check_duplicates p response h = Inr ((0, HTTP_PARSER_ERROR_DUPLICATE_PARAMS), h')" "adds ({name} \<union> D) h0 h'"
      "\<And>c qs. take (length ps) qs = map (param_val h) ps \<Longrightarrow>
         check_duplicates \<lparr>cmdname = c, cmd_length = length ps, params = qs\<rparr> response = Inr (None, HTTP_PARSER_ERROR_DUPLICATE_PARAMS)"
  | (uniq) "h_check_duplicates p response h = Inr ((p, response), h)"
      "\<And>c qs. take (length ps) qs = map (param_val h) ps \<Longrightarrow>
         check_duplicates \<lparr>cmdname = c, cmd_length = length ps, params = qs\<rparr> response = Inr (Some \<lparr>cmdname = c, cmd_length = length ps, params = qs\<rparr>, response)"
proof -
  note made = assms [unfolded cmd_made_def]
  have wf: "wf_heap h" using made adds_wf by blast
  define dup where "dup = has_duplicate \<lparr>cmdname = [], cmd_length = length ps, params = map (param_val h) ps\<rparr> (map (param_val h) ps)"
  have check: "check_duplicates \<lparr>cmdname = c, cmd_length = length ps, params = qs\<rparr> response =
      cbind dup (\<lambda>d. if d then Inr (None, HTTP_PARSER_ERROR_DUPLICATE_PARAMS)
        else Inr (Some \<lparr>cmdname = c, cmd_length = length ps, params = qs\<rparr>, response))"
    if "take (length ps) qs = map (param_val h) ps" for c qs
    using that has_duplicate_names [of "\<lparr>cmdname = c, cmd_length = length ps, params = qs\<rparr>"
        "\<lparr>cmdname = [], cmd_length = length ps, params = map (param_val h) ps\<rparr>" "map (param_val h) ps" "map (param_val h) ps"]
    by (simp add: check_duplicates_def dup_def)
  let ?ns = "map (\<lambda>s. \<lparr>p_name = s, p_value = None\<rparr>) (map (\<lambda>i. p_name (param_val h (ps ! i))) [0..<length ps])"
  have names: "map p_name ?ns = map p_name (map (param_val h) ps)" by (intro nth_equalityI) simp_all
  have "has_duplicate \<lparr>cmdname = [], cmd_length = length ps, params = ?ns\<rparr> ?ns = dup"
    unfolding dup_def using names by (intro has_duplicate_names) simp_all
  moreover have "load_cmd p h = Inr ((name, Some a, Some (length ps)), h)" using made by (simp add: cmd_owned_def load_cmd_def heap_simps)
  moreover have "read_names p [0..<length ps] h = Inr (map (\<lambda>i. p_name (param_val h (ps ! i))) [0..<length ps], h)"
    using wf made by (intro read_names_ok) auto
  ultimately have run: "h_check_duplicates p response h =
      hbind (hlift dup) (\<lambda>d. if d then hbind (http_cmd_free p) (\<lambda>_. hret (0, HTTP_PARSER_ERROR_DUPLICATE_PARAMS)) else hret (p, response)) h"
    by (simp add: h_check_duplicates_def hget_def heap_simps Let_def)
  consider e where "dup = Inl e" | "dup = Inr True" | "dup = Inr False" by (cases dup) auto
  then show ?thesis
  proof cases
    case 1 then show ?thesis using ub run check by (simp add: heap_simps)
  next
    case 2
    obtain h' where "http_cmd_free p h = Inr ((), h')" "adds ({name} \<union> D) h0 h'"
      using hc.destroy_made [of p "(name, a, ps, free)" D h0 h] made by auto
    then show ?thesis using dup run check 2 by (simp add: heap_simps)
  next
    case 3 then show ?thesis using uniq run check by (simp add: heap_simps)
  qed
qed

text \<open>The array of a command whose name is set; when it is refused, the name stays behind.\<close>

definition alloc_params :: "addr \<Rightarrow> nat \<Rightarrow> (addr \<Rightarrow> (addr \<times> int) hm) \<Rightarrow> (addr \<times> int) hm" where
  "alloc_params cmd k rest =
     hbind (halloc (StrPairs (replicate (k + 1) None))) (\<lambda>a. hbind (set_params cmd a) (\<lambda>_.
       if a = 0 then hbind (hfree cmd) (\<lambda>_. hret (0, HTTP_PARSER_ERROR_NO_MEMORY)) else rest a))"

lemma alloc_params_cases:
  assumes ad: "adds {p, q} h0 h" and p: "cells h p = Some (CmdBlock q None None)" and q: "cells h q = Some (CString c)" and pq: "p \<noteq> q"
  obtains (failed) h' where "alloc_params p k rest h = Inr ((0, HTTP_PARSER_ERROR_NO_MEMORY), h')" "adds {q} h0 h'" "\<not> unrefused h"
  | (ready) a h' where "alloc_params p k rest h = rest a h'" "adds (set (cmd_ptrs p (q, a, [], replicate (k + 1) None))) h0 h'"
      "cmd_shape h' p None (q, a, [], replicate (k + 1) None)" "cells h' q = Some (CString c)"
proof -
  let ?arr = "StrPairs (replicate (k + 1) None)"
  have set_params: "set_params p b h4 = Inr ((), h4\<lparr>cells := (cells h4)(p \<mapsto> CmdBlock q (Some b) None)\<rparr>)"
    if "cells h4 p = Some (CmdBlock q None None)" for b h4
    using that by (simp add: set_params_def load_cmd_def heap_simps hstore_def live_def domIff)
  show ?thesis
  proof (cases rule: halloc_cases [OF adds_wf [OF ad], of ?arr])
    case 1
    let ?h1 = "h\<lparr>next_addr := next_addr h + 1\<rparr>"
    let ?h2 = "?h1\<lparr>cells := (cells ?h1)(p \<mapsto> CmdBlock q (Some 0) None)\<rparr>"
    have "adds {p, q} h0 ?h1" using adds_trans [OF ad 1(3)] by simp
    then have a2: "adds {p, q} h0 ?h2" by (rule adds_store) simp
    have "hfree p ?h2 = Inr ((), release {p} ?h2)" using adds_wf [OF a2] adds_live [OF a2] by (intro hfree_ok) auto
    then have "alloc_params p k rest h = Inr ((0, HTTP_PARSER_ERROR_NO_MEMORY), release {p} ?h2)"
      using 1(2) set_params [of ?h1 0] p by (simp add: alloc_params_def heap_simps)
    moreover have "adds {q} h0 (release {p} ?h2)" using adds_release [OF a2, of "{p}"] pq by (simp add: insert_Diff_if)
    ultimately show ?thesis using failed 1(1) by (auto simp: unrefused_def)
  next
    case (2 h1)
    define a where "a = next_addr h"
    let ?h2 = "h1\<lparr>cells := (cells h1)(p \<mapsto> CmdBlock q (Some a) None)\<rparr>"
    have a: "a \<noteq> 0" "a \<notin> live h" using wf_heap_next [OF adds_wf [OF ad]] by (simp_all add: a_def)
    then have pqa: "a \<noteq> p" "a \<noteq> q" using p q by (auto simp: live_def)
    have c1: "cells h1 p = Some (CmdBlock q None None)" "cells h1 q = Some (CString c)" using adds_kept [OF 2(3)] p q by blast+
    have "adds (set (cmd_ptrs p (q, a, [], replicate (k + 1) None))) h0 h1"
      using adds_trans [OF ad 2(3)] by (simp add: a_def insert_commute)
    then have a2: "adds (set (cmd_ptrs p (q, a, [], replicate (k + 1) None))) h0 ?h2" by (rule adds_store) simp
    show ?thesis
    proof (rule ready [OF _ a2])
      show "alloc_params p k rest h = rest a ?h2"
        using 2(2) set_params [OF c1(1), of a] a by (simp add: alloc_params_def heap_simps a_def)
      show "cmd_shape ?h2 p None (q, a, [], replicate (k + 1) None)" using 2(4) c1 pq pqa adds_live [OF a2] by (auto simp: a_def)
    qed (use c1 pq in auto)
  qed
qed

text \<open>All three allocations of a command.\<close>

lemma h_build_cmd_alloc:
  fixes args :: string
  defines "k \<equiv> count_list args (CHR ''&'')"
  assumes wf: "wf_heap h"
  obtains (failed) D h' where "h_build_cmd c args response h = Inr ((0, HTTP_PARSER_ERROR_NO_MEMORY), h')" "adds D h h'" "\<not> unrefused h"
  | (ready) p name a h' where "p \<noteq> 0" "h_build_cmd c args response h =
        hbind (h_fill_params p args k) (\<lambda>ok. if ok then h_check_duplicates p response else hret (0, HTTP_PARSER_ERROR_NO_MEMORY)) h'"
      "adds (set (cmd_ptrs p (name, a, [], replicate (k + 1) None))) h h'" "cmd_shape h' p None (name, a, [], replicate (k + 1) None)"
      "cells h' name = Some (CString c)"
proof (cases rule: halloc_cases [OF wf, of Raw])
  case 1
  show ?thesis
    by (rule failed [of "h\<lparr>next_addr := next_addr h + 1\<rparr>" "{}"])
       (use 1 in \<open>simp_all add: h_build_cmd_def heap_simps unrefused_def, blast\<close>)
next
  case (2 h1)
  define p where "p = next_addr h"
  have p: "p \<noteq> 0" "halloc Raw h = Inr (p, h1)" "adds {p} h h1" using 2 wf_heap_next [OF wf] by (simp_all add: p_def)
  obtain q h2 where q: "strdup (Some c) h1 = Inr (q, h2)" "adds (set (nonnull [q])) h1 h2" "q = 0 \<longleftrightarrow> refused h1 (next_addr h1)"
    "q \<noteq> 0 \<longrightarrow> cells h2 q = Some (CString c)" using strdup_spec [OF adds_wf [OF p(3)], of c] by metis
  define h3 where "h3 = h2\<lparr>cells := (cells h2)(p \<mapsto> CmdBlock q None None)\<rparr>"
  have "adds ({p} \<union> set (nonnull [q])) h h2" using adds_trans [OF p(3) q(2)] .
  then have a3: "adds ({p} \<union> set (nonnull [q])) h h3" unfolding h3_def by (rule adds_store) simp
  have st: "hstore p (CmdBlock q None None) h2 = Inr ((), h3)"
    using adds_live [OF p(3)] adds_live [OF q(2)] by (simp add: hstore_def h3_def)
  show ?thesis
  proof (cases "q = 0")
    case True
    have "\<not> unrefused h" using True q(3) unrefused_later [OF _ p(3)] by (auto simp: unrefused_def)
    moreover have "h_build_cmd c args response h = Inr ((0, HTTP_PARSER_ERROR_NO_MEMORY), h3)"
      using p(1,2) q(1) st True by (simp add: h_build_cmd_def heap_simps)
    ultimately show ?thesis using failed a3 by blast
  next
    case False
    let ?rest = "hbind (h_fill_params p args k) (\<lambda>ok. if ok then h_check_duplicates p response else hret (0, HTTP_PARSER_ERROR_NO_MEMORY))"
    have pq: "p \<noteq> q" using adds_disjoint [OF p(3) q(2)] False by auto
    have build: "h_build_cmd c args response h = alloc_params p k (\<lambda>_. ?rest) h3"
      using p(1,2) q(1) st False by (simp add: h_build_cmd_def alloc_params_def heap_simps k_def Let_def cong: if_cong)
    have a3': "adds {p, q} h h3" "cells h3 p = Some (CmdBlock q None None)" "cells h3 q = Some (CString c)"
      using a3 q(4) False pq by (simp_all add: h3_def insert_commute)
    show ?thesis
    proof (cases rule: alloc_params_cases [OF a3' pq, of k "\<lambda>_. ?rest"])
      case (1 h')
      then show ?thesis using failed [of h' "{q}"] build unrefused_later [OF _ a3] by auto
    next
      case (2 a h')
      then show ?thesis using ready [OF p(1) trans [OF build 2(1)] 2(2-4)] by blast
    qed
  qed
qed

definition build_val :: "string \<Rightarrow> string \<Rightarrow> int \<Rightarrow> (http_cmd option \<times> int) c" where
  "build_val c args response =
     cbind (fill_val args) (\<lambda>r. case r of None \<Rightarrow> Inr (None, HTTP_PARSER_ERROR_NO_MEMORY)
       | Some (n, ps) \<Rightarrow> check_duplicates \<lparr>cmdname = c, cmd_length = n, params = ps\<rparr> response)"

lemma h_build_cmd_cases:
  fixes args :: string
  assumes wf: "wf_heap h"
  obtains (ub) e where "h_build_cmd c args response h = Inl e" "unrefused h \<Longrightarrow> build_val c args response = Inl e"
  | (none) r D h' where "h_build_cmd c args response h = Inr ((0, r), h')" "adds D h h'"
      "unrefused h \<Longrightarrow> build_val c args response = Inr (None, r)"
  | (made) p name a ps free D h' where "h_build_cmd c args response h = Inr ((p, response), h')" "p \<noteq> 0"
      "cmd_made h h' p (name, a, ps, free) D" "cells h' name = Some (CString c)"
      "unrefused h \<Longrightarrow> D = {} \<or> length ps < count_list args (CHR ''&'')"
      "unrefused h \<Longrightarrow> \<exists>cmd. build_val c args response = Inr (Some cmd, response) \<and> cmd_val h' p = Some (trim_cmd cmd)"
proof (cases rule: h_build_cmd_alloc [OF wf, of c args response])
  case (1 D h')
  then show ?thesis using none by blast
next
  case (2 p name a h1)
  note un = unrefused_later [OF _ 2(3)]
  show ?thesis
  proof (cases rule: h_fill_params_cases [OF 2(3,4)])
    case (1 e)
    then show ?thesis using ub [of e] 2(2) un by (simp add: heap_simps build_val_def)
  next
    case f: (2 D h')
    have "h_build_cmd c args response h = Inr ((0, HTTP_PARSER_ERROR_NO_MEMORY), h')"
      using 2(2) by (simp add: hbind_apply(1) [of "h_fill_params p args _", OF f(1)] heap_simps)
    then show ?thesis using none [OF _ f(2)] f(3) un by (simp add: build_val_def)
  next
    case f: (3 b ps free D h2)
    have run: "h_build_cmd c args response h = h_check_duplicates p response h2" using 2(2) f(1) by (simp add: heap_simps)
    have name: "cells h2 name = Some (CString c)" using f(3) 2(5) by simp
    obtain qs where qs: "unrefused h \<Longrightarrow> fill_val args = Inr (Some (length ps, qs))" "unrefused h \<Longrightarrow> take (length ps) qs = map (param_val h2) ps"
      using f(5) un by metis
    show ?thesis
    proof (cases rule: h_check_duplicates_cases [OF f(2), of response])
      case (1 e)
      then show ?thesis using ub [of e] run qs by (simp add: build_val_def)
    next
      case d: (2 h')
      then show ?thesis using none [of _ h'] run qs by (simp add: build_val_def)
    next
      case d: 3
      have "cmd_val h2 p = Some \<lparr>cmdname = c, cmd_length = length ps, params = map (param_val h2) ps\<rparr>"
        using f(2) name by (auto simp: cmd_made_def intro: cmd_val_owned)
      then show ?thesis using made [OF trans [OF run d(1)] 2(1) f(2) name] f(4) un qs d(2) by (simp add: build_val_def trim_cmd_def)
    qed
  qed
qed

lemma parse_http_request_build:
  "parse_http_request (\<lambda>_. False) request response =
     (case rpiwd_getline False request [CHR 0x0D, CHR 0x0A] of
        None \<Rightarrow> Inr (None, response)
      | Some line \<Rightarrow> cbind (break_request line) (\<lambda>(bflag, http_proto, args, commandstr).
          if bflag < 0 then Inr (None, bflag)
          else if http_proto \<noteq> ''HTTP/1.1'' \<and> http_proto \<noteq> ''HTTP/1.0'' then Inr (None, HTTP_PARSER_ERROR_WRONG_PROTOCOL)
          else build_val commandstr args response))"
  unfolding parse_http_request_fill build_val_def ..

text \<open>A command built after the request line was copied.\<close>

lemma build_after_line:
  assumes line: "adds {line} h h1" "cells h1 line = Some (CString l)"
  obtains (ub) e where "h_build_cmd c args response h1 = Inl e" "unrefused h \<Longrightarrow> build_val c args response = Inl e"
  | (none) r D h' where "h_build_cmd c args response h1 = Inr ((0, r), h')" "adds D h h'"
      "unrefused h \<Longrightarrow> build_val c args response = Inr (None, r)"
  | (made) p name a ps free D h' where "h_build_cmd c args response h1 = Inr ((p, response), h')" "p \<noteq> 0"
      "cmd_made h h' p (name, a, ps, free) ({line} \<union> D)" "line \<notin> D" "cells h' line = Some (CString l)" "cells h' name = Some (CString c)"
      "unrefused h \<Longrightarrow> D = {} \<or> length ps < count_list args (CHR ''&'')"
      "unrefused h \<Longrightarrow> \<exists>cmd. build_val c args response = Inr (Some cmd, response) \<and> cmd_val h' p = Some (trim_cmd cmd)"
proof (cases rule: h_build_cmd_cases [OF adds_wf [OF line(1)], of c args response])
  case (1 e)
  then show ?thesis using ub unrefused_later [OF _ line(1)] by blast
next
  case (2 r' D h')
  then show ?thesis using none adds_trans [OF line(1) 2(2)] unrefused_later [OF _ line(1)] by blast
next
  case (3 p name a ps free D h')
  let ?P = "set (cmd_ptrs p (name, a, ps, free))"
  note made3 = 3(3) [unfolded cmd_made_def]
  have sep: "{line} \<inter> (?P \<union> D) = {}" using adds_disjoint [OF line(1)] made3 by blast
  have "cmd_made h h' p (name, a, ps, free) ({line} \<union> D)"
    unfolding cmd_made_def using adds_trans [OF line(1), of "?P \<union> D" h'] made3 sep by (simp add: Un_left_commute Un_commute Int_Un_distrib)
  moreover have "cells h' line = Some (CString l)" using adds_kept [of "?P \<union> D" h1 h' line] made3 line(2) by blast
  ultimately show ?thesis using made [of p h' name a ps free D] 3 sep unrefused_later [OF _ line(1)] by simp
qed

text \<open>The request: its line stays on the heap in every case.\<close>

lemma h_parse_http_request_cases:
  assumes wf: "wf_heap h"
  obtains (ub) e where "h_parse_http_request request response h = Inl e"
      "unrefused h \<Longrightarrow> parse_http_request (\<lambda>_. False) request response = Inl e"
  | (none) r D h' where "h_parse_http_request request response h = Inr ((0, r), h')" "adds D h h'"
      "unrefused h \<Longrightarrow> parse_http_request (\<lambda>_. False) request response = Inr (None, r)"
  | (made) l line b proto args c p name a ps free D h' where "h_parse_http_request request response h = Inr ((p, response), h')" "p \<noteq> 0"
      "rpiwd_getline False request [CHR 0x0D, CHR 0x0A] = Some l" "break_request l = Inr (b, proto, args, c)"
      "cmd_made h h' p (name, a, ps, free) ({line} \<union> D)" "line \<notin> D" "cells h' line = Some (CString l)" "cells h' name = Some (CString c)"
      "unrefused h \<Longrightarrow> D = {} \<or> length ps < count_list args (CHR ''&'')"
      "unrefused h \<Longrightarrow> \<exists>cmd. parse_http_request (\<lambda>_. False) request response = Inr (Some cmd, response) \<and> cmd_val h' p = Some (trim_cmd cmd)"
proof (cases "rpiwd_getline False request [CHR 0x0D, CHR 0x0A]")
  case None
  then show ?thesis using none [of response h "{}"] adds_refl [OF wf]
    by (simp add: h_parse_http_request_def h_rpiwd_getline_def parse_http_request_build heap_simps)
next
  case (Some l)
  note val = parse_http_request_build [of request response, unfolded Some option.case]
  show ?thesis
  proof (cases rule: halloc_cases [OF wf, of "CString l"])
    case 1
    then have "\<not> unrefused h" by (auto simp: unrefused_def)
    then show ?thesis using none [of response _ "{}"] 1(2,3) Some
      by (simp add: h_parse_http_request_def h_rpiwd_getline_def heap_simps)
  next
    case (2 h1)
    define line where "line = next_addr h"
    have line: "adds {line} h h1" "cells h1 line = Some (CString l)" "line \<noteq> 0" using 2 wf_heap_next [OF wf] by (simp_all add: line_def)
    have run: "h_parse_http_request request response h = hbind (hlift (break_request l)) (\<lambda>(bflag, http_proto, args, commandstr).
        if bflag < 0 then hret (0, bflag)
        else if http_proto \<noteq> ''HTTP/1.1'' \<and> http_proto \<noteq> ''HTTP/1.0'' then hret (0, HTTP_PARSER_ERROR_WRONG_PROTOCOL)
        else h_build_cmd commandstr args response) h1"
      using 2(2) line(2,3) Some by (simp add: h_parse_http_request_def h_rpiwd_getline_def load_string_def deref_def heap_simps line_def)
    consider e where "break_request l = Inl e" | b proto args c where "break_request l = Inr (b, proto, args, c)"
      by (cases "break_request l") auto
    then show ?thesis
    proof cases
      case e: 1
      then show ?thesis using ub [of e] run val by (simp add: heap_simps)
    next
      case (2 b proto args c)
      show ?thesis
      proof (cases "b < 0 \<or> proto \<noteq> ''HTTP/1.1'' \<and> proto \<noteq> ''HTTP/1.0''")
        case True
        then show ?thesis using none [of "if b < 0 then b else HTTP_PARSER_ERROR_WRONG_PROTOCOL" h1 "{line}"] line(1) run val 2
          by (auto simp: heap_simps split: if_splits)
      next
        case False
        then have "h_parse_http_request request response h = h_build_cmd c args response h1"
          "parse_http_request (\<lambda>_. False) request response = build_val c args response" using run val 2 by auto
        then show ?thesis
          by (cases rule: build_after_line [OF line(1,2), of c args response])
             (metis ub, metis none, use 2 Some in \<open>auto intro!: made [of _ _ l b proto args c]\<close>)
      qed
    qed
  qed
qed

section \<open>Properties\<close>

lemma show_request_line:
  assumes "url_safe c" "list_all safe_param ps"
  shows "rpiwd_getline False (show_request c ps @ crlf @ rest) crlf = Some (show_request c ps)"
proof -
  have "\<forall>x \<in> set (show_request c ps). x \<noteq> CHR 0x0D"
    using assms query_safe(1) [OF assms(2)] by (auto simp: show_request_def url_safe_def)
  then show ?thesis by (rule getline_at) (simp add: show_request_def)
qed

text \<open>C15. The parser on the heap implements the parser on values: with memory to spare it has the same undefined
  behaviour, the same response code, NULL exactly where the model has no command, and otherwise a pointer at which
  the command of the model can be read, its name, its length and its counted parameters.\<close>
theorem http_heap_refines:
  assumes "wf_heap h" "unrefused h"
  shows "case h_parse_http_request request response h of
      Inl e \<Rightarrow> parse_http_request (\<lambda>_. False) request response = Inl e
    | Inr ((p, r), h') \<Rightarrow> \<exists>c. parse_http_request (\<lambda>_. False) request response = Inr (c, r) \<and>
        (case c of None \<Rightarrow> p = 0 | Some cmd \<Rightarrow> p \<noteq> 0 \<and> cmd_val h' p = Some (trim_cmd cmd))"
  by (cases rule: h_parse_http_request_cases [OF assms(1), of request response]) (use assms(2) in auto)

theorem http_heap_refines_witness:
  "case h_parse_http_request (''GET /fetch?a=1&b=2 HTTP/1.1'' @ crlf) 0 empty_heap of
      Inl e \<Rightarrow> parse_http_request (\<lambda>_. False) (''GET /fetch?a=1&b=2 HTTP/1.1'' @ crlf) 0 = Inl e
    | Inr ((p, r), h') \<Rightarrow> \<exists>c. parse_http_request (\<lambda>_. False) (''GET /fetch?a=1&b=2 HTTP/1.1'' @ crlf) 0 = Inr (c, r) \<and>
        (case c of None \<Rightarrow> p = 0 | Some cmd \<Rightarrow> p \<noteq> 0 \<and> cmd_val h' p = Some (trim_cmd cmd))"
  using empty_heap_ok(1,2) by (rule http_heap_refines)

text \<open>C18. Closing a request is safe: whatever was sent and whichever allocations were refused, when the parser returned,
  releasing its command frees no block twice and reads none that was freed, takes the command and its array away, and leaves every
  block that was there before the request as it was.\<close>
theorem http_request_closed:
  assumes "wf_heap h" "h_parse_http_request request response h = Inr ((p, r), h1)"
  shows "\<exists>h2. end_response p h1 = Inr ((), h2) \<and> wf_heap h2 \<and> p \<notin> live h2 \<and> (\<forall>x \<in> live h. cells h2 x = cells h x)"
proof (cases rule: h_parse_http_request_cases [OF assms(1), of request response])
  case (2 r D h')
  then show ?thesis using assms(2) adds_effect [OF 2(2)] adds_wf [OF 2(2)] wf_heap_zero(1) by (auto simp: end_response_def heap_simps)
next
  case (3 l line b proto args c q name a ps free D h')
  then have q: "q = p" "h' = h1" using assms(2) by simp_all
  note made = 3(5) [unfolded cmd_made_def q]
  obtain h2 where h2: "http_cmd_free p h1 = Inr ((), h2)" "adds ({name} \<union> ({line} \<union> D)) h h2"
    using hc.destroy_made [of p "(name, a, ps, free)" "{line} \<union> D" h h1] made by (simp add: Un_assoc) blast
  have "p \<notin> {name} \<union> ({line} \<union> D)" "p \<notin> live h"
    using made adds_effect [of _ h h1] by (auto simp: cmd_owned_def)
  then show ?thesis using h2 adds_effect [OF h2(2)] adds_wf [OF h2(2)] 3(2) q by (auto simp: end_response_def)
qed (use assms(2) in simp)

text \<open>C35. What a request costs: for every well-formed request line the parser returns the command that was written, and after the
  response is ended exactly two fresh blocks are left on the heap, the copy of the request line and the copy of the command's
  name, which nothing refers to any more.\<close>
theorem http_request_leaks_two:
  assumes "wf_heap h" "unrefused h"
    and "url_safe c" "list_all safe_param ps" "distinct (map fst ps)"
    and "length (show_request c ps) < 1024" "length (query ps) < 512"
  shows "\<exists>p h1 h2 line name. h_parse_http_request (show_request c ps @ crlf @ rest) r h = Inr ((p, r), h1) \<and>
    cmd_val h1 p = Some (trim_cmd (request_cmd c ps)) \<and> end_response p h1 = Inr ((), h2) \<and>
    live h2 = live h \<union> {line, name} \<and> live h \<inter> {line, name} = {} \<and> line \<noteq> name \<and>
    cells h2 line = Some (CString (show_request c ps)) \<and> cells h2 name = Some (CString c)"
proof -
  let ?req = "show_request c ps @ crlf @ rest"
  note parsed = parse_show_request [OF assms(3-7), of rest r]
  show ?thesis
  proof (cases rule: h_parse_http_request_cases [OF assms(1), of ?req r])
    case (3 l line b proto args c' p name a qs free D h1)
    have cv: "cmd_val h1 p = Some (trim_cmd (request_cmd c ps))" using 3(10) [OF assms(2)] parsed by simp
    have l: "l = show_request c ps" using 3(3) show_request_line [OF assms(3,4), of rest] by simp
    have bl: "args = query ps" "c' = c" using 3(4) break_show_request [OF assms(3,4,6,7)] by (simp_all add: l)
    note made = 3(5) [unfolded cmd_made_def bl]
    have "length qs = length ps"
      using cv cmd_val_owned [of h1 p name a qs free c] made 3(8) bl by (simp add: trim_cmd_def request_cmd_def)
    then have D: "D = {}" using 3(9) [OF assms(2)] count_query [OF assms(4)] by (auto simp: bl)
    obtain h2 where h2: "http_cmd_free p h1 = Inr ((), h2)" "adds {name, line} h h2"
      using hc.destroy_made [of p "(name, a, qs, free)" "{line}" h h1] made by (auto simp: D insert_commute)
    have "cells h2 x = cells h1 x" if "x \<in> {line, name}" for x
      using h2(1) http_cmd_free_ok [of h1 p "(name, a, qs, free)"] adds_wf [of _ h h1] made that by (auto simp: D)
    moreover have "line \<noteq> name" using made by auto
    ultimately show ?thesis using 3(1,2,7,8) cv h2 adds_effect [OF h2(2)] l bl
      by (intro exI [of _ p] exI [of _ h1] exI [of _ h2] exI [of _ line] exI [of _ name])
         (simp add: end_response_def insert_commute)
  qed (use parsed assms(2) in auto)
qed

theorem http_request_leaks_two_witness:
  "\<exists>p h1 h2 line name. h_parse_http_request (show_request ''fetch'' [(''from'', Some ''3d'')] @ crlf @ ''Host: pi'') 0 empty_heap = Inr ((p, 0), h1) \<and>
    cmd_val h1 p = Some (trim_cmd (request_cmd ''fetch'' [(''from'', Some ''3d'')])) \<and> end_response p h1 = Inr ((), h2) \<and>
    live h2 = live empty_heap \<union> {line, name} \<and> live empty_heap \<inter> {line, name} = {} \<and> line \<noteq> name \<and>
    cells h2 line = Some (CString (show_request ''fetch'' [(''from'', Some ''3d'')])) \<and> cells h2 name = Some (CString ''fetch'')"
  by (rule http_request_leaks_two [OF empty_heap_ok(1,2)]) (simp_all add: url_safe_def safe_param_def show_request_def)

lemma sample_request:
  "\<exists>p r h1. h_parse_http_request (show_request ''fetch'' [(''from'', Some ''3d'')] @ crlf) 0 empty_heap = Inr ((p, r), h1) \<and> p \<noteq> 0"
proof -
  have "parse_http_request (\<lambda>_. False) (show_request ''fetch'' [(''from'', Some ''3d'')] @ crlf) 0 =
      Inr (Some (request_cmd ''fetch'' [(''from'', Some ''3d'')]), 0)"
    using parse_show_request [of "''fetch''" "[(''from'', Some ''3d'')]" "[]" 0] by (simp add: url_safe_def safe_param_def show_request_def)
  then show ?thesis
    by (cases rule: h_parse_http_request_cases [OF empty_heap_ok(1), of "show_request ''fetch'' [(''from'', Some ''3d'')] @ crlf" 0])
       (use empty_heap_ok(2) in auto)
qed

theorem http_request_closed_witness:
  "\<exists>p r h1 h2. h_parse_http_request (show_request ''fetch'' [(''from'', Some ''3d'')] @ crlf) 0 empty_heap = Inr ((p, r), h1) \<and> p \<noteq> 0 \<and>
     end_response p h1 = Inr ((), h2) \<and> wf_heap h2 \<and> p \<notin> live h2"
proof -
  obtain p r h1 where r: "h_parse_http_request (show_request ''fetch'' [(''from'', Some ''3d'')] @ crlf) 0 empty_heap = Inr ((p, r), h1)" "p \<noteq> 0"
    using sample_request by blast
  then show ?thesis using http_request_closed [OF empty_heap_ok(1) r(1)] by auto
qed

end
