(* ===== verification/Heap_Json.thy ===== *)
theory Heap_Json
  imports Heap Parson
begin

text \<open>
  The values of \<^verbatim>\<open>src/deps/parson.c\<close> at the level of pointers: constructors, growth and
  change of objects, the serializer, and the destructors. A tree on the heap is described by a layout; the destructor of a value releases
  exactly the blocks of its tree. The destructors recurse with the nesting of the values: their first argument is
  the number of nested calls the stack has room for.
\<close>

section \<open>Reading the structs\<close>

definition load_value :: "addr \<Rightarrow> jnode hm" where
  "load_value v = hbind (hload v) (\<lambda>b. case b of ValueBlock n \<Rightarrow> hret n | _ \<Rightarrow> hfail UninitRead)"

definition load_object :: "addr \<Rightarrow> (addr \<times> addr \<times> nat \<times> nat) hm" where
  "load_object ob = hbind (hload ob) (\<lambda>b. case b of ObjectBlock ns vs n cap \<Rightarrow> hret (ns, vs, n, cap) | _ \<Rightarrow> hfail UninitRead)"

definition load_array :: "addr \<Rightarrow> (addr \<times> nat \<times> nat) hm" where
  "load_array ar = hbind (hload ar) (\<lambda>b. case b of ArrayBlock items n cap \<Rightarrow> hret (items, n, cap) | _ \<Rightarrow> hfail UninitRead)"

definition load_ptr :: "addr \<Rightarrow> nat \<Rightarrow> addr hm" where
  "load_ptr a i = hbind (hload a) (\<lambda>b. case b of PtrArray xs \<Rightarrow> load_slot xs i | _ \<Rightarrow> hfail UninitRead)"

definition store_ptr :: "addr \<Rightarrow> nat \<Rightarrow> addr \<Rightarrow> unit hm" where
  "store_ptr a i p = hbind (hload a) (\<lambda>b. case b of
     PtrArray xs \<Rightarrow> if length xs \<le> i then hfail BufferOverflow else hstore a (PtrArray (xs[i := Some p])) | _ \<Rightarrow> hfail UninitRead)"

definition set_object_count :: "addr \<Rightarrow> nat \<Rightarrow> unit hm" where
  "set_object_count ob n = hbind (load_object ob) (\<lambda>(ns, vs, _, cap). hstore ob (ObjectBlock ns vs n cap))"

definition set_array_count :: "addr \<Rightarrow> nat \<Rightarrow> unit hm" where
  "set_array_count ar n = hbind (load_array ar) (\<lambda>(items, _, cap). hstore ar (ArrayBlock items n cap))"

definition load_name :: "addr \<Rightarrow> nat \<Rightarrow> addr hm" where
  "load_name ob i = hbind (load_object ob) (\<lambda>(ns, _, _, _). load_ptr ns i)"

definition load_member :: "addr \<Rightarrow> nat \<Rightarrow> addr hm" where
  "load_member ob i = hbind (load_object ob) (\<lambda>(_, vs, _, _). load_ptr vs i)"

definition load_item :: "addr \<Rightarrow> nat \<Rightarrow> addr hm" where
  "load_item ar i = hbind (load_array ar) (\<lambda>(items, _, _). load_ptr items i)"

section \<open>Destructors\<close>

text \<open>
  \<open>while (object->count--)\<close>: the count is stored before each round and wraps after the last. The
  argument is the destructor of the members.
\<close>

definition json_object_free :: "(addr \<Rightarrow> unit hm) \<Rightarrow> addr \<Rightarrow> unit hm" where
  "json_object_free free_value ob =
     hbind (load_object ob) (\<lambda>(_, _, n, _).
     hbind (hfor (rev [0..<n]) (\<lambda>i.
       hbind (set_object_count ob i) (\<lambda>_.
       hbind (load_name ob i) (\<lambda>name. hbind (hfree name) (\<lambda>_.
       hbind (load_member ob i) free_value))))) (\<lambda>_.
     hbind (set_object_count ob (2 ^ 32 - 1)) (\<lambda>_.
     hbind (load_object ob) (\<lambda>(ns, _, _, _). hbind (hfree ns) (\<lambda>_.
     hbind (load_object ob) (\<lambda>(_, vs, _, _). hbind (hfree vs) (\<lambda>_. hfree ob)))))))"

definition json_array_free :: "(addr \<Rightarrow> unit hm) \<Rightarrow> addr \<Rightarrow> unit hm" where
  "json_array_free free_value ar =
     hbind (load_array ar) (\<lambda>(_, n, _).
     hbind (hfor (rev [0..<n]) (\<lambda>i.
       hbind (set_array_count ar i) (\<lambda>_. hbind (load_item ar i) free_value))) (\<lambda>_.
     hbind (set_array_count ar (2 ^ 32 - 1)) (\<lambda>_.
     hbind (load_array ar) (\<lambda>(items, _, _). hbind (hfree items) (\<lambda>_. hfree ar)))))"

fun json_value_free :: "nat \<Rightarrow> addr \<Rightarrow> unit hm" where
  "json_value_free 0 value = hfail StackOverflow"
| "json_value_free (Suc stack) value =
     hbind (if value = 0 then hret NNull else load_value value) (\<lambda>n.
     hbind (case n of
         NObject ob \<Rightarrow> json_object_free (json_value_free stack) ob
       | NString s \<Rightarrow> if s \<noteq> 0 then hfree s else hret ()
       | NArray ar \<Rightarrow> json_array_free (json_value_free stack) ar
       | _ \<Rightarrow> hret ()) (\<lambda>_.
     hfree value))"

section \<open>Constructors\<close>

definition parson_strndup :: "string \<Rightarrow> nat \<Rightarrow> addr hm" where
  "parson_strndup str n = halloc (CString (take n str))"

definition parson_strdup :: "string \<Rightarrow> addr hm" where
  "parson_strdup str = parson_strndup str (length str)"

definition h_json_object_init :: "addr hm" where
  "h_json_object_init = hbind (halloc Raw) (\<lambda>new_obj.
     if new_obj = 0 then hret 0 else hbind (hstore new_obj (ObjectBlock 0 0 0 0)) (\<lambda>_. hret new_obj))"

definition h_json_array_init :: "addr hm" where
  "h_json_array_init = hbind (halloc Raw) (\<lambda>new_array.
     if new_array = 0 then hret 0 else hbind (hstore new_array (ArrayBlock 0 0 0)) (\<lambda>_. hret new_array))"

text \<open>A value whose type and content are set after the allocation.\<close>

definition init_value :: "jnode \<Rightarrow> addr hm" where
  "init_value n = hbind (halloc Raw) (\<lambda>v. if v = 0 then hret 0 else hbind (hstore v (ValueBlock n)) (\<lambda>_. hret v))"

definition h_json_value_init_number :: "fp \<Rightarrow> addr hm" where
  "h_json_value_init_number number = init_value (NNumber number)"

definition h_json_value_init_boolean :: "bool \<Rightarrow> addr hm" where
  "h_json_value_init_boolean boolean = init_value (NBoolean boolean)"

definition h_json_value_init_null :: "addr hm" where
  "h_json_value_init_null = init_value NNull"

definition h_json_value_init_string_no_copy :: "addr \<Rightarrow> addr hm" where
  "h_json_value_init_string_no_copy str = init_value (NString str)"

definition h_json_value_init_string :: "string option \<Rightarrow> addr hm" where
  "h_json_value_init_string str =
     (case str of None \<Rightarrow> hret 0
      | Some s \<Rightarrow> if \<not> is_valid_utf8 s then hret 0
          else hbind (parson_strndup s (length s)) (\<lambda>copy.
            if copy = 0 then hret 0
            else hbind (h_json_value_init_string_no_copy copy) (\<lambda>value.
                   if value = 0 then hbind (hfree copy) (\<lambda>_. hret value) else hret value)))"

text \<open>The container of a new object or array; without it the value is given back.\<close>

definition init_container :: "addr hm \<Rightarrow> (addr \<Rightarrow> jnode) \<Rightarrow> addr hm" where
  "init_container init node = hbind (halloc Raw) (\<lambda>v.
     if v = 0 then hret 0
     else hbind init (\<lambda>c. hbind (hstore v (ValueBlock (node c))) (\<lambda>_.
       if c = 0 then hbind (hfree v) (\<lambda>_. hret 0) else hret v)))"

definition h_json_value_init_object :: "addr hm" where
  "h_json_value_init_object = init_container h_json_object_init NObject"

definition h_json_value_init_array :: "addr hm" where
  "h_json_value_init_array = init_container h_json_array_init NArray"

definition h_json_value_get_object :: "addr \<Rightarrow> addr hm" where
  "h_json_value_get_object v = (if v = 0 then hret 0
     else hbind (load_value v) (\<lambda>n. case n of NObject ob \<Rightarrow> hret ob | _ \<Rightarrow> hret 0))"

section \<open>Looking up and adding members\<close>

fun h_find_name :: "addr \<Rightarrow> string \<Rightarrow> nat \<Rightarrow> nat list \<Rightarrow> addr hm" where
  "h_find_name ob name n [] = hret 0"
| "h_find_name ob name n (i # is) =
     hbind (load_name ob i) (\<lambda>a. hbind (load_string a) (\<lambda>so. hbind (hlift (deref so)) (\<lambda>s.
       if length s = n \<and> take n s = take n name then load_member ob i else h_find_name ob name n is)))"

definition h_json_object_nget_value :: "addr \<Rightarrow> string \<Rightarrow> nat \<Rightarrow> addr hm" where
  "h_json_object_nget_value ob name n =
     (if ob = 0 then hret 0 else hbind (load_object ob) (\<lambda>(_, _, count, _). h_find_name ob name n [0..<count]))"

definition h_json_object_get_value :: "addr \<Rightarrow> string \<Rightarrow> addr hm" where
  "h_json_object_get_value ob name = (if ob = 0 then hret 0 else h_json_object_nget_value ob name (length name))"

text \<open>\<open>memcpy\<close> of the first \<open>n\<close> pointers.\<close>

definition copy_ptrs :: "addr \<Rightarrow> addr \<Rightarrow> nat \<Rightarrow> unit hm" where
  "copy_ptrs dst src n = hbind (hload src) (\<lambda>b. hbind (hload dst) (\<lambda>d. case (b, d) of
     (PtrArray xs, PtrArray ys) \<Rightarrow>
       if length xs < n then hfail OutOfBounds else if length ys < n then hfail BufferOverflow
       else hstore dst (PtrArray (take n xs @ drop n ys))
   | _ \<Rightarrow> hfail UninitRead))"

definition h_json_object_resize :: "addr \<Rightarrow> nat \<Rightarrow> bool hm" where
  "h_json_object_resize ob new_capacity =
     hbind (load_object ob) (\<lambda>(ns, vs, n, cap).
       if (ns = 0) \<noteq> (vs = 0) \<or> new_capacity = 0 then hret False
       else hbind (halloc (PtrArray (replicate new_capacity None))) (\<lambda>temp_names.
         if temp_names = 0 then hret False
         else hbind (halloc (PtrArray (replicate new_capacity None))) (\<lambda>temp_values.
           if temp_values = 0 then hbind (hfree temp_names) (\<lambda>_. hret False)
           else hbind (if ns \<noteq> 0 \<and> vs \<noteq> 0 \<and> n > 0 then hbind (copy_ptrs temp_names ns n) (\<lambda>_. copy_ptrs temp_values vs n) else hret ()) (\<lambda>_.
                hbind (hfree ns) (\<lambda>_. hbind (hfree vs) (\<lambda>_.
                hbind (hstore ob (ObjectBlock temp_names temp_values n new_capacity)) (\<lambda>_. hret True)))))))"

text \<open>The name is copied into the first free slot before it is checked.\<close>

definition append_member :: "addr \<Rightarrow> string \<Rightarrow> addr \<Rightarrow> bool hm" where
  "append_member ob name value =
     hbind (load_object ob) (\<lambda>(ns, _, index, _).
     hbind (parson_strdup name) (\<lambda>copy.
     hbind (store_ptr ns index copy) (\<lambda>_.
       if copy = 0 then hret False
       else hbind (load_object ob) (\<lambda>(_, vs, _, _).
            hbind (store_ptr vs index value) (\<lambda>_.
            hbind (set_object_count ob (index + 1)) (\<lambda>_. hret True))))))"

definition h_json_object_add :: "addr \<Rightarrow> string \<Rightarrow> addr \<Rightarrow> bool hm" where
  "h_json_object_add ob name value =
     (if ob = 0 \<or> value = 0 then hret False
      else hbind (h_json_object_get_value ob name) (\<lambda>old.
        if old \<noteq> 0 then hret False
        else hbind (load_object ob) (\<lambda>(_, _, n, cap).
          hbind (if n \<ge> cap then
                   (let new_capacity = max (cap * 2) STARTING_CAPACITY
                    in if new_capacity > OBJECT_MAX_CAPACITY then hret False else h_json_object_resize ob new_capacity)
                 else hret True) (\<lambda>ok.
            if \<not> ok then hret False
            else append_member ob name value))))"

text \<open>
  \<open>json_object_set_value\<close>: an old value is freed and its slot overwritten. \<open>NULL\<close> as the object or the value is
  refused; a value that was not taken over is left to the caller.
\<close>

fun h_replace_member :: "addr \<Rightarrow> string \<Rightarrow> addr \<Rightarrow> nat list \<Rightarrow> bool hm" where
  "h_replace_member ob name value [] = h_json_object_add ob name value"
| "h_replace_member ob name value (i # is) =
     hbind (load_name ob i) (\<lambda>a. hbind (load_string a) (\<lambda>so. hbind (hlift (deref so)) (\<lambda>s.
       if s = name then hbind (load_object ob) (\<lambda>(_, vs, _, _). hbind (store_ptr vs i value) (\<lambda>_. hret True))
       else h_replace_member ob name value is)))"

definition h_json_object_set_value :: "nat \<Rightarrow> addr \<Rightarrow> string \<Rightarrow> addr \<Rightarrow> bool hm" where
  "h_json_object_set_value stack ob name value =
     (if ob = 0 \<or> value = 0 then hret False
      else hbind (h_json_object_get_value ob name) (\<lambda>old.
        if old \<noteq> 0 then
          hbind (json_value_free stack old) (\<lambda>_. hbind (load_object ob) (\<lambda>(_, _, n, _). h_replace_member ob name value [0..<n]))
        else h_json_object_add ob name value))"

definition h_json_object_set_number :: "nat \<Rightarrow> addr \<Rightarrow> string \<Rightarrow> fp \<Rightarrow> bool hm" where
  "h_json_object_set_number stack ob name number =
     hbind (h_json_value_init_number number) (h_json_object_set_value stack ob name)"

definition h_json_object_set_string :: "nat \<Rightarrow> addr \<Rightarrow> string \<Rightarrow> string option \<Rightarrow> bool hm" where
  "h_json_object_set_string stack ob name str =
     hbind (h_json_value_init_string str) (h_json_object_set_value stack ob name)"

section \<open>Serializing\<close>

fun hmap :: "('a \<Rightarrow> 'b hm) \<Rightarrow> 'a list \<Rightarrow> 'b list hm" where
  "hmap f [] = hret []"
| "hmap f (x # xs) = hbind (f x) (\<lambda>y. hbind (hmap f xs) (\<lambda>ys. hret (y # ys)))"

definition read_string :: "addr \<Rightarrow> string hm" where
  "read_string a = hbind (load_string a) (\<lambda>so. hlift (deref so))"

text \<open>What the serializer reads of a tree.\<close>

fun read_value :: "nat \<Rightarrow> addr \<Rightarrow> json hm" where
  "read_value 0 v = hfail StackOverflow"
| "read_value (Suc stack) v =
     hbind (load_value v) (\<lambda>n. case n of
         NNull \<Rightarrow> hret JSONNull
       | NBoolean b \<Rightarrow> hret (JSONBoolean b)
       | NNumber x \<Rightarrow> hret (JSONNumber x)
       | NString a \<Rightarrow> hbind (read_string a) (\<lambda>s. hret (JSONString s))
       | NArray ar \<Rightarrow> hbind (load_array ar) (\<lambda>(_, n, cap).
           hbind (hmap (\<lambda>i. hbind (load_item ar i) (read_value stack)) [0..<n]) (\<lambda>vs. hret (JSONArray cap vs)))
       | NObject ob \<Rightarrow> hbind (load_object ob) (\<lambda>(_, _, n, cap).
           hbind (hmap (\<lambda>i. hbind (load_name ob i) read_string) [0..<n]) (\<lambda>names.
           hbind (hmap (\<lambda>i. hbind (load_member ob i) (read_value stack)) [0..<n]) (\<lambda>vs. hret (JSONObject cap (zip names vs))))))"

text \<open>The result is a block of its own; \<open>json_free_serialized_string\<close> frees it.\<close>

definition h_json_serialize_to_string :: "nat \<Rightarrow> addr \<Rightarrow> addr hm" where
  "h_json_serialize_to_string stack v =
     (if v = 0 then hret 0
      else hbind (read_value stack v) (\<lambda>j. hbind (hlift (json_serialize_to_string True j)) (\<lambda>s.
             case s of None \<Rightarrow> hret 0 | Some t \<Rightarrow> halloc (CString t))))"

definition json_free_serialized_string :: "addr \<Rightarrow> unit hm" where
  "json_free_serialized_string str = hfree str"

section \<open>Layouts\<close>

text \<open>
  A value at its address, with what hangs off it: a string; the object, its two arrays, its capacity, its names
  and its members; the array, its items' array, its capacity and its items.
\<close>

datatype jlayout =
    LLeaf addr jnode
  | LText addr addr string
  | LObj addr addr addr addr nat "(addr \<times> string) list" "jlayout list"
  | LArr addr addr addr nat "jlayout list"

fun jroot :: "jlayout \<Rightarrow> addr" where
  "jroot (LLeaf p n) = p"
| "jroot (LText p s t) = p"
| "jroot (LObj p ob ns vs cap nms ks) = p"
| "jroot (LArr p ar items cap ks) = p"

fun jptrs :: "jlayout \<Rightarrow> addr list" where
  "jptrs (LLeaf p n) = [p]"
| "jptrs (LText p s t) = [p, s]"
| "jptrs (LObj p ob ns vs cap nms ks) = p # ob # (if cap = 0 then [] else [ns, vs]) @ map fst nms @ concat (map jptrs ks)"
| "jptrs (LArr p ar items cap ks) = p # ar # (if cap = 0 then [] else [items]) @ concat (map jptrs ks)"

text \<open>An array of pointers with \<open>cap\<close> slots, the first of them in use; there is none yet when the capacity is 0.\<close>

definition slots_at :: "heap \<Rightarrow> addr \<Rightarrow> nat \<Rightarrow> addr list \<Rightarrow> bool" where
  "slots_at h a cap xs \<longleftrightarrow> (if cap = 0 then a = 0 \<and> xs = []
     else \<exists>free. cells h a = Some (PtrArray (map Some xs @ free)) \<and> length xs + length free = cap)"

fun jat :: "heap \<Rightarrow> jlayout \<Rightarrow> bool" where
  "jat h (LLeaf p n) \<longleftrightarrow> cells h p = Some (ValueBlock n) \<and> (case n of NNumber _ \<Rightarrow> True | NBoolean _ \<Rightarrow> True | NNull \<Rightarrow> True | _ \<Rightarrow> False)"
| "jat h (LText p s t) \<longleftrightarrow> cells h p = Some (ValueBlock (NString s)) \<and> cells h s = Some (CString t)"
| "jat h (LObj p ob ns vs cap nms ks) \<longleftrightarrow> cells h p = Some (ValueBlock (NObject ob)) \<and>
     cells h ob = Some (ObjectBlock ns vs (length ks) cap) \<and> length nms = length ks \<and> (\<forall>(a, s) \<in> set nms. cells h a = Some (CString s)) \<and>
     slots_at h ns cap (map fst nms) \<and> slots_at h vs cap (map jroot ks) \<and> (\<forall>k \<in> set ks. jat h k)"
| "jat h (LArr p ar items cap ks) \<longleftrightarrow> cells h p = Some (ValueBlock (NArray ar)) \<and>
     cells h ar = Some (ArrayBlock items (length ks) cap) \<and> slots_at h items cap (map jroot ks) \<and> (\<forall>k \<in> set ks. jat h k)"

fun jdepth :: "jlayout \<Rightarrow> nat" where
  "jdepth (LLeaf p n) = 1"
| "jdepth (LText p s t) = 1"
| "jdepth (LObj p ob ns vs cap nms ks) = Suc (Max (insert 0 (jdepth ` set ks)))"
| "jdepth (LArr p ar items cap ks) = Suc (Max (insert 0 (jdepth ` set ks)))"

lemma slots_frame: "slots_at h a cap xs \<Longrightarrow> (cap \<noteq> 0 \<Longrightarrow> cells h' a = cells h a) \<Longrightarrow> slots_at h' a cap xs"
  by (auto simp: slots_at_def split: if_splits)

lemma jat_frame: "jat h l \<Longrightarrow> (\<And>a. a \<in> set (jptrs l) \<Longrightarrow> cells h' a = cells h a) \<Longrightarrow> jat h' l"
proof (induction l)
  case (LObj p ob ns vs cap nms ks)
  note same = LObj.prems(2)
  have "jat h' k" if "k \<in> set ks" for k
    by (rule LObj.IH [OF that]) (use LObj.prems(1) that in simp, rule same, use that in auto)
  moreover have "cap \<noteq> 0 \<Longrightarrow> cells h' ns = cells h ns \<and> cells h' vs = cells h vs" using same by simp
  then have "slots_at h' ns cap (map fst nms)" "slots_at h' vs cap (map jroot ks)"
    using LObj.prems(1) slots_frame [of h ns] slots_frame [of h vs] by simp_all
  moreover have "cells h' a = cells h a" if "(a, s) \<in> set nms" for a s by (rule same) (use that in force)
  ultimately show ?case using LObj.prems(1) same [of p] same [of ob] by (auto simp: Ball_def)
next
  case (LArr p ar items cap ks)
  note same = LArr.prems(2)
  have "jat h' k" if "k \<in> set ks" for k
    by (rule LArr.IH [OF that]) (use LArr.prems(1) that in simp, rule same, use that in auto)
  moreover have "slots_at h' items cap (map jroot ks)"
    using LArr.prems(1) slots_frame [of h items cap _ h'] same [of items] by simp
  ultimately show ?case using LArr.prems(1) same [of p] same [of ar] by simp
qed simp_all

lemma jat_live: "jat h l \<Longrightarrow> set (jptrs l) \<subseteq> live h"
proof (induction l)
  case (LObj p ob ns vs cap nms ks)
  then show ?case by (fastforce simp: live_def slots_at_def split: if_splits)
next
  case (LArr p ar items cap ks)
  then show ?case by (fastforce simp: live_def slots_at_def split: if_splits)
qed (auto simp: live_def)

lemma jroot_ptrs: "jroot l \<in> set (jptrs l)"
  by (cases l) auto

lemma jdepth_pos: "0 < jdepth l"
  by (cases l) auto

section \<open>What the destructors release\<close>

text \<open>A store, as a function on heaps.\<close>

definition hput :: "addr \<Rightarrow> block \<Rightarrow> heap \<Rightarrow> heap" where
  "hput p b h = h\<lparr>cells := (cells h)(p \<mapsto> b)\<rparr>"

lemma hput_simps [simp]:
  "cells (hput p b h) = (cells h)(p \<mapsto> b)" "next_addr (hput p b h) = next_addr h" "refused (hput p b h) = refused h"
  "hput p b (hput p b' h) = hput p b h" "p \<notin> A \<Longrightarrow> hput p b (release A h) = release A (hput p b h)"
  "p \<in> A \<Longrightarrow> release A (hput p b h) = release A h"
  by (auto simp: hput_def release_def restrict_map_def fun_eq_iff intro!: heap.equality)

lemma hput_live: "p \<in> live h \<Longrightarrow> live (hput p b h) = live h" "wf_heap h \<Longrightarrow> p \<in> live h \<Longrightarrow> wf_heap (hput p b h)"
  "p \<in> live h \<Longrightarrow> hstore p b h = Inr ((), hput p b h)"
  by (auto simp: hput_def live_def wf_heap_def hstore_def)

lemma adds_hput: "adds A h h' \<Longrightarrow> p \<in> A \<Longrightarrow> adds A h (hput p b h')"
  unfolding hput_def by (rule adds_store)

lemma load_ptr_ok: "cells h a = Some (PtrArray (map Some xs @ free)) \<Longrightarrow> i < length xs \<Longrightarrow> load_ptr a i h = Inr (xs ! i, h)"
  by (simp add: load_ptr_def load_slot_def heap_simps nth_append)

lemma load_object_ok: "cells h ob = Some (ObjectBlock ns vs n cap) \<Longrightarrow> load_object ob h = Inr ((ns, vs, n, cap), h)"
  by (simp add: load_object_def heap_simps)

lemma load_array_ok: "cells h ar = Some (ArrayBlock items n cap) \<Longrightarrow> load_array ar h = Inr ((items, n, cap), h)"
  by (simp add: load_array_def heap_simps)

lemma set_object_count_ok:
  "cells h ob = Some (ObjectBlock ns vs n cap) \<Longrightarrow> set_object_count ob m h = Inr ((), hput ob (ObjectBlock ns vs m cap) h)"
  by (simp add: set_object_count_def load_object_ok heap_simps hstore_def live_def domIff hput_def)

lemma set_array_count_ok:
  "cells h ar = Some (ArrayBlock items n cap) \<Longrightarrow> set_array_count ar m h = Inr ((), hput ar (ArrayBlock items m cap) h)"
  by (simp add: set_array_count_def load_array_ok heap_simps hstore_def live_def domIff hput_def)

text \<open>The loop over the members, from the last to the first.\<close>

lemma free_members:
  assumes "length as = length ks" "wf_heap h" "cells h ob = Some (ObjectBlock ns vs c cap)"
    and "ks \<noteq> [] \<Longrightarrow> cells h ns = Some (PtrArray (map Some as @ f1)) \<and> cells h vs = Some (PtrArray (map Some (map jroot ks) @ f2)) \<and>
      distinct (ob # ns # vs # as @ concat (map jptrs ks))"
    and "set as \<subseteq> live h" "\<And>k. k \<in> set ks \<Longrightarrow> jat h k"
    and "\<And>k h. k \<in> set ks \<Longrightarrow> wf_heap h \<Longrightarrow> jat h k \<Longrightarrow> free_value (jroot k) h = Inr ((), release (set (jptrs k)) h)"
  shows "hfor (rev [0..<length ks]) (\<lambda>i. hbind (set_object_count ob i) (\<lambda>_. hbind (load_name ob i) (\<lambda>name. hbind (hfree name) (\<lambda>_.
      hbind (load_member ob i) free_value)))) h =
    Inr ((), release (set as \<union> set (concat (map jptrs ks))) (hput ob (ObjectBlock ns vs (if ks = [] then c else 0) cap) h))"
  using assms
proof (induction ks arbitrary: as f1 f2 c h rule: rev_induct)
  case Nil
  moreover have "hput ob (ObjectBlock ns vs c cap) h = h" using Nil(3) by (auto simp: hput_def fun_eq_iff intro!: heap.equality)
  ultimately show ?case by (simp add: heap_simps)
next
  case (snoc k ks)
  obtain bs a where as: "as = bs @ [a]" "length bs = length ks" using snoc.prems(1) by (cases as rule: rev_cases) auto
  let ?n = "length ks"
  let ?b = "ObjectBlock ns vs ?n cap"
  note arr = snoc.prems(4) [simplified as, simplified]
  define h1 where "h1 = hput ob ?b h"
  define h2 where "h2 = release (insert a (set (jptrs k))) h1"
  have obl: "ob \<in> live h" using snoc.prems(3) by (auto simp: live_def)
  have wf1: "wf_heap h1" unfolding h1_def using snoc.prems(2) obl by (rule hput_live)
  have c1: "cells h1 ob = Some ?b" "cells h1 ns = cells h ns" "cells h1 vs = cells h vs" using arr by (auto simp: h1_def)
  have "load_name ob ?n h1 = Inr (a, h1)"
    using c1 arr load_ptr_ok [of h1 ns "bs @ [a]" f1 ?n] as by (simp add: load_name_def load_object_ok heap_simps nth_append)
  moreover have "hfree a h1 = Inr ((), release {a} h1)"
    using snoc.prems(5) wf1 obl by (intro hfree_ok) (simp_all add: as h1_def hput_live)
  moreover have "load_member ob ?n (release {a} h1) = Inr (jroot k, release {a} h1)"
    using c1 arr load_ptr_ok [of "release {a} h1" vs "map jroot (ks @ [k])" f2 ?n]
    by (simp add: load_member_def load_object_ok heap_simps nth_append)
  moreover have "free_value (jroot k) (release {a} h1) = Inr ((), h2)"
  proof -
    have "jat (release {a} h1) k" by (rule jat_frame [OF snoc.prems(6) [of k]]) (use arr in \<open>auto simp: h1_def restrict_map_def\<close>)
    then show ?thesis using snoc.prems(7) [of k "release {a} h1"] wf1 by (simp add: h2_def)
  qed
  ultimately have step: "hbind (set_object_count ob ?n) (\<lambda>_. hbind (load_name ob ?n) (\<lambda>name. hbind (hfree name) (\<lambda>_.
      hbind (load_member ob ?n) free_value))) h = Inr ((), h2)"
    using set_object_count_ok [OF snoc.prems(3), of ?n] by (simp add: heap_simps h1_def)
  have sep: "ob \<notin> insert a (set (jptrs k))" using arr by auto
  have "hfor (rev [0..<?n]) (\<lambda>i. hbind (set_object_count ob i) (\<lambda>_. hbind (load_name ob i) (\<lambda>name. hbind (hfree name) (\<lambda>_.
      hbind (load_member ob i) free_value)))) h2 =
    Inr ((), release (set bs \<union> set (concat (map jptrs ks))) (hput ob (ObjectBlock ns vs (if ks = [] then ?n else 0) cap) h2))"
  proof (rule snoc.IH [of bs h2 ?n "Some a # f1" "Some (jroot k) # f2"])
    show "set bs \<subseteq> live h2" using snoc.prems(5) arr obl as by (auto simp: h2_def h1_def hput_live)
    show "jat h2 k'" if "k' \<in> set ks" for k'
      by (rule jat_frame [OF snoc.prems(6) [of k']]) (use that arr in \<open>auto simp: h2_def h1_def restrict_map_def\<close>)
  qed (use snoc.prems(7) as c1 arr wf1 sep in \<open>auto simp: h2_def\<close>)
  moreover have "(if ks = [] then ?n else 0) = 0" by simp
  moreover have "hput ob (ObjectBlock ns vs 0 cap) h2 = release (insert a (set (jptrs k))) (hput ob (ObjectBlock ns vs 0 cap) h)"
    unfolding h2_def h1_def using sep by simp
  moreover have "insert a (set (jptrs k)) \<union> (set bs \<union> set (concat (map jptrs ks))) = set as \<union> set (concat (map jptrs (ks @ [k])))"
    by (auto simp: as)
  ultimately have rest: "hfor (rev [0..<?n]) (\<lambda>i. hbind (set_object_count ob i) (\<lambda>_. hbind (load_name ob i) (\<lambda>name. hbind (hfree name) (\<lambda>_.
      hbind (load_member ob i) free_value)))) h2 =
    Inr ((), release (set as \<union> set (concat (map jptrs (ks @ [k])))) (hput ob (ObjectBlock ns vs 0 cap) h))"
    by (simp only: release_simps)
  have "rev [0..<length (ks @ [k])] = ?n # rev [0..<?n]" by simp
  then show ?case using rest by (simp only: hfor.simps hbind_def [of _ "\<lambda>_. hfor _ _"] step) (simp add: cbind_def)
qed

text \<open>The same loop over the items of an array.\<close>

lemma free_items:
  assumes "wf_heap h" "cells h ar = Some (ArrayBlock items c cap)"
    and "ks \<noteq> [] \<Longrightarrow> cells h items = Some (PtrArray (map Some (map jroot ks) @ f)) \<and> distinct (ar # items # concat (map jptrs ks))"
    and "\<And>k. k \<in> set ks \<Longrightarrow> jat h k"
    and "\<And>k h. k \<in> set ks \<Longrightarrow> wf_heap h \<Longrightarrow> jat h k \<Longrightarrow> free_value (jroot k) h = Inr ((), release (set (jptrs k)) h)"
  shows "hfor (rev [0..<length ks]) (\<lambda>i. hbind (set_array_count ar i) (\<lambda>_. hbind (load_item ar i) free_value)) h =
    Inr ((), release (set (concat (map jptrs ks))) (hput ar (ArrayBlock items (if ks = [] then c else 0) cap) h))"
  using assms
proof (induction ks arbitrary: f c h rule: rev_induct)
  case Nil
  moreover have "hput ar (ArrayBlock items c cap) h = h" using Nil(2) by (auto simp: hput_def fun_eq_iff intro!: heap.equality)
  ultimately show ?case by (simp add: heap_simps)
next
  case (snoc k ks)
  let ?n = "length ks"
  let ?b = "ArrayBlock items ?n cap"
  note arr = snoc.prems(3) [simplified]
  define h1 where "h1 = hput ar ?b h"
  define h2 where "h2 = release (set (jptrs k)) h1"
  have arl: "ar \<in> live h" using snoc.prems(2) by (auto simp: live_def)
  have wf1: "wf_heap h1" unfolding h1_def using snoc.prems(1) arl by (rule hput_live)
  have c1: "cells h1 ar = Some ?b" "cells h1 items = cells h items" using arr by (auto simp: h1_def)
  have "load_item ar ?n h1 = Inr (jroot k, h1)"
    using c1 arr load_ptr_ok [of h1 items "map jroot (ks @ [k])" f ?n] by (simp add: load_item_def load_array_ok heap_simps nth_append)
  moreover have "free_value (jroot k) h1 = Inr ((), h2)"
  proof -
    have "jat h1 k" by (rule jat_frame [OF snoc.prems(4) [of k]]) (use arr in \<open>auto simp: h1_def\<close>)
    then show ?thesis using snoc.prems(5) [of k h1] wf1 by (simp add: h2_def)
  qed
  ultimately have step: "hbind (set_array_count ar ?n) (\<lambda>_. hbind (load_item ar ?n) free_value) h = Inr ((), h2)"
    using set_array_count_ok [OF snoc.prems(2), of ?n] by (simp add: heap_simps h1_def)
  have sep: "ar \<notin> set (jptrs k)" using arr by auto
  have "hfor (rev [0..<?n]) (\<lambda>i. hbind (set_array_count ar i) (\<lambda>_. hbind (load_item ar i) free_value)) h2 =
    Inr ((), release (set (concat (map jptrs ks))) (hput ar (ArrayBlock items (if ks = [] then ?n else 0) cap) h2))"
  proof (rule snoc.IH [of h2 ?n "Some (jroot k) # f"])
    show "jat h2 k'" if "k' \<in> set ks" for k'
      by (rule jat_frame [OF snoc.prems(4) [of k']]) (use that arr in \<open>auto simp: h2_def h1_def restrict_map_def\<close>)
  qed (use snoc.prems(5) c1 arr wf1 sep in \<open>auto simp: h2_def\<close>)
  moreover have "(if ks = [] then ?n else 0) = 0" by simp
  moreover have "hput ar (ArrayBlock items 0 cap) h2 = release (set (jptrs k)) (hput ar (ArrayBlock items 0 cap) h)"
    unfolding h2_def h1_def using sep by simp
  moreover have "set (jptrs k) \<union> set (concat (map jptrs ks)) = set (concat (map jptrs (ks @ [k])))" by auto
  ultimately have rest: "hfor (rev [0..<?n]) (\<lambda>i. hbind (set_array_count ar i) (\<lambda>_. hbind (load_item ar i) free_value)) h2 =
    Inr ((), release (set (concat (map jptrs (ks @ [k])))) (hput ar (ArrayBlock items 0 cap) h))"
    by (simp only: release_simps)
  have "rev [0..<length (ks @ [k])] = ?n # rev [0..<?n]" by simp
  then show ?case using rest by (simp only: hfor.simps hbind_def [of _ "\<lambda>_. hfor _ _"] step) (simp add: cbind_def)
qed

text \<open>The whole object, and the whole array; \<open>p\<close> is the value that holds it.\<close>

lemma json_object_free_ok:
  assumes wf: "wf_heap h" and at: "jat h (LObj p ob ns vs cap nms ks)" and d: "distinct (jptrs (LObj p ob ns vs cap nms ks))"
    and "\<And>k h. k \<in> set ks \<Longrightarrow> wf_heap h \<Longrightarrow> jat h k \<Longrightarrow> free_value (jroot k) h = Inr ((), release (set (jptrs k)) h)"
  shows "json_object_free free_value ob h = Inr ((), release (set (jptrs (LObj p ob ns vs cap nms ks)) - {p}) h)"
proof -
  let ?A = "set (map fst nms) \<union> set (concat (map jptrs ks))"
  let ?h1 = "release ?A (hput ob (ObjectBlock ns vs (if ks = [] then length ks else 0) cap) h)"
  let ?h2 = "release ?A (hput ob (ObjectBlock ns vs (2 ^ 32 - 1) cap) h)"
  note at' = at [simplified] and d' = d [simplified]
  have obl: "ob \<in> live h" "ob \<noteq> 0" using at' wf_heap_block [OF wf] by blast+
  have loop: "hfor (rev [0..<length ks]) (\<lambda>i. hbind (set_object_count ob i) (\<lambda>_. hbind (load_name ob i) (\<lambda>name. hbind (hfree name) (\<lambda>_.
      hbind (load_member ob i) free_value)))) h = Inr ((), ?h1)"
  proof (cases "cap = 0")
    case True
    then have "ks = []" "nms = []" using at' by (auto simp: slots_at_def)
    then show ?thesis using free_members [of "[]" "[]" h ob ns vs "length ks" cap] wf at' by simp
  next
    case False
    then obtain f1 f2 where "cells h ns = Some (PtrArray (map Some (map fst nms) @ f1))" "cells h vs = Some (PtrArray (map Some (map jroot ks) @ f2))"
      using at' by (auto simp: slots_at_def)
    moreover have "set (map fst nms) \<subseteq> live h" using at' by (force simp: live_def)
    ultimately show ?thesis using assms(4) wf at' d' False by (intro free_members [of "map fst nms" ks h ob ns vs _ cap f1 f2]) auto
  qed
  have sep: "ob \<notin> ?A" "ns \<notin> ?A \<or> cap = 0" "vs \<notin> ?A \<or> cap = 0" using d' by (auto split: if_splits)
  have c2: "cells ?h2 ob = Some (ObjectBlock ns vs (2 ^ 32 - 1) cap)" using sep by simp
  have "set_object_count ob (2 ^ 32 - 1) ?h1 = Inr ((), ?h2)"
    using set_object_count_ok [of ?h1 ob ns vs _ cap "2 ^ 32 - 1"] sep(1) by simp
  moreover have wf2: "wf_heap ?h2" using hput_live(2) [OF wf obl(1)] by simp
  moreover have live2: "ns \<in> live ?h2 \<or> ns = 0" "vs \<in> live ?h2 - {ns} \<or> vs = 0" "ob \<in> live ?h2 - {ns, vs}"
    using at' d' sep obl by (auto simp: slots_at_def hput_live live_def split: if_splits)
  then have "hfree ns ?h2 = Inr ((), release {ns} ?h2)" "hfree vs (release {ns} ?h2) = Inr ((), release {vs} (release {ns} ?h2))"
    "hfree ob (release {vs} (release {ns} ?h2)) = Inr ((), release {ob} (release {vs} (release {ns} ?h2)))"
    using wf2 by (auto intro!: hfree_ok simp del: release_simps(5))
  moreover have "cells (release {ns} ?h2) ob = cells ?h2 ob" using live2 by auto
  ultimately have "json_object_free free_value ob h = Inr ((), release (?A \<union> {ns, vs, ob}) h)"
    using loop at' c2 sep by (simp add: json_object_free_def load_object_ok heap_simps insert_commute)
  moreover have "release (?A \<union> {ns, vs, ob}) h = release (set (jptrs (LObj p ob ns vs cap nms ks)) - {p}) h"
  proof (cases "cap = 0")
    case True
    then have "nms = []" "ks = []" "ns = 0" "vs = 0" using at' by (auto simp: slots_at_def)
    then show ?thesis using d' release_zero [OF wf, of "{ob}"] by (simp add: True)
  next
    case False
    then have "set (jptrs (LObj p ob ns vs cap nms ks)) - {p} = ?A \<union> {ns, vs, ob}" using d' by auto
    then show ?thesis by simp
  qed
  ultimately show ?thesis by simp
qed

lemma json_array_free_ok:
  assumes wf: "wf_heap h" and at: "jat h (LArr p ar items cap ks)" and d: "distinct (jptrs (LArr p ar items cap ks))"
    and "\<And>k h. k \<in> set ks \<Longrightarrow> wf_heap h \<Longrightarrow> jat h k \<Longrightarrow> free_value (jroot k) h = Inr ((), release (set (jptrs k)) h)"
  shows "json_array_free free_value ar h = Inr ((), release (set (jptrs (LArr p ar items cap ks)) - {p}) h)"
proof -
  let ?A = "set (concat (map jptrs ks))"
  let ?h1 = "release ?A (hput ar (ArrayBlock items (if ks = [] then length ks else 0) cap) h)"
  let ?h2 = "release ?A (hput ar (ArrayBlock items (2 ^ 32 - 1) cap) h)"
  note at' = at [simplified] and d' = d [simplified]
  have arl: "ar \<in> live h" "ar \<noteq> 0" using at' wf_heap_block [OF wf] by blast+
  have loop: "hfor (rev [0..<length ks]) (\<lambda>i. hbind (set_array_count ar i) (\<lambda>_. hbind (load_item ar i) free_value)) h = Inr ((), ?h1)"
  proof (cases "cap = 0")
    case True
    then have "ks = []" using at' by (auto simp: slots_at_def)
    then show ?thesis using free_items [of h ar items "length ks" cap "[]"] wf at' by simp
  next
    case False
    then obtain f where "cells h items = Some (PtrArray (map Some (map jroot ks) @ f))" using at' by (auto simp: slots_at_def)
    then show ?thesis using assms(4) wf at' d' False by (intro free_items [of h ar items _ cap ks f]) auto
  qed
  have sep: "ar \<notin> ?A" "items \<notin> ?A \<or> cap = 0" using d' by (auto split: if_splits)
  have c2: "cells ?h2 ar = Some (ArrayBlock items (2 ^ 32 - 1) cap)" using sep by simp
  have "set_array_count ar (2 ^ 32 - 1) ?h1 = Inr ((), ?h2)"
    using set_array_count_ok [of ?h1 ar items _ cap "2 ^ 32 - 1"] sep(1) by simp
  moreover have wf2: "wf_heap ?h2" using hput_live(2) [OF wf arl(1)] by simp
  moreover have live2: "items \<in> live ?h2 \<or> items = 0" "ar \<in> live ?h2 - {items}"
    using at' d' sep arl by (auto simp: slots_at_def hput_live live_def split: if_splits)
  then have "hfree items ?h2 = Inr ((), release {items} ?h2)" "hfree ar (release {items} ?h2) = Inr ((), release {ar} (release {items} ?h2))"
    using wf2 by (auto intro!: hfree_ok simp del: release_simps(5))
  ultimately have "json_array_free free_value ar h = Inr ((), release (?A \<union> {items, ar}) h)"
    using loop at' c2 sep by (simp add: json_array_free_def load_array_ok heap_simps insert_commute)
  moreover have "release (?A \<union> {items, ar}) h = release (set (jptrs (LArr p ar items cap ks)) - {p}) h"
  proof (cases "cap = 0")
    case True
    then have "ks = []" "items = 0" using at' by (auto simp: slots_at_def)
    then show ?thesis using d' release_zero [OF wf, of "{ar}"] by (simp add: True)
  next
    case False
    then have "set (jptrs (LArr p ar items cap ks)) - {p} = ?A \<union> {items, ar}" using d' by auto
    then show ?thesis by simp
  qed
  ultimately show ?thesis by simp
qed

text \<open>A tree is released as a whole, when the stack has room for its nesting.\<close>

lemma json_value_free_ok:
  "wf_heap h \<Longrightarrow> jat h l \<Longrightarrow> distinct (jptrs l) \<Longrightarrow> jdepth l \<le> stack \<Longrightarrow>
   json_value_free stack (jroot l) h = Inr ((), release (set (jptrs l)) h)"
proof (induction l arbitrary: h stack)
  case (LLeaf p n)
  then have "p \<in> live h" "p \<noteq> 0" "load_value p h = Inr (n, h)"
    using wf_heap_block [OF LLeaf(1)] by (auto simp: load_value_def heap_simps)
  then show ?case using LLeaf hfree_ok [of p h] by (cases stack; cases n) (auto simp: heap_simps)
next
  case (LText p s t)
  then have c: "p \<in> live h" "p \<noteq> 0" "s \<in> live h" "s \<noteq> 0" "load_value p h = Inr (NString s, h)"
    using wf_heap_block [OF LText(1)] by (auto simp: load_value_def heap_simps)
  then have "hfree s h = Inr ((), release {s} h)" "hfree p (release {s} h) = Inr ((), release {p} (release {s} h))"
    using LText by (auto intro!: hfree_ok simp del: release_simps(5))
  then show ?case using LText c by (cases stack) (auto simp: heap_simps insert_commute)
next
  case (LObj p ob ns vs cap nms ks)
  then obtain d where stack: "stack = Suc d" "\<forall>k \<in> set ks. jdepth k \<le> d" by (cases stack) auto
  have "json_object_free (json_value_free d) ob h = Inr ((), release (set (jptrs (LObj p ob ns vs cap nms ks)) - {p}) h)"
    using LObj.prems stack by (intro json_object_free_ok LObj.IH) (auto simp: distinct_concat_iff)
  moreover have "p \<noteq> 0" "load_value p h = Inr (NObject ob, h)" "p \<in> live h"
    using LObj.prems wf_heap_block [OF LObj.prems(1)] by (auto simp: load_value_def heap_simps)
  moreover have "release {p} (release (set (jptrs (LObj p ob ns vs cap nms ks)) - {p}) h) = release (set (jptrs (LObj p ob ns vs cap nms ks))) h"
    by (simp add: insert_absorb)
  ultimately show ?case
    using hfree_ok [of p "release (set (jptrs (LObj p ob ns vs cap nms ks)) - {p}) h"] LObj.prems(1)
    by (simp add: stack(1) heap_simps del: jptrs.simps release_simps(5))
next
  case (LArr p ar items cap ks)
  then obtain d where stack: "stack = Suc d" "\<forall>k \<in> set ks. jdepth k \<le> d" by (cases stack) auto
  have "json_array_free (json_value_free d) ar h = Inr ((), release (set (jptrs (LArr p ar items cap ks)) - {p}) h)"
    using LArr.prems stack by (intro json_array_free_ok LArr.IH) (auto simp: distinct_concat_iff)
  moreover have "p \<noteq> 0" "load_value p h = Inr (NArray ar, h)" "p \<in> live h"
    using LArr.prems wf_heap_block [OF LArr.prems(1)] by (auto simp: load_value_def heap_simps)
  moreover have "release {p} (release (set (jptrs (LArr p ar items cap ks)) - {p}) h) = release (set (jptrs (LArr p ar items cap ks))) h"
    by (simp add: insert_absorb)
  ultimately show ?case
    using hfree_ok [of p "release (set (jptrs (LArr p ar items cap ks)) - {p}) h"] LArr.prems(1)
    by (simp add: stack(1) heap_simps del: jptrs.simps release_simps(5))
qed

section \<open>Constructors make what they own\<close>

text \<open>\<open>l\<close> is there, and its blocks and \<open>X\<close> are all that was added since \<open>h0\<close>.\<close>

definition jmade :: "heap \<Rightarrow> heap \<Rightarrow> jlayout \<Rightarrow> addr set \<Rightarrow> bool" where
  "jmade h0 h l X \<longleftrightarrow> adds (set (jptrs l) \<union> X) h0 h \<and> set (jptrs l) \<inter> X = {} \<and> jat h l \<and> distinct (jptrs l)"

interpretation js: owned_data "\<lambda>h p l. jroot l = p \<and> jat h l \<and> distinct (jptrs l) \<and> jdepth l \<le> stack"
  "\<lambda>p l. set (jptrs l)" "\<lambda>_ _. {}" "json_value_free stack" for stack
  by unfold_locales (auto simp: json_value_free_ok intro: jat_frame)

fun jval :: "jlayout \<Rightarrow> json" where
  "jval (LLeaf p n) = (case n of NNumber x \<Rightarrow> JSONNumber x | NBoolean b \<Rightarrow> JSONBoolean b | _ \<Rightarrow> JSONNull)"
| "jval (LText p s t) = JSONString t"
| "jval (LObj p ob ns vs cap nms ks) = JSONObject cap (zip (map snd nms) (map jval ks))"
| "jval (LArr p ar items cap ks) = JSONArray cap (map jval ks)"

lemma init_value_cases:
  assumes "wf_heap h"
  obtains (null) h' where "init_value n h = Inr (0, h')" "adds {} h h'" "\<not> unrefused h"
  | (ok) v h' where "init_value n h = Inr (v, h')" "v \<noteq> 0" "adds {v} h h'" "cells h' v = Some (ValueBlock n)"
proof (cases rule: halloc_cases [OF assms, of Raw])
  case 1
  then show ?thesis using null by (auto simp: init_value_def heap_simps unrefused_def)
next
  case (2 h1)
  define v where "v = next_addr h"
  have v: "v \<noteq> 0" "adds {v} h h1" "halloc Raw h = Inr (v, h1)" using 2 wf_heap_next [OF assms] by (simp_all add: v_def)
  have "adds {v} h (hput v (ValueBlock n) h1)" using v(2) by (rule adds_hput) simp
  moreover have "hstore v (ValueBlock n) h1 = Inr ((), hput v (ValueBlock n) h1)" using adds_live [OF v(2)] by (intro hput_live) simp
  ultimately show ?thesis using ok [of v] v by (simp add: init_value_def heap_simps)
qed

lemma jmade_wf: "jmade h0 h l X \<Longrightarrow> wf_heap h"
  by (auto simp: jmade_def dest: adds_wf)

lemma jmade_more: "jmade h0 h l X \<Longrightarrow> adds A h h' \<Longrightarrow> jmade h0 h' l (X \<union> A)"
  unfolding jmade_def
proof (elim conjE, intro conjI)
  assume l: "adds (set (jptrs l) \<union> X) h0 h" "set (jptrs l) \<inter> X = {}" "jat h l" and A: "adds A h h'"
  have sep: "(set (jptrs l) \<union> X) \<inter> A = {}" using adds_disjoint [OF l(1) A] .
  show "adds (set (jptrs l) \<union> (X \<union> A)) h0 h'" using adds_trans [OF l(1) A] by (simp add: Un_assoc)
  show "set (jptrs l) \<inter> (X \<union> A) = {}" using l(2) sep by auto
  show "jat h' l" by (rule jat_frame [OF l(3)]) (use adds_old [OF A] sep in auto)
qed

lemma init_number_made:
  assumes "wf_heap h"
  obtains (null) h' where "h_json_value_init_number x h = Inr (0, h')" "adds {} h h'" "\<not> unrefused h"
  | (ok) v h' where "h_json_value_init_number x h = Inr (v, h')" "v \<noteq> 0" "jmade h h' (LLeaf v (NNumber x)) {}"
  by (cases rule: init_value_cases [OF assms, of "NNumber x"]) (auto simp: h_json_value_init_number_def jmade_def)

text \<open>A string value: NULL also when the text is not UTF-8.\<close>

lemma init_string_made:
  assumes wf: "wf_heap h"
  obtains (null) h' where "h_json_value_init_string so h = Inr (0, h')" "adds {} h h'" "unrefused h \<Longrightarrow> json_value_init_string True so = None"
  | (ok) v a t h' where "h_json_value_init_string so h = Inr (v, h')" "v \<noteq> 0" "jmade h h' (LText v a t) {}"
      "json_value_init_string True so = Some (JSONString t)"
proof (cases "\<exists>t. so = Some t \<and> is_valid_utf8 t")
  case False
  then show ?thesis using null [of h] adds_refl [OF wf]
    by (cases so) (auto simp: h_json_value_init_string_def json_value_init_string_def heap_simps)
next
  case True
  then obtain t where t: "so = Some t" "is_valid_utf8 t" by blast
  show ?thesis
  proof (cases rule: halloc_cases [OF wf, of "CString t"])
    case 1
    then show ?thesis using null t by (auto simp: h_json_value_init_string_def parson_strndup_def heap_simps unrefused_def)
  next
    case (2 h1)
    define a where "a = next_addr h"
    have a: "a \<noteq> 0" "adds {a} h h1" "halloc (CString t) h = Inr (a, h1)" "cells h1 a = Some (CString t)"
      using 2 wf_heap_next [OF wf] by (simp_all add: a_def)
    show ?thesis
    proof (cases rule: init_value_cases [OF adds_wf [OF a(2)], of "NString a"])
      case (1 h2)
      have l: "adds {a} h h2" using adds_trans [OF a(2) 1(2)] by simp
      then have "hfree a h2 = Inr ((), release {a} h2)" using adds_live [OF l] adds_wf [OF l] by (intro hfree_ok) auto
      then show ?thesis using null [of "release {a} h2"] adds_release [OF l, of "{a}"] t a 1 unrefused_later [OF _ a(2)]
        by (auto simp: h_json_value_init_string_def h_json_value_init_string_no_copy_def parson_strndup_def heap_simps)
    next
      case v: (2 v h2)
      have "adds {v, a} h h2" using adds_trans [OF a(2) v(3)] by (simp add: insert_commute)
      moreover have "v \<noteq> a" using adds_disjoint [OF a(2) v(3)] by auto
      ultimately have "jmade h h2 (LText v a t) {}" using v(4) adds_kept [OF v(3) a(4)] by (simp add: jmade_def)
      then show ?thesis using ok [of v h2 a t] t a v
        by (auto simp: h_json_value_init_string_def h_json_value_init_string_no_copy_def parson_strndup_def json_value_init_string_def heap_simps)
    qed
  qed
qed

lemma init_object_made:
  assumes wf: "wf_heap h"
  obtains (null) h' where "h_json_value_init_object h = Inr (0, h')" "adds {} h h'" "\<not> unrefused h"
  | (ok) v ob h' where "h_json_value_init_object h = Inr (v, h')" "v \<noteq> 0" "jmade h h' (LObj v ob 0 0 0 [] []) {}"
proof (cases rule: halloc_cases [OF wf, of Raw])
  case 1
  then show ?thesis using null by (auto simp: h_json_value_init_object_def init_container_def heap_simps unrefused_def)
next
  case (2 h1)
  define v where "v = next_addr h"
  have v: "v \<noteq> 0" "adds {v} h h1" "halloc Raw h = Inr (v, h1)" using 2 wf_heap_next [OF wf] by (simp_all add: v_def)
  show ?thesis
  proof (cases rule: halloc_cases [OF adds_wf [OF v(2)], of Raw])
    case r: 1
    let ?h2 = "h1\<lparr>next_addr := next_addr h1 + 1\<rparr>"
    have "adds {v} h ?h2" using adds_trans [OF v(2) r(3)] by simp
    then have l: "adds {v} h (hput v (ValueBlock (NObject 0)) ?h2)" by (rule adds_hput) simp
    have "hstore v (ValueBlock (NObject 0)) ?h2 = Inr ((), hput v (ValueBlock (NObject 0)) ?h2)"
      using adds_live [OF v(2)] by (intro hput_live) (simp add: live_def)
    moreover have "hfree v (hput v (ValueBlock (NObject 0)) ?h2) = Inr ((), release {v} (hput v (ValueBlock (NObject 0)) ?h2))"
      using adds_live [OF l] adds_wf [OF l] by (intro hfree_ok) auto
    ultimately have "h_json_value_init_object h = Inr (0, release {v} (hput v (ValueBlock (NObject 0)) ?h2))"
      using v r(2) by (simp add: h_json_value_init_object_def init_container_def h_json_object_init_def heap_simps)
    moreover have "\<not> unrefused h" using r(1) unrefused_later [OF _ v(2)] by (auto simp: unrefused_def)
    ultimately show ?thesis using null adds_release [OF l, of "{v}"] by simp
  next
    case s: (2 h2)
    define ob where "ob = next_addr h1"
    let ?h3 = "hput ob (ObjectBlock 0 0 0 0) h2"
    let ?h4 = "hput v (ValueBlock (NObject ob)) ?h3"
    have ob: "ob \<noteq> 0" "ob \<noteq> v" using wf_heap_next [OF adds_wf [OF v(2)]] adds_live [OF v(2)] by (auto simp: ob_def)
    have "adds {v, ob} h h2" using adds_trans [OF v(2) s(3)] by (simp add: ob_def insert_commute)
    then have l2: "adds {v, ob} h h2" "adds {v, ob} h ?h3" "adds {v, ob} h ?h4" by (auto intro!: adds_hput)
    have "hstore ob (ObjectBlock 0 0 0 0) h2 = Inr ((), ?h3)" "hstore v (ValueBlock (NObject ob)) ?h3 = Inr ((), ?h4)"
      using adds_live [OF l2(1)] adds_live [OF l2(2)] by (auto intro!: hput_live(3))
    then have "h_json_value_init_object h = Inr (v, ?h4)"
      using v s(2) ob by (simp add: h_json_value_init_object_def init_container_def h_json_object_init_def heap_simps ob_def)
    moreover have "jmade h ?h4 (LObj v ob 0 0 0 [] []) {}" using l2(3) ob by (simp add: jmade_def slots_at_def)
    ultimately show ?thesis using ok v(1) by blast
  qed
qed

text \<open>The names of an object can be read, whatever happened to its members.\<close>

abbreviation names_at :: "heap \<Rightarrow> addr \<Rightarrow> addr \<Rightarrow> (addr \<times> string) list \<Rightarrow> bool" where
  "names_at h ob ns nms \<equiv> (\<exists>vs n cap. cells h ob = Some (ObjectBlock ns vs n cap)) \<and> (\<exists>f. cells h ns = Some (PtrArray (map Some (map fst nms) @ f))) \<and>
     (\<forall>(a, s) \<in> set nms. cells h a = Some (CString s))"

lemma read_name_ok:
  assumes "wf_heap h" "names_at h ob ns nms" "i < length nms"
  shows "load_name ob i h = Inr (fst (nms ! i), h)" "load_string (fst (nms ! i)) h = Inr (Some (snd (nms ! i)), h)"
proof -
  show "load_name ob i h = Inr (fst (nms ! i), h)"
    using assms(2,3) load_ptr_ok [of h ns "map fst nms" _ i] by (auto simp: load_name_def load_object_ok heap_simps)
  have "cells h (fst (nms ! i)) = Some (CString (snd (nms ! i)))" using assms(2) nth_mem [OF assms(3)] by (auto split: prod.splits)
  then show "load_string (fst (nms ! i)) h = Inr (Some (snd (nms ! i)), h)"
    using wf_heap_block [OF assms(1)] by (auto simp: load_string_def heap_simps)
qed

text \<open>Looking up a name finds the first member of that name.\<close>

lemma find_member_ok:
  assumes wf: "wf_heap h" and at: "jat h (LObj p ob ns vs cap nms ks)" and "\<forall>j \<in> set is. j < length ks"
  shows "h_find_name ob name (length name) is h = Inr (case find (\<lambda>j. snd (nms ! j) = name) is of None \<Rightarrow> 0 | Some i \<Rightarrow> jroot (ks ! i), h)"
  using assms(3)
proof (induction "is")
  case (Cons j js)
  note at' = at [simplified]
  have j: "j < length nms" "j < length ks" "cap \<noteq> 0" using Cons.prems at' by (auto simp: slots_at_def split: if_splits)
  then obtain f1 f2 where c: "cells h ns = Some (PtrArray (map Some (map fst nms) @ f1))" "cells h vs = Some (PtrArray (map Some (map jroot ks) @ f2))"
    using at' by (auto simp: slots_at_def)
  have "load_member ob j h = Inr (jroot (ks ! j), h)"
    using load_ptr_ok [of h vs "map jroot ks" f2 j] j c at' by (simp add: load_member_def load_object_ok heap_simps)
  moreover have "names_at h ob ns nms" using at' c(1) by blast
  note read_name_ok [OF wf this j(1)]
  ultimately show ?case using Cons by (auto simp: heap_simps deref_def)
qed (simp add: heap_simps)

lemma get_value_ok:
  assumes wf: "wf_heap h" and at: "jat h (LObj p ob ns vs cap nms ks)"
  shows "\<exists>r. h_json_object_get_value ob name h = Inr (r, h) \<and> (r = 0 \<longleftrightarrow> name \<notin> snd ` set nms)"
proof -
  let ?f = "find (\<lambda>j. snd (nms ! j) = name) [0..<length ks]"
  note at' = at [simplified]
  have "ob \<noteq> 0" using at' wf_heap_block [OF wf, of ob] by auto
  then have run: "h_json_object_get_value ob name h = Inr (case ?f of None \<Rightarrow> 0 | Some i \<Rightarrow> jroot (ks ! i), h)"
    using find_member_ok [OF wf at, of "[0..<length ks]" name] at'
    by (simp add: h_json_object_get_value_def h_json_object_nget_value_def load_object_ok heap_simps)
  have "jroot (ks ! i) \<noteq> 0" if "i < length ks" for i
    using at' nth_mem [OF that] jat_live [of h "ks ! i"] jroot_ptrs [of "ks ! i"] wf_heap_zero(1) [OF wf] by (metis subsetD)
  moreover have "i < length ks" if "?f = Some i" for i using that by (auto simp: find_Some_iff)
  ultimately have "(case ?f of None \<Rightarrow> 0 | Some i \<Rightarrow> jroot (ks ! i)) = 0 \<longleftrightarrow> ?f = None" by (cases ?f) auto
  moreover have "snd ` set nms = (\<lambda>i. snd (nms ! i)) ` set [0..<length ks]" using at' map_nth [of nms] by (metis image_image set_map)
  then have "?f = None \<longleftrightarrow> name \<notin> snd ` set nms" by (auto simp: find_None_iff)
  ultimately show ?thesis using run by simp
qed

text \<open>The two arrays of an object are replaced by larger ones.\<close>

lemma copy_ptrs_ok:
  assumes "cells h src = Some (PtrArray (map Some xs @ free))" "cells h dst = Some (PtrArray (replicate n None))" "length xs \<le> n"
  shows "copy_ptrs dst src (length xs) h = Inr ((), hput dst (PtrArray (map Some xs @ replicate (n - length xs) None)) h)"
  using assms by (simp add: copy_ptrs_def heap_simps hstore_def live_def domIff hput_def)

lemma resize_copies:
  assumes "jat h (LObj p ob ns vs cap nms ks)" "distinct (jptrs (LObj p ob ns vs cap nms ks))" "wf_heap h"
    and new: "cells h tn = Some (PtrArray (replicate nc None))" "cells h tv = Some (PtrArray (replicate nc None))" "tn \<noteq> tv"
      "tn \<notin> set (jptrs (LObj p ob ns vs cap nms ks))" "tv \<notin> set (jptrs (LObj p ob ns vs cap nms ks))" "length ks \<le> nc"
  defines "h1 \<equiv> hput tv (PtrArray (map Some (map jroot ks) @ replicate (nc - length ks) None))
    (hput tn (PtrArray (map Some (map fst nms) @ replicate (nc - length ks) None)) h)"
  shows "(if ns \<noteq> 0 \<and> vs \<noteq> 0 \<and> length ks > 0 then hbind (copy_ptrs tn ns (length ks)) (\<lambda>_. copy_ptrs tv vs (length ks)) else hret ()) h = Inr ((), h1)"
proof -
  note at' = assms(1) [simplified] and d' = assms(2) [simplified]
  show ?thesis
  proof (cases "ks = []")
    case True
    then have "h1 = h" using at' new(1,2) by (auto simp: h1_def hput_def fun_eq_iff intro!: heap.equality)
    then show ?thesis using True by (simp add: heap_simps)
  next
    case False
    then have cap: "cap \<noteq> 0" using at' by (cases "cap = 0") (auto simp: slots_at_def)
    then obtain f1 f2 where arr: "cells h ns = Some (PtrArray (map Some (map fst nms) @ f1))" "cells h vs = Some (PtrArray (map Some (map jroot ks) @ f2))"
      using at' by (auto simp: slots_at_def)
    have nz: "ns \<noteq> 0" "vs \<noteq> 0" using wf_heap_block [OF assms(3)] arr by blast+
    have sep: "tn \<noteq> ns" "tn \<noteq> vs" "tv \<noteq> ns" "tv \<noteq> vs" using new(4,5) cap by auto
    have "copy_ptrs tn ns (length ks) h = Inr ((), hput tn (PtrArray (map Some (map fst nms) @ replicate (nc - length ks) None)) h)"
      using copy_ptrs_ok [OF arr(1) new(1)] new(6) at' by simp
    moreover have "copy_ptrs tv vs (length ks) (hput tn (PtrArray (map Some (map fst nms) @ replicate (nc - length ks) None)) h) = Inr ((), h1)"
      unfolding h1_def using copy_ptrs_ok [of "hput tn _ h" vs "map jroot ks" f2 tv nc] arr(2) new(2,3,6) sep by simp
    ultimately show ?thesis using nz False by (simp add: heap_simps)
  qed
qed

lemma free_old_arrays:
  fixes cap :: nat
  assumes "wf_heap h" "cap = 0 \<Longrightarrow> ns = 0 \<and> vs = 0" "cap \<noteq> 0 \<Longrightarrow> {ns, vs} \<subseteq> live h \<and> ns \<noteq> vs"
  shows "hbind (hfree ns) (\<lambda>_. hbind (hfree vs) f) h = f () (release (if cap = 0 then {} else {ns, vs}) h)"
proof (cases "cap = 0")
  case True
  then show ?thesis using assms(2) by (simp add: hfree_def hbind_def)
next
  case False
  then have "hfree ns h = Inr ((), release {ns} h)" "hfree vs (release {ns} h) = Inr ((), release {vs} (release {ns} h))"
    using assms(1,3) by (auto intro!: hfree_ok simp del: release_simps(5))
  then show ?thesis using False by (simp add: heap_simps insert_commute)
qed

text \<open>After both new arrays \<open>tn\<close> and \<open>tv\<close> were allocated.\<close>

lemma resize_moved:
  assumes made: "jmade h0 h (LObj p ob ns vs cap nms ks) X" and new: "adds {tn, tv} h h2" "tn \<noteq> tv"
    "cells h2 tn = Some (PtrArray (replicate nc None))" "cells h2 tv = Some (PtrArray (replicate nc None))" and nc: "nc \<noteq> 0" "length ks \<le> nc"
  obtains h' where "hbind (if ns \<noteq> 0 \<and> vs \<noteq> 0 \<and> length ks > 0 then hbind (copy_ptrs tn ns (length ks)) (\<lambda>_. copy_ptrs tv vs (length ks)) else hret ()) (\<lambda>_.
      hbind (hfree ns) (\<lambda>_. hbind (hfree vs) (\<lambda>_. hbind (hstore ob (ObjectBlock tn tv (length ks) nc)) (\<lambda>_. hret True)))) h2 = Inr (True, h')"
    "jmade h0 h' (LObj p ob tn tv nc nms ks) X" "\<And>a. a \<in> X \<Longrightarrow> cells h' a = cells h a" "unrefused h \<Longrightarrow> unrefused h'"
proof -
  let ?l = "LObj p ob ns vs cap nms ks" and ?l' = "LObj p ob tn tv nc nms ks"
  let ?F = "if cap = 0 then {} else {ns, vs}"
  have m2: "jmade h0 h2 ?l (X \<union> {tn, tv})" using jmade_more [OF made new(1)] .
  note m = m2 [unfolded jmade_def] and wf2 = jmade_wf [OF m2]
  have at2: "jat h2 ?l" and d: "distinct (jptrs ?l)" and dis: "set (jptrs ?l) \<inter> (X \<union> {tn, tv}) = {}" using m by blast+
  note at' = at2 [simplified] and d' = d [simplified] and dis' = dis [simplified]
  have fresh: "tn \<notin> X" "tv \<notin> X" using adds_disjoint [OF made [unfolded jmade_def, THEN conjunct1] new(1)] by auto
  define h3 where "h3 = hput tv (PtrArray (map Some (map jroot ks) @ replicate (nc - length ks) None))
    (hput tn (PtrArray (map Some (map fst nms) @ replicate (nc - length ks) None)) h2)"
  define h5 where "h5 = hput ob (ObjectBlock tn tv (length ks) nc) (release ?F h3)"
  have copied: "(if ns \<noteq> 0 \<and> vs \<noteq> 0 \<and> length ks > 0 then hbind (copy_ptrs tn ns (length ks)) (\<lambda>_. copy_ptrs tv vs (length ks)) else hret ()) h2 = Inr ((), h3)"
    unfolding h3_def using dis new(2-4) nc by (intro resize_copies [OF at2 d wf2]) auto
  have a3: "adds (set (jptrs ?l) \<union> (X \<union> {tn, tv})) h0 h3" unfolding h3_def using m by (intro adds_hput) auto
  have live3: "cap \<noteq> 0 \<Longrightarrow> {ns, vs} \<subseteq> live h3 \<and> ns \<noteq> vs" "ob \<in> live h3" using adds_live [OF a3] d' by auto
  have zero: "cap = 0 \<Longrightarrow> ns = 0 \<and> vs = 0" using at' by (auto simp: slots_at_def)
  have obF: "ob \<notin> ?F" using d' by auto
  have st: "hstore ob (ObjectBlock tn tv (length ks) nc) (release ?F h3) = Inr ((), h5)"
    unfolding h5_def using live3(2) obF by (intro hput_live) simp
  have run: "hbind (hfree ns) (\<lambda>_. hbind (hfree vs) (\<lambda>_. hbind (hstore ob (ObjectBlock tn tv (length ks) nc)) (\<lambda>_. hret True))) h3 = Inr (True, h5)"
    by (subst free_old_arrays [OF adds_wf [OF a3] zero live3(1)], assumption+) (simp only: hbind_def st cbind_Inr prod.case hret_apply)
  have "adds (set (jptrs ?l) \<union> (X \<union> {tn, tv}) - ?F) h0 (release ?F h3)" using a3 by (rule adds_release) auto
  moreover have "set (jptrs ?l) \<union> (X \<union> {tn, tv}) - ?F = set (jptrs ?l') \<union> X" using d' dis' nc fresh by auto
  ultimately have a5: "adds (set (jptrs ?l') \<union> X) h0 h5" unfolding h5_def by (intro adds_hput) auto
  have other: "cells h5 a = cells h2 a" if "a \<notin> {ob, tn, tv, ns, vs}" for a using that by (auto simp: h5_def h3_def)
  have "jat h5 k" if "k \<in> set ks" for k
  proof (rule jat_frame [of h2])
    show "jat h2 k" using at' that by simp
    show "cells h5 a = cells h2 a" if "a \<in> set (jptrs k)" for a
      using that \<open>k \<in> set ks\<close> d' dis' zero wf_heap_zero(1) [OF wf2] jat_live [OF \<open>jat h2 k\<close>] by (intro other) (auto split: if_splits)
  qed
  moreover have "cells h5 a = Some (CString t)" if "(a, t) \<in> set nms" for a t
  proof -
    have "a \<in> fst ` set nms" "cells h2 a = Some (CString t)" using that at' by force+
    then show ?thesis using d' dis' zero wf_heap_block [OF wf2] other [of a] by (auto split: if_splits)
  qed
  moreover have "tn \<notin> ?F" "tv \<notin> ?F" "tn \<noteq> ob" "tv \<noteq> ob" using dis' by (auto split: if_splits)
  then have "cells h5 tn = cells h3 tn" "cells h5 tv = cells h3 tv" by (simp_all add: h5_def)
  then have "slots_at h5 tn nc (map fst nms)" "slots_at h5 tv nc (map jroot ks)"
    using at' new(2) nc by (simp_all add: slots_at_def h3_def)
  moreover have "cells h5 p = Some (ValueBlock (NObject ob))"
    using other [of p] d' dis' zero wf_heap_block [OF wf2, of p] at' by (auto split: if_splits)
  moreover have "cells h5 ob = Some (ObjectBlock tn tv (length ks) nc)" by (simp add: h5_def)
  ultimately have "jat h5 ?l'" using at' by auto
  moreover have "distinct (jptrs ?l')" "set (jptrs ?l') \<inter> X = {}" using d' dis' new(2) nc fresh by (auto split: if_splits)
  ultimately have "jmade h0 h5 ?l' X" using a5 by (simp only: jmade_def)
  moreover have "cells h5 a = cells h a" if "a \<in> X" for a
  proof -
    have "a \<in> live h" "a \<noteq> 0"
      using that adds_live [OF made [unfolded jmade_def, THEN conjunct1]] wf_heap_zero(1) [OF jmade_wf [OF made]] by auto
    then show ?thesis using that dis' fresh zero other [of a] adds_old [OF new(1), of a] by (auto split: if_splits)
  qed
  moreover have "unrefused h5" if "unrefused h" using unrefused_later [OF that new(1)] by (simp add: h5_def h3_def unrefused_def)
  ultimately show ?thesis using that [of h5] copied run by (simp add: heap_simps)
qed

lemma h_json_object_resize_cases:
  assumes made: "jmade h0 h (LObj p ob ns vs cap nms ks) X" and nc: "nc \<noteq> 0" "length ks \<le> nc"
  obtains (refused) h' where "h_json_object_resize ob nc h = Inr (False, h')" "jmade h0 h' (LObj p ob ns vs cap nms ks) X" "cells h' = cells h" "\<not> unrefused h"
  | (grown) tn tv h' where "h_json_object_resize ob nc h = Inr (True, h')" "jmade h0 h' (LObj p ob tn tv nc nms ks) X" "\<And>a. a \<in> X \<Longrightarrow> cells h' a = cells h a" "unrefused h \<Longrightarrow> unrefused h'"
proof -
  let ?arr = "PtrArray (replicate nc None)"
  have at: "jat h (LObj p ob ns vs cap nms ks)" using made by (simp only: jmade_def)
  have wf: "wf_heap h" using made by (rule jmade_wf)
  have ldo: "load_object ob h = Inr ((ns, vs, length ks, cap), h)" using at by (intro load_object_ok) simp
  have both: "(ns = 0) = (vs = 0)" using at wf_heap_block [OF wf] by (auto simp: slots_at_def split: if_splits)
  show ?thesis
  proof (cases rule: halloc_cases [OF wf, of ?arr])
    case 1
    have "h_json_object_resize ob nc h = Inr (False, h\<lparr>next_addr := next_addr h + 1\<rparr>)"
      using ldo both nc 1(2) by (auto simp: h_json_object_resize_def heap_simps)
    then show ?thesis using refused jmade_more [OF made 1(3)] 1(1) by (auto simp: unrefused_def)
  next
    case (2 h1)
    define tn where "tn = next_addr h"
    have tn: "tn \<noteq> 0" "adds {tn} h h1" "halloc ?arr h = Inr (tn, h1)" "cells h1 tn = Some ?arr"
      using 2 wf_heap_next [OF wf] by (simp_all add: tn_def)
    show ?thesis
    proof (cases rule: halloc_cases [OF adds_wf [OF tn(2)], of ?arr])
      case r: 1
      let ?h2 = "h1\<lparr>next_addr := next_addr h1 + 1\<rparr>"
      have l: "adds {tn} h ?h2" using adds_trans [OF tn(2) r(3)] by simp
      have "hfree tn ?h2 = Inr ((), release {tn} ?h2)" using adds_live [OF l] adds_wf [OF l] by (intro hfree_ok) auto
      then have "h_json_object_resize ob nc h = Inr (False, release {tn} ?h2)"
        using ldo both nc tn(1,3) r(2) by (auto simp: h_json_object_resize_def heap_simps)
      moreover have l3: "adds {} h (release {tn} ?h2)" using adds_release [OF l, of "{tn}"] by simp
      moreover have "\<not> unrefused h" using r(1) unrefused_later [OF _ tn(2)] by (auto simp: unrefused_def)
      ultimately show ?thesis using refused jmade_more [OF made l3] adds_empty [OF l3] by simp
    next
      case s: (2 h2)
      define tv where "tv = next_addr h1"
      have tv: "tv \<noteq> 0" "tn \<noteq> tv" "halloc ?arr h1 = Inr (tv, h2)" "cells h2 tv = Some ?arr" "cells h2 tn = Some ?arr"
        using s wf_heap_next [OF adds_wf [OF tn(2)]] adds_kept [OF s(3) tn(4)] adds_live [OF tn(2)] by (auto simp: tv_def)
      have l: "adds {tn, tv} h h2" using adds_trans [OF tn(2) s(3)] by (simp add: tv_def insert_commute)
      obtain h' where h': "hbind (if ns \<noteq> 0 \<and> vs \<noteq> 0 \<and> length ks > 0 then hbind (copy_ptrs tn ns (length ks)) (\<lambda>_. copy_ptrs tv vs (length ks)) else hret ()) (\<lambda>_.
          hbind (hfree ns) (\<lambda>_. hbind (hfree vs) (\<lambda>_. hbind (hstore ob (ObjectBlock tn tv (length ks) nc)) (\<lambda>_. hret True)))) h2 = Inr (True, h')"
        "jmade h0 h' (LObj p ob tn tv nc nms ks) X" "\<And>a. a \<in> X \<Longrightarrow> cells h' a = cells h a" "unrefused h \<Longrightarrow> unrefused h'"
        using resize_moved [OF made l tv(2,5,4) nc] by metis
      have "h_json_object_resize ob nc h = Inr (True, h')"
        using ldo both nc tn(1,3) tv(1,3) h'(1) unfolding h_json_object_resize_def by (simp add: heap_simps)
      then show ?thesis using grown h'(2-4) by blast
    qed
  qed
qed

text \<open>A member \<open>k\<close> goes over into the object when there is room for it.\<close>

lemma store_ptr_ok:
  "cells h a = Some (PtrArray (map Some xs @ f # free)) \<Longrightarrow>
   store_ptr a (length xs) p h = Inr ((), hput a (PtrArray (map Some (xs @ [p]) @ free)) h)"
  by (simp add: store_ptr_def heap_simps hstore_def live_def domIff hput_def list_update_append)

lemma slots_room: "slots_at h a cap xs \<Longrightarrow> length xs < cap \<Longrightarrow> \<exists>f free. cells h a = Some (PtrArray (map Some xs @ f # free)) \<and> Suc (length xs + length free) = cap"
proof -
  assume "slots_at h a cap xs" "length xs < cap"
  then obtain fs where fs: "cells h a = Some (PtrArray (map Some xs @ fs))" "length xs + length fs = cap" by (auto simp: slots_at_def)
  then show ?thesis using \<open>length xs < cap\<close> by (cases fs) auto
qed

lemma append_refused:
  assumes made: "jmade h0 h (LObj p ob ns vs cap nms ks) X" and room: "length ks < cap" and r: "refused h (next_addr h)"
  obtains h' where "append_member ob name v h = Inr (False, h')" "jmade h0 h' (LObj p ob ns vs cap nms ks) X"
    "\<And>a. a \<in> X \<Longrightarrow> cells h' a = cells h a"
proof -
  let ?l = "LObj p ob ns vs cap nms ks"
  let ?h1 = "h\<lparr>next_addr := next_addr h + 1\<rparr>"
  have m: "jat h ?l" "distinct (jptrs ?l)" "set (jptrs ?l) \<inter> X = {}" using made by (simp_all only: jmade_def)
  note at' = m(1) [simplified] and d' = m(2) [simplified] and dis' = m(3) [simplified]
  obtain f free where arr: "cells h ns = Some (PtrArray (map Some (map fst nms) @ f # free))" "Suc (length ks + length free) = cap"
    using slots_room [of h ns cap "map fst nms"] at' room by auto
  let ?h2 = "hput ns (PtrArray (map Some (map fst nms @ [0]) @ free)) ?h1"
  have h1: "adds {} h ?h1" "halloc (CString name) h = Inr (0, ?h1)"
    by (cases rule: halloc_cases [OF jmade_wf [OF made], of "CString name"]; use r in simp)+
  have m1: "jmade h0 ?h1 ?l X" using jmade_more [OF made h1(1)] by simp
  have "store_ptr ns (length ks) 0 ?h1 = Inr ((), ?h2)" using store_ptr_ok [of ?h1 ns "map fst nms" f free 0] arr at' by simp
  moreover have "load_object ob h = Inr ((ns, vs, length ks, cap), h)" using at' by (intro load_object_ok) simp
  ultimately have "append_member ob name v h = Inr (False, ?h2)"
    using h1(2) by (simp add: append_member_def parson_strdup_def parson_strndup_def heap_simps)
  moreover have "adds (set (jptrs ?l) \<union> X) h0 ?h2"
    using m1 arr(2) unfolding jmade_def by (intro adds_hput) auto
  moreover have "jat ?h2 ?l"
  proof -
    have "jat ?h2 k" if "k \<in> set ks" for k
      by (rule jat_frame [of h]) (use that at' d' arr(2) in \<open>auto split: if_splits\<close>)
    moreover have "slots_at ?h2 ns cap (map fst nms)" using arr(2) at' by (auto simp: slots_at_def)
    moreover have "slots_at ?h2 vs cap (map jroot ks)" by (rule slots_frame [of h]) (use at' d' arr(2) in \<open>auto split: if_splits\<close>)
    moreover have "cells ?h2 a = Some (CString t)" if "(a, t) \<in> set nms" for a t using that at' arr(1) by (cases "a = ns") auto
    ultimately show ?thesis using at' d' arr(2) by (auto split: if_splits)
  qed
  moreover have "cells ?h2 a = cells h a" if "a \<in> X" for a using that dis' arr(2) by (auto split: if_splits)
  ultimately show ?thesis using that [of ?h2] m(2,3) unfolding jmade_def by blast
qed

lemma member_appended:
  assumes m: "adds (set (jptrs (LObj p ob ns vs cap nms ks)) \<union> (set (jptrs k) \<union> X \<union> {q})) h0 h1" "jat h1 (LObj p ob ns vs cap nms ks)"
      "distinct (jptrs (LObj p ob ns vs cap nms ks))" "set (jptrs (LObj p ob ns vs cap nms ks)) \<inter> (set (jptrs k) \<union> X \<union> {q}) = {}"
    and k: "jat h1 k" "distinct (jptrs k)" "set (jptrs k) \<inter> X = {}" and q: "cells h1 q = Some (CString name)" "q \<notin> set (jptrs k) \<union> X"
    and len: "Suc (length ks + length fs1) = cap" "Suc (length ks + length fs2) = cap"
  defines "h4 \<equiv> hput ob (ObjectBlock ns vs (Suc (length ks)) cap) (hput vs (PtrArray (map Some (map jroot ks @ [jroot k]) @ fs2))
    (hput ns (PtrArray (map Some (map fst nms @ [q]) @ fs1)) h1))"
  shows "jmade h0 h4 (LObj p ob ns vs cap (nms @ [(q, name)]) (ks @ [k])) X"
proof -
  let ?l = "LObj p ob ns vs cap nms ks" and ?l' = "LObj p ob ns vs cap (nms @ [(q, name)]) (ks @ [k])"
  note at' = m(2) [simplified] and d' = m(3) [simplified] and dis' = m(4) [simplified]
  have cap: "cap \<noteq> 0" using len by auto
  have ne: "ns \<noteq> vs" "ob \<noteq> ns" "ob \<noteq> vs" "p \<noteq> ob" "p \<noteq> ns" "p \<noteq> vs" using d' cap by auto
  have other: "cells h4 a = cells h1 a" if "a \<notin> {ob, ns, vs}" for a using that by (simp add: h4_def)
  have "adds (set (jptrs ?l) \<union> (set (jptrs k) \<union> X \<union> {q})) h0 h4" unfolding h4_def using m(1) cap by (intro adds_hput) auto
  moreover have "set (jptrs ?l) \<union> (set (jptrs k) \<union> X \<union> {q}) = set (jptrs ?l') \<union> X" by auto
  ultimately have a4: "adds (set (jptrs ?l') \<union> X) h0 h4" by simp
  have "jat h4 k'" if "k' \<in> set (ks @ [k])" for k'
  proof (rule jat_frame [of h1])
    show "jat h1 k'" using that at' k(1) by auto
    show "cells h4 a = cells h1 a" if "a \<in> set (jptrs k')" for a
      using that \<open>k' \<in> set (ks @ [k])\<close> d' dis' cap by (intro other) auto
  qed
  moreover have "cells h4 a = Some (CString t)" if "(a, t) \<in> set (nms @ [(q, name)])" for a t
  proof -
    have "a \<in> insert q (fst ` set nms)" "cells h1 a = Some (CString t)" using that at' q(1) by force+
    then show ?thesis using d' dis' cap other [of a] by auto
  qed
  moreover have "slots_at h4 ns cap (map fst (nms @ [(q, name)]))" "slots_at h4 vs cap (map jroot (ks @ [k]))"
    using len at' ne cap by (auto simp: slots_at_def h4_def)
  ultimately have "jat h4 ?l'" using at' other [of p] ne by (auto simp: h4_def)
  moreover have "distinct (jptrs ?l')" "set (jptrs ?l') \<inter> X = {}" using d' dis' cap k(2,3) q(2) by auto
  ultimately show ?thesis using a4 by (simp only: jmade_def)
qed

lemma append_done:
  assumes made: "jmade h0 h (LObj p ob ns vs cap nms ks) (set (jptrs k) \<union> X)" and k: "jat h k" "distinct (jptrs k)" "set (jptrs k) \<inter> X = {}"
    and room: "length ks < cap" and r: "\<not> refused h (next_addr h)"
  obtains q h' where "append_member ob name (jroot k) h = Inr (True, h')" "jmade h0 h' (LObj p ob ns vs cap (nms @ [(q, name)]) (ks @ [k])) X"
proof -
  let ?l = "LObj p ob ns vs cap nms ks" and ?Y = "set (jptrs k) \<union> X"
  obtain h1 where a: "halloc (CString name) h = Inr (next_addr h, h1)" "adds {next_addr h} h h1" "cells h1 (next_addr h) = Some (CString name)"
    by (cases rule: halloc_cases [OF jmade_wf [OF made], of "CString name"]) (use r in auto)
  define q where "q = next_addr h"
  have q: "halloc (CString name) h = Inr (q, h1)" "adds {q} h h1" "cells h1 q = Some (CString name)" "q \<noteq> 0"
    using a wf_heap_next [OF jmade_wf [OF made]] by (simp_all add: q_def)
  have m: "adds (set (jptrs ?l) \<union> (?Y \<union> {q})) h0 h1" "jat h1 ?l" "distinct (jptrs ?l)" "set (jptrs ?l) \<inter> (?Y \<union> {q}) = {}"
    using jmade_more [OF made q(2)] by (simp_all only: jmade_def)
  note at' = m(2) [simplified] and d' = m(3) [simplified] and dis' = m(4) [simplified]
  have qY: "q \<notin> ?Y" using adds_disjoint [OF made [unfolded jmade_def, THEN conjunct1] q(2)] by auto
  have k1: "jat h1 k" by (rule jat_frame [OF k(1)], rule adds_old [OF q(2)]) (use qY in auto)
  obtain f1 fs1 where n: "cells h1 ns = Some (PtrArray (map Some (map fst nms) @ f1 # fs1))" "Suc (length ks + length fs1) = cap"
    using slots_room [of h1 ns cap "map fst nms"] at' room by auto
  obtain f2 fs2 where v: "cells h1 vs = Some (PtrArray (map Some (map jroot ks) @ f2 # fs2))" "Suc (length ks + length fs2) = cap"
    using slots_room [of h1 vs cap "map jroot ks"] at' room by auto
  define h2 where "h2 = hput ns (PtrArray (map Some (map fst nms @ [q]) @ fs1)) h1"
  define h3 where "h3 = hput vs (PtrArray (map Some (map jroot ks @ [jroot k]) @ fs2)) h2"
  have ne: "ns \<noteq> vs" "ob \<noteq> ns" "ob \<noteq> vs" using d' room by auto
  have "store_ptr ns (length ks) q h1 = Inr ((), h2)" unfolding h2_def using store_ptr_ok [OF n(1), of q] at' by simp
  moreover have "store_ptr vs (length ks) (jroot k) h2 = Inr ((), h3)"
    unfolding h3_def using store_ptr_ok [of h2 vs "map jroot ks" f2 fs2 "jroot k"] v(1) ne by (simp add: h2_def)
  moreover have c: "cells h1 ob = Some (ObjectBlock ns vs (length ks) cap)" "cells h2 ob = Some (ObjectBlock ns vs (length ks) cap)"
    "cells h3 ob = Some (ObjectBlock ns vs (length ks) cap)" using at' ne by (simp_all add: h3_def h2_def)
  moreover have "load_object ob h = Inr ((ns, vs, length ks, cap), h)"
    using c(1) adds_old [OF q(2), of ob] dis' by (intro load_object_ok) simp
  ultimately have "append_member ob name (jroot k) h = Inr (True, hput ob (ObjectBlock ns vs (Suc (length ks)) cap) h3)"
    using q(1,4) set_object_count_ok [OF c(3), of "Suc (length ks)"]
    by (simp add: append_member_def parson_strdup_def parson_strndup_def load_object_ok heap_simps)
  then show ?thesis using that member_appended [OF m k1 k(2,3) q(3) qY n(2) v(2)] unfolding h3_def h2_def by blast
qed

lemma append_cases:
  assumes made: "jmade h0 h (LObj p ob ns vs cap nms ks) (set (jptrs k) \<union> X)" and k: "jat h k" "distinct (jptrs k)" "set (jptrs k) \<inter> X = {}"
    and room: "length ks < cap"
  obtains (failed) h' where "append_member ob name (jroot k) h = Inr (False, h')" "jmade h0 h' (LObj p ob ns vs cap nms ks) (set (jptrs k) \<union> X)"
      "jat h' k" "\<not> unrefused h"
  | (added) q h' where "append_member ob name (jroot k) h = Inr (True, h')" "jmade h0 h' (LObj p ob ns vs cap (nms @ [(q, name)]) (ks @ [k])) X"
      "zip (map snd (nms @ [(q, name)])) (map jval (ks @ [k])) = zip (map snd nms) (map jval ks) @ [(name, jval k)]"
proof (cases "refused h (next_addr h)")
  case True
  obtain h' where h': "append_member ob name (jroot k) h = Inr (False, h')" "jmade h0 h' (LObj p ob ns vs cap nms ks) (set (jptrs k) \<union> X)"
    "\<And>a. a \<in> set (jptrs k) \<union> X \<Longrightarrow> cells h' a = cells h a" using append_refused [OF made room True] by metis
  have "jat h' k" by (rule jat_frame [OF k(1)]) (use h'(3) in blast)
  then show ?thesis using failed h' True by (auto simp: unrefused_def)
next
  case False
  have "length nms = length ks" using made by (simp add: jmade_def)
  then have z: "zip (map snd (nms @ [(q, name)])) (map jval (ks @ [k])) = zip (map snd nms) (map jval ks) @ [(name, jval k)]" for q by simp
  show ?thesis by (rule append_done [OF made k room False, of name]) (rule added [OF _ _ z])
qed

text \<open>
  Adding a member: it goes over into the object, or the object keeps its members and the value stays with the
  caller. With memory to spare this is the operation on values.
\<close>

abbreviation obj_val :: "nat \<Rightarrow> (addr \<times> string) list \<Rightarrow> jlayout list \<Rightarrow> jobject" where
  "obj_val cap nms ks \<equiv> (cap, zip (map snd nms) (map jval ks))"

lemma h_json_object_add_cases:
  assumes made: "jmade h0 h (LObj p ob ns vs cap nms ks) (set (jptrs k) \<union> X)" and k: "jat h k" "distinct (jptrs k)" "set (jptrs k) \<inter> X = {}"
  obtains (failed) ns' vs' cap' h' where "h_json_object_add ob name (jroot k) h = Inr (False, h')"
      "jmade h0 h' (LObj p ob ns' vs' cap' nms ks) (set (jptrs k) \<union> X)" "jat h' k"
      "unrefused h \<Longrightarrow> json_object_add True (obj_val cap nms ks) name (jval k) = (False, obj_val cap' nms ks)"
  | (added) ns' vs' cap' q h' where "h_json_object_add ob name (jroot k) h = Inr (True, h')"
      "jmade h0 h' (LObj p ob ns' vs' cap' (nms @ [(q, name)]) (ks @ [k])) X"
      "unrefused h \<Longrightarrow> json_object_add True (obj_val cap nms ks) name (jval k) = (True, obj_val cap' (nms @ [(q, name)]) (ks @ [k]))"
proof -
  let ?l = "LObj p ob ns vs cap nms ks"
  let ?nc = "max (cap * 2) STARTING_CAPACITY"
  have at: "jat h ?l" and wf: "wf_heap h" using made jmade_wf by (auto simp only: jmade_def)
  have len: "length nms = length ks" using at by simp
  have nz: "ob \<noteq> 0" "jroot k \<noteq> 0"
    using at wf_heap_block [OF wf, of ob] wf_heap_zero(1) [OF wf] jat_live [OF k(1)] jroot_ptrs [of k] by (auto dest: subsetD)
  have ldo: "load_object ob h = Inr ((ns, vs, length ks, cap), h)" using at by (intro load_object_ok) simp
  have member: "json_object_get_value (obj_val cap nms ks) name = None \<longleftrightarrow> name \<notin> snd ` set nms"
    using len by (simp add: json_object_get_value_def json_object_nget_value_def map_of_eq_None_iff map_fst_zip flip: set_map)
  obtain r where r: "h_json_object_get_value ob name h = Inr (r, h)" "r = 0 \<longleftrightarrow> name \<notin> snd ` set nms" using get_value_ok [OF wf at] by metis
  have le: "length ks \<le> cap" using at len by (auto simp: slots_at_def split: if_splits)
  have start: "STARTING_CAPACITY \<noteq> 0" by (simp add: STARTING_CAPACITY_def)
  consider (dup) "name \<in> snd ` set nms" | (full) "name \<notin> snd ` set nms" "length ks = cap" "?nc > OBJECT_MAX_CAPACITY"
    | (grow) "name \<notin> snd ` set nms" "length ks = cap" "?nc \<le> OBJECT_MAX_CAPACITY" | (room) "name \<notin> snd ` set nms" "length ks < cap"
    using le by linarith
  then show ?thesis
  proof cases
    case dup
    then have "h_json_object_add ob name (jroot k) h = Inr (False, h)" using nz r by (simp add: h_json_object_add_def heap_simps)
    then show ?thesis using failed [OF _ made k(1)] member dup by (simp add: json_object_add_def)
  next
    case full
    then have "h_json_object_add ob name (jroot k) h = Inr (False, h)" using nz r ldo by (simp add: h_json_object_add_def heap_simps)
    then show ?thesis using failed [OF _ made k(1)] member full len by (simp add: json_object_add_def)
  next
    case grow
    have nc: "?nc \<noteq> 0" "length ks \<le> ?nc" "length ks < ?nc" using start grow(2) by (simp_all add: max_def)
    have add: "h_json_object_add ob name (jroot k) h =
        hbind (h_json_object_resize ob ?nc) (\<lambda>ok. if \<not> ok then hret False else append_member ob name (jroot k)) h"
      using nz r ldo grow by (auto simp: h_json_object_add_def heap_simps Let_def less_max_iff_disj)
    show ?thesis
    proof (cases rule: h_json_object_resize_cases [OF made nc(1,2)])
      case (1 h')
      have "jat h' k" by (rule jat_frame [OF k(1)]) (simp add: 1(3))
      moreover have "h_json_object_add ob name (jroot k) h = Inr (False, h')"
        unfolding add by (simp add: hbind_def 1(1) hret_def)
      ultimately show ?thesis using failed [OF _ 1(2)] 1(4) by blast
    next
      case (2 tn tv h')
      have add: "h_json_object_add ob name (jroot k) h = append_member ob name (jroot k) h'" unfolding add by (simp add: hbind_def 2(1))
      have val: "json_object_add True (obj_val cap nms ks) name (jval k) = (True, (?nc, zip (map snd nms) (map jval ks) @ [(name, jval k)]))"
        using member grow len start by (auto simp: json_object_add_def json_object_resize_def Let_def less_max_iff_disj)
      show ?thesis
        by (rule append_cases [OF 2(2) jat_frame [OF k(1) 2(3)] k(2,3) nc(3), of name])
           (use failed added 2(4) val add in \<open>auto simp: hbind_def 2(1)\<close>)
    qed
  next
    case room
    then have add: "h_json_object_add ob name (jroot k) h = append_member ob name (jroot k) h"
      using nz r ldo by (simp add: h_json_object_add_def heap_simps)
    have val: "json_object_add True (obj_val cap nms ks) name (jval k) = (True, (cap, zip (map snd nms) (map jval ks) @ [(name, jval k)]))"
      using member room len by (simp add: json_object_add_def)
    show ?thesis by (rule append_cases [OF made k room(2), of name]) (use failed added val add in auto)
  qed
qed

section \<open>Reading a tree back\<close>

lemma hmap_ok: "(\<And>x. x \<in> set xs \<Longrightarrow> f x h = Inr (g x, h)) \<Longrightarrow> hmap f xs h = Inr (map g xs, h)"
  by (induction xs) (simp_all add: heap_simps)

lemma read_string_ok: "wf_heap h \<Longrightarrow> cells h a = Some (CString t) \<Longrightarrow> read_string a h = Inr (t, h)"
  using wf_heap_block [of h a] by (auto simp: read_string_def load_string_def deref_def heap_simps)

lemma read_slots:
  assumes "slots_at h a cap (map g xs)" "\<And>i. ld i h = load_ptr a i h" "\<And>x. x \<in> set xs \<Longrightarrow> f (g x) h = Inr (v x, h)"
  shows "hmap (\<lambda>i. hbind (ld i) f) [0..<length xs] h = Inr (map v xs, h)"
proof -
  have "hbind (ld i) f h = Inr (v (xs ! i), h)" if i: "i < length xs" for i
  proof -
    have "cap \<noteq> 0" using assms(1) i by (cases "cap = 0") (auto simp: slots_at_def)
    then obtain free where "cells h a = Some (PtrArray (map Some (map g xs) @ free))" using assms(1) by (auto simp: slots_at_def)
    then have "ld i h = Inr (g (xs ! i), h)" using load_ptr_ok [of h a "map g xs" free i] i assms(2) by simp
    then show ?thesis using assms(3) [OF nth_mem [OF i]] by (simp add: heap_simps)
  qed
  then have "hmap (\<lambda>i. hbind (ld i) f) [0..<length xs] h = Inr (map (\<lambda>i. v (xs ! i)) [0..<length xs], h)" by (intro hmap_ok) simp
  moreover have "map (\<lambda>i. v (xs ! i)) [0..<length xs] = map v xs" by (intro nth_equalityI) simp_all
  ultimately show ?thesis by simp
qed

lemma read_value_ok: "wf_heap h \<Longrightarrow> jat h l \<Longrightarrow> jdepth l \<le> stack \<Longrightarrow> read_value stack (jroot l) h = Inr (jval l, h)"
proof (induction l arbitrary: stack)
  case (LLeaf p n)
  then show ?case by (cases stack; cases n) (simp_all add: load_value_def heap_simps)
next
  case (LText p s t)
  then show ?case by (cases stack) (simp_all add: load_value_def read_string_ok heap_simps)
next
  case (LObj p ob ns vs cap nms ks)
  then obtain d where stack: "stack = Suc d" "\<forall>k \<in> set ks. jdepth k \<le> d" by (cases stack) auto
  note at' = LObj.prems(2) [simplified]
  have ldo: "load_object ob h = Inr ((ns, vs, length ks, cap), h)" "load_value p h = Inr (NObject ob, h)"
    using at' by (simp_all add: load_object_ok load_value_def heap_simps)
  then have ld: "load_name ob i h = load_ptr ns i h" "load_member ob i h = load_ptr vs i h" for i
    by (simp_all add: load_name_def load_member_def heap_simps)
  have "read_string (fst x) h = Inr (snd x, h)" if "x \<in> set nms" for x
    using at' that LObj.prems(1) by (intro read_string_ok) (auto split: prod.splits)
  then have "hmap (\<lambda>i. hbind (load_name ob i) read_string) [0..<length nms] h = Inr (map snd nms, h)"
    using at' ld(1) by (intro read_slots [of h ns cap fst]) auto
  moreover have "hmap (\<lambda>i. hbind (load_member ob i) (read_value d)) [0..<length ks] h = Inr (map jval ks, h)"
    using at' ld(2) stack LObj.IH LObj.prems(1) by (intro read_slots [of h vs cap jroot]) auto
  ultimately show ?case using ldo at' by (simp add: stack(1) heap_simps)
next
  case (LArr p ar items cap ks)
  then obtain d where stack: "stack = Suc d" "\<forall>k \<in> set ks. jdepth k \<le> d" by (cases stack) auto
  note at' = LArr.prems(2) [simplified]
  have lda: "load_array ar h = Inr ((items, length ks, cap), h)" "load_value p h = Inr (NArray ar, h)"
    using at' by (simp_all add: load_array_ok load_value_def heap_simps)
  then have ld: "load_item ar i h = load_ptr items i h" for i by (simp add: load_item_def heap_simps)
  then have "hmap (\<lambda>i. hbind (load_item ar i) (read_value d)) [0..<length ks] h = Inr (map jval ks, h)"
    using at' stack LArr.IH LArr.prems(1) by (intro read_slots [of h items cap jroot]) auto
  then show ?case using lda by (simp add: stack(1) heap_simps)
qed

section \<open>Setting a member\<close>

lemma replace_member_ok:
  assumes "wf_heap h" "names_at h ob ns nms" "cells h ob = Some (ObjectBlock ns vs n cap)" "cells h vs = Some (PtrArray (map Some xs @ f))"
    and "length xs = length nms" "\<forall>j \<in> set is. j < length nms" "find (\<lambda>j. snd (nms ! j) = name) is = Some i"
  shows "h_replace_member ob name v is h = Inr (True, hput vs (PtrArray (map Some (xs[i := v]) @ f)) h)"
  using assms(6,7)
proof (induction "is")
  case (Cons j js)
  note nm = read_name_ok [OF assms(1,2), of j]
  have "store_ptr vs j v h = Inr ((), hput vs (PtrArray (map Some (xs[j := v]) @ f)) h)" if "j < length xs"
    using that assms(4) by (simp add: store_ptr_def heap_simps hstore_def live_def domIff hput_def list_update_append1 map_update)
  then show ?case using Cons nm assms(3,5) by (auto simp: heap_simps deref_def load_object_ok split: if_splits)
qed simp

lemma find_first:
  assumes "length nms = length ks" "name \<in> snd ` set nms"
  obtains n1 a n2 k1 old k2 where "nms = n1 @ (a, name) # n2" "ks = k1 @ old # k2" "length n1 = length k1" "name \<notin> snd ` set n1"
    "find (\<lambda>j. snd (nms ! j) = name) [0..<length ks] = Some (length k1)"
proof -
  have "\<exists>z \<in> set nms. snd z = name" using assms(2) by auto
  then obtain n1 y n2 where n: "nms = n1 @ y # n2" "snd y = name" "\<forall>z \<in> set n1. snd z \<noteq> name" by (rule split_list_first_propE)
  obtain k1 old k2 where k: "ks = k1 @ old # k2" "length n1 = length k1"
    using assms(1) n(1) id_take_nth_drop [of "length n1" ks] by (metis add_Suc_right le_add1 le_imp_less_Suc length_Cons length_append length_take min.absorb4)
  have "find (\<lambda>j. snd (nms ! j) = name) [0..<length ks] = Some (length k1)"
    unfolding find_Some_iff using n k by (intro exI [of _ "length k1"]) (auto simp: nth_append)
  then show ?thesis using that [of n1 "fst y" n2 k1 old k2] n k by force
qed

lemma update_first:
  assumes "length n1 = length k1" "name \<notin> snd ` set n1"
  shows "AList.update name (jval k) (zip (map snd (n1 @ (a, name) # n2)) (map jval (k1 @ old # k2))) =
    zip (map snd (n1 @ (a, name) # n2)) (map jval (k1 @ k # k2))"
  using assms by (induction n1 k1 rule: list_induct2) auto

text \<open>An old member is freed and its slot goes to \<open>k\<close>.\<close>

lemma member_replaced:
  assumes made: "jmade h0 h (LObj p ob ns vs cap nms (k1 @ old # k2)) (set (jptrs k) \<union> X)" and k: "jat h k" "distinct (jptrs k)" "set (jptrs k) \<inter> X = {}"
    and f: "cells h vs = Some (PtrArray (map Some (map jroot (k1 @ old # k2)) @ f))"
  shows "jmade h0 (hput vs (PtrArray (map Some (map jroot (k1 @ k # k2)) @ f)) (release (set (jptrs old)) h)) (LObj p ob ns vs cap nms (k1 @ k # k2)) X"
    (is "jmade h0 ?h' ?l' X")
proof -
  let ?l = "LObj p ob ns vs cap nms (k1 @ old # k2)"
  have m: "adds (set (jptrs ?l) \<union> (set (jptrs k) \<union> X)) h0 h" "jat h ?l" "distinct (jptrs ?l)" "set (jptrs ?l) \<inter> (set (jptrs k) \<union> X) = {}"
    using made by (simp_all only: jmade_def)
  note at' = m(2) [simplified] and d' = m(3) [simplified] and dis' = m(4) [simplified]
  have cap: "cap \<noteq> 0" using at' by (auto simp: slots_at_def split: if_splits)
  have other: "cells ?h' a = cells h a" if "a \<noteq> vs" "a \<notin> set (jptrs old)" for a using that by simp
  have "set (jptrs ?l) \<union> (set (jptrs k) \<union> X) - set (jptrs old) = set (jptrs ?l') \<union> X" using d' dis' cap by auto
  moreover have "set (jptrs old) \<subseteq> set (jptrs ?l) \<union> (set (jptrs k) \<union> X)" by auto
  note adds_release [OF m(1) this]
  ultimately have "adds (set (jptrs ?l') \<union> X) h0 (release (set (jptrs old)) h)" by (simp only:)
  then have a: "adds (set (jptrs ?l') \<union> X) h0 ?h'" using cap by (intro adds_hput) auto
  have "jat ?h' k'" if "k' \<in> set (k1 @ k # k2)" for k'
  proof (rule jat_frame [of h])
    show "jat h k'" using that at' k(1) by auto
    show "cells ?h' a = cells h a" if "a \<in> set (jptrs k')" for a
      using that \<open>k' \<in> set (k1 @ k # k2)\<close> d' dis' cap by (intro other) auto
  qed
  moreover have "cells ?h' a = Some (CString t)" if "(a, t) \<in> set nms" for a t
  proof -
    have "a \<in> fst ` set nms" "cells h a = Some (CString t)" using that at' by force+
    moreover have "a \<noteq> vs" "a \<notin> set (jptrs old)" using calculation(1) d' cap by auto
    ultimately show ?thesis using other [of a] by simp
  qed
  moreover have "slots_at ?h' ns cap (map fst nms)" by (rule slots_frame [of h]) (use at' d' cap in \<open>auto simp: other\<close>)
  moreover have "slots_at ?h' vs cap (map jroot (k1 @ k # k2))" using at' f cap by (auto simp: slots_at_def)
  moreover have "cells ?h' p = cells h p" "cells ?h' ob = cells h ob" using d' cap by auto
  ultimately have "jat ?h' ?l'" using at' by auto
  moreover have "distinct (jptrs ?l')" "set (jptrs ?l') \<inter> X = {}" using d' dis' cap k(2,3) by auto
  ultimately show ?thesis using a by (simp only: jmade_def)
qed

lemma set_value_old:
  assumes made: "jmade h0 h (LObj p ob ns vs cap nms ks) (set (jptrs k) \<union> X)" and k: "jat h k" "distinct (jptrs k)" "set (jptrs k) \<inter> X = {}"
    and old: "name \<in> snd ` set nms" and stack: "\<forall>k \<in> set ks. jdepth k \<le> stack"
  obtains ks' h' where "h_json_object_set_value stack ob name (jroot k) h = Inr (True, h')"
    "jmade h0 h' (LObj p ob ns vs cap nms ks') X"
    "json_object_set_value True (obj_val cap nms ks) name (Some (jval k)) = (True, obj_val cap nms ks')"
proof -
  let ?l = "LObj p ob ns vs cap nms ks"
  have at: "jat h ?l" and d: "distinct (jptrs ?l)" and wf: "wf_heap h" using made jmade_wf by (auto simp only: jmade_def)
  note at' = at [simplified] and d' = d [simplified]
  have len: "length nms = length ks" using at by simp
  obtain n1 a n2 k1 o' k2 where s: "nms = n1 @ (a, name) # n2" "ks = k1 @ o' # k2" "length n1 = length k1" "name \<notin> snd ` set n1"
    "find (\<lambda>j. snd (nms ! j) = name) [0..<length ks] = Some (length k1)" using find_first [OF len old] by metis
  have nz: "ob \<noteq> 0" "jroot k \<noteq> 0" "jroot o' \<noteq> 0"
    using at' s(2) wf_heap_block [OF wf, of ob] wf_heap_zero(1) [OF wf] jat_live [OF k(1)] jroot_ptrs [of k] jat_live [of h o'] jroot_ptrs [of o']
    by (auto dest: subsetD)
  have cap: "cap \<noteq> 0" using at' s(2) by (auto simp: slots_at_def split: if_splits)
  then obtain f1 f where f: "cells h ns = Some (PtrArray (map Some (map fst nms) @ f1))" "cells h vs = Some (PtrArray (map Some (map jroot ks) @ f))"
    using at' by (auto simp: slots_at_def)
  let ?h1 = "release (set (jptrs o')) h"
  have get: "h_json_object_get_value ob name h = Inr (jroot o', h)"
    using find_member_ok [OF wf at, of "[0..<length ks]" name] s(2,5) nz(1) at'
    by (simp add: h_json_object_get_value_def h_json_object_nget_value_def load_object_ok heap_simps)
  have free: "json_value_free stack (jroot o') h = Inr ((), ?h1)"
    using json_value_free_ok [OF wf, of o' stack] at' d' s(2) stack by auto
  have c1: "cells ?h1 ob = Some (ObjectBlock ns vs (length ks) cap)" "cells ?h1 ns = cells h ns" "cells ?h1 vs = cells h vs"
    using at' d' cap by (auto simp: s(2))
  have "cells ?h1 a = Some (CString t)" if "(a, t) \<in> set nms" for a t
  proof -
    have "a \<in> fst ` set nms" "cells h a = Some (CString t)" using that at' by force+
    moreover have "a \<notin> set (jptrs o')" using calculation(1) d' by (auto simp: s(2))
    ultimately show ?thesis by simp
  qed
  then have "names_at ?h1 ob ns nms" using c1 f(1) by auto
  then have rep: "h_replace_member ob name (jroot k) [0..<length ks] ?h1 = Inr (True, hput vs (PtrArray (map Some ((map jroot ks)[length k1 := jroot k]) @ f)) ?h1)"
    using replace_member_ok [of ?h1 ob ns nms vs "length ks" cap "map jroot ks" f "[0..<length ks]" name "length k1" "jroot k"] wf c1 f(2) len s(5) by simp
  have upd: "(map jroot ks)[length k1 := jroot k] = map jroot (k1 @ k # k2)" by (simp add: s(2) list_update_append)
  have run: "h_json_object_set_value stack ob name (jroot k) h = Inr (True, hput vs (PtrArray (map Some (map jroot (k1 @ k # k2)) @ f)) ?h1)"
    using get free rep nz c1(1) unfolding upd by (simp add: h_json_object_set_value_def load_object_ok heap_simps)
  have "json_object_get_value (obj_val cap nms ks) name \<noteq> None"
    using old len by (simp add: json_object_get_value_def json_object_nget_value_def map_of_eq_None_iff map_fst_zip flip: set_map)
  then have "json_object_set_value True (obj_val cap nms ks) name (Some (jval k)) = (True, obj_val cap nms (k1 @ k # k2))"
    using update_first [OF s(3,4), of k a n2 o' k2] by (simp add: json_object_set_value_def s(1,2))
  then show ?thesis using that [OF run member_replaced [OF made [unfolded s(2)] k f(2) [unfolded s(2)]]] by simp
qed

text \<open>Under a name the object does not have yet, setting is adding.\<close>

lemma set_value_add:
  assumes made: "jmade h0 h (LObj p ob ns vs cap nms ks) (set (jptrs k) \<union> X)" and k: "jat h k" and new: "name \<notin> snd ` set nms"
  shows "h_json_object_set_value stack ob name (jroot k) h = h_json_object_add ob name (jroot k) h"
    "json_object_set_value True (obj_val cap nms ks) name (Some v) = json_object_add True (obj_val cap nms ks) name v"
proof -
  have at: "jat h (LObj p ob ns vs cap nms ks)" and wf: "wf_heap h" using made jmade_wf by (auto simp only: jmade_def)
  have nz: "ob \<noteq> 0" "jroot k \<noteq> 0"
    using at wf_heap_block [OF wf, of ob] wf_heap_zero(1) [OF wf] jat_live [OF k] jroot_ptrs [of k] by (auto dest: subsetD)
  show "json_object_set_value True (obj_val cap nms ks) name (Some v) = json_object_add True (obj_val cap nms ks) name v"
    using new at by (simp add: json_object_set_value_def json_object_get_value_def json_object_nget_value_def map_of_eq_None_iff map_fst_zip flip: set_map)
  have "h_json_object_get_value ob name h = Inr (0, h)" using get_value_ok [OF wf at, of name] new by auto
  then show "h_json_object_set_value stack ob name (jroot k) h = h_json_object_add ob name (jroot k) h"
    using nz by (simp add: h_json_object_set_value_def heap_simps)
qed

text \<open>A value that was just made goes into the object under a name it does not have yet.\<close>

lemma set_value_new:
  assumes made: "jmade h0 h (LObj p ob ns vs cap nms ks) X" and new: "name \<notin> snd ` set nms"
    and k: "jmade h h1 k {}" and un: "unrefused h1"
  obtains ns' vs' cap' q h' where "h_json_object_set_value stack ob name (jroot k) h1 = Inr (True, h')"
      "jmade h0 h' (LObj p ob ns' vs' cap' (nms @ [(q, name)]) (ks @ [k])) X"
      "json_object_set_value True (obj_val cap nms ks) name (Some (jval k)) = (True, obj_val cap' (nms @ [(q, name)]) (ks @ [k]))"
  | ns' vs' cap' h' where "h_json_object_set_value stack ob name (jroot k) h1 = Inr (False, h')"
      "jmade h0 h' (LObj p ob ns' vs' cap' nms ks) (X \<union> set (jptrs k))"
      "json_object_set_value True (obj_val cap nms ks) name (Some (jval k)) = (False, obj_val cap' nms ks)"
proof -
  have k': "adds (set (jptrs k)) h h1" "jat h1 k" "distinct (jptrs k)" using k by (simp_all add: jmade_def)
  have dis: "set (jptrs k) \<inter> X = {}" using adds_disjoint [OF made [unfolded jmade_def, THEN conjunct1] k'(1)] by auto
  have m1: "jmade h0 h1 (LObj p ob ns vs cap nms ks) (set (jptrs k) \<union> X)" using jmade_more [OF made k'(1)] by (simp add: Un_commute)
  show ?thesis
    by (rule h_json_object_add_cases [OF m1 k'(2,3) dis, of name]) (use that un in \<open>auto simp: set_value_add [OF m1 k'(2) new] Un_commute\<close>)
qed

section \<open>Properties\<close>

text \<open>C21. Freeing a value frees its tree, no more and no less: for every tree of values on the heap, however its objects and arrays are
  filled, the destructor ends without undefined behaviour when the stack has room for the nesting; afterwards the blocks of the
  tree, names, strings and arrays included, are gone and every other block is as it was.\<close>
theorem json_tree_freed:
  assumes "wf_heap h" "jat h l" "distinct (jptrs l)" "jdepth l \<le> stack"
  shows "\<exists>h'. json_value_free stack (jroot l) h = Inr ((), h') \<and> live h' = live h - set (jptrs l) \<and> (\<forall>x \<in> live h'. cells h' x = cells h x)"
  using json_value_free_ok [OF assms] by auto

text \<open>The sample tree: an object of one number.\<close>

definition sample_tree :: jlayout where
  "sample_tree = LObj 1 2 3 4 15 [(5, ''length'')] [LLeaf 6 (NNumber (Fin 0))]"

definition sample_heap :: heap where
  "sample_heap = \<lparr>cells = [1 \<mapsto> ValueBlock (NObject 2), 2 \<mapsto> ObjectBlock 3 4 1 15, 3 \<mapsto> PtrArray (Some 5 # replicate 14 None),
     4 \<mapsto> PtrArray (Some 6 # replicate 14 None), 5 \<mapsto> CString ''length'', 6 \<mapsto> ValueBlock (NNumber (Fin 0))],
     next_addr = 7, refused = (\<lambda>_. False)\<rparr>"

lemma sample_tree_at: "wf_heap sample_heap" "unrefused sample_heap" "jat sample_heap sample_tree" "distinct (jptrs sample_tree)" "jdepth sample_tree = 2"
  by (auto simp: sample_heap_def sample_tree_def wf_heap_def unrefused_def live_def slots_at_def)

lemma sample_heap_live: "live sample_heap = {1, 2, 3, 4, 5, 6}"
  by (auto simp: sample_heap_def live_def)

theorem json_tree_freed_witness:
  "\<exists>h'. json_value_free 2 1 sample_heap = Inr ((), h') \<and> live h' = {}"
  using json_tree_freed [OF sample_tree_at(1,3,4), of 2] sample_tree_at(5) sample_heap_live by (auto simp: sample_tree_def insert_commute)

text \<open>A full object refuses a new member; the value that was made for it is then owned by nobody.\<close>
theorem full_object_loses_value:
  assumes made: "jmade h0 h (LObj p ob ns vs cap nms ks) X" and new: "name \<notin> snd ` set nms"
    and full: "length ks = cap" "OBJECT_MAX_CAPACITY < 2 * cap" and un: "unrefused h"
  shows "\<exists>v ns' vs' cap' h'. h_json_object_set_number stack ob name x h = Inr (False, h') \<and> v \<notin> live h \<and>
    jmade h0 h' (LObj p ob ns' vs' cap' nms ks) (X \<union> {v})"
proof -
  obtain v h1 where v: "h_json_value_init_number x h = Inr (v, h1)" "jmade h h1 (LLeaf v (NNumber x)) {}"
    by (cases rule: init_number_made [OF jmade_wf [OF made], of x]) (use un in auto)
  have "adds {v} h h1" using v(2) by (simp add: jmade_def)
  then have fresh: "v \<notin> live h" and un1: "unrefused h1" using adds_fresh [of "{v}" h h1 v] unrefused_later [OF un] by auto
  have "length nms = length ks" using made by (simp add: jmade_def)
  then have "json_object_get_value (obj_val cap nms ks) name = None"
    using new by (simp add: json_object_get_value_def json_object_nget_value_def map_of_eq_None_iff map_fst_zip flip: set_map)
  then have no: "\<not> fst (json_object_set_value True (obj_val cap nms ks) name (Some w))" for w
    using full \<open>length nms = length ks\<close> by (simp add: json_object_set_value_def json_object_add_def Let_def less_max_iff_disj mult.commute)
  show ?thesis
    by (rule set_value_new [OF made new v(2) un1, where stack = stack])
       (use no [of "JSONNumber x"] v(1) fresh in \<open>auto simp: h_json_object_set_number_def heap_simps\<close>)
qed

text \<open>C20. Setting a member on the heap implements the operation on values and hands the value over exactly when it succeeds: the status
  and the object are those of the model, the arrays grown or not. A member that is replaced is freed with its whole tree. On success the
  tree of the value belongs to the object, on failure it is still the caller's, and no other block is left behind.\<close>
theorem object_set_heap_refines:
  assumes "jmade h0 h (LObj p ob ns vs cap nms ks) (set (jptrs k))" "jat h k" "distinct (jptrs k)" "unrefused h" "\<forall>k \<in> set ks. jdepth k \<le> stack"
  shows "\<exists>ok ns' vs' cap' nms' ks' h'. h_json_object_set_value stack ob name (jroot k) h = Inr (ok, h') \<and>
    json_object_set_value True (cap, zip (map snd nms) (map jval ks)) name (Some (jval k)) = (ok, (cap', zip (map snd nms') (map jval ks'))) \<and>
    jmade h0 h' (LObj p ob ns' vs' cap' nms' ks') (if ok then {} else set (jptrs k))"
proof -
  have made: "jmade h0 h (LObj p ob ns vs cap nms ks) (set (jptrs k) \<union> {})" and dis: "set (jptrs k) \<inter> {} = {}" using assms(1) by simp_all
  show ?thesis
  proof (cases "name \<in> snd ` set nms")
    case True
    then obtain ks' h' where "h_json_object_set_value stack ob name (jroot k) h = Inr (True, h')" "jmade h0 h' (LObj p ob ns vs cap nms ks') {}"
      "json_object_set_value True (obj_val cap nms ks) name (Some (jval k)) = (True, obj_val cap nms ks')"
      using set_value_old [OF made assms(2,3) dis _ assms(5)] by blast
    then show ?thesis by (intro exI [of _ True] exI [of _ ns] exI [of _ vs] exI [of _ cap] exI [of _ nms] exI [of _ ks'] exI [of _ h']) simp
  next
    case False
    note add = set_value_add [OF made assms(2) False]
    show ?thesis
    proof (cases rule: h_json_object_add_cases [OF made assms(2,3) dis, of name])
      case (1 ns' vs' cap' h')
      then show ?thesis using assms(4) unfolding add
        by (intro exI [of _ False] exI [of _ ns'] exI [of _ vs'] exI [of _ cap'] exI [of _ nms] exI [of _ ks] exI [of _ h']) simp
    next
      case (2 ns' vs' cap' q h')
      then show ?thesis using assms(4) unfolding add
        by (intro exI [of _ True] exI [of _ ns'] exI [of _ vs'] exI [of _ cap'] exI [of _ "nms @ [(q, name)]"] exI [of _ "ks @ [k]"] exI [of _ h']) simp
    qed
  qed
qed

text \<open>The member of the sample tree is replaced; the sample heap holds the new value at 7.\<close>

definition sample_heap2 :: heap where
  "sample_heap2 = hput 7 (ValueBlock NNull) (sample_heap\<lparr>next_addr := 8\<rparr>)"

lemma sample_replace_ok: "jmade empty_heap sample_heap2 sample_tree {7}" "jat sample_heap2 (LLeaf 7 NNull)" "unrefused sample_heap2"
  by (auto simp: sample_heap2_def sample_heap_def sample_tree_def empty_heap_def jmade_def adds_def wf_heap_def unrefused_def live_def slots_at_def)

theorem object_set_heap_refines_witness:
  "\<exists>ok ns' vs' cap' nms' ks' h'. h_json_object_set_value 1 2 ''length'' 7 sample_heap2 = Inr (ok, h') \<and>
    json_object_set_value True (15, [(''length'', JSONNumber (Fin 0))]) ''length'' (Some JSONNull) = (ok, (cap', zip (map snd nms') (map jval ks'))) \<and>
    jmade empty_heap h' (LObj 1 2 ns' vs' cap' nms' ks') (if ok then {} else {7})"
proof -
  have "\<forall>k \<in> set [LLeaf 6 (NNumber (Fin 0))]. jdepth k \<le> 1" "distinct (jptrs (LLeaf 7 NNull))" by simp_all
  note this(1) object_set_heap_refines [of empty_heap sample_heap2 1 2 3 4 15 "[(5, ''length'')]" "[LLeaf 6 (NNumber (Fin 0))]" "LLeaf 7 NNull",
    OF _ sample_replace_ok(2) this(2) sample_replace_ok(3) this(1), of "''length''"]
  then show ?thesis using sample_replace_ok(1) unfolding sample_tree_def
    by (simp only: jroot.simps jptrs.simps list.set jval.simps jnode.case list.map zip_Cons_Cons zip_Nil snd_conv)
qed

end
