(* ===== verification/Heap_Reply.thy ===== *)
theory Heap_Reply
  imports Heap_Http Heap_Json
begin

text \<open>
  The responses of \<^verbatim>\<open>src/src/http.c\<close> at the level of pointers: the text of a response, the JSON document of an
  error and its serialization are built, written and given back.
\<close>

section \<open>Responses\<close>

text \<open>The buffer comes first; the writes into it are those of the model on values.\<close>

definition h_make_response :: "http_env \<Rightarrow> int \<Rightarrow> string option \<Rightarrow> addr hm" where
  "h_make_response env httpcode body =
     hbind (halloc Raw) (\<lambda>response.
       if response = 0 then hret 0
       else hbind (hlift (make_response (env\<lparr>calloc_fails := False\<rparr>) httpcode body)) (\<lambda>t.
            hbind (hlift (deref t)) (\<lambda>text. hbind (hstore response (CString text)) (\<lambda>_. hret response))))"

definition h_send_response :: "http_env \<Rightarrow> int \<Rightarrow> string option \<Rightarrow> (int \<times> string option) hm" where
  "h_send_response env httpcode body =
     hbind (h_make_response env httpcode body) (\<lambda>response.
       if response = 0 then hret (- 1, None)
       else hbind (read_string response) (\<lambda>r. hbind (hfree response) (\<lambda>_. hret (sock_write env r, Some r))))"

definition h_error_document :: "nat \<Rightarrow> int \<Rightarrow> string option \<Rightarrow> addr hm" where
  "h_error_document stack errcode err =
     hbind h_json_value_init_object (\<lambda>rootval.
     hbind (h_json_value_get_object rootval) (\<lambda>mainobject.
     hbind (h_json_object_set_number stack mainobject ''length'' (Fin 0)) (\<lambda>_.
     hbind (h_json_object_set_number stack mainobject ''errcode'' (Fin (of_int errcode))) (\<lambda>_.
     hbind (h_json_object_set_string stack mainobject ''errmsg'' err) (\<lambda>_. hret rootval)))))"

definition h_send_http_error_response :: "nat \<Rightarrow> http_env \<Rightarrow> int \<Rightarrow> int \<Rightarrow> string option \<Rightarrow> (int \<times> string option) hm" where
  "h_send_http_error_response stack env httpcode errcode err =
     hbind (h_error_document stack errcode err) (\<lambda>rootval.
     hbind (h_json_serialize_to_string stack rootval) (\<lambda>serialized.
       if serialized = 0 then hbind (json_value_free stack rootval) (\<lambda>_. hret (- 1, None))
       else hbind (read_string serialized) (\<lambda>s.
            hbind (h_make_response env httpcode (Some s)) (\<lambda>response.
            hbind (read_string response) (\<lambda>r.
            hbind (json_free_serialized_string serialized) (\<lambda>_.
            hbind (json_value_free stack rootval) (\<lambda>_.
            hbind (hfree response) (\<lambda>_. hret (sock_write env r, Some r)))))))))"

section \<open>What they leave behind\<close>

lemma h_make_response_cases:
  assumes wf: "wf_heap h" and un: "unrefused h" and env: "\<not> calloc_fails env"
  obtains (ub) e where "h_make_response env httpcode body h = Inl e" "make_response env httpcode body = Inl e"
  | (made) a t h' where "h_make_response env httpcode body h = Inr (a, h')" "a \<noteq> 0" "adds {a} h h'" "cells h' a = Some (CString t)"
      "make_response env httpcode body = Inr (Some t)"
proof -
  have env': "env\<lparr>calloc_fails := False\<rparr> = env" using env by simp
  obtain h1 where h1: "halloc Raw h = Inr (next_addr h, h1)" "adds {next_addr h} h h1"
    by (cases rule: halloc_cases [OF wf, of Raw]) (use un in \<open>auto simp: unrefused_def\<close>)
  define a where "a = next_addr h"
  have a: "a \<noteq> 0" "halloc Raw h = Inr (a, h1)" "adds {a} h h1" using h1 wf_heap_next [OF wf] by (simp_all add: a_def)
  have some: "make_response env httpcode body \<noteq> Inr None"
    using env by (auto simp: make_response_def Let_def cbind_eq_Inr)
  show ?thesis
  proof (cases "make_response env httpcode body")
    case (Inl e)
    then show ?thesis using ub a env' by (simp add: h_make_response_def heap_simps)
  next
    case (Inr r)
    then obtain t where t: "r = Some t" using some by auto
    let ?h = "hput a (CString t) h1"
    have "hstore a (CString t) h1 = Inr ((), ?h)" using adds_live [OF a(3)] by (intro hput_live) simp
    moreover have "adds {a} h ?h" using a(3) by (rule adds_hput) simp
    ultimately show ?thesis using made [of a ?h t] a env' Inr t by (simp add: h_make_response_def deref_def heap_simps)
  qed
qed

text \<open>A number, and a string or nothing, under a new name.\<close>

lemma set_number_new:
  assumes made: "jmade h0 h (LObj p ob ns vs cap nms ks) X" and new: "name \<notin> snd ` set nms" and un: "unrefused h0"
    and val: "json_object_set_number True (obj_val cap nms ks) name x = (True, ob')"
  obtains ns' vs' cap' nms' ks' h' where "h_json_object_set_number stack ob name x h = Inr (True, h')"
    "jmade h0 h' (LObj p ob ns' vs' cap' nms' ks') X" "obj_val cap' nms' ks' = ob'" "snd ` set nms' = insert name (snd ` set nms)"
    "jdepth ` set ks' = insert 1 (jdepth ` set ks)"
proof -
  have unh: "unrefused h" using un unrefused_later made by (auto simp only: jmade_def)
  show ?thesis
  proof (cases rule: init_number_made [OF jmade_wf [OF made], of x])
    case (1 h')
    then show ?thesis using unh by simp
  next
    case (2 v h1)
    have "adds (set (jptrs (LLeaf v (NNumber x)))) h h1" using 2(3) by (simp add: jmade_def)
    then have un1: "unrefused h1" by (rule unrefused_later [OF unh])
    have val': "json_object_set_value True (obj_val cap nms ks) name (Some (jval (LLeaf v (NNumber x)))) = (True, ob')"
      using val by (simp add: json_object_set_number_def json_value_init_number_def)
    show ?thesis
    proof (rule set_value_new [OF made new 2(3) un1, of stack])
      fix ns' vs' cap' q h'
      assume r: "h_json_object_set_value stack ob name (jroot (LLeaf v (NNumber x))) h1 = Inr (True, h')"
        "jmade h0 h' (LObj p ob ns' vs' cap' (nms @ [(q, name)]) (ks @ [LLeaf v (NNumber x)])) X"
        "json_object_set_value True (obj_val cap nms ks) name (Some (jval (LLeaf v (NNumber x)))) =
           (True, obj_val cap' (nms @ [(q, name)]) (ks @ [LLeaf v (NNumber x)]))"
      have "h_json_object_set_number stack ob name x h = Inr (True, h')"
        using r(1) 2(1) by (simp add: h_json_object_set_number_def heap_simps)
      then show thesis using that [OF _ r(2)] r(3) val' by simp
    qed (use val' in simp)
  qed
qed

lemma set_string_new:
  assumes made: "jmade h0 h (LObj p ob ns vs cap nms ks) X" and new: "name \<notin> snd ` set nms" and un: "unrefused h0"
    and room: "\<And>t. fst (json_object_set_value True (obj_val cap nms ks) name (Some (JSONString t)))"
  obtains st ns' vs' cap' nms' ks' h' where "h_json_object_set_string stack ob name so h = Inr (st, h')"
    "jmade h0 h' (LObj p ob ns' vs' cap' nms' ks') X" "(st, obj_val cap' nms' ks') = json_object_set_string True (obj_val cap nms ks) name so"
    "jdepth ` set ks' \<subseteq> insert 1 (jdepth ` set ks)"
proof -
  have unh: "unrefused h" using un unrefused_later made by (auto simp only: jmade_def)
  show ?thesis
  proof (cases rule: init_string_made [OF jmade_wf [OF made], of so])
    case (1 h')
    have "h_json_object_set_string stack ob name so h = Inr (False, h')"
      using 1(1) by (simp add: h_json_object_set_string_def h_json_object_set_value_def heap_simps)
    moreover have "jmade h0 h' (LObj p ob ns vs cap nms ks) X" using jmade_more [OF made 1(2)] by simp
    ultimately show ?thesis
      using that [of False h' ns vs cap nms ks] 1(3) [OF unh] by (simp add: json_object_set_string_def json_object_set_value_def subset_insertI)
  next
    case (2 v a t h1)
    have "adds (set (jptrs (LText v a t))) h h1" using 2(3) by (simp add: jmade_def)
    then have un1: "unrefused h1" by (rule unrefused_later [OF unh])
    show ?thesis
    proof (rule set_value_new [OF made new 2(3) un1, of stack])
      fix ns' vs' cap' q h'
      assume r: "h_json_object_set_value stack ob name (jroot (LText v a t)) h1 = Inr (True, h')"
        "jmade h0 h' (LObj p ob ns' vs' cap' (nms @ [(q, name)]) (ks @ [LText v a t])) X"
        "json_object_set_value True (obj_val cap nms ks) name (Some (jval (LText v a t))) = (True, obj_val cap' (nms @ [(q, name)]) (ks @ [LText v a t]))"
      have "h_json_object_set_string stack ob name so h = Inr (True, h')"
        using r(1) 2(1) by (simp add: h_json_object_set_string_def heap_simps)
      then show thesis using that [OF _ r(2)] r(3) 2(4) by (simp add: json_object_set_string_def)
    qed (use room [of t] in simp)
  qed
qed

text \<open>The document of an error is built completely, and nothing else is left on the heap.\<close>

lemma h_error_document_made:
  assumes wf: "wf_heap h" and un: "unrefused h"
  obtains l cap kvs h' where "h_error_document stack errcode err h = Inr (jroot l, h')" "jmade h h' l {}" "jroot l \<noteq> 0" "jdepth l \<le> 2"
    "error_document True errcode err = Some (cap, kvs)" "jval l = JSONObject cap kvs"
proof -
  note adds = json_object_set_number_def json_value_init_number_def json_object_set_value_def json_object_add_def json_object_resize_def
    json_object_get_value_def json_object_nget_value_def STARTING_CAPACITY_def OBJECT_MAX_CAPACITY_def
  let ?o1 = "(15, [(''length'', JSONNumber (Fin 0))]) :: jobject"
  let ?o2 = "(15, [(''length'', JSONNumber (Fin 0)), (''errcode'', JSONNumber (Fin (of_int errcode)))]) :: jobject"
  obtain v ob h0 where v: "h_json_value_init_object h = Inr (v, h0)" "v \<noteq> 0" "jmade h h0 (LObj v ob 0 0 0 [] []) {}"
    by (cases rule: init_object_made [OF wf]) (use un in auto)
  have "h_json_value_get_object v h0 = Inr (ob, h0)"
    using v(2,3) by (simp add: h_json_value_get_object_def load_value_def heap_simps jmade_def)
  obtain ns1 vs1 cap1 nms1 ks1 h1 where s1: "h_json_object_set_number stack ob ''length'' (Fin 0) h0 = Inr (True, h1)"
    "jmade h h1 (LObj v ob ns1 vs1 cap1 nms1 ks1) {}" "obj_val cap1 nms1 ks1 = ?o1" "snd ` set nms1 = {''length''}" "jdepth ` set ks1 = {1}"
    by (rule set_number_new [OF v(3) _ un, of "''length''" "Fin 0" ?o1 stack]) (simp_all add: adds)
  obtain ns2 vs2 cap2 nms2 ks2 h2 where s2: "h_json_object_set_number stack ob ''errcode'' (Fin (of_int errcode)) h1 = Inr (True, h2)"
    "jmade h h2 (LObj v ob ns2 vs2 cap2 nms2 ks2) {}" "obj_val cap2 nms2 ks2 = ?o2" "snd ` set nms2 = {''errcode'', ''length''}" "jdepth ` set ks2 = {1}"
    by (rule set_number_new [OF s1(2) _ un, of "''errcode''" "Fin (of_int errcode)" ?o2 stack]) (simp_all add: adds s1(3-5))
  obtain st ns3 vs3 cap3 nms3 ks3 h3 where s3: "h_json_object_set_string stack ob ''errmsg'' err h2 = Inr (st, h3)"
    "jmade h h3 (LObj v ob ns3 vs3 cap3 nms3 ks3) {}" "(st, obj_val cap3 nms3 ks3) = json_object_set_string True ?o2 ''errmsg'' err" "jdepth ` set ks3 \<subseteq> {1}"
    by (rule set_string_new [OF s2(2) _ un, of "''errmsg''" stack err]) (simp_all add: adds s2(3-5))
  let ?l = "LObj v ob ns3 vs3 cap3 nms3 ks3"
  have "h_error_document stack errcode err h = Inr (v, h3)"
    using v(1) \<open>h_json_value_get_object v h0 = Inr (ob, h0)\<close> s1(1) s2(1) s3(1) by (simp add: h_error_document_def heap_simps)
  moreover have "jdepth ?l \<le> 2"
  proof -
    have "Max (insert 0 (jdepth ` set ks3)) \<le> 1" using s3(4) by (intro Max.boundedI) auto
    then show ?thesis by simp
  qed
  moreover have "error_document True errcode err = Some (obj_val cap3 nms3 ks3)"
    using s3(3) by (simp add: error_document_def json_value_init_object_def json_object_init_def Let_def adds) (metis snd_conv)
  ultimately show ?thesis using that [of ?l h3] s3(2) v(2) by simp
qed

text \<open>The blocks of a reply in the order they are given back: the text of the document, the document, the response.\<close>

lemma free_reply:
  assumes l: "jmade h h1 l {}" "jdepth l \<le> stack" and a: "adds {a} h1 h2" and b: "adds {b} h2 h3"
  obtains h' where "hbind (json_free_serialized_string a) (\<lambda>_. hbind (json_value_free stack (jroot l)) (\<lambda>_. hbind (hfree b) (\<lambda>_. hret r))) h3 = Inr (r, h')"
    "cells h' = cells h"
proof -
  have m3: "jmade h h3 l {a, b}" using jmade_more [OF jmade_more [OF l(1) a] b] by (simp add: insert_commute)
  then have m: "adds (set (jptrs l) \<union> {a, b}) h h3" "set (jptrs l) \<inter> {a, b} = {}" "jat h3 l" "distinct (jptrs l)" by (simp_all only: jmade_def)
  have wf: "wf_heap h3" using m(1) by (rule adds_wf)
  have ab: "a \<noteq> b" using adds_disjoint [OF a b] by auto
  have live: "a \<in> live h3" "b \<in> live h3" using adds_live [OF m(1)] by auto
  have "hfree a h3 = Inr ((), release {a} h3)" using live wf by (intro hfree_ok) auto
  moreover have "jat (release {a} h3) l" by (rule jat_frame [OF m(3)]) (use m(2) in \<open>auto simp: restrict_map_def\<close>)
  then have "json_value_free stack (jroot l) (release {a} h3) = Inr ((), release (set (jptrs l)) (release {a} h3))"
    using wf m(4) l(2) by (intro json_value_free_ok) auto
  moreover have "hfree b (release (set (jptrs l)) (release {a} h3)) = Inr ((), release {b} (release (set (jptrs l)) (release {a} h3)))"
    using wf live ab m(2) by (intro hfree_ok) auto
  ultimately have "hbind (json_free_serialized_string a) (\<lambda>_. hbind (json_value_free stack (jroot l)) (\<lambda>_. hbind (hfree b) (\<lambda>_. hret r))) h3 =
      Inr (r, release (set (jptrs l) \<union> {a, b}) h3)"
    by (simp add: json_free_serialized_string_def heap_simps insert_commute)
  moreover have "cells (release (set (jptrs l) \<union> {a, b}) h3) = cells h"
    using adds_release [OF m(1) subset_refl] by (intro adds_empty) simp
  ultimately show ?thesis using that by blast
qed

section \<open>Properties\<close>

text \<open>C19. An error response leaves nothing behind: with memory to spare, building its document, serializing it, printing the response, writing
  it and freeing everything has the outcome of the model on values, byte for byte, and afterwards every cell of the heap is as it
  was before. Nothing is freed twice, and nothing is read that is not there.\<close>
theorem error_reply_leaves_nothing:
  assumes "wf_heap h" "unrefused h" "\<not> calloc_fails env" "json_mem env" "2 \<le> stack"
  shows "case send_http_error_response env httpcode errcode err of
      Inl e \<Rightarrow> h_send_http_error_response stack env httpcode errcode err h = Inl e
    | Inr r \<Rightarrow> \<exists>h'. h_send_http_error_response stack env httpcode errcode err h = Inr (r, h') \<and> cells h' = cells h"
proof -
  obtain l cap kvs h1 where d: "h_error_document stack errcode err h = Inr (jroot l, h1)" "jmade h h1 l {}" "jroot l \<noteq> 0" "jdepth l \<le> 2"
    "error_document True errcode err = Some (cap, kvs)" "jval l = JSONObject cap kvs"
    using h_error_document_made [OF assms(1,2)] by metis
  have deep: "jdepth l \<le> stack" using d(4) assms(5) by simp
  have m: "adds (set (jptrs l)) h h1" "jat h1 l" "distinct (jptrs l)" using d(2) by (simp_all add: jmade_def)
  have un1: "unrefused h1" using assms(2) m(1) by (rule unrefused_later)
  have ser: "h_json_serialize_to_string stack (jroot l) h1 =
      hbind (hlift (json_serialize_to_string True (JSONObject cap kvs))) (\<lambda>s. case s of None \<Rightarrow> hret 0 | Some t \<Rightarrow> halloc (CString t)) h1"
    using read_value_ok [OF jmade_wf [OF d(2)] m(2) deep] d(3,6) by (simp add: h_json_serialize_to_string_def heap_simps)
  note defs = h_send_http_error_response_def send_http_error_response_def assms(4) d(5)
  show ?thesis
  proof (cases "json_serialize_to_string True (JSONObject cap kvs)")
    case (Inl e)
    then show ?thesis using d(1) ser by (simp add: defs heap_simps)
  next
    case (Inr so)
    show ?thesis
    proof (cases so)
      case None
      then obtain h' where "json_value_free stack (jroot l) h1 = Inr ((), h')" "cells h' = cells h"
        using js.destroy_made [of l "{}" h h1 "jroot l" stack] m deep by (auto dest: adds_empty)
      then show ?thesis using d(1) ser Inr None by (simp add: defs heap_simps)
    next
      case (Some t)
      obtain a h2 where a: "halloc (CString t) h1 = Inr (a, h2)" "a \<noteq> 0" "adds {a} h1 h2" "cells h2 a = Some (CString t)"
        by (cases rule: halloc_cases [OF jmade_wf [OF d(2)], of "CString t"]) (use un1 wf_heap_next [OF jmade_wf [OF d(2)]] in \<open>auto simp: unrefused_def\<close>)
      have ser': "h_json_serialize_to_string stack (jroot l) h1 = Inr (a, h2)" using ser Inr Some a(1) by (simp add: heap_simps)
      have rd: "read_string a h2 = Inr (t, h2)" using read_string_ok [OF adds_wf [OF a(3)] a(4)] .
      show ?thesis
      proof (cases rule: h_make_response_cases [OF adds_wf [OF a(3)] unrefused_later [OF un1 a(3)] assms(3), of httpcode "Some t"])
        case (1 e)
        then show ?thesis using d(1) ser' rd a(2) Inr Some by (simp add: defs heap_simps)
      next
        case (2 b u h3)
        obtain h' where h': "hbind (json_free_serialized_string a) (\<lambda>_. hbind (json_value_free stack (jroot l)) (\<lambda>_. hbind (hfree b) (\<lambda>_.
            hret (sock_write env u, Some u)))) h3 = Inr ((sock_write env u, Some u), h')" "cells h' = cells h"
          using free_reply [OF d(2) deep a(3) 2(3)] by metis
        have "read_string b h3 = Inr (u, h3)" using read_string_ok [OF adds_wf [OF 2(3)] 2(4)] .
        then show ?thesis using d(1) ser' rd a(2) Inr Some 2(1,5) h' by (simp add: defs deref_def heap_simps)
      qed
    qed
  qed
qed

theorem error_reply_leaves_nothing_witness:
  "case send_http_error_response sample_env 400 (- 4) (Some ''bad'') of
      Inl e \<Rightarrow> h_send_http_error_response 2 sample_env 400 (- 4) (Some ''bad'') empty_heap = Inl e
    | Inr r \<Rightarrow> \<exists>h'. h_send_http_error_response 2 sample_env 400 (- 4) (Some ''bad'') empty_heap = Inr (r, h') \<and> cells h' = cells empty_heap"
  by (rule error_reply_leaves_nothing [OF empty_heap_ok(1,2)]) (simp_all add: sample_env_def)

end
