(* ===== verification/Spec2Isabelle.thy ===== *)
theory Spec2Isabelle
  imports Server Client Json_Utf8 Daemon Heap_Reply
begin

text \<open>
  A verification development of rpiweatherd, a weather daemon for the Raspberry Pi. It reads a DHT11
  sensor at a configured interval, stores the readings in an SQLite database, runs user-defined triggers
  on them and answers HTTP requests for readings, statistics and its configuration.

  \<^bold>\<open>Parts of the program and how they interact.\<close>
  \<^item> The main thread (\<^verbatim>\<open>src/src/rpiweatherd.c\<close>) parses options, reads the configuration
    (\<^verbatim>\<open>confighandler.c\<close> over the INI parser \<^verbatim>\<open>src/deps/ini.c\<close>), loads the triggers (\<^verbatim>\<open>trigger.c\<close>), selects and
    tests the sensor (\<^verbatim>\<open>device.c\<close>, \<^verbatim>\<open>src/devices/dht11.c\<close>), starts the database and listener threads and runs
    the query loop. It sends each reading to the database queue.
  \<^item> The database thread (\<^verbatim>\<open>dbhandler.c\<close>) takes messages from its queue: it writes readings, and fills the
    lists of fetch and statistics requests and sends them to the queue of the workers.
  \<^item> The listener thread (\<^verbatim>\<open>listener.c\<close>) accepts connections and puts each into the queue of the workers. A
    worker reads and parses the request (\<^verbatim>\<open>http.c\<close>), dispatches it to a command callback, and passes the
    message on; on a complete message it builds the JSON document (\<^verbatim>\<open>datastructures.c\<close> over \<^verbatim>\<open>src/deps/parson.c\<close>),
    writes the response and closes the connection.

  \<^bold>\<open>Conventions.\<close> The target is 32-bit ARM. Undefined behaviour of C (NULL reads, overruns, signed
  overflow, use after free, indeterminate values) is the left summand of \<open>'a c\<close> (theory \<open>Prelude\<close>), so a
  theorem with \<open>Inr\<close> on its right-hand side states that none of it happens. Floating point is modelled by
  correctly rounded rationals (\<open>C_Float\<close>). \<open>errno\<close> is explicit where the code tests it: a flag that says
  whether it holds \<open>ERANGE\<close>. A computation of type \<open>'a waits\<close> is \<open>None\<close> when it never comes back: the parent of a trigger's
  program waits for it to end, a sender waits for room in a queue, and whoever stops a thread joins it. Failing allocations and system calls are arguments. SQLite, the calendar of the
  C library, GPIO levels, the network and the files are parameters or records of the definitions.

  \<^bold>\<open>Theories.\<close>
  \<^item> \<open>Prelude\<close>, \<open>C_Float\<close>: C values, strings, decimal printing and scanning, floats.
  \<^item> \<open>Util\<close>: \<^verbatim>\<open>util.c\<close>. Exactness and limits of time intervals, relative dates, copying files, the pid file.
  \<^item> \<open>Bounded_Store\<close>: the contract (a locale) of containers that keep items in order up to a limit;
    interpreted for JSON objects and for key/value lists.
  \<^item> \<open>Parson\<close>, \<open>Json_Paths\<close>: objects, dotted paths and the serializer of \<^verbatim>\<open>parson.c\<close>: the measuring and
    the writing pass agree and only the overflow of their \<open>int\<close> counters is undefined, a value set under a path is found there.
  \<^item> \<open>Json_Parser\<close>, \<open>Json_Roundtrip\<close>, \<open>Json_Utf8\<close>, \<open>Json_Api\<close>: the rest of \<^verbatim>\<open>parson.c\<close>. The parser ends without undefined
    behaviour on every input and returns well-formed values, from valid UTF-8 only valid strings; it reads back what the serializer wrote, equal
    by the comparison of the library; removal under a path, deep copies, arrays (a \<open>bounded_store\<close> too).
  \<^item> \<open>Datastructures\<close>: \<^verbatim>\<open>datastructures.c\<close>: the documents of entries, entry lists and key/value lists refine
    the intended documents; what is lost beyond 960 members.
  \<^item> \<open>Http\<close>: \<^verbatim>\<open>http.c\<close>: printing and parsing of requests, well-formed commands, responses that fit.
  \<^item> \<open>Device\<close>: \<^verbatim>\<open>device.c\<close>, \<^verbatim>\<open>dht11.c\<close>: the sampling loop implements a reference decoder; the contract of a
    sensor (locale \<open>sensor\<close>).
  \<^item> \<open>Ini\<close>, \<open>Config\<close>: \<^verbatim>\<open>ini.c\<close>, \<^verbatim>\<open>confighandler.c\<close>: a written configuration is read back; what an accepted one has.
  \<^item> \<open>Lookup_Table\<close>, \<open>Trigger\<close>: \<^verbatim>\<open>trigger.c\<close>: name tables (locale \<open>code_table\<close>), round trip of trigger lines,
    invariant of the table, evaluation and placeholders.
  \<^item> \<open>Dbhandler\<close>: \<^verbatim>\<open>dbhandler.c\<close>, \<^verbatim>\<open>mqmsg.c\<close>: every handler of the database thread on every branch, start and stop.
  \<^item> \<open>Listener\<close>, \<open>Commands\<close>: the callbacks, the dispatcher and a worker's turn on a message.
  \<^item> \<open>Service\<close>: requests from the bytes received to the bytes sent, over the turns of the threads. \<open>Client\<close>:
    what a client finds when it parses such a response.
  \<^item> \<open>Transition_System\<close>, \<open>Server\<close>: the threads and their queues as a labelled step relation. Locales
    \<open>transition_system\<close> and \<open>invariant_system\<close> give reachability, runs and the invariant rule; their
    interpretation \<open>srv\<close> rests on the invariant that every open socket stands for exactly one request.
  \<^item> \<open>Heap\<close>, \<open>Heap_Data\<close>, \<open>Heap_Http\<close>: the constructors and destructors of \<^verbatim>\<open>datastructures.c\<close>, the queries of
    \<^verbatim>\<open>dbhandler.c\<close> and the parser of \<^verbatim>\<open>http.c\<close> once more, over an explicit heap whose allocations may be refused. They
    implement the definitions on values, and what they own (locale \<open>owned_data\<close>, interpreted for entry lists, key/value lists
    and commands) is given back by the destructors, up to the blocks the code forgets.
  \<^item> \<open>Heap_Json\<close>, \<open>Heap_Reply\<close>: the values of \<^verbatim>\<open>parson.c\<close> on the same heap. A layout says where a tree of values lies. The destructor
    of a value frees exactly its tree (\<open>owned_data\<close> again); setting a member of an object refines the operation on values
    and takes the value over exactly when it succeeds; an error response of \<^verbatim>\<open>http.c\<close> is built, serialized, written and leaves
    no block behind.
  \<^item> \<open>Logging\<close>, \<open>Daemon\<close>: \<^verbatim>\<open>logging.c\<close>, \<^verbatim>\<open>rpiweatherd.c\<close>: options, start-up with the listener thread and
    its workers, the query loop, reload and shutdown.
  \<^item> This theory: properties that span the daemon, the database thread and the server.

  \<^bold>\<open>Loops.\<close> Loops over data are structural recursion or functions with a termination measure; the JSON parser
  is nested recursion, which ends because the rest of the text never grows. The inner
  loop of the query loop counts only some failures, so it is a partial function whose \<open>None\<close> means that it
  runs forever; that it returns with the sensors of the program, as long as the calls that wait do, is a
  theorem (\<open>main_rounds_end\<close>), and so are the cases where it does not (\<open>query_cycle_spins\<close>, \<open>full_queue_blocks_round\<close>). The endless loops of the threads are runs of the step relation, or a fold
  over the inputs of the outside; no fuel is used. On the heap, the destructor and the reader of a JSON tree recurse with its
  nesting; their first argument is the number of nested calls the stack has room for, and running out of it is the undefined
  behaviour \<open>StackOverflow\<close>. The nesting of the tree (\<open>jdepth\<close>) is enough, 2 for an error document.

  \<^bold>\<open>The heap.\<close> An address is given out once, so that a stale pointer is never mistaken for a new block; an
  allocation of zero bytes gets a block of its own, and \<open>realloc\<close> always moves. Padding and sizes of the blocks are
  left out: a block is the value stored in it.

  \<^bold>\<open>Not modelled.\<close> The choice of the allocator of \<^verbatim>\<open>parson.c\<close>; its parser, its arrays, the removal and clearing of members and
  the documents of entry lists are modelled on values only, not on the heap, with an argument that says whether there is memory; wiringPi, SQLite and the POSIX calls, which are parameters; the
  Python scripts, service files and build files around the daemon. A signal is seen at the end of the
  sleep it interrupts; a listener thread gets to its loop (or returns) before the main thread goes on, and finds the number of its workers
  either not yet set or set (\<open>li_early\<close>); the scheduling of threads is the choice of the step, and a worker's or the database
  thread's work on one message is one step.
\<close>

section \<open>From the sensor to the database\<close>

text \<open>C7. A reading reaches the table: when a round of the query loop gets one after \<open>k\<close> failed queries, in
  the first two of the cells, the message it sends makes the database thread insert one row with the temperature, the humidity, the
  location and the device, and raise the count of entries.\<close>
theorem measurement_stored:
  assumes "uses_dht11 ds pin" "cfg_device_name conf = Ptr dev" "measure_location conf = Ptr loc" "\<not> ci_oom_entry inp"
    and "k < 64" "\<And>i. i < k \<Longrightarrow> dht11_fails inp pin slots i"
    and "dht11_query_callback (ci_gpio inp k) pin (Some slots) = Inr (RPIWD_DEVRETCODE_SUCCESS, Some (Some t # Some h # rest))"
    and "ci_db_sends inp"
    and "sql_prepare sq db (Some SQLCMD_WRITE_ENTRY) = SQLITE_OK"
    and "sql_insert sq db SQLCMD_WRITE_ENTRY [BindDouble t, BindDouble h, BindText (Some loc), BindText (Some dev)] = (rc, db1)"
  shows "\<exists>m. query_round inp lg conf ds 0 False 0 slots [] = Some (Inr (True, Some t # Some h # rest, warnings lg dev k @ [DbSend m])) \<and>
    db_handle sq oom db m = Inr (increase_stat sq (oom_query oom) db1 STAT_NAME_TOTAL_ENTRIES, None)"
proof -
  have "db_handle sq oom db (measurement_msg (ci_junk inp) t h loc dev) = Inr (increase_stat sq (oom_query oom) db1 STAT_NAME_TOTAL_ENTRIES, None)"
    using assms(9,10) by (simp add: db_handle_def measurement_msg_def write_raw_entry_def)
  then show ?thesis using round_reads [OF assms(1-8)] by blast
qed

theorem measurement_stored_witness:
  "\<exists>m. query_round sample_cycle log_state_init sample_config (dm_device sample_daemon) 0 False 0 (dm_results sample_daemon) [] =
      Some (Inr (True, zero_results, warnings log_state_init ''dht11'' 3 @ [DbSend m])) \<and>
    db_handle (sample_sql 0 []) \<lparr>oom_list = False, oom_array = False, oom_query = False\<rparr> [] m =
      Inr (increase_stat (sample_sql 0 []) (oom_query \<lparr>oom_list = False, oom_array = False, oom_query = False\<rparr>)
        [[BindDouble (reading (replicate 40 False) 2), BindDouble (reading (replicate 40 False) 0), BindText (Some ''attic''), BindText (Some ''dht11'')]]
        STAT_NAME_TOTAL_ENTRIES, None)"
  by (rule measurement_stored [OF sample_dht11 sample_config_parts(2,3) _ _ sample_queries(1) sample_queries(2)])
     (simp_all add: sample_cycle_def sample_sql_def SQLITE_OK_def)

section \<open>The query loop as a thread of the server\<close>

text \<open>Whatever a round of the query loop sends to the database is a step of the query thread in the
  model of the server.\<close>
theorem cycle_messages_are_server_steps:
  assumes "query_cycle sq inp d = Some (Inr (c, es))" "DbSend m \<in> set es" "\<not> ci_oom_entry inp" "query_thread s = Idle"
  shows "server_step clk sq s [] (s\<lparr>query_thread := Sending DbMq m\<rparr>)"
proof -
  let ?conf = "get_current_config (dm_config d)"
  from assms(1) obtain ok res es1 d1 es2
    where r: "query_round inp (dm_log d) ?conf (dm_device d) 0 False 0 (dm_results d) [] = Some (Inr (ok, res, es1))"
      "run_and_sleep inp ok res d = Some (Inr (d1, es2))" "es = es1 @ es2"
    by (rule cycle_cases)
  have "DbSend m \<notin> set es2"
    using r(2) by (auto simp: run_and_sleep_def rpiwd_sleep_def cbind_eq_Inr wbind_eq_Inr split: if_splits)
  then have "DbSend m \<in> set es1" using r(3) assms(2) by auto
  moreover have "measured inp ?conf es1" using round_measured [OF r(1)] by (simp add: measured_def)
  ultimately obtain t h where "request_write_entry False (ci_junk inp) t h (measure_location ?conf) (cfg_device_name ?conf) = Inr m"
    using assms(3) by (auto simp: measured_def)
  then show ?thesis by (rule server_step.measure [OF assms(4)])
qed

theorem cycle_messages_are_server_steps_witness:
  "server_step sample_clock (sample_sql 0 []) sample_server []
     (sample_server\<lparr>query_thread := Sending DbMq (measurement_msg (ci_junk sample_cycle) (reading (replicate 40 False) 2)
        (reading (replicate 40 False) 0) ''attic'' ''dht11'')\<rparr>)"
proof -
  obtain d es where c: "query_cycle (sample_sql 0 []) sample_cycle sample_daemon = Some (Inr (Goes d, es))"
      "DbSend (measurement_msg (ci_junk sample_cycle) (reading (replicate 40 False) 2) (reading (replicate 40 False) 0) ''attic'' ''dht11'') \<in> set es"
    using sample_cycle_runs by auto
  show ?thesis by (rule cycle_messages_are_server_steps [OF c]) (simp_all add: sample_cycle_def sample_server_def)
qed

end
